(* ===== verification/Prelude.thy ===== *)
theory Prelude
  imports Main "HOL-Library.Word" "HOL-Library.List_Lexorder" "HOL-Library.Char_ord"
begin

text \<open>
  Shared vocabulary of the development.

  Tables of the relational store are lists of row records in primary-key order.  The
  statements the code issues are the list operations below: \<open>first_where\<close> is
  GORM's \<open>First\<close>, \<open>update_where\<close> an \<open>UPDATE ... WHERE\<close>, \<open>delete_where\<close> a
  \<open>DELETE ... WHERE\<close>, \<open>count_where\<close> a \<open>COUNT(*)\<close>.  Whether the \<open>k\<close>-th statement of a call
  fails is decided by a schedule of type \<open>faults\<close>, an argument of every operation that
  touches the store, so each \<open>err != nil\<close> branch is a branch of the model.

  Times and durations are \<open>int\<close> nanoseconds unless a component keeps the 64-bit width.
\<close>

named_theorems row_simps \<open>how the table operations act on rows\<close>
named_theorems fault_simps \<open>evaluation of the fault schedules\<close>

type_synonym faults = "nat \<Rightarrow> bool"
type_synonym time_ns = int
type_synonym bytes = "8 word list"

definition no_faults :: faults where
  "no_faults = (\<lambda>_. False)"

text \<open>The schedule seen by the calls that follow the first \<open>n\<close> statements.\<close>

definition skip_faults :: "nat \<Rightarrow> faults \<Rightarrow> faults" where
  "skip_faults n flt = (\<lambda>k. flt (k + n))"

definition first_where :: "('r \<Rightarrow> bool) \<Rightarrow> 'r list \<Rightarrow> 'r option" where
  "first_where P rows = List.find P rows"

definition update_where :: "('r \<Rightarrow> bool) \<Rightarrow> ('r \<Rightarrow> 'r) \<Rightarrow> 'r list \<Rightarrow> 'r list" where
  "update_where P f rows = map (\<lambda>r. if P r then f r else r) rows"

definition delete_where :: "('r \<Rightarrow> bool) \<Rightarrow> 'r list \<Rightarrow> 'r list" where
  "delete_where P rows = filter (\<lambda>r. \<not> P r) rows"

definition count_where :: "('r \<Rightarrow> bool) \<Rightarrow> 'r list \<Rightarrow> nat" where
  "count_where P rows = length (filter P rows)"

text \<open>\<open>%d\<close> of the formatting verbs: decimal digits.\<close>

fun digits :: "nat \<Rightarrow> string" where
  "digits n = (if n < 10 then [char_of (48 + n)] else digits (n div 10) @ [char_of (48 + n mod 10)])"

declare digits.simps [simp del]

definition show_int :: "int \<Rightarrow> string" where
  "show_int i = (if i < 0 then CHR ''-'' # digits (nat (- i)) else digits (nat i))"

text \<open>One row appended through an \<open>AuditFunc\<close>: actor, action and target (the detail text is left out).\<close>

type_synonym audit_note = "string \<times> string \<times> string"

text \<open>Ascending order of Go strings is the byte order, here the order of \<open>char\<close> lists.\<close>

abbreviation sort_strings :: "string list \<Rightarrow> string list" where
  "sort_strings \<equiv> sort"

text \<open>The loops that skip an element whose key is in a \<open>seen\<close> map keep the first element per key.\<close>

fun keep_new :: "('a \<Rightarrow> 'k) \<Rightarrow> 'k list \<Rightarrow> 'a list \<Rightarrow> 'a list" where
  "keep_new key seen [] = []"
| "keep_new key seen (x # xs) =
     (if key x \<in> set seen then keep_new key seen xs else x # keep_new key (key x # seen) xs)"

lemma no_faults_apply [simp, fault_simps]: "no_faults k = False"
  by (simp add: no_faults_def)

lemma skip_no_faults [simp, fault_simps]: "skip_faults n no_faults = no_faults"
  by (simp add: skip_faults_def no_faults_def)

lemma skip_faults_apply [fault_simps]: "skip_faults n flt k = flt (k + n)"
  by (simp add: skip_faults_def)

subsection \<open>First row\<close>

lemma first_where_SomeD [dest]: "first_where P rows = Some r \<Longrightarrow> r \<in> set rows \<and> P r"
  unfolding first_where_def by (auto simp: find_Some_iff)

lemma first_where_None_iff: "first_where P rows = None \<longleftrightarrow> (\<forall>r\<in>set rows. \<not> P r)"
  unfolding first_where_def by (auto simp: find_None_iff)

lemma first_where_code [simp]:
  "first_where P [] = None"
  "first_where P (r # rows) = (if P r then Some r else first_where P rows)"
  by (simp_all add: first_where_def)

lemma first_where_append:
  "first_where P (xs @ ys) = (case first_where P xs of Some r \<Rightarrow> Some r | None \<Rightarrow> first_where P ys)"
  by (induction xs) auto

lemma first_where_unique:
  assumes "distinct (map key rows)" "r \<in> set rows"
  shows "first_where (\<lambda>q. key q = key r) rows = Some r"
  using assms by (induction rows) (auto simp: image_iff)

subsection \<open>Updates and deletions\<close>

lemma set_update_where [row_simps]:
  "set (update_where P f rows) = f ` {r \<in> set rows. P r} \<union> {r \<in> set rows. \<not> P r}"
  by (auto simp: update_where_def)

lemma length_update_where [simp]: "length (update_where P f rows) = length rows"
  by (simp add: update_where_def)

lemma update_where_code [simp]:
  "update_where P f [] = []"
  "update_where P f (r # rows) = (if P r then f r else r) # update_where P f rows"
  by (simp_all add: update_where_def)

lemma update_where_append [simp]:
  "update_where P f (xs @ ys) = update_where P f xs @ update_where P f ys"
  by (simp add: update_where_def)

lemma map_key_update_where [row_simps]:
  assumes "\<And>r. key (f r) = key r"
  shows "map key (update_where P f rows) = map key rows"
  using assms by (simp add: update_where_def)

lemma update_where_none:
  assumes "\<And>r. r \<in> set rows \<Longrightarrow> \<not> P r"
  shows "update_where P f rows = rows"
  using assms by (induction rows) (auto simp: update_where_def)

lemma set_delete_where [row_simps]: "set (delete_where P rows) = {r \<in> set rows. \<not> P r}"
  by (auto simp: delete_where_def)

lemma delete_where_code [simp]:
  "delete_where P [] = []"
  "delete_where P (r # rows) = (if P r then delete_where P rows else r # delete_where P rows)"
  by (simp_all add: delete_where_def)

lemma distinct_map_delete_where [intro]:
  "distinct (map key rows) \<Longrightarrow> distinct (map key (delete_where P rows))"
  by (simp add: delete_where_def distinct_map_filter)

lemma count_where_code [simp]:
  "count_where P [] = 0"
  "count_where P (r # rows) = (if P r then Suc (count_where P rows) else count_where P rows)"
  by (simp_all add: count_where_def)

lemma count_where_append [simp]: "count_where P (xs @ ys) = count_where P xs + count_where P ys"
  by (simp add: count_where_def)

lemma count_where_0_iff: "count_where P rows = 0 \<longleftrightarrow> (\<forall>r\<in>set rows. \<not> P r)"
  by (simp add: count_where_def filter_empty_conv)

lemma distinct_map_inj:
  assumes "distinct (map key rows)" "r \<in> set rows" "q \<in> set rows" "key r = key q"
  shows "r = q"
  using assms by (meson distinct_map inj_onD)

subsection \<open>First element per key\<close>

lemma keep_new_keys:
  "key ` set (keep_new key seen xs) = key ` set xs - set seen"
  "set (keep_new key seen xs) \<subseteq> set xs"
  by (induction xs arbitrary: seen) auto

lemma set_keep_new:
  assumes "inj_on key (set xs)"
  shows "set (keep_new key [] xs) = set xs"
  using keep_new_keys [of key "[]" xs] assms by (metis (no_types) Diff_empty empty_set inj_on_image_eq_iff order_refl)

end
