(* ===== verification/Netip.thy ===== *)
theory Netip
  imports Prelude
begin

text \<open>
  The part of Go's \<open>net/netip\<close> the address-space components call: addresses, prefixes,
  \<open>PrefixFrom\<close>, \<open>Masked\<close>, \<open>Contains\<close>, \<open>Overlaps\<close> and \<open>Next\<close>, at their machine widths.
  The lemmas read these bit-level operations as sets of addresses: \<open>Contains\<close> is membership,
  \<open>Overlaps\<close> is a common address, and halving a prefix splits its set in two.
\<close>

unbundle bit_operations_syntax

named_theorems netip_simps \<open>netip operations on IPv4 values\<close>

text \<open>\<open>AddrNone\<close> is the zero \<open>netip.Addr\<close>; an IPv6 address carries its zone.\<close>

datatype addr = AddrNone | Addr4 "32 word" | Addr6 "128 word" string

text \<open>A prefix is an address and a bit length, \<open>-1\<close> standing for the invalid one.\<close>

datatype prefix = Prefix (pfx_addr: addr) (pfx_bits: int)

fun is4 :: "addr \<Rightarrow> bool" where
  "is4 (Addr4 _) = True"
| "is4 _ = False"

fun bit_len :: "addr \<Rightarrow> int" where
  "bit_len AddrNone = 0"
| "bit_len (Addr4 _) = 32"
| "bit_len (Addr6 _ _) = 128"

fun without_zone :: "addr \<Rightarrow> addr" where
  "without_zone (Addr6 w _) = Addr6 w []"
| "without_zone a = a"

definition zero_prefix :: prefix where
  "zero_prefix = Prefix AddrNone (-1)"

definition is_valid :: "prefix \<Rightarrow> bool" where
  "is_valid p \<longleftrightarrow> 0 \<le> pfx_bits p"

definition prefix_from :: "addr \<Rightarrow> int \<Rightarrow> prefix" where
  "prefix_from a b = (if a \<noteq> AddrNone \<and> 0 \<le> b \<and> b \<le> bit_len a
     then Prefix (without_zone a) b else Prefix (without_zone a) (-1))"

definition mask4 :: "int \<Rightarrow> 32 word \<Rightarrow> 32 word" where
  "mask4 b w = w AND NOT (mask (nat (32 - b)))"

definition mask6 :: "int \<Rightarrow> 128 word \<Rightarrow> 128 word" where
  "mask6 b w = w AND NOT (mask (nat (128 - b)))"

text \<open>\<open>Addr.Prefix\<close> fails (here: the zero prefix, which is what \<open>Masked\<close> keeps) out of range.\<close>

fun addr_prefix :: "addr \<Rightarrow> int \<Rightarrow> prefix" where
  "addr_prefix AddrNone b = zero_prefix"
| "addr_prefix (Addr4 w) b = (if b < 0 \<or> 32 < b then zero_prefix else prefix_from (Addr4 (mask4 b w)) b)"
| "addr_prefix (Addr6 w z) b = (if b < 0 \<or> 128 < b then zero_prefix else prefix_from (Addr6 (mask6 b w) []) b)"

definition masked :: "prefix \<Rightarrow> prefix" where
  "masked p = addr_prefix (pfx_addr p) (pfx_bits p)"

fun contains_addr :: "prefix \<Rightarrow> addr \<Rightarrow> bool" where
  "contains_addr (Prefix (Addr4 p) b) (Addr4 a) \<longleftrightarrow> 0 \<le> b \<and> drop_bit (nat (32 - b)) (a XOR p) = 0"
| "contains_addr (Prefix (Addr6 p _) b) (Addr6 a z) \<longleftrightarrow> 0 \<le> b \<and> z = [] \<and> mask6 b (a XOR p) = 0"
| "contains_addr _ _ \<longleftrightarrow> False"

definition overlaps :: "prefix \<Rightarrow> prefix \<Rightarrow> bool" where
  "overlaps p q =
     (if \<not> is_valid p \<or> \<not> is_valid q then False
      else if p = q then True
      else if is4 (pfx_addr p) \<noteq> is4 (pfx_addr q) then False
      else let mb = (if pfx_bits p < pfx_bits q then pfx_bits p else pfx_bits q) in
        if mb = 0 then True
        else let p' = addr_prefix (pfx_addr p) mb; q' = addr_prefix (pfx_addr q) mb in
          if \<not> is_valid p' \<or> \<not> is_valid q' then False else pfx_addr p' = pfx_addr q')"

fun addr_next :: "addr \<Rightarrow> addr" where
  "addr_next AddrNone = AddrNone"
| "addr_next (Addr4 w) = (if w + 1 = 0 then AddrNone else Addr4 (w + 1))"
| "addr_next (Addr6 w z) = (if w + 1 = 0 then AddrNone else Addr6 (w + 1) z)"

text \<open>The values the package can build: \<open>bits\<close> is \<open>-1\<close> or within the address's width.\<close>

definition wf_prefix :: "prefix \<Rightarrow> bool" where
  "wf_prefix p \<longleftrightarrow> pfx_bits p = -1 \<or> (pfx_addr p \<noteq> AddrNone \<and> 0 \<le> pfx_bits p \<and> pfx_bits p \<le> bit_len (pfx_addr p))"

text \<open>A valid IPv4 prefix, and one whose host bits are zero.\<close>

definition valid4 :: "prefix \<Rightarrow> bool" where
  "valid4 p \<longleftrightarrow> is4 (pfx_addr p) \<and> 0 \<le> pfx_bits p \<and> pfx_bits p \<le> 32"

definition aligned4 :: "prefix \<Rightarrow> bool" where
  "aligned4 p \<longleftrightarrow> valid4 p \<and> masked p = p"

definition addrs_of :: "prefix \<Rightarrow> addr set" where
  "addrs_of p = {a. contains_addr p a}"

lemma len_word32: "LENGTH(32) = 32" by simp

lemma unat32_less: "unat (v :: 32 word) < 4294967296"
proof -
  have "unat v < 2 ^ LENGTH(32)" by (rule unsigned_less)
  then show ?thesis by simp
qed

lemma drop_bit_eq_iff_bits:
  "drop_bit n (x::'a::len word) = drop_bit n y \<longleftrightarrow> (\<forall>k. n \<le> k \<and> k < LENGTH('a) \<longrightarrow> bit x k = bit y k)"
proof
  assume *: "drop_bit n x = drop_bit n y"
  show "\<forall>k. n \<le> k \<and> k < LENGTH('a) \<longrightarrow> bit x k = bit y k"
  proof (intro allI impI, elim conjE)
    fix k assume "n \<le> k"
    then have "bit x k = bit (drop_bit n x) (k - n)" "bit y k = bit (drop_bit n y) (k - n)"
      by (simp_all add: bit_drop_bit_eq)
    then show "bit x k = bit y k" using * by simp
  qed
next
  assume *: "\<forall>k. n \<le> k \<and> k < LENGTH('a) \<longrightarrow> bit x k = bit y k"
  show "drop_bit n x = drop_bit n y"
  proof (rule bit_word_eqI)
    fix k assume "k < LENGTH('a)"
    show "bit (drop_bit n x) k = bit (drop_bit n y) k"
    proof (cases "n + k < LENGTH('a)")
      case True then show ?thesis using * by (simp add: bit_drop_bit_eq)
    next
      case False
      then have "\<not> bit x (n + k)" "\<not> bit y (n + k)" using bit_imp_le_length by blast+
      then show ?thesis by (simp add: bit_drop_bit_eq)
    qed
  qed
qed

lemma drop_bit_xor_0_iff: "drop_bit n (x XOR y :: 'a::len word) = 0 \<longleftrightarrow> drop_bit n x = drop_bit n y"
  by (metis drop_bit_xor xor_self_eq bit.xor_left_self xor.right_neutral)

lemma contains4_iff [netip_simps]:
  "contains_addr (Prefix (Addr4 p) b) (Addr4 a) \<longleftrightarrow> 0 \<le> b \<and> drop_bit (nat (32 - b)) a = drop_bit (nat (32 - b)) p"
  by (simp add: drop_bit_xor_0_iff del: drop_bit_xor)

declare contains_addr.simps(1) [simp del]

lemma bit_mask4: "bit (mask4 b w) k \<longleftrightarrow> bit w k \<and> nat (32 - b) \<le> k"
proof -
  have "bit w k \<Longrightarrow> k < 32" using bit_imp_le_length[of w k] by simp
  then show ?thesis by (auto simp: mask4_def bit_and_iff bit_not_iff bit_mask_iff)
qed

lemma drop_mask4:
  assumes "nat (32 - b) \<le> n"
  shows "drop_bit n (mask4 b w) = drop_bit n w"
  using assms by (auto simp: drop_bit_eq_iff_bits bit_mask4)

lemma mask4_idem [simp]: "mask4 b (mask4 b w) = mask4 b w"
  by (rule bit_word_eqI) (auto simp: bit_mask4)

lemma mask4_eq_iff: "mask4 b w = mask4 b v \<longleftrightarrow> drop_bit (nat (32 - b)) w = drop_bit (nat (32 - b)) v"
  by (simp add: bit_eq_iff [of "mask4 b w"] drop_bit_eq_iff_bits bit_mask4) (metis bit_imp_le_length len_num0 len_bit0 len_num1)

lemma mask4_unat: "unat (mask4 b w) = unat w div 2 ^ nat (32 - b) * 2 ^ nat (32 - b)"
proof -
  have "mask4 b w = push_bit (nat (32 - b)) (drop_bit (nat (32 - b)) w)"
    by (rule bit_word_eqI) (auto simp: bit_mask4 bit_push_bit_iff bit_drop_bit_eq)
  moreover have "unat (push_bit n (drop_bit n w)) = unat w div 2 ^ n * 2 ^ n" for n
  proof -
    have "unat w div 2 ^ n * 2 ^ n < 2 ^ 32"
      by (metis div_times_less_eq_dividend le_less_trans unsigned_less len_word32)
    moreover have "unat (push_bit n (drop_bit n w)) = take_bit 32 (push_bit n (drop_bit n (unat w)))"
      by (simp add: unsigned_push_bit_eq unat_drop_bit_eq)
    ultimately show ?thesis
      by (simp add: push_bit_eq_mult drop_bit_eq_div take_bit_nat_eq_self)
  qed
  ultimately show ?thesis by simp
qed

lemma div_eq_iff_interval:
  "0 < N \<Longrightarrow> a div N = (q::nat) \<longleftrightarrow> q * N \<le> a \<and> a < q * N + N"
  by (metis add.commute div_nat_eqI dividend_less_times_div mult.commute mult_Suc
      times_div_less_eq_dividend)

lemma contains4_interval:
  assumes "0 \<le> b" "mask4 b w = w"
  shows "contains_addr (Prefix (Addr4 w) b) (Addr4 a) \<longleftrightarrow>
    unat w \<le> unat a \<and> unat a < unat w + 2 ^ nat (32 - b)"
proof -
  let ?n = "nat (32 - b)"
  have w: "unat w = unat w div 2 ^ ?n * 2 ^ ?n" using mask4_unat[of b w] assms(2) by simp
  have "drop_bit ?n a = drop_bit ?n w \<longleftrightarrow> unat a div 2 ^ ?n = unat w div 2 ^ ?n"
    unfolding word_unat_eq_iff unat_drop_bit_eq by (simp add: drop_bit_eq_div)
  then show ?thesis using assms(1) w by (simp add: contains4_iff div_eq_iff_interval)
qed

lemma valid4E:
  assumes "valid4 p"
  obtains w b where "p = Prefix (Addr4 w) b" "0 \<le> b" "b \<le> 32"
  using assms by (cases p; cases "pfx_addr p") (auto simp: valid4_def)

lemma valid4_simp [simp]: "valid4 (Prefix (Addr4 w) b) \<longleftrightarrow> 0 \<le> b \<and> b \<le> 32"
  by (simp add: valid4_def)

lemma valid4_valid: "valid4 p \<Longrightarrow> is_valid p"
  by (simp add: valid4_def is_valid_def)

lemma wf_is4_valid4: "wf_prefix p \<Longrightarrow> is_valid p \<Longrightarrow> is4 (pfx_addr p) \<Longrightarrow> valid4 p"
  by (cases "pfx_addr p") (auto simp: wf_prefix_def is_valid_def valid4_def)

lemma masked4 [netip_simps]:
  "0 \<le> b \<Longrightarrow> b \<le> 32 \<Longrightarrow> masked (Prefix (Addr4 w) b) = Prefix (Addr4 (mask4 b w)) b"
  by (simp add: masked_def prefix_from_def)

lemma aligned4_simp: "aligned4 (Prefix (Addr4 w) b) \<longleftrightarrow> 0 \<le> b \<and> b \<le> 32 \<and> mask4 b w = w"
  by (auto simp: aligned4_def masked4)

lemma aligned4_masked: "valid4 p \<Longrightarrow> aligned4 (masked p)"
  by (elim valid4E) (simp add: masked4 aligned4_simp)

lemma aligned4_valid4: "aligned4 p \<Longrightarrow> valid4 p" and aligned4_eq: "aligned4 p \<Longrightarrow> masked p = p"
  by (simp_all add: aligned4_def)

lemma aligned4E:
  assumes "aligned4 p"
  obtains w b where "p = Prefix (Addr4 w) b" "0 \<le> b" "b \<le> 32" "mask4 b w = w"
  using assms by (metis aligned4_simp aligned4_valid4 valid4E)

lemma contains4_is4: "valid4 p \<Longrightarrow> contains_addr p a \<Longrightarrow> is4 a"
  by (elim valid4E) (cases a; simp)

lemma contains_masked: "valid4 p \<Longrightarrow> contains_addr (masked p) a = contains_addr p a"
  by (elim valid4E, cases a) (auto simp: masked4 contains4_iff drop_mask4)

lemma contains_self: "valid4 p \<Longrightarrow> contains_addr p (pfx_addr p)"
  by (elim valid4E) (simp add: contains4_iff)

lemma contains_nested:
  assumes "valid4 p" "valid4 q" "pfx_bits p \<le> pfx_bits q" "contains_addr p a" "contains_addr q a" "contains_addr q b"
  shows "contains_addr p b"
proof -
  obtain v m where p: "p = Prefix (Addr4 v) m" "0 \<le> m" "m \<le> 32" using assms(1) by (rule valid4E)
  obtain w n where q: "q = Prefix (Addr4 w) n" "0 \<le> n" "n \<le> 32" using assms(2) by (rule valid4E)
  obtain x y where xy: "a = Addr4 x" "b = Addr4 y"
    using assms by (metis contains4_is4 is4.elims(2))
  have le: "nat (32 - n) \<le> nat (32 - m)" using assms(3) p q by simp
  have "drop_bit (nat (32 - n)) x = drop_bit (nat (32 - n)) y"
    using assms q xy by (simp add: contains4_iff)
  then have "drop_bit (nat (32 - m)) x = drop_bit (nat (32 - m)) y"
    using le by (simp add: drop_bit_eq_iff_bits)
  then show ?thesis using assms p xy by (simp add: contains4_iff)
qed

lemma overlaps4_iff_bits:
  assumes "valid4 p" "valid4 q" "pfx_bits p \<le> pfx_bits q"
  shows "overlaps p q \<longleftrightarrow> contains_addr p (pfx_addr q)" and "overlaps q p \<longleftrightarrow> contains_addr p (pfx_addr q)"
  using assms
  by (elim valid4E; auto simp: overlaps_def is_valid_def prefix_from_def Let_def contains4_iff mask4_eq_iff)+

lemma overlaps_sym: "valid4 p \<Longrightarrow> valid4 q \<Longrightarrow> overlaps p q = overlaps q p"
  using overlaps4_iff_bits [of p q] overlaps4_iff_bits [of q p] by (cases "pfx_bits p \<le> pfx_bits q") auto

lemma overlaps_iff_common_le:
  assumes "valid4 p" "valid4 q" "pfx_bits p \<le> pfx_bits q"
  shows "overlaps p q \<longleftrightarrow> (\<exists>a. contains_addr p a \<and> contains_addr q a)"
proof
  assume "overlaps p q"
  then have "contains_addr p (pfx_addr q)" using overlaps4_iff_bits(1) [OF assms] by simp
  then show "\<exists>a. contains_addr p a \<and> contains_addr q a" using contains_self [OF assms(2)] by blast
next
  assume "\<exists>a. contains_addr p a \<and> contains_addr q a"
  then have "contains_addr p (pfx_addr q)" using contains_nested [OF assms] contains_self [OF assms(2)] by blast
  then show "overlaps p q" using overlaps4_iff_bits(1) [OF assms] by simp
qed

lemma overlaps_iff_common:
  assumes "valid4 p" "valid4 q"
  shows "overlaps p q \<longleftrightarrow> (\<exists>a. contains_addr p a \<and> contains_addr q a)"
proof (cases "pfx_bits p \<le> pfx_bits q")
  case True then show ?thesis using overlaps_iff_common_le assms by blast
next
  case False
  then have "overlaps q p \<longleftrightarrow> (\<exists>a. contains_addr q a \<and> contains_addr p a)"
    using overlaps_iff_common_le assms by simp
  then show ?thesis using overlaps_sym [OF assms] by blast
qed

lemma overlaps_iff_addrs_of:
  assumes "valid4 p" "valid4 q"
  shows "overlaps p q \<longleftrightarrow> addrs_of p \<inter> addrs_of q \<noteq> {}"
  using overlaps_iff_common [OF assms] by (auto simp: addrs_of_def)

lemma addrs_of_subset:
  assumes "valid4 p" "valid4 q" "pfx_bits p \<le> pfx_bits q" "contains_addr p (pfx_addr q)"
  shows "addrs_of q \<subseteq> addrs_of p"
  using contains_nested [OF assms(1-4) contains_self [OF assms(2)]] by (auto simp: addrs_of_def)

text \<open>The two halves of a prefix one bit coarser.\<close>

lemma halves4:
  assumes "0 < b" "b \<le> 32" "mask4 (b - 1) w = w"
  shows "addrs_of (Prefix (Addr4 w) (b - 1)) =
      addrs_of (Prefix (Addr4 w) b) \<union> addrs_of (Prefix (Addr4 (w + 2 ^ nat (32 - b))) b)" (is ?union)
    and "addrs_of (Prefix (Addr4 w) b) \<inter> addrs_of (Prefix (Addr4 (w + 2 ^ nat (32 - b))) b) = {}" (is ?disj)
    and "mask4 b (w + 2 ^ nat (32 - b)) = w + 2 ^ nat (32 - b)" (is ?al)
proof -
  let ?n = "nat (32 - b)"
  have n: "nat (32 - (b - 1)) = Suc ?n" "?n < 32" using assms by auto
  have w0: "\<not> bit w k" if "k \<le> ?n" for k
    using assms(3) that n(1) bit_mask4 [of "b - 1" w k] by simp
  have bb: "bit (w + 2 ^ ?n) k \<longleftrightarrow> bit w k \<or> k = ?n" for k
  proof -
    have "w + 2 ^ ?n = w OR 2 ^ ?n"
      using w0 [of ?n] by (intro disjunctive_add) (auto simp: bit_exp_iff)
    then show ?thesis using n(2) by (auto simp: bit_or_iff bit_exp_iff)
  qed
  show ?al by (rule bit_word_eqI) (auto simp: bit_mask4 bb, meson nat_le_linear w0)
  have c: "contains_addr (Prefix (Addr4 v) m) a \<longleftrightarrow>
     (\<exists>x. a = Addr4 x \<and> (\<forall>k. nat (32 - m) \<le> k \<and> k < 32 \<longrightarrow> bit x k = bit v k))"
    if "0 \<le> m" for v m a
    using that by (cases a) (simp_all add: contains4_iff drop_bit_eq_iff_bits)
  have b0: "0 \<le> b" "0 \<le> b - 1" using assms by auto
  show ?disj
    unfolding addrs_of_def c [OF b0(1)] bb using n(2) w0 [of ?n] by auto
  show ?union
    unfolding addrs_of_def c [OF b0(1)] c [OF b0(2)] bb n(1) using n(2) w0 [of ?n]
    by (auto simp: Suc_le_eq) (metis le_neq_implies_less)+
qed

section \<open>Text\<close>

text \<open>
  \<open>Addr.String\<close>: dotted decimal for IPv4; eight hexadecimal groups with the first longest run of at least two
  zero groups left out for IPv6, and the IPv4 form of a mapped address.
\<close>

fun hex_digits :: "nat \<Rightarrow> string" where
  "hex_digits n = (if n < 16 then [char_of (if n < 10 then 48 + n else 87 + n)] else hex_digits (n div 16) @ hex_digits (n mod 16))"

declare hex_digits.simps [simp del]

definition octet :: "32 word \<Rightarrow> nat \<Rightarrow> nat" where
  "octet w i = nat (uint w div 256 ^ i mod 256)"

definition string4 :: "32 word \<Rightarrow> string" where
  "string4 w = digits (octet w 3) @ ''.'' @ digits (octet w 2) @ ''.'' @ digits (octet w 1) @ ''.'' @ digits (octet w 0)"

definition groups6 :: "128 word \<Rightarrow> nat list" where
  "groups6 w = map (\<lambda>i. nat (uint w div 65536 ^ (7 - i) mod 65536)) [0..<8]"

definition zero_run :: "nat list \<Rightarrow> nat \<times> nat" where
  "zero_run gs = foldl (\<lambda>(s, l) i. let r = length (takeWhile (\<lambda>g. g = 0) (drop i gs)) in if r \<ge> 2 \<and> r > l then (i, r) else (s, l))
     (length gs, 0) [0..<length gs]"

fun join_groups :: "string list \<Rightarrow> string" where
  "join_groups [] = []"
| "join_groups [g] = g"
| "join_groups (g # gs) = g @ '':'' @ join_groups gs"

definition string6 :: "128 word \<Rightarrow> string" where
  "string6 w =
     (if uint w div 2 ^ 32 = 65535 then ''::ffff:'' @ string4 (ucast w)
      else let gs = groups6 w; (s, l) = zero_run gs in
        if l = 0 then join_groups (map hex_digits gs)
        else join_groups (map hex_digits (take s gs)) @ ''::'' @ join_groups (map hex_digits (drop (s + l) gs)))"

fun addr_String :: "addr \<Rightarrow> string" where
  "addr_String AddrNone = ''invalid IP''"
| "addr_String (Addr4 w) = string4 w"
| "addr_String (Addr6 w z) = string6 w @ (if z = [] then [] else CHR ''%'' # z)"

end
