(* ===== verification/Ipam.thy ===== *)
theory Ipam
  imports Netip
begin

text \<open>
  \<open>internal/ipam/ipam.go\<close>: overlay-address allocation.  The tables \<open>devices\<close> and
  \<open>ip_allocations\<close> are lists of rows; \<open>UNIQUE(ip)\<close> and \<open>UNIQUE(name)\<close> are what \<open>Create\<close>
  refuses.  A text column holding an address is modelled by what \<open>netip.ParseAddr\<close> makes of it.
  The netblock registry is reached through the operations of \<open>resolver_ops\<close>, over a state of
  its own; the other allocators that run against the same table act, between the read of an
  attempt and its insert, through the argument \<open>others\<close>.
\<close>

datatype ip_text = IpText addr | IpBad string

datatype ipam_err = ErrPoolExhausted | ErrUnknownSubRange | ErrNotAllocated | ErrContended
  | ErrAddrTaken | ErrOutOfPool | ErrBadPool | ErrBadSubRange | ErrSubRangeOutside
  | ErrResolver | ErrIpamDb

definition stateAllocated :: string where "stateAllocated = ''allocated''"
definition stateQuarantined :: string where "stateQuarantined = ''quarantined''"
definition maxAllocAttempts :: nat where "maxAllocAttempts = 100"
definition NameDefault :: string where "NameDefault = ''default''"
definition NameCentral :: string where "NameCentral = ''central''"

record device =
  dev_id :: int
  dev_name :: string
  dev_created_at :: time_ns

record allocation =
  al_id :: int
  al_ip :: ip_text
  al_device :: int
  al_state :: string
  al_allocated_at :: time_ns
  al_released_at :: time_ns
  al_quarantine_until :: time_ns
  al_netblock :: int
  al_method :: string

datatype ipam_event = MetricAutogrow string | MetricExhausted string

record ipam_db =
  devices :: "device list"
  dev_seq :: int
  allocs :: "allocation list"
  alloc_seq :: int
  ipam_events :: "ipam_event list"

record resolved =
  rs_id :: int
  rs_name :: string
  rs_cidr :: prefix
  rs_named :: bool
  rs_reserved :: bool

text \<open>
  \<open>NetblockResolver\<close> with its optional extensions: \<open>ro_full\<close> is present when the resolver
  implements \<open>IDResolver\<close>, \<open>ro_grow\<close> when it implements \<open>NetblockGrower\<close>.  Every call may
  change the resolver's own state; \<open>Grow\<close> also reads the allocation table (through the
  registry's \<open>LiveAddrs\<close> hook).
\<close>

record 'n resolver_ops =
  ro_resolve :: "'n \<Rightarrow> string \<Rightarrow> prefix option \<times> 'n"
  ro_carves :: "'n \<Rightarrow> prefix list option \<times> 'n"
  ro_full :: "('n \<Rightarrow> string \<Rightarrow> resolved option \<times> 'n) option"
  ro_grow :: "('n \<Rightarrow> ipam_db \<Rightarrow> string \<Rightarrow> string \<Rightarrow> prefix option \<times> 'n) option"

record pool =
  pl_prefix :: prefix
  pl_subranges :: "(string \<times> prefix) list"
  pl_reserved :: "addr list"
  pl_quarantine_ttl :: time_ns

record 'n allocator =
  a_pool :: pool
  a_resolver :: "'n resolver_ops option"

subsection \<open>Construction\<close>

fun check_subranges :: "prefix \<Rightarrow> (string \<times> prefix) list \<Rightarrow> ipam_err option" where
  "check_subranges pfx [] = None"
| "check_subranges pfx ((_, sr) # rest) =
     (if \<not> is_valid sr \<or> \<not> is4 (pfx_addr sr) then Some ErrBadSubRange
      else if \<not> contains_addr pfx (pfx_addr sr) then Some ErrSubRangeOutside
      else check_subranges pfx rest)"

definition NewAllocator :: "pool \<Rightarrow> ipam_err + 'n allocator" where
  "NewAllocator pl =
     (if \<not> is_valid (pl_prefix pl) \<or> \<not> is4 (pfx_addr (pl_prefix pl)) then Inl ErrBadPool
      else case check_subranges (pl_prefix pl) (pl_subranges pl) of
        Some e \<Rightarrow> Inl e
      | None \<Rightarrow> Inr \<lparr>a_pool = pl, a_resolver = None\<rparr>)"

text \<open>\<open>WithResolver\<close>: the grower is the resolver itself when it implements \<open>NetblockGrower\<close>.\<close>

definition WithResolver :: "'n allocator \<Rightarrow> 'n resolver_ops \<Rightarrow> 'n allocator" where
  "WithResolver a r = a\<lparr>a_resolver := Some r\<rparr>"

definition a_grower ::
  "'n allocator \<Rightarrow> ('n \<Rightarrow> ipam_db \<Rightarrow> string \<Rightarrow> string \<Rightarrow> prefix option \<times> 'n) option" where
  "a_grower a = (case a_resolver a of None \<Rightarrow> None | Some r \<Rightarrow> ro_grow r)"

subsection \<open>Statements\<close>

text \<open>\<open>FirstOrCreate\<close> with a struct condition: GORM leaves a zero field out of the condition, so an
  empty name matches the first device.\<close>

definition ensureDevice :: "faults \<Rightarrow> time_ns \<Rightarrow> ipam_db \<Rightarrow> string \<Rightarrow> (ipam_err + device) \<times> ipam_db" where
  "ensureDevice flt now db name =
     (if flt 0 then (Inl ErrIpamDb, db)
      else case first_where (\<lambda>d. name = [] \<or> dev_name d = name) (devices db) of
        Some d \<Rightarrow> (Inr d, db)
      | None \<Rightarrow>
          if flt 1 then (Inl ErrIpamDb, db)
          else let d = \<lparr>dev_id = dev_seq db, dev_name = name, dev_created_at = now\<rparr> in
            (Inr d, db\<lparr>devices := devices db @ [d], dev_seq := dev_seq db + 1\<rparr>))"

definition purgeExpiredQuarantine :: "bool \<Rightarrow> time_ns \<Rightarrow> ipam_db \<Rightarrow> ipam_err option \<times> ipam_db" where
  "purgeExpiredQuarantine fails now db =
     (if fails then (Some ErrIpamDb, db)
      else (None, db\<lparr>allocs := delete_where
              (\<lambda>r. al_state r = stateQuarantined \<and> al_quarantine_until r \<le> now) (allocs db)\<rparr>))"

datatype create_result = CreateOk | CreateDup | CreateFail

definition create_alloc :: "bool \<Rightarrow> ipam_db \<Rightarrow> allocation \<Rightarrow> create_result \<times> ipam_db" where
  "create_alloc fails db r =
     (if fails then (CreateFail, db)
      else if list_ex (\<lambda>q. al_ip q = al_ip r) (allocs db) then (CreateDup, db)
      else (CreateOk, db\<lparr>allocs := allocs db @ [r\<lparr>al_id := alloc_seq db\<rparr>], alloc_seq := alloc_seq db + 1\<rparr>))"

definition new_alloc :: "addr \<Rightarrow> int \<Rightarrow> time_ns \<Rightarrow> int \<Rightarrow> string \<Rightarrow> allocation" where
  "new_alloc ip dev now nb via =
     \<lparr>al_id = 0, al_ip = IpText ip, al_device = dev, al_state = stateAllocated, al_allocated_at = now,
      al_released_at = 0, al_quarantine_until = 0, al_netblock = nb, al_method = via\<rparr>"

fun parse_addrs :: "ip_text list \<Rightarrow> addr list" where
  "parse_addrs [] = []"
| "parse_addrs (IpText a # ts) = a # parse_addrs ts"
| "parse_addrs (IpBad _ # ts) = parse_addrs ts"

definition LiveAddrs :: "bool \<Rightarrow> time_ns \<Rightarrow> ipam_db \<Rightarrow> addr list option" where
  "LiveAddrs fails now db =
     (if fails then None
      else Some (parse_addrs (map al_ip
        (filter (\<lambda>r. al_state r = stateAllocated \<or> al_quarantine_until r > now) (allocs db)))))"

subsection \<open>Resolution\<close>

definition nameOrDefault :: "string \<Rightarrow> string" where
  "nameOrDefault name = (if name = [] then NameDefault else name)"

definition metricName :: "resolved \<Rightarrow> string" where
  "metricName res = (if rs_name res = [] then NameDefault else rs_name res)"

definition plain_resolved :: "string \<Rightarrow> prefix \<Rightarrow> resolved" where
  "plain_resolved name cidr = \<lparr>rs_id = 0, rs_name = name, rs_cidr = cidr, rs_named = False, rs_reserved = False\<rparr>"

definition ipam_resolve :: "'n allocator \<Rightarrow> 'n \<Rightarrow> string \<Rightarrow> (ipam_err + resolved) \<times> 'n" where
  "ipam_resolve a n name =
     (case a_resolver a of
        Some r \<Rightarrow>
          (case ro_full r of
             Some full \<Rightarrow>
               (case full n name of
                  (None, n1) \<Rightarrow> (Inl ErrResolver, n1)
                | (Some res, n1) \<Rightarrow>
                    if rs_reserved res then
                      (case full n1 NameDefault of
                         (Some def, n2) \<Rightarrow> (Inr def, n2)
                       | (None, n2) \<Rightarrow> (Inr res, n2))
                    else (Inr res, n1))
           | None \<Rightarrow>
               (case ro_resolve r n name of
                  (None, n1) \<Rightarrow> (Inl ErrResolver, n1)
                | (Some cidr, n1) \<Rightarrow> (Inr (plain_resolved (nameOrDefault name) cidr), n1)))
      | None \<Rightarrow>
          if name = [] then (Inr (plain_resolved [] (pl_prefix (a_pool a))), n)
          else (case map_of (pl_subranges (a_pool a)) name of
                  None \<Rightarrow> (Inl ErrUnknownSubRange, n)
                | Some sr \<Rightarrow> (Inr (plain_resolved name sr), n)))"

fun containing_loop ::
  "('n \<Rightarrow> string \<Rightarrow> resolved option \<times> 'n) \<Rightarrow> addr \<Rightarrow> 'n \<Rightarrow> string list \<Rightarrow> int option \<times> 'n" where
  "containing_loop full addr n [] = (None, n)"
| "containing_loop full addr n (name # names) =
     (case full n name of
        (Some r, n1) \<Rightarrow> if contains_addr (rs_cidr r) addr then (Some (rs_id r), n1)
                        else containing_loop full addr n1 names
      | (None, n1) \<Rightarrow> containing_loop full addr n1 names)"

definition netblockIDContaining :: "'n allocator \<Rightarrow> 'n \<Rightarrow> addr \<Rightarrow> int option \<times> 'n" where
  "netblockIDContaining a n addr =
     (case a_resolver a of
        None \<Rightarrow> (None, n)
      | Some r \<Rightarrow> (case ro_full r of
                    None \<Rightarrow> (None, n)
                  | Some full \<Rightarrow> containing_loop full addr n [NameCentral, NameDefault]))"

subsection \<open>The scan for a free address\<close>

definition inAnyCarve :: "addr \<Rightarrow> prefix list \<Rightarrow> bool" where
  "inAnyCarve addr carves = list_ex (\<lambda>c. contains_addr c addr) carves"

fun scan_measure :: "addr \<Rightarrow> nat" where
  "scan_measure AddrNone = 0"
| "scan_measure (Addr4 w) = 2 ^ 32 - unat w"
| "scan_measure (Addr6 w _) = 2 ^ 128 - unat w"

lemma scan_measure_next: "contains_addr rng a \<Longrightarrow> scan_measure (addr_next a) < scan_measure a"
proof (cases a)
  case AddrNone
  then show "contains_addr rng a \<Longrightarrow> ?thesis" by simp
next
  case (Addr4 w)
  have "unat w < 2 ^ 32" using unsigned_less [of w] by simp
  then show ?thesis using Addr4 by (auto simp: unatSuc add.commute)
next
  case (Addr6 w z)
  have "unat w < 2 ^ 128" using unsigned_less [of w] by simp
  then show ?thesis using Addr6 by (auto simp: unatSuc add.commute)
qed

function free_scan :: "prefix \<Rightarrow> addr \<Rightarrow> (addr \<Rightarrow> bool) \<Rightarrow> addr \<Rightarrow> addr option" where
  "free_scan rng network skip addr =
     (if \<not> contains_addr rng addr then None
      else if addr = network \<or> skip addr then free_scan rng network skip (addr_next addr)
      else Some addr)"
  by pat_completeness auto
termination
  by (relation "measure (\<lambda>(_, _, _, a). scan_measure a)") (auto simp: scan_measure_next)

declare free_scan.simps [simp del]

text \<open>The carves a fill of \<open>res\<close> must avoid: consulted only for a block that is not named, and
  ignored when the resolver fails.\<close>

definition fill_carves :: "'n allocator \<Rightarrow> 'n \<Rightarrow> resolved \<Rightarrow> prefix list \<times> 'n" where
  "fill_carves a n res =
     (case a_resolver a of
        Some r \<Rightarrow> if rs_named res then ([], n)
                  else (case ro_carves r n of
                          (Some cs, n1) \<Rightarrow> (filter (\<lambda>c. overlaps (rs_cidr res) c) cs, n1)
                        | (None, n1) \<Rightarrow> ([], n1))
      | None \<Rightarrow> ([], n))"

definition occupied :: "ipam_db \<Rightarrow> addr list" where
  "occupied db = parse_addrs (map al_ip (allocs db))"

definition firstFree :: "bool \<Rightarrow> 'n allocator \<Rightarrow> 'n \<Rightarrow> ipam_db \<Rightarrow> resolved \<Rightarrow> (ipam_err + addr) \<times> 'n" where
  "firstFree fails a n db res =
     (if fails then (Inl ErrIpamDb, n)
      else case fill_carves a n res of (carves, n1) \<Rightarrow>
        let rng = rs_cidr res; network = pfx_addr (masked rng) in
        (case free_scan rng network
                (\<lambda>x. x \<in> set (pl_reserved (a_pool a)) \<or> x \<in> set (occupied db) \<or> inAnyCarve x carves) network of
           Some x \<Rightarrow> (Inr x, n1)
         | None \<Rightarrow> (Inl ErrPoolExhausted, n1)))"

subsection \<open>Allocation and release\<close>

text \<open>The retry loop of \<open>Allocate\<close>: \<open>left\<close> attempts remain of \<open>maxAllocAttempts\<close>; statement \<open>2 * left\<close>
  is the attempt's read, \<open>2 * left + 1\<close> its insert, and \<open>others left\<close> what the rest of the fleet does
  to the tables in between.\<close>

fun alloc_loop ::
  "faults \<Rightarrow> (nat \<Rightarrow> ipam_db \<Rightarrow> ipam_db) \<Rightarrow> 'n allocator \<Rightarrow> time_ns \<Rightarrow> device \<Rightarrow> string \<Rightarrow>
   nat \<Rightarrow> resolved \<Rightarrow> ipam_db \<Rightarrow> 'n \<Rightarrow> (ipam_err + addr) \<times> ipam_db \<times> 'n" where
  "alloc_loop flt others a now dev via 0 res db n = (Inl ErrContended, db, n)"
| "alloc_loop flt others a now dev via (Suc left) res db n =
     (case firstFree (flt (2 * left)) a n db res of
        (Inl ErrPoolExhausted, n1) \<Rightarrow>
          (case (if rs_named res then a_grower a else None) of
             Some grow \<Rightarrow>
               (case grow n1 db (rs_name res) ''ipam-autogrow'' of
                  (Some grown, n2) \<Rightarrow>
                    if is_valid grown then
                      alloc_loop flt others a now dev via left (res\<lparr>rs_cidr := grown\<rparr>)
                        (db\<lparr>ipam_events := ipam_events db @ [MetricAutogrow (rs_name res)]\<rparr>) n2
                    else (Inl ErrPoolExhausted, db\<lparr>ipam_events := ipam_events db @ [MetricExhausted (metricName res)]\<rparr>, n2)
                | (None, n2) \<Rightarrow>
                    (Inl ErrPoolExhausted, db\<lparr>ipam_events := ipam_events db @ [MetricExhausted (metricName res)]\<rparr>, n2))
           | None \<Rightarrow> (Inl ErrPoolExhausted, db\<lparr>ipam_events := ipam_events db @ [MetricExhausted (metricName res)]\<rparr>, n1))
      | (Inl e, n1) \<Rightarrow> (Inl e, db, n1)
      | (Inr ip, n1) \<Rightarrow>
          (case create_alloc (flt (2 * left + 1)) (others left db) (new_alloc ip (dev_id dev) now (rs_id res) via) of
             (CreateOk, db1) \<Rightarrow> (Inr ip, db1, n1)
           | (CreateDup, db1) \<Rightarrow> alloc_loop flt others a now dev via left res db1 n1
           | (CreateFail, db1) \<Rightarrow> (Inl ErrIpamDb, db1, n1)))"

definition Allocate ::
  "faults \<Rightarrow> (nat \<Rightarrow> ipam_db \<Rightarrow> ipam_db) \<Rightarrow> 'n allocator \<Rightarrow> time_ns \<Rightarrow> ipam_db \<Rightarrow> 'n \<Rightarrow>
   string \<Rightarrow> string \<Rightarrow> string \<Rightarrow> (ipam_err + addr) \<times> ipam_db \<times> 'n" where
  "Allocate flt others a now db n deviceName netblockName via =
     (case ipam_resolve a n netblockName of
        (Inl e, n1) \<Rightarrow> (Inl e, db, n1)
      | (Inr res, n1) \<Rightarrow>
          (case ensureDevice flt now db deviceName of
             (Inl e, db1) \<Rightarrow> (Inl e, db1, n1)
           | (Inr dev, db1) \<Rightarrow>
               (case purgeExpiredQuarantine (flt 2) now db1 of
                  (Some e, db2) \<Rightarrow> (Inl e, db2, n1)
                | (None, db2) \<Rightarrow>
                    alloc_loop (skip_faults 3 flt) others a now dev via maxAllocAttempts res db2 n1)))"

definition AllocateSpecific ::
  "faults \<Rightarrow> 'n allocator \<Rightarrow> time_ns \<Rightarrow> ipam_db \<Rightarrow> 'n \<Rightarrow> string \<Rightarrow> addr \<Rightarrow> string \<Rightarrow>
   ipam_err option \<times> ipam_db \<times> 'n" where
  "AllocateSpecific flt a now db n deviceName addr via =
     (if \<not> contains_addr (pl_prefix (a_pool a)) addr then (Some ErrOutOfPool, db, n)
      else case ensureDevice flt now db deviceName of
        (Inl e, db1) \<Rightarrow> (Some e, db1, n)
      | (Inr dev, db1) \<Rightarrow>
          (case purgeExpiredQuarantine (flt 2) now db1 of
             (Some e, db2) \<Rightarrow> (Some e, db2, n)
           | (None, db2) \<Rightarrow>
               (case netblockIDContaining a n addr of
                  (nid, n1) \<Rightarrow>
                    let nb = (case nid of Some i \<Rightarrow> i | None \<Rightarrow> 0) in
                    (case create_alloc (flt 3) db2 (new_alloc addr (dev_id dev) now nb via) of
                       (CreateOk, db3) \<Rightarrow> (None, db3, n1)
                     | (CreateDup, db3) \<Rightarrow> (Some ErrAddrTaken, db3, n1)
                     | (CreateFail, db3) \<Rightarrow> (Some ErrIpamDb, db3, n1)))))"

definition Release :: "bool \<Rightarrow> pool \<Rightarrow> time_ns \<Rightarrow> ipam_db \<Rightarrow> addr \<Rightarrow> ipam_err option \<times> ipam_db" where
  "Release fails pl now db ip =
     (if pl_quarantine_ttl pl \<le> 0 then
        (let hit = (\<lambda>r. al_ip r = IpText ip) in
         if fails then (Some ErrIpamDb, db)
         else if count_where hit (allocs db) = 0 then (Some ErrNotAllocated, db)
         else (None, db\<lparr>allocs := delete_where hit (allocs db)\<rparr>))
      else
        (let hit = (\<lambda>r. al_ip r = IpText ip \<and> al_state r = stateAllocated) in
         if fails then (Some ErrIpamDb, db)
         else if count_where hit (allocs db) = 0 then (Some ErrNotAllocated, db)
         else (None, db\<lparr>allocs := update_where hit
                (\<lambda>r. r\<lparr>al_state := stateQuarantined, al_released_at := now,
                        al_quarantine_until := now + pl_quarantine_ttl pl\<rparr>) (allocs db)\<rparr>)))"

definition hostCapacity :: "prefix \<Rightarrow> int" where
  "hostCapacity p =
     (let b = pfx_bits p in
      if b < 0 \<or> b > 32 then 0
      else let total = 2 ^ nat (32 - b) in if total \<le> 1 then 0 else total - 1)"

subsection \<open>What the fleet does to the tables\<close>

text \<open>An address the scan may return.\<close>

definition eligible :: "prefix \<Rightarrow> addr \<Rightarrow> (addr \<Rightarrow> bool) \<Rightarrow> 32 word \<Rightarrow> bool" where
  "eligible rng net skip v \<longleftrightarrow> contains_addr rng (Addr4 v) \<and> Addr4 v \<noteq> net \<and> \<not> skip (Addr4 v)"

text \<open>Well-formed tables: the declared uniqueness constraints, identifiers below their sequence, and
  every lease held by a known device.\<close>

definition ipam_wf :: "ipam_db \<Rightarrow> bool" where
  "ipam_wf db \<longleftrightarrow>
     distinct (map al_ip (allocs db)) \<and> distinct (map al_id (allocs db)) \<and>
     (\<forall>r\<in>set (allocs db). al_id r < alloc_seq db \<and> al_device r \<in> dev_id ` set (devices db)) \<and>
     distinct (map dev_name (devices db)) \<and> distinct (map dev_id (devices db)) \<and>
     (\<forall>d\<in>set (devices db). dev_id d < dev_seq db)"

text \<open>One statement of some process of the fleet, at time \<open>now\<close>.\<close>

inductive table_step :: "pool \<Rightarrow> time_ns \<Rightarrow> ipam_db \<Rightarrow> ipam_db \<Rightarrow> bool" for pl where
  ts_device: "ensureDevice flt now db name = (r, db') \<Longrightarrow> table_step pl now db db'"
| ts_purge: "purgeExpiredQuarantine f now db = (r, db') \<Longrightarrow> table_step pl now db db'"
| ts_create: "create_alloc f db (new_alloc ip dev now nb m) = (r, db') \<Longrightarrow>
    dev \<in> dev_id ` set (devices db) \<Longrightarrow> table_step pl now db db'"
| ts_release: "Release f pl now db ip = (r, db') \<Longrightarrow> table_step pl now db db'"
| ts_event: "table_step pl now db (db\<lparr>ipam_events := ipam_events db @ es\<rparr>)"

text \<open>Any number of statements, all before time \<open>T\<close>.\<close>

inductive table_steps :: "pool \<Rightarrow> time_ns \<Rightarrow> ipam_db \<Rightarrow> ipam_db \<Rightarrow> bool" for pl T where
  tss_refl: "table_steps pl T db db"
| tss_step: "table_steps pl T db db1 \<Longrightarrow> now < T \<Longrightarrow> table_step pl now db1 db2 \<Longrightarrow> table_steps pl T db db2"

text \<open>The address is quarantined until \<open>q\<close>.\<close>

definition held :: "addr \<Rightarrow> time_ns \<Rightarrow> ipam_db \<Rightarrow> bool" where
  "held ip q db \<longleftrightarrow>
     (\<exists>r\<in>set (allocs db). al_ip r = IpText ip \<and> al_state r = stateQuarantined \<and> al_quarantine_until r = q)"

subsection \<open>The scan returns the lowest eligible address\<close>

lemma free_scan_Some:
  "free_scan rng net skip a = Some x \<Longrightarrow> contains_addr rng x \<and> x \<noteq> net \<and> \<not> skip x"
  by (induction rng net skip a rule: free_scan.induct)
     (subst (asm) (2) free_scan.simps, auto split: if_splits)

lemma free_scan4:
  assumes "aligned4 rng" "contains_addr rng (Addr4 w) \<or> (\<forall>v. unat w \<le> unat v \<longrightarrow> \<not> contains_addr rng (Addr4 v))"
  shows "free_scan rng net skip (Addr4 w) = None \<longleftrightarrow> (\<forall>v. unat w \<le> unat v \<longrightarrow> \<not> eligible rng net skip v)"
    and "free_scan rng net skip (Addr4 w) = Some x \<Longrightarrow>
       \<exists>u. x = Addr4 u \<and> unat w \<le> unat u \<and> eligible rng net skip u \<and>
           (\<forall>v. unat w \<le> unat v \<and> unat v < unat u \<longrightarrow> \<not> eligible rng net skip v)"
proof (atomize (full), use assms in \<open>induction rng net skip "Addr4 w" arbitrary: w rule: free_scan.induct\<close>)
  case (1 rng net skip)
  show ?case
  proof (cases "contains_addr rng (Addr4 w)")
    case out: False
    then show ?thesis using "1.prems" by (auto simp: free_scan.simps [of _ _ _ "Addr4 w"] eligible_def)
  next
    case inn: True
    show ?thesis
    proof (cases "Addr4 w = net \<or> skip (Addr4 w)")
      case False
      then show ?thesis using inn
        by (auto simp: free_scan.simps [of _ _ _ "Addr4 w"] eligible_def)
    next
      case sk: True
      have step: "free_scan rng net skip (Addr4 w) = free_scan rng net skip (addr_next (Addr4 w))"
        using inn sk by (subst free_scan.simps) simp
      have nf: "\<not> eligible rng net skip w" using sk by (auto simp: eligible_def)
      show ?thesis
      proof (cases "w + 1 = 0")
        case True
        then have "unat w = 2 ^ 32 - 1" by (simp add: eq_neg_iff_add_eq_0 [symmetric] unsigned_minus_1_eq_mask mask_eq_exp_minus_1)
        then have "unat w \<le> unat v \<Longrightarrow> v = w" for v :: "32 word"
          using unat32_less [of v] by (simp add: word_unat_eq_iff)
        then show ?thesis using True step nf by (auto simp: free_scan.simps [of _ _ _ AddrNone])
      next
        case False
        then have suc: "unat (w + 1) = Suc (unat w)" by (simp add: unatSuc add.commute)
        obtain p b where rng: "rng = Prefix (Addr4 p) b" "0 \<le> b" "b \<le> 32" "mask4 b p = p"
          using "1.prems"(1) by (rule aligned4E)
        have iv: "contains_addr rng (Addr4 v) \<longleftrightarrow> unat p \<le> unat v \<and> unat v < unat p + 2 ^ nat (32 - b)" for v
          unfolding rng(1) using rng contains4_interval by blast
        have pre: "contains_addr rng (Addr4 (w + 1)) \<or> (\<forall>v. unat (w + 1) \<le> unat v \<longrightarrow> \<not> contains_addr rng (Addr4 v))"
          using inn unfolding iv suc by linarith
        have ih: "(free_scan rng net skip (Addr4 (w + 1)) = None \<longleftrightarrow> (\<forall>v. unat (w + 1) \<le> unat v \<longrightarrow> \<not> eligible rng net skip v)) \<and>
          (free_scan rng net skip (Addr4 (w + 1)) = Some x \<longrightarrow>
            (\<exists>u. x = Addr4 u \<and> unat (w + 1) \<le> unat u \<and> eligible rng net skip u \<and>
              (\<forall>v. unat (w + 1) \<le> unat v \<and> unat v < unat u \<longrightarrow> \<not> eligible rng net skip v)))"
          using "1.hyps" [of "w + 1"] inn sk False "1.prems"(1) pre by simp
        have eq: "unat w \<le> unat v \<longleftrightarrow> v = w \<or> unat (w + 1) \<le> unat v" for v
          unfolding suc word_unat_eq_iff by linarith
        show ?thesis using ih step False nf unfolding eq by auto
      qed
    qed
  qed
qed
subsection \<open>Invariants of the tables\<close>

lemmas ipam_state_simps = ensureDevice_def purgeExpiredQuarantine_def create_alloc_def Release_def new_alloc_def

lemma table_steps_trans: "table_steps pl T b c \<Longrightarrow> table_steps pl T a b \<Longrightarrow> table_steps pl T a c"
  by (induction rule: table_steps.induct) (auto intro: table_steps.intros)

lemma table_steps_one: "now < T \<Longrightarrow> table_step pl now db db' \<Longrightarrow> table_steps pl T db db'"
  using tss_step tss_refl by blast

lemma devices_mono_step: "table_step pl now db db' \<Longrightarrow> set (devices db) \<subseteq> set (devices db')"
  by (induction rule: table_step.induct)
     (auto simp: ipam_state_simps Let_def split: if_splits option.splits)

lemma devices_mono: "table_steps pl T db db' \<Longrightarrow> set (devices db) \<subseteq> set (devices db')"
  by (induction rule: table_steps.induct) (use devices_mono_step in blast)+

lemma wf_ensureDevice:
  assumes "ensureDevice flt now db name = (r, db')" "ipam_wf db"
  shows "ipam_wf db'"
proof (cases "devices db' = devices db")
  case True
  then show ?thesis using assms by (auto simp: ensureDevice_def Let_def split: if_splits option.splits)
next
  case False
  then have n: "\<forall>d\<in>set (devices db). dev_name d \<noteq> name"
    and db': "db' = db\<lparr>devices := devices db @ [\<lparr>dev_id = dev_seq db, dev_name = name, dev_created_at = now\<rparr>],
       dev_seq := dev_seq db + 1\<rparr>"
    using assms(1) by (auto simp: ensureDevice_def Let_def first_where_None_iff split: if_splits option.splits)
  show ?thesis using assms(2) n unfolding db' ipam_wf_def by force
qed

lemma wf_purge:
  assumes "purgeExpiredQuarantine f now db = (r, db')" "ipam_wf db"
  shows "ipam_wf db'"
  using assms by (auto simp: purgeExpiredQuarantine_def ipam_wf_def row_simps split: if_splits)

lemma wf_create:
  assumes "create_alloc f db row = (r, db')" "ipam_wf db" "al_device row \<in> dev_id ` set (devices db)"
  shows "ipam_wf db'"
proof (cases "db' = db")
  case False
  then have n: "\<forall>q\<in>set (allocs db). al_ip q \<noteq> al_ip row"
    and db': "db' = db\<lparr>allocs := allocs db @ [row\<lparr>al_id := alloc_seq db\<rparr>], alloc_seq := alloc_seq db + 1\<rparr>"
    using assms(1) by (auto simp: create_alloc_def list_ex_iff split: if_splits)
  show ?thesis using assms(2,3) n unfolding db' ipam_wf_def by force
qed (use assms in simp)

lemma wf_Release:
  assumes "Release f pl now db ip = (r, db')" "ipam_wf db"
  shows "ipam_wf db'"
proof -
  have upd: "ipam_wf (db\<lparr>allocs := update_where P g (allocs db)\<rparr>)"
    if "\<And>r. al_ip (g r) = al_ip r" "\<And>r. al_id (g r) = al_id r" "\<And>r. al_device (g r) = al_device r" for P g
    using assms(2) that by (simp add: ipam_wf_def map_key_update_where) (auto simp: row_simps)
  show ?thesis using assms upd
    by (auto simp: Release_def Let_def ipam_wf_def row_simps split: if_splits)
qed

lemma wf_table_step: "table_step pl now db db' \<Longrightarrow> ipam_wf db \<Longrightarrow> ipam_wf db'"
proof (induction rule: table_step.induct)
  case (ts_create f db ip dev now nb m r db')
  then show ?case using wf_create by (metis (no_types, lifting) allocation.select_convs(3) new_alloc_def)
next
  case (ts_event now db es)
  then show ?case by (simp add: ipam_wf_def)
qed (auto intro: wf_ensureDevice wf_purge wf_Release)

lemma wf_table_steps: "table_steps pl T db db' \<Longrightarrow> ipam_wf db \<Longrightarrow> ipam_wf db'"
  by (induction rule: table_steps.induct) (auto dest: wf_table_step)

subsection \<open>Quarantine\<close>

lemma states_differ [simp]: "stateQuarantined \<noteq> stateAllocated" "stateAllocated \<noteq> stateQuarantined"
  by (simp_all add: stateQuarantined_def stateAllocated_def)

lemma held_step:
  assumes "table_step pl now db db'" "held ip q db" "now < q" "0 < pl_quarantine_ttl pl"
  shows "held ip q db'"
  using assms
proof (induction rule: table_step.induct)
  case (ts_release f now db ip' r db')
  then obtain row where "row \<in> set (allocs db)" "al_ip row = IpText ip" "al_state row = stateQuarantined"
    "al_quarantine_until row = q" by (auto simp: held_def)
  moreover have "db' = db \<or> (\<exists>g. db' = db\<lparr>allocs := update_where (\<lambda>r. al_ip r = IpText ip' \<and> al_state r = stateAllocated) g (allocs db)\<rparr>)"
    using ts_release by (auto simp: Release_def Let_def split: if_splits)
  ultimately show ?case by (auto simp: held_def row_simps)
qed (auto simp: held_def ipam_state_simps Let_def row_simps split: if_splits option.splits; fastforce)+

lemma held_steps:
  assumes "table_steps pl T db db'" "held ip q db" "T \<le> q" "0 < pl_quarantine_ttl pl"
  shows "held ip q db'"
  using assms by (induction rule: table_steps.induct) (auto dest: held_step)

subsection \<open>Allocate as a sequence of statements\<close>

lemma ensureDevice_in:
  assumes "ensureDevice flt now db name = (Inr d, db')"
  shows "d \<in> set (devices db')" and "name \<noteq> [] \<Longrightarrow> dev_name d = name"
  using assms by (auto simp: ensureDevice_def Let_def split: if_splits option.splits)

lemma create_alloc_Ok:
  assumes "create_alloc f db row = (CreateOk, db')"
  shows "\<not> f" and "\<forall>q\<in>set (allocs db). al_ip q \<noteq> al_ip row"
    and "db' = db\<lparr>allocs := allocs db @ [row\<lparr>al_id := alloc_seq db\<rparr>], alloc_seq := alloc_seq db + 1\<rparr>"
  using assms by (auto simp: create_alloc_def list_ex_iff split: if_splits)

lemma firstFree_Inl: "firstFree f a n db res = (Inl e, n1) \<Longrightarrow> e = ErrPoolExhausted \<and> \<not> f \<or> e = ErrIpamDb \<and> f"
  by (auto simp: firstFree_def Let_def split: if_splits prod.splits option.splits)

text \<open>The three ways an attempt ends: a denial, a grow, or an insert.\<close>

lemma alloc_loop_SucE:
  assumes "alloc_loop flt others a now dev via (Suc left) res db n = (r, db', n')"
  obtains (denied) es e where "r = Inl e" "db' = db\<lparr>ipam_events := ipam_events db @ es\<rparr>"
      "e = ErrPoolExhausted \<or> e = ErrIpamDb"
  | (grown) grow n1 n2 p where "firstFree (flt (2 * left)) a n db res = (Inl ErrPoolExhausted, n1)"
      "rs_named res" "a_grower a = Some grow" "grow n1 db (rs_name res) ''ipam-autogrow'' = (Some p, n2)" "is_valid p"
      "alloc_loop flt others a now dev via left (res\<lparr>rs_cidr := p\<rparr>)
         (db\<lparr>ipam_events := ipam_events db @ [MetricAutogrow (rs_name res)]\<rparr>) n2 = (r, db', n')"
  | (insert) ip n1 c db1 where "firstFree (flt (2 * left)) a n db res = (Inr ip, n1)"
      "create_alloc (flt (2 * left + 1)) (others left db) (new_alloc ip (dev_id dev) now (rs_id res) via) = (c, db1)"
      "c = CreateOk \<and> r = Inr ip \<and> db' = db1 \<and> n' = n1 \<or> c = CreateFail \<and> r = Inl ErrIpamDb \<and> db' = db1 \<or>
       c = CreateDup \<and> alloc_loop flt others a now dev via left res db1 n1 = (r, db', n')"
proof -
  obtain ff n1 where ff: "firstFree (flt (2 * left)) a n db res = (ff, n1)" by fastforce
  show ?thesis
  proof (cases ff)
    case (Inr ip)
    obtain c db1 where c: "create_alloc (flt (2 * left + 1)) (others left db)
        (new_alloc ip (dev_id dev) now (rs_id res) via) = (c, db1)" by fastforce
    show ?thesis using insert [of ip n1 c db1] assms ff Inr c by (cases c) auto
  next
    case (Inl e)
    consider "e = ErrPoolExhausted" | "e = ErrIpamDb" using firstFree_Inl [OF ff [unfolded Inl]] by blast
    then show ?thesis
    proof cases
      case 2
      then show ?thesis using denied [of e "[]"] assms ff Inl by auto
    next
      case 1
      show ?thesis
      proof (cases "if rs_named res then a_grower a else None")
        case None
        then show ?thesis using denied [of e "[MetricExhausted (metricName res)]"] assms ff Inl 1 by auto
      next
        case (Some grow)
        obtain g n2 where g: "grow n1 db (rs_name res) ''ipam-autogrow'' = (g, n2)" by fastforce
        show ?thesis
          using assms ff Inl 1 Some g denied [of e "[MetricExhausted (metricName res)]"] grown [of n1 grow _ n2]
          by (cases g) (auto split: if_splits)
      qed
    qed
  qed
qed

lemma alloc_loop_success:
  assumes "alloc_loop flt others a now dev via left res db n = (r, db', n')"
    and "\<And>k db. table_steps pl T db (others k db)" and "now < T" and "dev \<in> set (devices db)"
  shows "table_steps pl T db db' \<and>
    (\<forall>ip. r = Inr ip \<longrightarrow> (\<exists>db0 dbr n0 cidr. table_steps pl T db db0 \<and>
       create_alloc False db0 (new_alloc ip (dev_id dev) now (rs_id res) via) = (CreateOk, db') \<and>
       firstFree False a n0 dbr (res\<lparr>rs_cidr := cidr\<rparr>) = (Inr ip, n')))"
  using assms(1,4)
proof (induction left arbitrary: res db n)
  case 0
  then show ?case by (auto simp: tss_refl)
next
  case (Suc left)
  have ev: "table_steps pl T db (db\<lparr>ipam_events := ipam_events db @ es\<rparr>)" for es
    using assms(3) ts_event table_steps_one by blast
  from Suc.prems(1) show ?case
  proof (cases rule: alloc_loop_SucE)
    case (denied es e)
    then show ?thesis using ev by simp
  next
    case (grown grow n1 n2 p)
    have "dev \<in> set (devices (db\<lparr>ipam_events := ipam_events db @ [MetricAutogrow (rs_name res)]\<rparr>))"
      using Suc.prems(2) by simp
    from Suc.IH [OF grown(6) this] show ?thesis using table_steps_trans [OF _ ev] by fastforce
  next
    case (insert ip n1 c db1)
    have "dev_id dev \<in> dev_id ` set (devices (others left db))"
      using Suc.prems(2) devices_mono [OF assms(2)] by blast
    then have "table_steps pl T (others left db) db1"
      using insert(2) ts_create table_steps_one assms(3) by blast
    then have st: "table_steps pl T db db1" using assms(2) table_steps_trans by blast
    then have "dev \<in> set (devices db1)" using Suc.prems(2) devices_mono by blast
    then have ih: "alloc_loop flt others a now dev via left res db1 n1 = (r, db', n') \<Longrightarrow> ?thesis"
      using Suc.IH [of res db1 n1] table_steps_trans [OF _ st] by blast
    have ff: "firstFree False a n db (res\<lparr>rs_cidr := rs_cidr res\<rparr>) = (Inr ip, n1)"
      using insert(1) by (cases "flt (2 * left)") (simp_all add: firstFree_def)
    show ?thesis
    proof (cases c)
      case CreateOk
      then have "create_alloc False (others left db) (new_alloc ip (dev_id dev) now (rs_id res) via) = (CreateOk, db1)"
        using insert(2) create_alloc_Ok(1) by metis
      moreover have eqs: "r = Inr ip" "db' = db1" "n' = n1" using insert(3) CreateOk by auto
      ultimately show ?thesis unfolding eqs using st assms(2) [of db left] ff by blast
    qed (use insert(3) st ih in auto)
  qed
qed

lemma Allocate_steps:
  assumes "Allocate flt others a now db n deviceName netblockName via = (r, db', n')"
    and "\<And>k db. table_steps pl T db (others k db)" and "now < T"
  shows "table_steps pl T db db'"
    and "r = Inr ip \<Longrightarrow> \<exists>res n1 dev db0 dbr n0 cidr.
       ipam_resolve a n netblockName = (Inr res, n1) \<and> dev \<in> set (devices db0) \<and>
       (deviceName \<noteq> [] \<longrightarrow> dev_name dev = deviceName) \<and> table_steps pl T db db0 \<and>
       create_alloc False db0 (new_alloc ip (dev_id dev) now (rs_id res) via) = (CreateOk, db') \<and>
       firstFree False a n0 dbr (res\<lparr>rs_cidr := cidr\<rparr>) = (Inr ip, n')"
proof -
  obtain rr n1 where R: "ipam_resolve a n netblockName = (rr, n1)" by fastforce
  obtain dd db1 where D: "ensureDevice flt now db deviceName = (dd, db1)" by fastforce
  obtain pp db2 where P: "purgeExpiredQuarantine (flt 2) now db1 = (pp, db2)" by fastforce
  have s1: "table_steps pl T db db1" using D ts_device table_steps_one assms(3) by blast
  have s2: "table_steps pl T db1 db2" using P ts_purge table_steps_one assms(3) by blast
  have s12: "table_steps pl T db db2" using s1 s2 table_steps_trans by blast
  consider (stop) e where "r = Inl e" "db' = db \<or> db' = db1 \<or> db' = db2"
    | (loop) res dev where "rr = Inr res" "dd = Inr dev"
      "alloc_loop (skip_faults 3 flt) others a now dev via maxAllocAttempts res db2 n1 = (r, db', n')"
    using assms(1) R D P unfolding Allocate_def by (auto split: sum.splits option.splits)
  note ways = this
  have "table_steps pl T db db' \<and> (\<forall>ip. r = Inr ip \<longrightarrow> (\<exists>res n1 dev db0 dbr n0 cidr.
       ipam_resolve a n netblockName = (Inr res, n1) \<and> dev \<in> set (devices db0) \<and>
       (deviceName \<noteq> [] \<longrightarrow> dev_name dev = deviceName) \<and> table_steps pl T db db0 \<and>
       create_alloc False db0 (new_alloc ip (dev_id dev) now (rs_id res) via) = (CreateOk, db') \<and>
       firstFree False a n0 dbr (res\<lparr>rs_cidr := cidr\<rparr>) = (Inr ip, n')))"
    using ways
  proof cases
    case stop
    then show ?thesis using s1 s12 tss_refl by auto
  next
    case (loop res dev)
    have dev: "dev \<in> set (devices db1)" "deviceName \<noteq> [] \<Longrightarrow> dev_name dev = deviceName"
      using ensureDevice_in D loop(2) by blast+
    have dev2: "dev \<in> set (devices db2)" using dev(1) devices_mono [OF s2] by blast
    note L = alloc_loop_success [OF loop(3) assms(2,3) dev2]
    have "table_steps pl T db db'" using L s12 table_steps_trans by blast
    moreover have "\<exists>res n1 dev db0 dbr n0 cidr.
       ipam_resolve a n netblockName = (Inr res, n1) \<and> dev \<in> set (devices db0) \<and>
       (deviceName \<noteq> [] \<longrightarrow> dev_name dev = deviceName) \<and> table_steps pl T db db0 \<and>
       create_alloc False db0 (new_alloc ip (dev_id dev) now (rs_id res) via) = (CreateOk, db') \<and>
       firstFree False a n0 dbr (res\<lparr>rs_cidr := cidr\<rparr>) = (Inr ip, n')" if ip: "r = Inr ip" for ip
    proof -
      obtain db0 dbr n0 cidr where *: "table_steps pl T db2 db0"
        "create_alloc False db0 (new_alloc ip (dev_id dev) now (rs_id res) via) = (CreateOk, db')"
        "firstFree False a n0 dbr (res\<lparr>rs_cidr := cidr\<rparr>) = (Inr ip, n')" using L ip by blast
      have "table_steps pl T db db0" using *(1) s12 table_steps_trans by blast
      moreover have "dev \<in> set (devices db0)" using dev2 devices_mono [OF *(1)] by blast
      ultimately show ?thesis using * R loop(1) dev(2) by blast
    qed
    ultimately show ?thesis by blast
  qed
  then show "table_steps pl T db db'"
    and "r = Inr ip \<Longrightarrow> \<exists>res n1 dev db0 dbr n0 cidr.
       ipam_resolve a n netblockName = (Inr res, n1) \<and> dev \<in> set (devices db0) \<and>
       (deviceName \<noteq> [] \<longrightarrow> dev_name dev = deviceName) \<and> table_steps pl T db db0 \<and>
       create_alloc False db0 (new_alloc ip (dev_id dev) now (rs_id res) via) = (CreateOk, db') \<and>
       firstFree False a n0 dbr (res\<lparr>rs_cidr := cidr\<rparr>) = (Inr ip, n')" by blast+
qed

lemma AllocateSpecific_steps:
  assumes "AllocateSpecific flt a now db n deviceName addr via = (r, db', n')" "now < T"
  shows "table_steps pl T db db'"
proof -
  obtain dd db1 where D: "ensureDevice flt now db deviceName = (dd, db1)" by fastforce
  obtain pp db2 where P: "purgeExpiredQuarantine (flt 2) now db1 = (pp, db2)" by fastforce
  have s1: "table_steps pl T db db1" using D ts_device table_steps_one assms(2) by blast
  have s2: "table_steps pl T db1 db2" using P ts_purge table_steps_one assms(2) by blast
  have s12: "table_steps pl T db db2" using s1 s2 table_steps_trans by blast
  show ?thesis
  proof (cases dd)
    case (Inr dev)
    then have dev: "dev_id dev \<in> dev_id ` set (devices db2)"
      using D ensureDevice_in(1) devices_mono [OF s2] by blast
    obtain nid n1 where N: "netblockIDContaining a n addr = (nid, n1)" by fastforce
    obtain c db3 where C: "create_alloc (flt 3) db2 (new_alloc addr (dev_id dev) now
       (case nid of Some i \<Rightarrow> i | None \<Rightarrow> 0) via) = (c, db3)" by fastforce
    have s3: "table_steps pl T db db3"
      using table_steps_trans [OF table_steps_one [OF assms(2) ts_create [OF C dev]] s12] .
    show ?thesis using assms(1) D P Inr N C s3 s12 tss_refl unfolding AllocateSpecific_def
      by (auto simp: Let_def split: if_splits option.splits create_result.splits)
  qed (use assms(1) D s1 tss_refl in \<open>auto simp: AllocateSpecific_def split: if_splits\<close>)
qed

lemma firstFree_spec:
  fixes db :: ipam_db
  assumes "valid4 (rs_cidr res)" and "fill_carves a n res = (carves, n1)"
  defines "skip \<equiv> \<lambda>x. x \<in> set (pl_reserved (a_pool a)) \<or> x \<in> set (occupied db) \<or> inAnyCarve x carves"
  defines "free \<equiv> eligible (rs_cidr res) (pfx_addr (masked (rs_cidr res))) skip"
  shows "firstFree False a n db res = (Inl ErrPoolExhausted, n1) \<longleftrightarrow> (\<forall>v. \<not> free v)"
    and "firstFree False a n db res = (Inr ip, n') \<Longrightarrow> \<exists>u. ip = Addr4 u \<and> free u \<and> (\<forall>v. free v \<longrightarrow> unat u \<le> unat v)"
proof -
  obtain p b where m: "masked (rs_cidr res) = Prefix (Addr4 p) b" "0 \<le> b" "b \<le> 32" "mask4 b p = p"
    using aligned4_masked [OF assms(1)] by (rule aligned4E)
  have free: "free v \<longleftrightarrow> eligible (masked (rs_cidr res)) (Addr4 p) skip v" for v
    unfolding free_def eligible_def using m(1) contains_masked [OF assms(1)] by simp
  have cont: "contains_addr (masked (rs_cidr res)) (Addr4 p)"
    using contains_self [OF aligned4_valid4 [OF aligned4_masked [OF assms(1)]]] m(1) by simp
  have low: "free v \<Longrightarrow> unat p \<le> unat v" for v
    using contains4_interval [OF m(2,4), of v] unfolding free eligible_def m(1) by blast
  have scan: "free_scan (rs_cidr res) = free_scan (masked (rs_cidr res))"
  proof (intro ext)
    fix net sk x
    show "free_scan (rs_cidr res) net sk x = free_scan (masked (rs_cidr res)) net sk x"
      by (induction "rs_cidr res" net sk x rule: free_scan.induct)
         (subst (1 2) free_scan.simps, use contains_masked [OF assms(1)] in auto)
  qed
  note S = free_scan4 [OF aligned4_masked [OF assms(1)], of p "Addr4 p" skip, OF disjI1 [OF cont]]
  have ff: "firstFree False a n db res = (case free_scan (masked (rs_cidr res)) (Addr4 p) skip (Addr4 p) of
     Some x \<Rightarrow> (Inr x, n1) | None \<Rightarrow> (Inl ErrPoolExhausted, n1))"
    using assms(2) m(1) unfolding firstFree_def skip_def by (simp add: Let_def scan)
  show "firstFree False a n db res = (Inl ErrPoolExhausted, n1) \<longleftrightarrow> (\<forall>v. \<not> free v)"
    unfolding ff using S(1) low free by (auto split: option.splits)
  assume "firstFree False a n db res = (Inr ip, n')"
  then have "free_scan (masked (rs_cidr res)) (Addr4 p) skip (Addr4 p) = Some ip"
    unfolding ff by (auto split: option.splits)
  then obtain u where u: "ip = Addr4 u" "free u" "\<forall>v. unat p \<le> unat v \<and> unat v < unat u \<longrightarrow> \<not> free v"
    using S(2) free by blast
  then show "\<exists>u. ip = Addr4 u \<and> free u \<and> (\<forall>v. free v \<longrightarrow> unat u \<le> unat v)"
    using low by (metis not_le_imp_less)
qed

lemma set_parse_addrs: "set (parse_addrs ts) = {a. IpText a \<in> set ts}"
  by (induction ts rule: parse_addrs.induct) auto

lemma mem_occupied: "x \<in> set (occupied db) \<longleftrightarrow> (\<exists>q\<in>set (allocs db). al_ip q = IpText x)"
  by (auto simp: occupied_def set_parse_addrs image_iff) (metis)+

subsection \<open>What the allocator relies on from the netblock registry\<close>

text \<open>\<open>NetblockResolver\<close>, \<open>IDResolver\<close> and \<open>NetblockGrower\<close>: every resolved block is a valid IPv4
  range inside \<open>range\<close>; a grow stays inside it and can succeed only boundedly often (\<open>room\<close>).\<close>

locale netblock_provider =
  fixes ops :: "'n resolver_ops" and inv :: "'n \<Rightarrow> bool" and room :: "'n \<Rightarrow> string \<Rightarrow> nat" and range :: prefix
  assumes full_law: "ro_full ops = Some full \<Longrightarrow> inv n \<Longrightarrow> full n name = (r, n') \<Longrightarrow>
      inv n' \<and> room n' = room n \<and>
      (\<forall>res. r = Some res \<longrightarrow> valid4 (rs_cidr res) \<and> addrs_of (rs_cidr res) \<subseteq> addrs_of range)"
    and resolve_law: "inv n \<Longrightarrow> ro_resolve ops n name = (p, n') \<Longrightarrow>
      inv n' \<and> room n' = room n \<and> (\<forall>q. p = Some q \<longrightarrow> valid4 q \<and> addrs_of q \<subseteq> addrs_of range)"
    and carves_law: "inv n \<Longrightarrow> ro_carves ops n = (cs, n') \<Longrightarrow> inv n' \<and> room n' = room n"
    and grow_law: "ro_grow ops = Some grow \<Longrightarrow> inv n \<Longrightarrow> grow n db name actor = (p, n') \<Longrightarrow>
      inv n' \<and> (\<forall>q. p = Some q \<longrightarrow> room n' name < room n name \<and> valid4 q \<and> addrs_of q \<subseteq> addrs_of range)"
    and room_le: "room n name \<le> 32"
begin

lemma firstFree_keeps:
  assumes "a_resolver a = Some ops" "inv n" "firstFree f a n db res = (r, n')"
  shows "inv n' \<and> room n' = room n"
  using assms carves_law
  by (auto simp: firstFree_def fill_carves_def Let_def split: if_splits prod.splits option.splits)

lemma ipam_resolve_keeps:
  assumes "a_resolver a = Some ops" "inv n" "ipam_resolve a n name = (r, n')"
  shows "inv n' \<and> room n' = room n \<and>
    (\<forall>res. r = Inr res \<longrightarrow> valid4 (rs_cidr res) \<and> addrs_of (rs_cidr res) \<subseteq> addrs_of range)"
proof (cases "ro_full ops")
  case None
  obtain p n1 where p: "ro_resolve ops n name = (p, n1)" by fastforce
  show ?thesis using assms None p resolve_law [OF assms(2) p]
    by (auto simp: ipam_resolve_def plain_resolved_def split: option.splits)
next
  case (Some full)
  obtain r1 n1 where f1: "full n name = (r1, n1)" by fastforce
  obtain r2 n2 where f2: "full n1 NameDefault = (r2, n2)" by fastforce
  note F1 = full_law [OF Some assms(2) f1]
  have F2: "inv n2 \<and> room n2 = room n1 \<and>
      (\<forall>res. r2 = Some res \<longrightarrow> valid4 (rs_cidr res) \<and> addrs_of (rs_cidr res) \<subseteq> addrs_of range)"
    using full_law [OF Some _ f2] F1 by blast
  show ?thesis using assms(1,3) Some f1 f2 F1 F2
    by (auto simp: ipam_resolve_def split: option.splits if_splits)
qed

text \<open>Without interference an attempt's insert cannot collide, and the grows run out before the attempts.\<close>

lemma alloc_loop_uncontended:
  assumes "a_resolver a = Some ops" "inv n" "valid4 (rs_cidr res)" "room n (rs_name res) < left"
    and "alloc_loop flt (\<lambda>_ d. d) a now dev via left res db n = (r, db', n')"
  shows "r \<noteq> Inl ErrContended"
  using assms(2-)
proof (induction left arbitrary: n res db)
  case (Suc left)
  from Suc.prems(4) show ?case
  proof (cases rule: alloc_loop_SucE)
    case (grown grow n1 n2 p)
    have g: "ro_grow ops = Some grow" using grown(3) assms(1) by (simp add: a_grower_def)
    have k: "inv n1" "room n1 = room n" using firstFree_keeps [OF assms(1) Suc.prems(1) grown(1)] by auto
    note G = grow_law [OF g k(1) grown(4)]
    show ?thesis using Suc.IH [OF _ _ _ grown(6)] G Suc.prems(3) k(2) by auto
  next
    case (insert ip n1 c db1)
    have "c \<noteq> CreateDup"
    proof
      assume "c = CreateDup"
      then have occ: "ip \<in> set (occupied db)"
        using insert(2) by (auto simp: mem_occupied create_alloc_def new_alloc_def list_ex_iff split: if_splits)
      have nf: "\<not> flt (2 * left)" using insert(1) by (auto simp: firstFree_def)
      obtain cs n2 where fc: "fill_carves a n res = (cs, n2)" by fastforce
      from firstFree_spec(2) [OF Suc.prems(2) fc, of db ip n1] insert(1) nf occ show False
        by (auto simp: eligible_def)
    qed
    then show ?thesis using insert(3) by auto
  qed auto
qed simp

lemma alloc_loop_in_range:
  assumes "a_resolver a = Some ops" "inv n" "valid4 (rs_cidr res)" "addrs_of (rs_cidr res) \<subseteq> addrs_of range"
    and "alloc_loop flt others a now dev via left res db n = (Inr ip, db', n')"
  shows "ip \<in> addrs_of range"
  using assms(2-)
proof (induction left arbitrary: n res db)
  case (Suc left)
  from Suc.prems(4) show ?case
  proof (cases rule: alloc_loop_SucE)
    case (grown grow n1 n2 p)
    have g: "ro_grow ops = Some grow" using grown(3) assms(1) by (simp add: a_grower_def)
    have k: "inv n1" using firstFree_keeps [OF assms(1) Suc.prems(1) grown(1)] by auto
    show ?thesis using Suc.IH [OF _ _ _ grown(6)] grow_law [OF g k grown(4)] by auto
  next
    case (insert x n1 c db1)
    have k: "inv n1" using firstFree_keeps [OF assms(1) Suc.prems(1) insert(1)] by auto
    have nf: "\<not> flt (2 * left)" using insert(1) by (auto simp: firstFree_def)
    obtain cs n2 where fc: "fill_carves a n res = (cs, n2)" by fastforce
    have "x \<in> addrs_of (rs_cidr res)"
      using firstFree_spec(2) [OF Suc.prems(2) fc, of db x n1] insert(1) nf by (auto simp: eligible_def addrs_of_def)
    then show ?thesis using insert(3) Suc.IH [of n1 res db1] k Suc.prems(2,3) by auto
  qed auto
qed simp

lemma Allocate_loopE:
  assumes "Allocate flt others a now db n deviceName netblockName via = (r, db', n')" "r = Inr ip \<or> r = Inl ErrContended"
  obtains res n1 dev db1 db2 where "ipam_resolve a n netblockName = (Inr res, n1)"
    "ensureDevice flt now db deviceName = (Inr dev, db1)" "purgeExpiredQuarantine (flt 2) now db1 = (None, db2)"
    "alloc_loop (skip_faults 3 flt) others a now dev via maxAllocAttempts res db2 n1 = (r, db', n')"
  | "ipam_resolve a n netblockName = (Inl ErrContended, n')"
  using assms unfolding Allocate_def
  by (auto simp: ensureDevice_def purgeExpiredQuarantine_def Let_def split: sum.splits option.splits if_splits prod.splits)

lemma resolve_not_contended: "a_resolver a = Some ops \<Longrightarrow> ipam_resolve a n name \<noteq> (Inl ErrContended, n')"
  by (auto simp: ipam_resolve_def split: option.splits prod.splits if_splits)

lemma Allocate_uncontended:
  assumes "a_resolver a = Some ops" "inv n"
  shows "fst (Allocate flt (\<lambda>_ d. d) a now db n deviceName netblockName via) \<noteq> Inl ErrContended"
proof
  assume "fst (Allocate flt (\<lambda>_ d. d) a now db n deviceName netblockName via) = Inl ErrContended"
  then obtain db' n' where "Allocate flt (\<lambda>_ d. d) a now db n deviceName netblockName via = (Inl ErrContended, db', n')"
    by (metis prod.collapse)
  then show False
  proof (rule Allocate_loopE [where ip = AddrNone])
    fix res n1 dev db1 db2
    assume R: "ipam_resolve a n netblockName = (Inr res, n1)"
      and L: "alloc_loop (skip_faults 3 flt) (\<lambda>_ d. d) a now dev via maxAllocAttempts res db2 n1 = (Inl ErrContended, db', n')"
    have "room n1 (rs_name res) < maxAllocAttempts"
      using room_le [of n1 "rs_name res"] by (simp add: maxAllocAttempts_def)
    then show False
      using alloc_loop_uncontended [OF assms(1) _ _ _ L] ipam_resolve_keeps [OF assms R] by blast
  qed (use resolve_not_contended [OF assms(1)] in auto)
qed

lemma Allocate_in_range:
  assumes "a_resolver a = Some ops" "inv n"
    and "Allocate flt others a now db n deviceName netblockName via = (Inr ip, db', n')"
  shows "ip \<in> addrs_of range"
  using assms(3)
proof (rule Allocate_loopE)
  fix res n1 dev db1 db2
  assume R: "ipam_resolve a n netblockName = (Inr res, n1)"
    and L: "alloc_loop (skip_faults 3 flt) others a now dev via maxAllocAttempts res db2 n1 = (Inr ip, db', n')"
  show ?thesis using alloc_loop_in_range [OF assms(1) _ _ _ L] ipam_resolve_keeps [OF assms(1,2) R] by blast
qed (use resolve_not_contended [OF assms(1)] in auto)

end

text \<open>The join-source guard: no allocation from the ranges of \<open>forbidden\<close> (control-plane space).\<close>

locale guarded_provider = netblock_provider +
  fixes forbidden :: "addr set"
  assumes has_full: "ro_full ops \<noteq> None"
    and full_guard: "ro_full ops = Some full \<Longrightarrow> inv n \<Longrightarrow> full n name = (Some res, n') \<Longrightarrow> \<not> rs_reserved res \<Longrightarrow>
      addrs_of (rs_cidr res) \<inter> forbidden = {}"
    and default_guard: "ro_full ops = Some full \<Longrightarrow> inv n \<Longrightarrow> full n name = (Some res, n1) \<Longrightarrow>
      full n1 NameDefault = (r, n2) \<Longrightarrow> \<exists>d. r = Some d \<and> \<not> rs_reserved d"
    and grow_guard: "ro_grow ops = Some grow \<Longrightarrow> inv n \<Longrightarrow> grow n db name actor = (Some q, n') \<Longrightarrow>
      addrs_of q \<inter> forbidden = {}"
begin

lemma ipam_resolve_guarded:
  assumes "a_resolver a = Some ops" "inv n" "ipam_resolve a n name = (Inr res, n')"
  shows "addrs_of (rs_cidr res) \<inter> forbidden = {}"
proof -
  obtain full where full: "ro_full ops = Some full" using has_full by blast
  obtain r1 n1 where f1: "full n name = (r1, n1)" by fastforce
  obtain r2 n2 where f2: "full n1 NameDefault = (r2, n2)" by fastforce
  have inv1: "inv n1" using full_law [OF full assms(2) f1] by blast
  obtain res1 where r1: "r1 = Some res1" using assms(1,3) full f1
    by (cases r1) (auto simp: ipam_resolve_def)
  obtain d where d: "r2 = Some d" "\<not> rs_reserved d" using default_guard [OF full assms(2) f1 [unfolded r1] f2] by blast
  show ?thesis
    using assms(1,3) full f1 f2 r1 d full_guard [OF full assms(2) f1 [unfolded r1]] full_guard [OF full inv1 f2 [unfolded d(1)] d(2)]
    by (auto simp: ipam_resolve_def split: if_splits)
qed

lemma alloc_loop_guarded:
  assumes "a_resolver a = Some ops" "inv n" "valid4 (rs_cidr res)" "addrs_of (rs_cidr res) \<inter> forbidden = {}"
    and "alloc_loop flt others a now dev via left res db n = (Inr ip, db', n')"
  shows "ip \<notin> forbidden"
  using assms(2-)
proof (induction left arbitrary: n res db)
  case (Suc left)
  from Suc.prems(4) show ?case
  proof (cases rule: alloc_loop_SucE)
    case (grown grow n1 n2 p)
    have g: "ro_grow ops = Some grow" using grown(3) assms(1) by (simp add: a_grower_def)
    have k: "inv n1" using firstFree_keeps [OF assms(1) Suc.prems(1) grown(1)] by auto
    show ?thesis using Suc.IH [OF _ _ _ grown(6)] grow_law [OF g k grown(4)] grow_guard [OF g k grown(4)] by auto
  next
    case (insert x n1 c db1)
    have k: "inv n1" using firstFree_keeps [OF assms(1) Suc.prems(1) insert(1)] by auto
    have nf: "\<not> flt (2 * left)" using insert(1) by (auto simp: firstFree_def)
    obtain cs n2 where fc: "fill_carves a n res = (cs, n2)" by fastforce
    have "x \<in> addrs_of (rs_cidr res)"
      using firstFree_spec(2) [OF Suc.prems(2) fc, of db x n1] insert(1) nf by (auto simp: eligible_def addrs_of_def)
    then show ?thesis using insert(3) Suc.IH [of n1 res db1] k Suc.prems(2,3) by auto
  qed auto
qed simp

lemma Allocate_avoids_forbidden:
  assumes "a_resolver a = Some ops" "inv n"
    and "Allocate flt others a now db n deviceName netblockName via = (Inr ip, db', n')"
  shows "ip \<notin> forbidden"
  using assms(3)
proof (rule Allocate_loopE)
  fix res n1 dev db1 db2
  assume R: "ipam_resolve a n netblockName = (Inr res, n1)"
    and L: "alloc_loop (skip_faults 3 flt) others a now dev via maxAllocAttempts res db2 n1 = (Inr ip, db', n')"
  show ?thesis
    using alloc_loop_guarded [OF assms(1) _ _ _ L] ipam_resolve_keeps [OF assms(1,2) R] ipam_resolve_guarded [OF assms(1,2) R]
    by blast
qed (use resolve_not_contended [OF assms(1)] in auto)

end

subsection \<open>Leases\<close>

lemma filter_unique:
  assumes "distinct (map key rows)" "r \<in> set rows"
  shows "filter (\<lambda>q. key q = key r) rows = [r]"
  using assms by (induction rows) (auto simp: filter_empty_conv image_iff)

lemma Release_held:
  assumes "Release False pl t db ip = (None, db1)" "0 < pl_quarantine_ttl pl"
  shows "held ip (t + pl_quarantine_ttl pl) db1"
proof -
  define f where "f = (\<lambda>r. r\<lparr>al_state := stateQuarantined, al_released_at := t,
    al_quarantine_until := t + pl_quarantine_ttl pl\<rparr> :: allocation)"
  define hit where "hit = (\<lambda>r :: allocation. al_ip r = IpText ip \<and> al_state r = stateAllocated)"
  have db1: "db1 = db\<lparr>allocs := update_where hit f (allocs db)\<rparr>" and n: "count_where hit (allocs db) \<noteq> 0"
    using assms unfolding Release_def hit_def f_def by (auto simp: Let_def split: if_splits)
  obtain x where "x \<in> set (allocs db)" "hit x" using n by (auto simp: count_where_0_iff)
  then have "f x \<in> set (allocs db1)" "al_ip x = IpText ip" unfolding db1 by (auto simp: set_update_where hit_def)
  then show ?thesis unfolding held_def by (intro bexI [of _ "f x"]) (simp_all add: f_def)
qed

text \<open>
  C12: when \<open>Allocate\<close> returns an address, whatever the other allocators of the fleet did to the tables
  meanwhile, the address is not one of the pool's reserved ones, exactly one row of the lease table
  carries it, and that row is a live lease of the requesting device with the given join method.
\<close>

theorem Allocate_grants_exclusive_lease:
  assumes "Allocate flt others a now db n deviceName netblockName via = (Inr ip, db', n')"
    and "ipam_wf db" and "\<forall>k d. table_steps pl T d (others k d)" and "now < T"
  shows "ipam_wf db' \<and> ip \<notin> set (pl_reserved (a_pool a)) \<and>
    (\<exists>r dev. filter (\<lambda>q. al_ip q = IpText ip) (allocs db') = [r] \<and> al_state r = stateAllocated \<and>
       al_allocated_at r = now \<and> al_method r = via \<and>
       dev \<in> set (devices db') \<and> al_device r = dev_id dev \<and> (deviceName \<noteq> [] \<longrightarrow> dev_name dev = deviceName))"
proof -
  have oth: "\<And>k d. table_steps pl T d (others k d)" using assms(3) by blast
  obtain res n1 dev db0 dbr n0 cidr where D: "dev \<in> set (devices db0)" "deviceName \<noteq> [] \<longrightarrow> dev_name dev = deviceName"
    and C: "create_alloc False db0 (new_alloc ip (dev_id dev) now (rs_id res) via) = (CreateOk, db')"
    and F: "firstFree False a n0 dbr (res\<lparr>rs_cidr := cidr\<rparr>) = (Inr ip, n')"
    using Allocate_steps(2) [OF assms(1) oth assms(4) refl] by blast
  have wf: "ipam_wf db'" using Allocate_steps(1) [OF assms(1) oth assms(4)] assms(2) wf_table_steps by blast
  have nr: "ip \<notin> set (pl_reserved (a_pool a))"
    using F by (auto simp: firstFree_def Let_def split: prod.splits option.splits dest!: free_scan_Some)
  define r where "r = (new_alloc ip (dev_id dev) now (rs_id res) via)\<lparr>al_id := alloc_seq db0\<rparr>"
  have db': "db' = db0\<lparr>allocs := allocs db0 @ [r], alloc_seq := alloc_seq db0 + 1\<rparr>"
    using create_alloc_Ok(3) [OF C] by (simp add: r_def)
  have r: "r \<in> set (allocs db')" "al_ip r = IpText ip" unfolding db' r_def by (simp_all add: new_alloc_def)
  have "filter (\<lambda>q. al_ip q = IpText ip) (allocs db') = [r]"
    using filter_unique [of al_ip "allocs db'" r] wf r by (simp add: ipam_wf_def)
  then show ?thesis using wf nr D unfolding db' r_def by (auto simp: new_alloc_def)
qed

text \<open>
  C29: an address released with a quarantine window is not handed out again before the window ends:
  whatever statements the fleet executes in between, \<open>Allocate\<close> does not return it, \<open>AllocateSpecific\<close>
  refuses it, and its row is still held.
\<close>

theorem quarantine_blocks_reuse:
  assumes "Release False pl t db ip = (None, db1)" and "0 < pl_quarantine_ttl pl"
    and "table_steps pl (t + pl_quarantine_ttl pl) db1 db2" and "now < t + pl_quarantine_ttl pl"
    and "\<forall>k d. table_steps pl (t + pl_quarantine_ttl pl) d (others k d)"
  shows "fst (Allocate flt others a now db2 n deviceName netblockName via) \<noteq> Inr ip \<and>
    fst (AllocateSpecific flt a now db2 n deviceName ip via) \<noteq> None \<and>
    held ip (t + pl_quarantine_ttl pl) (fst (snd (Allocate flt others a now db2 n deviceName netblockName via)))"
proof -
  define q where "q = t + pl_quarantine_ttl pl"
  have oth: "\<And>k d. table_steps pl q d (others k d)" using assms(5) q_def by blast
  have nq: "now < q" using assms(4) q_def by simp
  have "held ip q db1"
    using Release_held assms(1,2) q_def by blast
  then have h2: "held ip q db2" using held_steps assms(2,3) q_def by blast
  have keep: "held ip q d" if "table_steps pl q db2 d" for d using held_steps [OF that h2] assms(2) by simp
  have taken: "fst (create_alloc f d (new_alloc ip dv now nb m)) \<noteq> CreateOk" if "held ip q d" for f d dv nb m
    using that by (auto simp: held_def create_alloc_def new_alloc_def list_ex_iff)
  obtain r db3 n' where A: "Allocate flt others a now db2 n deviceName netblockName via = (r, db3, n')" by (metis prod_cases3)
  have "r \<noteq> Inr ip"
  proof
    assume "r = Inr ip"
    then obtain res :: resolved and n1 and dev :: device and db0 dbr n0 cidr where "table_steps pl q db2 db0"
      and c: "create_alloc False db0 (new_alloc ip (dev_id dev) now (rs_id res) via) = (CreateOk, db3)"
      using Allocate_steps(2) [OF A oth nq] by blast
    then show False using taken [OF keep, of db0 False] c by (metis fst_conv)
  qed
  moreover have "held ip q db3" using Allocate_steps(1) [OF A oth nq] keep by blast
  moreover have "fst (AllocateSpecific flt a now db2 n deviceName ip via) \<noteq> None"
  proof -
    obtain dd da where D: "ensureDevice flt now db2 deviceName = (dd, da)" by fastforce
    obtain pp dp where P: "purgeExpiredQuarantine (flt 2) now da = (pp, dp)" by fastforce
    have "table_steps pl q db2 da" using D ts_device table_steps_one nq by blast
    moreover have "table_steps pl q da dp" using P ts_purge table_steps_one nq by blast
    ultimately have "held ip q dp" using keep table_steps_trans by blast
    then show ?thesis using D P taken [of dp] unfolding AllocateSpecific_def
      by (auto simp: Let_def split: sum.splits option.splits prod.splits create_result.splits) (metis fst_conv)+
  qed
  ultimately show ?thesis using A q_def by simp
qed

subsection \<open>Concrete runs\<close>

definition demo_pl :: pool where
  "demo_pl = \<lparr>pl_prefix = Prefix (Addr4 0x0A2C0000) 29, pl_subranges = [], pl_reserved = [Addr4 0x0A2C0001],
     pl_quarantine_ttl = 100\<rparr>"

definition demo_allocator :: "unit allocator" where
  "demo_allocator = \<lparr>a_pool = demo_pl, a_resolver = None\<rparr>"

definition demo_tables :: ipam_db where
  "demo_tables = \<lparr>devices = [\<lparr>dev_id = 1, dev_name = ''web-1'', dev_created_at = 0\<rparr>], dev_seq = 2,
     allocs = [(new_alloc (Addr4 0x0A2C0002) 1 0 0 ''token'')\<lparr>al_id := 1\<rparr>], alloc_seq = 2, ipam_events = []\<rparr>"

lemma demo_tables_wf: "ipam_wf demo_tables"
  by code_simp

theorem Allocate_grants_exclusive_lease_witness:
  "\<exists>db' n'. Allocate no_faults (\<lambda>_ d. d) demo_allocator 5 demo_tables () ''web-2'' [] ''token'' = (Inr (Addr4 0x0A2C0003), db', n') \<and>
     ipam_wf db' \<and> (\<exists>r. filter (\<lambda>q. al_ip q = IpText (Addr4 0x0A2C0003)) (allocs db') = [r])"
proof -
  obtain r db' n' where A: "Allocate no_faults (\<lambda>_ d. d) demo_allocator 5 demo_tables () ''web-2'' [] ''token'' = (r, db', n')"
    by (metis prod_cases3)
  have "fst (Allocate no_faults (\<lambda>_ d. d) demo_allocator 5 demo_tables () ''web-2'' [] ''token'') = Inr (Addr4 0x0A2C0003)"
    by code_simp
  then have A': "Allocate no_faults (\<lambda>_ d. d) demo_allocator 5 demo_tables () ''web-2'' [] ''token'' = (Inr (Addr4 0x0A2C0003), db', n')"
    using A by simp
  have "\<forall>k d. table_steps demo_pl 6 d ((\<lambda>_ d. d) k d)" by (simp add: tss_refl)
  from Allocate_grants_exclusive_lease [OF A' demo_tables_wf this] show ?thesis using A' by auto
qed

theorem quarantine_blocks_reuse_witness:
  "\<exists>db1. Release False demo_pl 10 demo_tables (Addr4 0x0A2C0002) = (None, db1) \<and>
     fst (Allocate no_faults (\<lambda>_ d. d) demo_allocator 109 db1 () ''web-2'' [] ''token'') \<noteq> Inr (Addr4 0x0A2C0002)"
proof -
  obtain r db1 where R: "Release False demo_pl 10 demo_tables (Addr4 0x0A2C0002) = (r, db1)" by fastforce
  have "fst (Release False demo_pl 10 demo_tables (Addr4 0x0A2C0002)) = None" by code_simp
  then have R': "Release False demo_pl 10 demo_tables (Addr4 0x0A2C0002) = (None, db1)" using R by simp
  have t: "0 < pl_quarantine_ttl demo_pl" "(109::int) < 10 + pl_quarantine_ttl demo_pl" by (simp_all add: demo_pl_def)
  have "\<forall>k d. table_steps demo_pl (10 + pl_quarantine_ttl demo_pl) d ((\<lambda>_ d. d) k d)" by (simp add: tss_refl)
  from quarantine_blocks_reuse [OF R' t(1) tss_refl t(2) this, where a = demo_allocator and flt = no_faults and n = "()"
      and deviceName = "''web-2''" and netblockName = "[]" and via = "''token''"] R'
  show ?thesis by blast
qed

end
