(* ===== verification/Netblock.thy ===== *)
theory Netblock
  imports Ipam "HOL-Library.AList"
begin

text \<open>
  \<open>internal/netblock/netblock.go\<close>: the registry of named, non-overlapping CIDRs.  The table
  (\<open>netblock_db\<close>) is shared by every process, the resolver cache and its generation counter
  (\<open>registry\<close>) belong to one process.  \<open>live\<close> is what the wired \<open>LiveAddrs\<close> hook returns
  (\<open>None\<close> when no hook is wired, \<open>Some None\<close> when the call fails).
\<close>

text \<open>The \<open>cidr\<close> column by what \<open>netip.ParsePrefix\<close> makes of it; \<open>CidrText p\<close> is \<open>p.String()\<close>.\<close>

datatype cidr_text = CidrText prefix | CidrBad string

definition KindReserved :: string where "KindReserved = ''reserved''"
definition KindDefault :: string where "KindDefault = ''default''"
definition KindNamed :: string where "KindNamed = ''named''"
definition MarginBits :: int where "MarginBits = 3"
definition EnvelopeFloor :: int where "EnvelopeFloor = 24"

datatype nb_err = NbNotFound | NbExists | NbNoName | NbBadCIDR | NbOutOfPool | NbOverlap | NbProtected
  | NbStranded | NbPoolFull | NbBadPrefixLen | NbReservedKind | NbSeedKind | NbGrowKind | NbDb

record netblock =
  nb_id :: int
  nb_name :: string
  nb_cidr :: cidr_text
  nb_kind :: string
  nb_description :: string
  nb_protected :: bool
  nb_created_at :: time_ns
  nb_created_by :: string

datatype nb_audit = AuditSeed string string prefix string | AuditAutogrow string string prefix

record netblock_db =
  nb_rows :: "netblock list"
  nb_seq :: int
  nb_log :: "nb_audit list"

record resolver_cache =
  rc_by_name :: "(string \<times> prefix) list"
  rc_rows :: "(string \<times> netblock) list"
  rc_all :: "prefix list"
  rc_named :: "prefix list"

record registry =
  rg_pool :: prefix
  rg_reserved :: "addr list"
  rg_audit :: bool
  rg_cache :: "resolver_cache option"
  rg_gen :: "64 word"

type_synonym live_hook = "addr list option option"

definition nb_prefix :: "netblock \<Rightarrow> prefix" where
  "nb_prefix r = (case nb_cidr r of CidrText p \<Rightarrow> masked p | CidrBad _ \<Rightarrow> zero_prefix)"

definition nb_New :: "prefix \<Rightarrow> addr list \<Rightarrow> bool \<Rightarrow> registry" where
  "nb_New pl reserved audit =
     \<lparr>rg_pool = masked pl, rg_reserved = reserved, rg_audit = audit, rg_cache = None, rg_gen = 0\<rparr>"

definition nb_List :: "bool \<Rightarrow> netblock_db \<Rightarrow> nb_err + netblock list" where
  "nb_List fails db = (if fails then Inl NbDb else Inr (rev (nb_rows db)))"

definition nb_Count :: "bool \<Rightarrow> netblock_db \<Rightarrow> nb_err + nat" where
  "nb_Count fails db = (if fails then Inl NbDb else Inr (length (nb_rows db)))"

definition nb_Get :: "bool \<Rightarrow> netblock_db \<Rightarrow> string \<Rightarrow> nb_err + netblock" where
  "nb_Get fails db name =
     (if fails then Inl NbDb
      else case first_where (\<lambda>r. nb_name r = name) (nb_rows db) of
        None \<Rightarrow> Inl NbNotFound | Some r \<Rightarrow> Inr r)"

definition prefixInside :: "prefix \<Rightarrow> prefix \<Rightarrow> bool" where
  "prefixInside inner outer \<longleftrightarrow>
     pfx_bits inner \<ge> pfx_bits outer \<and> contains_addr outer (pfx_addr (masked inner))"

definition invalidate :: "registry \<Rightarrow> registry" where
  "invalidate rg = rg\<lparr>rg_cache := None, rg_gen := rg_gen rg + 1\<rparr>"

definition validateCIDR :: "bool \<Rightarrow> registry \<Rightarrow> netblock_db \<Rightarrow> prefix \<Rightarrow> string \<Rightarrow> nb_err option" where
  "validateCIDR fails rg db cidr0 excludeName =
     (if \<not> is_valid cidr0 \<or> \<not> is4 (pfx_addr cidr0) then Some NbBadCIDR
      else let cidr = masked cidr0 in
        if \<not> prefixInside cidr (rg_pool rg) then Some NbOutOfPool
        else if list_ex (\<lambda>res. contains_addr cidr res) (rg_reserved rg) then Some NbOverlap
        else case nb_List fails db of
          Inl e \<Rightarrow> Some e
        | Inr rows \<Rightarrow>
            if list_ex (\<lambda>row. nb_name row \<noteq> excludeName \<and> is_valid (nb_prefix row) \<and> overlaps cidr (nb_prefix row)) rows
            then Some NbOverlap else None)"

definition checkNoStranded :: "live_hook \<Rightarrow> prefix \<Rightarrow> prefix \<Rightarrow> nb_err option" where
  "checkNoStranded live oldRange newRange =
     (case live of
        None \<Rightarrow> None
      | Some None \<Rightarrow> Some NbDb
      | Some (Some addrs) \<Rightarrow>
          if list_ex (\<lambda>a. is_valid oldRange \<and> contains_addr oldRange a \<and>
                         (\<not> is_valid newRange \<or> \<not> contains_addr newRange a)) addrs
          then Some NbStranded else None)"

definition rangeFree :: "bool \<Rightarrow> registry \<Rightarrow> netblock_db \<Rightarrow> live_hook \<Rightarrow> prefix \<Rightarrow> string \<Rightarrow> nb_err + bool" where
  "rangeFree fails rg db live rng excludeName =
     (if list_ex (\<lambda>res. contains_addr rng res) (rg_reserved rg) then Inr False
      else case nb_List fails db of
        Inl e \<Rightarrow> Inl e
      | Inr rows \<Rightarrow>
          if list_ex (\<lambda>row. nb_name row \<noteq> excludeName \<and> is_valid (nb_prefix row) \<and> overlaps rng (nb_prefix row)) rows
          then Inr False
          else case live of
            None \<Rightarrow> Inr True
          | Some None \<Rightarrow> Inl NbDb
          | Some (Some addrs) \<Rightarrow> Inr (\<not> list_ex (\<lambda>a. contains_addr rng a) addrs))"

definition nb_create :: "bool \<Rightarrow> netblock_db \<Rightarrow> netblock \<Rightarrow> create_result \<times> netblock \<times> netblock_db" where
  "nb_create fails db row =
     (if fails then (CreateFail, row, db)
      else if list_ex (\<lambda>q. nb_name q = nb_name row) (nb_rows db) then (CreateDup, row, db)
      else let row' = row\<lparr>nb_id := nb_seq db\<rparr> in
        (CreateOk, row', db\<lparr>nb_rows := nb_rows db @ [row'], nb_seq := nb_seq db + 1\<rparr>))"

definition nb_recordAudit :: "bool \<Rightarrow> registry \<Rightarrow> nb_audit \<Rightarrow> netblock_db \<Rightarrow> netblock_db" where
  "nb_recordAudit fails rg entry db =
     (if \<not> rg_audit rg \<or> fails then db else db\<lparr>nb_log := nb_log db @ [entry]\<rparr>)"

text \<open>\<open>Add\<close> reads the table first and inserts afterwards, without a transaction: the two phases are
  separate definitions, and \<open>nb_Add\<close> is their uninterrupted composition.\<close>

definition nb_Add_check :: "bool \<Rightarrow> registry \<Rightarrow> netblock_db \<Rightarrow> string \<Rightarrow> prefix \<Rightarrow> nb_err option" where
  "nb_Add_check fails rg db name cidr =
     (if name = [] then Some NbNoName
      else if name = NameCentral \<or> name = NameDefault then Some NbReservedKind
      else validateCIDR fails rg db cidr [])"

definition nb_Add_write ::
  "bool \<Rightarrow> time_ns \<Rightarrow> registry \<Rightarrow> netblock_db \<Rightarrow> string \<Rightarrow> prefix \<Rightarrow> string \<Rightarrow> string \<Rightarrow>
   (nb_err + netblock) \<times> netblock_db \<times> registry" where
  "nb_Add_write fails now rg db name cidr description actor =
     (let row = \<lparr>nb_id = 0, nb_name = name, nb_cidr = CidrText (masked cidr), nb_kind = KindNamed,
                 nb_description = description, nb_protected = False, nb_created_at = now, nb_created_by = actor\<rparr> in
      case nb_create fails db row of
        (CreateOk, row', db') \<Rightarrow> (Inr row', db', invalidate rg)
      | (CreateDup, _, _) \<Rightarrow> (Inl NbExists, db, rg)
      | (CreateFail, _, _) \<Rightarrow> (Inl NbDb, db, rg))"

definition nb_Add ::
  "faults \<Rightarrow> time_ns \<Rightarrow> registry \<Rightarrow> netblock_db \<Rightarrow> string \<Rightarrow> prefix \<Rightarrow> string \<Rightarrow> string \<Rightarrow>
   (nb_err + netblock) \<times> netblock_db \<times> registry" where
  "nb_Add flt now rg db name cidr description actor =
     (case nb_Add_check (flt 0) rg db name cidr of
        Some e \<Rightarrow> (Inl e, db, rg)
      | None \<Rightarrow> nb_Add_write (flt 1) now rg db name cidr description actor)"

definition nb_Seed ::
  "faults \<Rightarrow> time_ns \<Rightarrow> registry \<Rightarrow> netblock_db \<Rightarrow> string \<Rightarrow> prefix \<Rightarrow> string \<Rightarrow> string \<Rightarrow> string \<Rightarrow>
   (nb_err + netblock) \<times> netblock_db \<times> registry" where
  "nb_Seed flt now rg db name cidr kind description actor =
     (if name = [] then (Inl NbNoName, db, rg)
      else if kind \<noteq> KindReserved \<and> kind \<noteq> KindDefault then (Inl NbSeedKind, db, rg)
      else case nb_Get (flt 0) db name of
        Inr existing \<Rightarrow> (Inr existing, db, rg)
      | Inl e \<Rightarrow>
          if e \<noteq> NbNotFound then (Inl e, db, rg)
          else case validateCIDR (flt 1) rg db cidr [] of
            Some e' \<Rightarrow> (Inl e', db, rg)
          | None \<Rightarrow>
              (let row = \<lparr>nb_id = 0, nb_name = name, nb_cidr = CidrText (masked cidr), nb_kind = kind,
                          nb_description = description, nb_protected = True, nb_created_at = now,
                          nb_created_by = actor\<rparr> in
               case nb_create (flt 2) db row of
                 (CreateDup, _, _) \<Rightarrow> (nb_Get (flt 3) db name, db, rg)
               | (CreateFail, _, _) \<Rightarrow> (Inl NbDb, db, rg)
               | (CreateOk, row', db') \<Rightarrow>
                   (Inr row',
                    nb_recordAudit (flt 3) rg (AuditSeed actor name (masked cidr) kind) db',
                    invalidate rg)))"

definition nb_Update ::
  "faults \<Rightarrow> registry \<Rightarrow> netblock_db \<Rightarrow> live_hook \<Rightarrow> string \<Rightarrow> prefix \<Rightarrow> string \<Rightarrow> string \<Rightarrow>
   (nb_err + netblock) \<times> netblock_db \<times> registry" where
  "nb_Update flt rg db live name cidr description actor =
     (case nb_Get (flt 0) db name of
        Inl e \<Rightarrow> (Inl e, db, rg)
      | Inr row \<Rightarrow>
          if nb_protected row then (Inl NbProtected, db, rg)
          else case validateCIDR (flt 1) rg db cidr name of
            Some e \<Rightarrow> (Inl e, db, rg)
          | None \<Rightarrow>
              (case checkNoStranded live (nb_prefix row) (masked cidr) of
                 Some e \<Rightarrow> (Inl e, db, rg)
               | None \<Rightarrow>
                   (let hit = (\<lambda>r. nb_name r = name \<and> nb_cidr r = CidrText (nb_prefix row));
                        set_cols = (\<lambda>r. r\<lparr>nb_cidr := CidrText (masked cidr), nb_description := description\<rparr>) in
                    if flt 2 then (Inl NbDb, db, rg)
                    else if count_where hit (nb_rows db) = 0 then (Inl NbNotFound, db, rg)
                    else (Inr (set_cols row), db\<lparr>nb_rows := update_where hit set_cols (nb_rows db)\<rparr>, invalidate rg))))"

definition nb_Remove ::
  "faults \<Rightarrow> registry \<Rightarrow> netblock_db \<Rightarrow> live_hook \<Rightarrow> string \<Rightarrow> string \<Rightarrow>
   nb_err option \<times> netblock_db \<times> registry" where
  "nb_Remove flt rg db live name actor =
     (case nb_Get (flt 0) db name of
        Inl e \<Rightarrow> (Some e, db, rg)
      | Inr row \<Rightarrow>
          if nb_protected row then (Some NbProtected, db, rg)
          else case checkNoStranded live (nb_prefix row) zero_prefix of
            Some e \<Rightarrow> (Some e, db, rg)
          | None \<Rightarrow>
              if flt 1 then (Some NbDb, db, rg)
              else (None, db\<lparr>nb_rows := delete_where (\<lambda>r. nb_name r = name) (nb_rows db)\<rparr>, invalidate rg))"

subsection \<open>Growth\<close>

text \<open>\<open>As4\<close> panics on anything but an IPv4 (or mapped) address; the callers below only pass addresses of
  IPv4 prefixes, for which this is the big-endian value.\<close>

fun addrToUint32 :: "addr \<Rightarrow> 32 word" where
  "addrToUint32 (Addr4 w) = w"
| "addrToUint32 (Addr6 w _) = ucast w"
| "addrToUint32 AddrNone = 0"

definition uint32ToAddr :: "32 word \<Rightarrow> addr" where
  "uint32ToAddr v = Addr4 v"

definition buddyOf :: "prefix \<Rightarrow> prefix" where
  "buddyOf p0 =
     (let p = masked p0 in
      if pfx_bits p \<le> 0 then zero_prefix
      else let parent = masked (prefix_from (pfx_addr p) (pfx_bits p - 1));
               step = push_bit (nat (32 - pfx_bits p)) 1 in
        if pfx_addr parent = pfx_addr p
        then prefix_from (uint32ToAddr (addrToUint32 (pfx_addr p) + step)) (pfx_bits p)
        else prefix_from (uint32ToAddr (addrToUint32 (pfx_addr p) - step)) (pfx_bits p))"

definition nb_Grow ::
  "faults \<Rightarrow> registry \<Rightarrow> netblock_db \<Rightarrow> live_hook \<Rightarrow> string \<Rightarrow> string \<Rightarrow>
   (nb_err + prefix) \<times> netblock_db \<times> registry" where
  "nb_Grow flt rg db live name actor =
     (case nb_Get (flt 0) db name of
        Inl e \<Rightarrow> (Inl e, db, rg)
      | Inr row \<Rightarrow>
          if nb_kind row \<noteq> KindNamed then (Inl NbGrowKind, db, rg)
          else let cur = nb_prefix row in
            if pfx_bits cur \<le> 0 then (Inl NbPoolFull, db, rg)
            else let nxt = masked (prefix_from (pfx_addr cur) (pfx_bits cur - 1)) in
              if pfx_addr nxt \<noteq> pfx_addr cur then (Inl NbPoolFull, db, rg)
              else if pfx_bits nxt < pfx_bits (rg_pool rg) \<or> \<not> prefixInside nxt (rg_pool rg) then (Inl NbPoolFull, db, rg)
              else case rangeFree (flt 1) rg db live (buddyOf cur) name of
                Inl e \<Rightarrow> (Inl e, db, rg)
              | Inr free \<Rightarrow>
                  if \<not> free then (Inl NbPoolFull, db, rg)
                  else let hit = (\<lambda>r. nb_name r = name \<and> nb_cidr r = CidrText cur) in
                    if flt 2 then (Inl NbDb, db, rg)
                    else if count_where hit (nb_rows db) = 0 then (Inl NbPoolFull, db, rg)
                    else (Inr nxt,
                          nb_recordAudit (flt 3) rg (AuditAutogrow actor name nxt)
                            (db\<lparr>nb_rows := update_where hit (\<lambda>r. r\<lparr>nb_cidr := CidrText nxt\<rparr>) (nb_rows db)\<rparr>),
                          invalidate rg))"

subsection \<open>Resolution through the cached snapshot\<close>

fun build_cache :: "netblock list \<Rightarrow> resolver_cache \<Rightarrow> resolver_cache" where
  "build_cache [] c = c"
| "build_cache (row # rows) c =
     (let p = nb_prefix row in
      if \<not> is_valid p then build_cache rows c
      else build_cache rows
        \<lparr>rc_by_name = AList.update (nb_name row) p (rc_by_name c),
         rc_rows = AList.update (nb_name row) row (rc_rows c),
         rc_all = rc_all c @ [p],
         rc_named = (if nb_kind row = KindNamed then rc_named c @ [p] else rc_named c)\<rparr>)"

definition empty_cache :: resolver_cache where
  "empty_cache = \<lparr>rc_by_name = [], rc_rows = [], rc_all = [], rc_named = []\<rparr>"

definition snapshot_publish :: "64 word \<Rightarrow> resolver_cache \<Rightarrow> registry \<Rightarrow> registry" where
  "snapshot_publish startGen c rg = (if rg_gen rg = startGen then rg\<lparr>rg_cache := Some c\<rparr> else rg)"

definition snapshot :: "bool \<Rightarrow> registry \<Rightarrow> netblock_db \<Rightarrow> (nb_err + resolver_cache) \<times> registry" where
  "snapshot fails rg db =
     (case rg_cache rg of
        Some c \<Rightarrow> (Inr c, rg)
      | None \<Rightarrow>
          (case nb_List fails db of
             Inl e \<Rightarrow> (Inl e, rg)
           | Inr rows \<Rightarrow> let c = build_cache rows empty_cache in (Inr c, snapshot_publish (rg_gen rg) c rg)))"

definition Resolve :: "bool \<Rightarrow> registry \<Rightarrow> netblock_db \<Rightarrow> string \<Rightarrow> (nb_err + prefix) \<times> registry" where
  "Resolve fails rg db name0 =
     (case snapshot fails rg db of
        (Inl e, rg') \<Rightarrow> (Inl e, rg')
      | (Inr c, rg') \<Rightarrow>
          let name = (if name0 = [] then NameDefault else name0) in
          (case map_of (rc_by_name c) name of
             Some p \<Rightarrow> (Inr p, rg')
           | None \<Rightarrow>
               if name \<noteq> NameDefault then
                 (case map_of (rc_by_name c) NameDefault of
                    Some p \<Rightarrow> (Inr p, rg')
                  | None \<Rightarrow> (Inl NbNotFound, rg'))
               else (Inl NbNotFound, rg')))"

definition NetblockCIDRs :: "bool \<Rightarrow> registry \<Rightarrow> netblock_db \<Rightarrow> (nb_err + (string \<times> prefix) list) \<times> registry" where
  "NetblockCIDRs fails rg db =
     (case snapshot fails rg db of
        (Inl e, rg') \<Rightarrow> (Inl e, rg')
      | (Inr c, rg') \<Rightarrow>
          (Inr (map (\<lambda>(name, row). (name, nb_prefix row))
                  (filter (\<lambda>(_, row). is_valid (nb_prefix row)) (rc_rows c))), rg'))"

definition Carves :: "bool \<Rightarrow> registry \<Rightarrow> netblock_db \<Rightarrow> (nb_err + prefix list) \<times> registry" where
  "Carves fails rg db =
     (case snapshot fails rg db of
        (Inl e, rg') \<Rightarrow> (Inl e, rg')
      | (Inr c, rg') \<Rightarrow>
          (Inr (map (\<lambda>(_, row). nb_prefix row)
                  (filter (\<lambda>(_, row). nb_kind row \<noteq> KindDefault \<and> is_valid (nb_prefix row)) (rc_rows c))), rg'))"

definition resolved_of :: "netblock \<Rightarrow> resolved" where
  "resolved_of row = \<lparr>rs_id = nb_id row, rs_name = nb_name row, rs_cidr = nb_prefix row,
     rs_named = (nb_kind row = KindNamed), rs_reserved = (nb_kind row = KindReserved)\<rparr>"

definition ResolveFull :: "bool \<Rightarrow> registry \<Rightarrow> netblock_db \<Rightarrow> string \<Rightarrow> (nb_err + resolved) \<times> registry" where
  "ResolveFull fails rg db name0 =
     (case snapshot fails rg db of
        (Inl e, rg') \<Rightarrow> (Inl e, rg')
      | (Inr c, rg') \<Rightarrow>
          let name = (if name0 = [] then NameDefault else name0) in
          (case map_of (rc_rows c) name of
             Some row \<Rightarrow> (Inr (resolved_of row), rg')
           | None \<Rightarrow>
               if name \<noteq> NameDefault then
                 (case map_of (rc_rows c) NameDefault of
                    Some def \<Rightarrow> (Inr (resolved_of def), rg')
                  | None \<Rightarrow> (Inl NbNotFound, rg'))
               else (Inl NbNotFound, rg')))"

subsection \<open>Placement\<close>

definition rangeClear :: "prefix \<Rightarrow> addr list \<Rightarrow> prefix list \<Rightarrow> bool" where
  "rangeClear rng reserved carves \<longleftrightarrow>
     \<not> list_ex (\<lambda>res. contains_addr rng res) reserved \<and>
     \<not> list_ex (\<lambda>c. is_valid c \<and> overlaps rng c) carves"

definition nextSlot :: "prefix \<Rightarrow> prefix" where
  "nextSlot p =
     (let a = pfx_addr (masked p);
          step = push_bit (nat (32 - pfx_bits p)) 1;
          v = addrToUint32 a + step in
      if v < addrToUint32 a then zero_prefix else prefix_from (uint32ToAddr v) (pfx_bits p))"

fun slots_loop :: "nat \<Rightarrow> prefix \<Rightarrow> prefix list" where
  "slots_loop 0 cur = []"
| "slots_loop (Suc k) cur =
     cur # (if \<not> is_valid (nextSlot cur) then [] else slots_loop k (nextSlot cur))"

definition slots :: "prefix \<Rightarrow> int \<Rightarrow> prefix list" where
  "slots pl b =
     (if b < pfx_bits pl \<or> b > 32 then []
      else slots_loop (2 ^ nat (b - pfx_bits pl)) (masked (prefix_from (pfx_addr pl) b)))"

fun free_slots_loop :: "prefix list \<Rightarrow> addr list \<Rightarrow> prefix list \<Rightarrow> prefix \<Rightarrow> int \<Rightarrow> prefix \<times> int" where
  "free_slots_loop [] reserved carves lowest count = (lowest, count)"
| "free_slots_loop (slot # rest) reserved carves lowest count =
     (if rangeClear slot reserved carves
      then free_slots_loop rest reserved carves (if \<not> is_valid lowest then slot else lowest) (count + 1)
      else free_slots_loop rest reserved carves lowest count)"

definition freeSlotsIn :: "prefix \<Rightarrow> int \<Rightarrow> addr list \<Rightarrow> prefix list \<Rightarrow> prefix \<times> int" where
  "freeSlotsIn env P reserved carves = free_slots_loop (slots env P) reserved carves zero_prefix 0"

fun worst_fit :: "prefix list \<Rightarrow> int \<Rightarrow> addr list \<Rightarrow> prefix list \<Rightarrow> prefix \<Rightarrow> int \<Rightarrow> prefix \<times> int" where
  "worst_fit [] P reserved carves best count = (best, count)"
| "worst_fit (env # rest) P reserved carves best count =
     (case freeSlotsIn env P reserved carves of
        (free, c) \<Rightarrow> if c > count then worst_fit rest P reserved carves free c
                    else worst_fit rest P reserved carves best count)"

definition first_clear :: "prefix list \<Rightarrow> addr list \<Rightarrow> prefix list \<Rightarrow> prefix option" where
  "first_clear envs reserved carves = first_where (\<lambda>env. rangeClear env reserved carves) envs"

text \<open>Step 3: retry with finer envelopes \<open>e\<close>, \<open>e + 1\<close>, \<dots>, \<open>P\<close> (\<open>k\<close> of them).\<close>

fun relax_loop :: "nat \<Rightarrow> int \<Rightarrow> prefix \<Rightarrow> addr list \<Rightarrow> prefix list \<Rightarrow> prefix option" where
  "relax_loop 0 e pl reserved carves = None"
| "relax_loop (Suc k) e pl reserved carves =
     (case first_clear (slots pl e) reserved carves of
        Some env \<Rightarrow> Some env
      | None \<Rightarrow> relax_loop k (e + 1) pl reserved carves)"

definition envelope_bits :: "int \<Rightarrow> prefix \<Rightarrow> int" where
  "envelope_bits P pl =
     (let floor = (if pfx_bits pl > EnvelopeFloor then pfx_bits pl else EnvelopeFloor);
          e0 = P - MarginBits;
          e1 = (if e0 < floor then floor else e0) in
      if e1 > P then P else e1)"

definition Suggest :: "int \<Rightarrow> prefix \<Rightarrow> addr list \<Rightarrow> prefix list \<Rightarrow> nb_err + prefix" where
  "Suggest P pool0 reserved carves =
     (let pl = masked pool0 in
      if \<not> is_valid pl \<or> \<not> is4 (pfx_addr pl) then Inl NbBadCIDR
      else if P < pfx_bits pl \<or> P > 32 then Inl NbBadPrefixLen
      else let E = envelope_bits P pl in
        case first_clear (slots pl E) reserved carves of
          Some env \<Rightarrow> Inr (masked (prefix_from (pfx_addr env) P))
        | None \<Rightarrow>
            (case worst_fit (slots pl E) P reserved carves zero_prefix (-1) of
               (bestFreeSlot, bestCount) \<Rightarrow>
                 if bestCount > 0 \<and> is_valid bestFreeSlot then Inr bestFreeSlot
                 else case relax_loop (nat (P - E)) (E + 1) pl reserved carves of
                   Some env \<Rightarrow> Inr (masked (prefix_from (pfx_addr env) P))
                 | None \<Rightarrow>
                     (case first_clear (slots pl P) reserved carves of
                        Some slot \<Rightarrow> Inr slot
                      | None \<Rightarrow> Inl NbPoolFull)))"

definition nb_Suggest :: "bool \<Rightarrow> registry \<Rightarrow> netblock_db \<Rightarrow> int \<Rightarrow> (nb_err + prefix) \<times> registry" where
  "nb_Suggest fails rg db P =
     (case snapshot fails rg db of
        (Inl e, rg') \<Rightarrow> (Inl e, rg')
      | (Inr c, rg') \<Rightarrow> (Suggest P (rg_pool rg) (rg_reserved rg) (rc_all c), rg'))"

subsection \<open>The registry invariant\<close>

text \<open>What a stored block satisfies: canonical IPv4 text, inside the pool, clear of the reservations,
  protected exactly when it is not an admin-carved one.\<close>

definition nb_row_ok :: "registry \<Rightarrow> netblock \<Rightarrow> bool" where
  "nb_row_ok rg r \<longleftrightarrow>
     (\<exists>p. nb_cidr r = CidrText p \<and> aligned4 p \<and> prefixInside p (rg_pool rg) \<and>
          (\<forall>a\<in>set (rg_reserved rg). \<not> contains_addr p a)) \<and>
     nb_name r \<noteq> [] \<and> (nb_protected r \<longleftrightarrow> nb_kind r \<noteq> KindNamed)"

definition disjoint_blocks :: "netblock list \<Rightarrow> bool" where
  "disjoint_blocks rows \<longleftrightarrow>
     (\<forall>r\<in>set rows. \<forall>q\<in>set rows. nb_name r \<noteq> nb_name q \<longrightarrow> addrs_of (nb_prefix r) \<inter> addrs_of (nb_prefix q) = {})"

definition nb_wf :: "registry \<Rightarrow> netblock_db \<Rightarrow> bool" where
  "nb_wf rg db \<longleftrightarrow>
     aligned4 (rg_pool rg) \<and> (\<forall>r\<in>set (nb_rows db). nb_row_ok rg r) \<and>
     distinct (map nb_name (nb_rows db)) \<and> distinct (map nb_id (nb_rows db)) \<and>
     (\<forall>r\<in>set (nb_rows db). nb_id r < nb_seq db) \<and> disjoint_blocks (nb_rows db)"

lemma nb_prefix_ok:
  assumes "nb_row_ok rg r"
  shows "nb_cidr r = CidrText (nb_prefix r)" "aligned4 (nb_prefix r)" "valid4 (nb_prefix r)"
    "prefixInside (nb_prefix r) (rg_pool rg)" "a \<in> set (rg_reserved rg) \<Longrightarrow> \<not> contains_addr (nb_prefix r) a"
  using assms by (auto simp: nb_row_ok_def nb_prefix_def aligned4_eq aligned4_valid4)

lemma prefixInside_addrs:
  assumes "valid4 p" "aligned4 pl" "prefixInside p pl"
  shows "addrs_of p \<subseteq> addrs_of pl"
proof -
  have m: "aligned4 (masked p)" using assms(1) by (rule aligned4_masked)
  have "pfx_bits (masked p) = pfx_bits p" using assms(1) by (elim valid4E) (simp add: masked4)
  then have "addrs_of (masked p) \<subseteq> addrs_of pl"
    using assms m by (intro addrs_of_subset) (auto simp: prefixInside_def aligned4_valid4)
  then show ?thesis using contains_masked [OF assms(1)] by (simp add: addrs_of_def)
qed

lemma validateCIDR_None:
  assumes "validateCIDR f rg db c x = None" "aligned4 (rg_pool rg)"
  shows "aligned4 (masked c)" "prefixInside (masked c) (rg_pool rg)"
    "a \<in> set (rg_reserved rg) \<Longrightarrow> \<not> contains_addr (masked c) a"
    "r \<in> set (nb_rows db) \<Longrightarrow> nb_name r \<noteq> x \<Longrightarrow> valid4 (nb_prefix r) \<Longrightarrow>
       addrs_of (masked c) \<inter> addrs_of (nb_prefix r) = {}"
proof -
  have in_pool: "prefixInside (masked c) (rg_pool rg)" and is4: "is4 (pfx_addr c)" and valid: "is_valid c"
    and res: "\<forall>a\<in>set (rg_reserved rg). \<not> contains_addr (masked c) a"
    and rows: "\<forall>r\<in>set (nb_rows db). nb_name r \<noteq> x \<and> is_valid (nb_prefix r) \<longrightarrow> \<not> overlaps (masked c) (nb_prefix r)"
    using assms(1) by (auto simp: validateCIDR_def nb_List_def Let_def list_ex_iff split: if_splits)
  obtain w b where c: "c = Prefix (Addr4 w) b" "0 \<le> b"
    using is4 valid by (cases c; cases "pfx_addr c") (auto simp: is_valid_def)
  have "b \<le> 32"
  proof (rule ccontr)
    assume "\<not> b \<le> 32"
    then have "masked c = zero_prefix" using c by (simp add: masked_def)
    then show False using in_pool by (cases "rg_pool rg"; cases "pfx_addr (rg_pool rg)")
      (auto simp: prefixInside_def zero_prefix_def masked_def)
  qed
  then have v: "valid4 c" using c by simp
  show al: "aligned4 (masked c)" using v by (rule aligned4_masked)
  show "prefixInside (masked c) (rg_pool rg)" by (rule in_pool)
  show "a \<in> set (rg_reserved rg) \<Longrightarrow> \<not> contains_addr (masked c) a" using res by blast
  show "r \<in> set (nb_rows db) \<Longrightarrow> nb_name r \<noteq> x \<Longrightarrow> valid4 (nb_prefix r) \<Longrightarrow>
       addrs_of (masked c) \<inter> addrs_of (nb_prefix r) = {}"
    using rows valid4_valid overlaps_iff_addrs_of [OF aligned4_valid4 [OF al]] by blast
qed

lemma nb_create_wf:
  assumes "nb_create f db row = (CreateOk, row', db')" "nb_wf rg db" "nb_row_ok rg row"
    and disj: "\<And>r. r \<in> set (nb_rows db) \<Longrightarrow> addrs_of (nb_prefix row) \<inter> addrs_of (nb_prefix r) = {}"
  shows "nb_wf rg db'" "nb_rows db' = nb_rows db @ [row']" "row' = row\<lparr>nb_id := nb_seq db\<rparr>"
proof -
  have row': "row' = row\<lparr>nb_id := nb_seq db\<rparr>" and fresh: "\<forall>q\<in>set (nb_rows db). nb_name q \<noteq> nb_name row"
    and db': "db' = db\<lparr>nb_rows := nb_rows db @ [row'], nb_seq := nb_seq db + 1\<rparr>"
    using assms(1) by (auto simp: nb_create_def Let_def list_ex_iff split: if_splits)
  show "nb_rows db' = nb_rows db @ [row']" "row' = row\<lparr>nb_id := nb_seq db\<rparr>" using db' row' by simp_all
  have ok: "nb_row_ok rg row'" and p: "nb_prefix row' = nb_prefix row"
    using assms(3) by (simp_all add: row' nb_row_ok_def nb_prefix_def)
  have "disjoint_blocks (nb_rows db @ [row'])"
    using assms(2) disj p by (auto simp: nb_wf_def disjoint_blocks_def Int_commute)
  then show "nb_wf rg db'" using assms(2) ok fresh
    unfolding nb_wf_def db' by (auto simp: row' less_le_trans)
qed

lemma nb_insert_wf:
  assumes "validateCIDR f rg db cidr [] = None" "nb_create g db row = (CreateOk, row', db')" "nb_wf rg db"
    and "nb_cidr row = CidrText (masked cidr)" "nb_name row \<noteq> []" "nb_protected row \<longleftrightarrow> nb_kind row \<noteq> KindNamed"
  shows "nb_wf rg db'" "nb_rows db' = nb_rows db @ [row']" "row' = row\<lparr>nb_id := nb_seq db\<rparr>"
proof -
  have pool: "aligned4 (rg_pool rg)" using assms(3) by (simp add: nb_wf_def)
  note V = validateCIDR_None [OF assms(1) pool]
  have pfx: "nb_prefix row = masked cidr" using aligned4_eq [OF V(1)] assms(4) by (simp add: nb_prefix_def)
  have ok: "nb_row_ok rg row" using V assms by (auto simp: nb_row_ok_def)
  have disj: "addrs_of (nb_prefix row) \<inter> addrs_of (nb_prefix r) = {}" if "r \<in> set (nb_rows db)" for r
    using that V(4) [of r] pfx assms(3) nb_prefix_ok(3) [of rg r] by (auto simp: nb_wf_def nb_row_ok_def)
  note C = nb_create_wf [OF assms(2,3) ok disj]
  show "nb_wf rg db'" "nb_rows db' = nb_rows db @ [row']" "row' = row\<lparr>nb_id := nb_seq db\<rparr>"
    by (rule C; assumption)+
qed

lemma nb_Add_cases:
  assumes "nb_Add flt now rg db name cidr description actor = (r, db', rg')" "nb_wf rg db"
  shows "(\<exists>e. r = Inl e) \<and> db' = db \<and> rg' = rg \<or>
    (\<exists>row'. r = Inr row' \<and> nb_rows db' = nb_rows db @ [row'] \<and> nb_wf rg db' \<and> rg' = invalidate rg \<and>
       nb_name row' = name \<and> nb_prefix row' = masked cidr \<and> nb_kind row' = KindNamed \<and> name \<noteq> NameCentral \<and> name \<noteq> NameDefault)"
proof (cases r)
  case (Inl e)
  then show ?thesis using assms(1) unfolding nb_Add_def nb_Add_write_def
    by (auto simp: Let_def split: if_splits option.splits create_result.splits prod.splits)
next
  case (Inr row')
  define row where "row = \<lparr>nb_id = 0, nb_name = name, nb_cidr = CidrText (masked cidr), nb_kind = KindNamed,
      nb_description = description, nb_protected = False, nb_created_at = now, nb_created_by = actor\<rparr>"
  have v: "validateCIDR (flt 0) rg db cidr [] = None" and n: "name \<noteq> []" "name \<noteq> NameCentral" "name \<noteq> NameDefault"
    and c: "nb_create (flt 1) db row = (CreateOk, row', db')" and rg': "rg' = invalidate rg"
    using assms(1) Inr unfolding nb_Add_def nb_Add_check_def nb_Add_write_def row_def
    by (auto simp: Let_def split: if_splits option.splits create_result.splits prod.splits)
  note I = nb_insert_wf [OF v c assms(2)]
  have "aligned4 (masked cidr)" using validateCIDR_None(1) [OF v] assms(2) by (simp add: nb_wf_def)
  then show ?thesis using I n Inr rg' by (auto simp: row_def nb_prefix_def aligned4_eq)
qed

lemma nb_Seed_wf:
  assumes "nb_Seed flt now rg db name cidr kind description actor = (r, db', rg')" "nb_wf rg db"
  shows "nb_wf rg db'"
proof -
  define row where "row = \<lparr>nb_id = 0, nb_name = name, nb_cidr = CidrText (masked cidr), nb_kind = kind,
      nb_description = description, nb_protected = True, nb_created_at = now, nb_created_by = actor\<rparr>"
  consider "db' = db"
    | row' db1 where "validateCIDR (flt 1) rg db cidr [] = None" "nb_create (flt 2) db row = (CreateOk, row', db1)"
      "name \<noteq> []" "kind = KindReserved \<or> kind = KindDefault"
      "db' = nb_recordAudit (flt 3) rg (AuditSeed actor name (masked cidr) kind) db1"
    using assms(1) unfolding nb_Seed_def row_def
    by (auto simp: Let_def split: if_splits option.splits create_result.splits prod.splits sum.splits)
  then show ?thesis
  proof cases
    case 2
    then have "nb_wf rg db1" using nb_insert_wf(1) [OF 2(1,2) assms(2)]
      by (auto simp: row_def KindReserved_def KindDefault_def KindNamed_def)
    then show ?thesis using 2(5) by (simp add: nb_recordAudit_def nb_wf_def)
  qed (use assms in simp)
qed

lemma nb_replace_wf:
  assumes "nb_wf rg db" and hit: "\<And>r. hit r \<Longrightarrow> nb_name r = name"
    and keep: "\<And>r. nb_name (f r) = nb_name r" "\<And>r. nb_id (f r) = nb_id r" "\<And>r. nb_kind (f r) = nb_kind r"
      "\<And>r. nb_protected (f r) = nb_protected r" "\<And>r. nb_cidr (f r) = CidrText p"
    and p: "aligned4 p" "prefixInside p (rg_pool rg)" "\<And>a. a \<in> set (rg_reserved rg) \<Longrightarrow> \<not> contains_addr p a"
    and disj: "\<And>r. r \<in> set (nb_rows db) \<Longrightarrow> nb_name r \<noteq> name \<Longrightarrow> addrs_of p \<inter> addrs_of (nb_prefix r) = {}"
  shows "nb_wf rg (db\<lparr>nb_rows := update_where hit f (nb_rows db)\<rparr>)"
proof -
  have fp: "nb_prefix (f r) = p" for r using keep(5) p(1) by (simp add: nb_prefix_def aligned4_eq)
  have "nb_row_ok rg (f r)" if "nb_row_ok rg r" for r
    using that keep p by (auto simp: nb_row_ok_def)
  moreover have "disjoint_blocks (update_where hit f (nb_rows db))"
    unfolding disjoint_blocks_def
  proof (intro ballI impI)
    fix r q assume rq: "r \<in> set (update_where hit f (nb_rows db))" "q \<in> set (update_where hit f (nb_rows db))"
      and ne: "nb_name r \<noteq> nb_name q"
    show "addrs_of (nb_prefix r) \<inter> addrs_of (nb_prefix q) = {}"
    proof -
      obtain r0 q0 where o: "r0 \<in> set (nb_rows db)" "q0 \<in> set (nb_rows db)"
        "r = (if hit r0 then f r0 else r0)" "q = (if hit q0 then f q0 else q0)"
        using rq by (auto simp: update_where_def)
      have "addrs_of (nb_prefix r0) \<inter> addrs_of (nb_prefix q0) = {}"
        using o ne keep(1) assms(1) by (auto simp: nb_wf_def disjoint_blocks_def split: if_splits)
      then show ?thesis
        using o ne keep(1) hit fp disj [OF o(1)] disj [OF o(2)]
        by (cases "hit r0"; cases "hit q0") (auto dest: hit)
    qed
  qed
  ultimately show ?thesis using assms(1)
    by (simp add: nb_wf_def map_key_update_where [where key = nb_name, OF keep(1)]
          map_key_update_where [where key = nb_id, OF keep(2)])
       (auto simp: row_simps keep)
qed

lemma nb_Get_Inr: "nb_Get f db name = Inr row \<Longrightarrow> row \<in> set (nb_rows db) \<and> nb_name row = name \<and> \<not> f"
  by (auto simp: nb_Get_def split: if_splits option.splits)

lemma nb_only_row:
  assumes "nb_wf rg db" "row \<in> set (nb_rows db)"
  shows "update_where (\<lambda>q. nb_name q = nb_name row \<and> nb_cidr q = CidrText (nb_prefix row)) f (nb_rows db) =
    update_where (\<lambda>q. nb_name q = nb_name row) f (nb_rows db)"
proof -
  have "nb_name q = nb_name row \<Longrightarrow> q \<in> set (nb_rows db) \<Longrightarrow> q = row" for q
    using assms distinct_map_inj unfolding nb_wf_def by metis
  moreover have "nb_cidr row = CidrText (nb_prefix row)"
    using assms nb_prefix_ok(1) by (auto simp: nb_wf_def)
  ultimately show ?thesis by (auto simp: update_where_def)
qed

lemma nb_Update_cases:
  assumes "nb_Update flt rg db live name cidr description actor = (r, db', rg')" "nb_wf rg db"
  shows "(\<exists>e. r = Inl e) \<and> db' = db \<and> rg' = rg \<or>
    (\<exists>row. row \<in> set (nb_rows db) \<and> nb_name row = name \<and> \<not> nb_protected row \<and>
       r = Inr (row\<lparr>nb_cidr := CidrText (masked cidr), nb_description := description\<rparr>) \<and>
       nb_rows db' = update_where (\<lambda>q. nb_name q = name)
         (\<lambda>q. q\<lparr>nb_cidr := CidrText (masked cidr), nb_description := description\<rparr>) (nb_rows db) \<and>
       nb_wf rg db' \<and> rg' = invalidate rg \<and> aligned4 (masked cidr) \<and>
       checkNoStranded live (nb_prefix row) (masked cidr) = None)"
proof (cases r)
  case (Inl e)
  then show ?thesis using assms(1) unfolding nb_Update_def
    by (auto simp: Let_def split: if_splits option.splits sum.splits)
next
  case (Inr row')
  define f where "f = (\<lambda>q. q\<lparr>nb_cidr := CidrText (masked cidr), nb_description := description\<rparr> :: netblock)"
  obtain row where get: "nb_Get (flt 0) db name = Inr row" and np: "\<not> nb_protected row"
    and v: "validateCIDR (flt 1) rg db cidr name = None"
    and st: "checkNoStranded live (nb_prefix row) (masked cidr) = None" and row': "row' = f row" "rg' = invalidate rg"
    and db': "db' = db\<lparr>nb_rows := update_where (\<lambda>r. nb_name r = name \<and> nb_cidr r = CidrText (nb_prefix row)) f (nb_rows db)\<rparr>"
    using assms(1) Inr unfolding nb_Update_def f_def
    by (auto simp: Let_def split: if_splits option.splits sum.splits)
  have row: "row \<in> set (nb_rows db)" "nb_name row = name" using nb_Get_Inr [OF get] by auto
  have pool: "aligned4 (rg_pool rg)" and ok: "\<And>q. q \<in> set (nb_rows db) \<Longrightarrow> nb_row_ok rg q"
    using assms(2) by (auto simp: nb_wf_def)
  note V = validateCIDR_None [OF v pool]
  have dj: "addrs_of (masked cidr) \<inter> addrs_of (nb_prefix q) = {}" if "q \<in> set (nb_rows db)" "nb_name q \<noteq> name" for q
    using that V(4) ok nb_prefix_ok(3) by blast
  have wf: "nb_wf rg db'" unfolding db'
    by (rule nb_replace_wf [where name = name and p = "masked cidr"]) (use assms(2) V(1-3) dj in \<open>simp_all add: f_def\<close>)
  have "nb_rows db' = update_where (\<lambda>q. nb_name q = name) f (nb_rows db)"
    unfolding db' using nb_only_row [OF assms(2) row(1), of f] row(2) by simp
  then show ?thesis using row np Inr row' wf V(1) st unfolding f_def by blast
qed

lemma nb_Remove_cases:
  assumes "nb_Remove flt rg db live name actor = (r, db', rg')" "nb_wf rg db"
  shows "(\<exists>e. r = Some e) \<and> db' = db \<and> rg' = rg \<or>
    (\<exists>row. r = None \<and> row \<in> set (nb_rows db) \<and> nb_name row = name \<and> \<not> nb_protected row \<and>
       nb_rows db' = delete_where (\<lambda>q. nb_name q = name) (nb_rows db) \<and> nb_wf rg db' \<and> rg' = invalidate rg \<and>
       checkNoStranded live (nb_prefix row) zero_prefix = None)"
proof -
  have "nb_wf rg (db\<lparr>nb_rows := delete_where P (nb_rows db)\<rparr>)" for P
    using assms(2) by (auto simp: nb_wf_def disjoint_blocks_def row_simps)
  then show ?thesis using assms(1) unfolding nb_Remove_def
    by (auto dest: nb_Get_Inr split: if_splits option.splits sum.splits)
qed

lemma buddyOf_lower:
  assumes "aligned4 p" "0 < pfx_bits p" "pfx_addr (masked (prefix_from (pfx_addr p) (pfx_bits p - 1))) = pfx_addr p"
  defines "nxt \<equiv> masked (prefix_from (pfx_addr p) (pfx_bits p - 1))"
  shows "aligned4 nxt" "aligned4 (buddyOf p)" "pfx_addr nxt = pfx_addr p" "pfx_bits nxt = pfx_bits p - 1"
    "addrs_of nxt = addrs_of p \<union> addrs_of (buddyOf p)" "addrs_of p \<inter> addrs_of (buddyOf p) = {}"
proof -
  obtain w b where p: "p = Prefix (Addr4 w) b" "0 \<le> b" "b \<le> 32" "mask4 b w = w" using assms(1) by (rule aligned4E)
  then have b: "0 < b" using assms(2) by simp
  have m: "mask4 (b - 1) w = w" using assms(3) p b by (simp add: prefix_from_def masked4)
  have n: "nxt = Prefix (Addr4 w) (b - 1)" using p b m by (simp add: nxt_def prefix_from_def masked4)
  have st: "push_bit (nat (32 - b)) 1 = (2 ^ nat (32 - b) :: 32 word)" by (simp add: push_bit_eq_mult)
  have bud: "buddyOf p = Prefix (Addr4 (w + 2 ^ nat (32 - b))) b"
    using p b m by (simp add: buddyOf_def Let_def masked4 prefix_from_def st uint32ToAddr_def)
  note H = halves4 [OF b p(3) m]
  show "aligned4 nxt" "pfx_addr nxt = pfx_addr p" "pfx_bits nxt = pfx_bits p - 1"
    using n p b m by (simp_all add: aligned4_simp)
  show "aligned4 (buddyOf p)" using bud p b H(3) by (simp add: aligned4_simp)
  show "addrs_of nxt = addrs_of p \<union> addrs_of (buddyOf p)" "addrs_of p \<inter> addrs_of (buddyOf p) = {}"
    using n bud H p(1) by simp_all
qed

lemma nb_Grow_cases:
  assumes "nb_Grow flt rg db live name actor = (r, db', rg')" "nb_wf rg db"
  shows "(\<exists>e. r = Inl e) \<and> db' = db \<and> rg' = rg \<or>
    (\<exists>row nxt. r = Inr nxt \<and> row \<in> set (nb_rows db) \<and> nb_name row = name \<and> nb_kind row = KindNamed \<and>
       nb_rows db' = update_where (\<lambda>q. nb_name q = name) (\<lambda>q. q\<lparr>nb_cidr := CidrText nxt\<rparr>) (nb_rows db) \<and>
       nb_wf rg db' \<and> rg' = invalidate rg \<and> aligned4 nxt \<and> prefixInside nxt (rg_pool rg) \<and>
       pfx_addr nxt = pfx_addr (nb_prefix row) \<and> pfx_bits nxt = pfx_bits (nb_prefix row) - 1 \<and>
       addrs_of nxt = addrs_of (nb_prefix row) \<union> addrs_of (buddyOf (nb_prefix row)) \<and>
       addrs_of (nb_prefix row) \<inter> addrs_of (buddyOf (nb_prefix row)) = {} \<and>
       (\<forall>as. live = Some (Some as) \<longrightarrow> (\<forall>a\<in>set as. a \<notin> addrs_of (buddyOf (nb_prefix row)))))"
proof (cases r)
  case (Inl e)
  then show ?thesis using assms(1) unfolding nb_Grow_def
    by (auto simp: Let_def split: if_splits option.splits sum.splits)
next
  case (Inr nxt)
  define f where "f = (\<lambda>q. q\<lparr>nb_cidr := CidrText nxt\<rparr> :: netblock)"
  obtain row db1 where get: "nb_Get (flt 0) db name = Inr row" and k: "nb_kind row = KindNamed"
    and b: "0 < pfx_bits (nb_prefix row)" and nxt: "nxt = masked (prefix_from (pfx_addr (nb_prefix row)) (pfx_bits (nb_prefix row) - 1))"
    and ad: "pfx_addr nxt = pfx_addr (nb_prefix row)" and ins: "prefixInside nxt (rg_pool rg)"
    and free: "rangeFree (flt 1) rg db live (buddyOf (nb_prefix row)) name = Inr True" and rg': "rg' = invalidate rg"
    and db': "db' = nb_recordAudit (flt 3) rg (AuditAutogrow actor name nxt) db1"
    and db1: "db1 = db\<lparr>nb_rows := update_where (\<lambda>r. nb_name r = name \<and> nb_cidr r = CidrText (nb_prefix row)) f (nb_rows db)\<rparr>"
    using assms(1) Inr unfolding nb_Grow_def f_def
    by (auto simp: Let_def split: if_splits option.splits sum.splits)
  have row: "row \<in> set (nb_rows db)" "nb_name row = name" using nb_Get_Inr [OF get] by auto
  have pool: "aligned4 (rg_pool rg)" and ok: "\<And>q. q \<in> set (nb_rows db) \<Longrightarrow> nb_row_ok rg q"
    using assms(2) by (auto simp: nb_wf_def)
  note al = nb_prefix_ok(2) [OF ok [OF row(1)]]
  note B = buddyOf_lower [OF al b ad [unfolded nxt], folded nxt]
  have fr: "\<forall>a\<in>set (rg_reserved rg). a \<notin> addrs_of (buddyOf (nb_prefix row))"
    "\<And>q. q \<in> set (nb_rows db) \<Longrightarrow> nb_name q \<noteq> name \<Longrightarrow> addrs_of (buddyOf (nb_prefix row)) \<inter> addrs_of (nb_prefix q) = {}"
    "\<forall>as. live = Some (Some as) \<longrightarrow> (\<forall>a\<in>set as. a \<notin> addrs_of (buddyOf (nb_prefix row)))"
    using free overlaps_iff_addrs_of [OF aligned4_valid4 [OF B(2)] nb_prefix_ok(3) [OF ok]]
      valid4_valid [OF nb_prefix_ok(3) [OF ok]]
    by (auto simp: rangeFree_def nb_List_def list_ex_iff addrs_of_def split: if_splits option.splits)
  have own: "addrs_of (nb_prefix row) \<inter> addrs_of (nb_prefix q) = {}" if "q \<in> set (nb_rows db)" "nb_name q \<noteq> name" for q
    using assms(2) row that by (auto simp: nb_wf_def disjoint_blocks_def)
  have wf: "nb_wf rg db1" unfolding db1
  proof (rule nb_replace_wf [where name = name and p = nxt])
    fix a assume "a \<in> set (rg_reserved rg)"
    then show "\<not> contains_addr nxt a" using fr(1) B(5) nb_prefix_ok(5) [OF ok [OF row(1)]]
      by (auto simp: addrs_of_def set_eq_iff)
  next
    fix q assume "q \<in> set (nb_rows db)" "nb_name q \<noteq> name"
    then show "addrs_of nxt \<inter> addrs_of (nb_prefix q) = {}" using fr(2) own B(5) by blast
  qed (use assms(2) B(1) ins in \<open>auto simp: f_def\<close>)
  have rows: "nb_rows db' = update_where (\<lambda>q. nb_name q = name) f (nb_rows db)"
    unfolding db' db1 using nb_only_row [OF assms(2) row(1), of f] row(2) by (simp add: nb_recordAudit_def)
  have wf': "nb_wf rg db'" using wf by (simp add: db' nb_recordAudit_def nb_wf_def)
  show ?thesis
    using Inr row k rows wf' rg' B ins fr(3) unfolding f_def by blast
qed

subsection \<open>Placement\<close>

abbreviation slot_at :: "32 word \<Rightarrow> int \<Rightarrow> nat \<Rightarrow> prefix" where
  "slot_at w b i \<equiv> Prefix (Addr4 (w + of_nat i * 2 ^ nat (32 - b))) b"

lemma mask4_fix_iff_dvd: "mask4 b w = w \<longleftrightarrow> 2 ^ nat (32 - b) dvd unat w"
  unfolding word_unat_eq_iff mask4_unat by (metis dvd_div_mult_self dvd_triv_right)

lemma unat_step32:
  assumes "unat w + i * 2 ^ n < 4294967296"
  shows "unat (w + of_nat i * 2 ^ n :: 32 word) = unat w + i * 2 ^ n"
proof -
  have "w + of_nat i * 2 ^ n = (of_nat (unat w + i * 2 ^ n) :: 32 word)" by simp
  then show ?thesis using assms
    by (simp add: unsigned_of_nat take_bit_nat_eq_self del: of_nat_add of_nat_mult)
qed

lemma slots_loop_eq:
  assumes "0 \<le> b" "b \<le> 32" "mask4 b w = w" "unat w + k * 2 ^ nat (32 - b) \<le> 4294967296"
  shows "slots_loop k (Prefix (Addr4 w) b) = map (slot_at w b) [0..<k]"
  using assms(3,4)
proof (induction k arbitrary: w)
  case 0
  then show ?case by simp
next
  case (Suc k)
  let ?n = "nat (32 - b)"
  have step: "push_bit ?n 1 = (2 ^ ?n :: 32 word)" by (simp add: push_bit_eq_mult)
  show ?case
  proof (cases "k = 0")
    case True
    then show ?thesis by (simp add: upt_rec)
  next
    case False
    then have lt: "unat w + 1 * 2 ^ ?n < 4294967296" "0 < k"
    proof -
      have "unat w + 1 * 2 ^ ?n < unat w + Suc k * 2 ^ ?n" using False by simp
      then show "unat w + 1 * 2 ^ ?n < 4294967296" using Suc.prems(2) by (rule less_le_trans)
    qed (use False in simp)
    have u: "unat (w + 2 ^ ?n) = unat w + 2 ^ ?n" using unat_step32 [OF lt(1)] by simp
    have nw: "\<not> w + 2 ^ ?n < w" using u by (simp add: word_less_nat_alt)
    have al: "mask4 b (w + 2 ^ ?n) = w + 2 ^ ?n"
      using Suc.prems(1) u by (simp add: mask4_fix_iff_dvd)
    have nx: "nextSlot (Prefix (Addr4 w) b) = Prefix (Addr4 (w + 2 ^ ?n)) b"
      using nw assms Suc.prems(1) by (simp add: nextSlot_def masked4 Let_def step uint32ToAddr_def prefix_from_def)
    have "slots_loop k (Prefix (Addr4 (w + 2 ^ ?n)) b) = map (slot_at (w + 2 ^ ?n) b) [0..<k]"
      using Suc.IH [OF al] Suc.prems(2) u by simp
    also have "\<dots> = map (slot_at w b) (map Suc [0..<k])" by (simp add: algebra_simps)
    also have "\<dots> = map (slot_at w b) [Suc 0..<Suc k]" by (simp only: map_Suc_upt)
    finally have "slots_loop (Suc k) (Prefix (Addr4 w) b) = slot_at w b 0 # map (slot_at w b) [Suc 0..<Suc k]"
      using nx assms(1) by (simp add: is_valid_def)
    then show ?thesis by (simp add: upt_conv_Cons del: upt_Suc slots_loop.simps)
  qed
qed

lemma dvd_add_le: "(n::nat) dvd a \<Longrightarrow> n dvd b \<Longrightarrow> a < b \<Longrightarrow> a + n \<le> b"
  by (elim dvdE) (metis Suc_leI add.commute mult_Suc_right mult_le_mono2 nat_mult_less_cancel_disj)

lemma slots_eq:
  assumes "aligned4 pl" "pfx_bits pl \<le> b" "b \<le> 32" "pfx_addr pl = Addr4 w"
  shows "slots pl b = map (slot_at w b) [0..<2 ^ nat (b - pfx_bits pl)]"
    and "i < 2 ^ nat (b - pfx_bits pl) \<Longrightarrow> unat (w + of_nat i * 2 ^ nat (32 - b)) = unat w + i * 2 ^ nat (32 - b)"
    and "unat w + 2 ^ nat (b - pfx_bits pl) * 2 ^ nat (32 - b) \<le> 4294967296"
proof -
  obtain pb where pl: "pl = Prefix (Addr4 w) pb" "0 \<le> pb" "pb \<le> 32" "mask4 pb w = w"
    using assms(1,4) by (elim aligned4E) auto
  have pw: "2 ^ nat (b - pb) * 2 ^ nat (32 - b) = (2 ^ nat (32 - pb) :: nat)"
  proof -
    have "nat (b - pb) + nat (32 - b) = nat (32 - pb)" using assms pl by simp
    then show ?thesis by (simp flip: power_add)
  qed
  have d: "2 ^ nat (32 - pb) dvd unat w" using pl(4) mask4_fix_iff_dvd by blast
  have m: "(2::nat) ^ nat (32 - pb) dvd 4294967296"
    using le_imp_power_dvd [of "nat (32 - pb)" 32 "2::nat"] pl by simp
  have bound: "unat w + 2 ^ nat (32 - pb) \<le> 4294967296"
    using dvd_add_le [OF d m unat32_less] .
  show bnd: "unat w + 2 ^ nat (b - pfx_bits pl) * 2 ^ nat (32 - b) \<le> 4294967296" using bound pw pl(1) by simp
  show "i < 2 ^ nat (b - pfx_bits pl) \<Longrightarrow> unat (w + of_nat i * 2 ^ nat (32 - b)) = unat w + i * 2 ^ nat (32 - b)"
    by (rule unat_step32) (rule less_le_trans [OF _ bnd], simp)
  have "nat (32 - b) \<le> nat (32 - pb)" using assms pl by simp
  then have al: "mask4 b w = w" using d mask4_fix_iff_dvd by (metis dvd_trans le_imp_power_dvd)
  have "masked (prefix_from (Addr4 w) b) = Prefix (Addr4 w) b"
    using al assms pl by (simp add: prefix_from_def masked4)
  then show "slots pl b = map (slot_at w b) [0..<2 ^ nat (b - pfx_bits pl)]"
    using slots_loop_eq [OF _ assms(3) al] bnd assms pl by (simp add: slots_def)
qed

lemma set_slots:
  assumes "aligned4 pl" "pfx_bits pl \<le> b" "b \<le> 32"
  shows "set (slots pl b) = {p. aligned4 p \<and> pfx_bits p = b \<and> contains_addr pl (pfx_addr p)}"
proof -
  obtain w pb where pl: "pl = Prefix (Addr4 w) pb" "0 \<le> pb" "pb \<le> 32" "mask4 pb w = w" using assms(1) by (rule aligned4E)
  let ?N = "2 ^ nat (b - pb) :: nat" and ?M = "2 ^ nat (32 - b) :: nat"
  note S = slots_eq [OF assms, of w, unfolded pl(1), simplified]
  have NM: "?N * ?M = 2 ^ nat (32 - pb)"
  proof -
    have "nat (b - pb) + nat (32 - b) = nat (32 - pb)" using assms pl by simp
    then show ?thesis by (simp flip: power_add)
  qed
  have Mw: "?M dvd unat w"
  proof -
    have "?M dvd ?N * ?M" by simp
    moreover have "?N * ?M dvd unat w" unfolding NM using pl(4) mask4_fix_iff_dvd by blast
    ultimately show ?thesis by (rule dvd_trans)
  qed
  have iv: "contains_addr pl (Addr4 x) \<longleftrightarrow> unat w \<le> unat x \<and> unat x < unat w + ?N * ?M" for x
    using contains4_interval [OF pl(2,4)] pl(1) NM by simp
  show ?thesis
  proof (intro set_eqI iffI)
    fix p assume "p \<in> set (slots pl b)"
    then obtain i where i: "i < ?N" "p = slot_at w b i" using S(1) pl(1) by auto
    then have u: "unat (w + of_nat i * 2 ^ nat (32 - b)) = unat w + i * ?M" using S(2) by blast
    then have "mask4 b (w + of_nat i * 2 ^ nat (32 - b)) = w + of_nat i * 2 ^ nat (32 - b)"
      using Mw by (simp add: mask4_fix_iff_dvd)
    moreover have "contains_addr pl (Addr4 (w + of_nat i * 2 ^ nat (32 - b)))" unfolding iv u using i(1) by simp
    ultimately show "p \<in> {p. aligned4 p \<and> pfx_bits p = b \<and> contains_addr pl (pfx_addr p)}"
      using i(2) assms pl by (simp add: aligned4_simp)
  next
    fix p assume "p \<in> {p. aligned4 p \<and> pfx_bits p = b \<and> contains_addr pl (pfx_addr p)}"
    then obtain x where p: "p = Prefix (Addr4 x) b" "mask4 b x = x" "contains_addr pl (Addr4 x)"
      by (auto elim: aligned4E)
    define i where "i = (unat x - unat w) div ?M"
    have d: "?M dvd unat x - unat w" using p(2) Mw mask4_fix_iff_dvd dvd_diff_nat by blast
    have x: "unat x = unat w + i * ?M" using d p(3) unfolding iv i_def by simp
    have i: "i < ?N" using p(3) unfolding iv x by simp
    have "x = w + of_nat i * 2 ^ nat (32 - b)" using S(2) [OF i] x by (simp add: word_unat_eq_iff)
    then show "p \<in> set (slots pl b)" using S(1) pl(1) p(1) i by auto
  qed
qed

lemma rangeClear_iff:
  assumes "valid4 p" "\<forall>c\<in>set carves. wf_prefix c"
  shows "rangeClear p reserved carves \<longleftrightarrow>
    (\<forall>a\<in>set reserved. a \<notin> addrs_of p) \<and> (\<forall>c\<in>set carves. valid4 c \<longrightarrow> addrs_of p \<inter> addrs_of c = {})"
proof -
  have "is_valid c \<and> overlaps p c \<longleftrightarrow> valid4 c \<and> addrs_of p \<inter> addrs_of c \<noteq> {}" if "c \<in> set carves" for c
  proof (cases "is4 (pfx_addr c)")
    case True
    then have "is_valid c \<longleftrightarrow> valid4 c" using assms(2) that wf_is4_valid4 valid4_valid by blast
    then show ?thesis using overlaps_iff_addrs_of assms(1) by blast
  next
    case False
    then show ?thesis using assms(1) by (auto simp: overlaps_def valid4_def)
  qed
  then show ?thesis by (auto simp: rangeClear_def list_ex_iff addrs_of_def)
qed

lemma rangeClear_sub:
  assumes "valid4 p" "valid4 q" "\<forall>c\<in>set carves. wf_prefix c" "addrs_of q \<subseteq> addrs_of p" "rangeClear p reserved carves"
  shows "rangeClear q reserved carves"
  using assms(4,5) unfolding rangeClear_iff [OF assms(1,3)] rangeClear_iff [OF assms(2,3)] by blast

lemma free_slots_loop_eq:
  assumes "\<forall>s\<in>set ss. is_valid s"
  shows "free_slots_loop ss reserved carves low n =
    ((if is_valid low then low else case first_clear ss reserved carves of Some s \<Rightarrow> s | None \<Rightarrow> low),
     n + int (count_where (\<lambda>s. rangeClear s reserved carves) ss))"
  using assms by (induction ss arbitrary: low n) (auto simp: first_clear_def)

lemma worst_fit_spec:
  assumes "worst_fit envs P reserved carves best n = (b', n')"
  shows "n \<le> n'" "\<forall>env\<in>set envs. snd (freeSlotsIn env P reserved carves) \<le> n'"
    "n' = n \<and> b' = best \<or> (\<exists>env\<in>set envs. freeSlotsIn env P reserved carves = (b', n'))"
  using assms
proof (atomize (full), induction envs arbitrary: best n)
  case (Cons env rest)
  obtain f c where fc: "freeSlotsIn env P reserved carves = (f, c)" by fastforce
  show ?case
  proof (cases "c > n")
    case True
    then show ?thesis using Cons.IH [of f c] Cons.prems fc by auto
  next
    case False
    then show ?thesis using Cons.IH [of best n] Cons.prems fc by auto
  qed
qed simp

lemma envelope_bits_bounds:
  assumes "pfx_bits pl \<le> P"
  shows "pfx_bits pl \<le> envelope_bits P pl" "envelope_bits P pl \<le> P"
  using assms by (auto simp: envelope_bits_def Let_def EnvelopeFloor_def MarginBits_def)

lemma mask4_finer: "mask4 e w = w \<Longrightarrow> e \<le> P \<Longrightarrow> mask4 P w = w"
proof -
  assume "mask4 e w = w" "e \<le> P"
  then have "2 ^ nat (32 - e) dvd unat w" "(2::nat) ^ nat (32 - P) dvd 2 ^ nat (32 - e)"
    using mask4_fix_iff_dvd le_imp_power_dvd by (blast, simp add: le_imp_power_dvd)
  then show ?thesis using mask4_fix_iff_dvd dvd_trans by blast
qed

text \<open>The block placed at the start of an envelope.\<close>

lemma start_of_envelope:
  assumes "aligned4 env" "pfx_bits env \<le> P" "P \<le> 32"
  defines "s \<equiv> masked (prefix_from (pfx_addr env) P)"
  shows "aligned4 s" "pfx_bits s = P" "pfx_addr s = pfx_addr env" "addrs_of s \<subseteq> addrs_of env"
proof -
  obtain w e where env: "env = Prefix (Addr4 w) e" "0 \<le> e" "e \<le> 32" "mask4 e w = w" using assms(1) by (rule aligned4E)
  have m: "mask4 P w = w" using mask4_finer [OF env(4)] assms(2) env(1) by simp
  have P0: "0 \<le> P" using assms(2) env by simp
  have s: "s = Prefix (Addr4 w) P" using env assms(3) P0 m by (simp add: s_def prefix_from_def masked4)
  show al: "aligned4 s" using s m assms(3) P0 by (simp add: aligned4_simp)
  show "pfx_bits s = P" "pfx_addr s = pfx_addr env" using s env by simp_all
  show "addrs_of s \<subseteq> addrs_of env"
    by (rule addrs_of_subset) (use assms(1-3) P0 al s env contains_self [OF aligned4_valid4 [OF assms(1)]] in
        \<open>simp_all add: aligned4_valid4\<close>)
qed

text \<open>Every slot lies in the envelope that starts at its masked address.\<close>

lemma slot_in_envelope:
  assumes "aligned4 pl" "pfx_bits pl \<le> E" "E \<le> P" "P \<le> 32" "s \<in> set (slots pl P)"
  obtains env where "env \<in> set (slots pl E)" "s \<in> set (slots env P)"
proof -
  have s: "aligned4 s" "pfx_bits s = P" "contains_addr pl (pfx_addr s)"
    using assms set_slots [of pl P] by auto
  obtain w where w: "s = Prefix (Addr4 w) P" "0 \<le> P" using s(1,2) by (elim aligned4E) auto
  have E0: "0 \<le> E" using assms(1,2) by (elim aligned4E) simp
  define env where "env = Prefix (Addr4 (mask4 E w)) E"
  have al: "aligned4 env" using E0 assms by (simp add: env_def aligned4_simp)
  have c: "contains_addr env (Addr4 w)"
    using E0 by (simp add: env_def contains4_iff drop_mask4)
  have "contains_addr pl (pfx_addr env)"
    using contains_nested [OF aligned4_valid4 [OF assms(1)] aligned4_valid4 [OF al] _ _ c contains_self [OF aligned4_valid4 [OF al]]]
      assms(2) s(3) w(1) by (simp add: env_def)
  then have "env \<in> set (slots pl E)" using al set_slots [of pl E] assms by (simp add: env_def)
  moreover have "s \<in> set (slots env P)" using set_slots [OF al, of P] assms s w c by (simp add: env_def)
  ultimately show thesis using that by blast
qed

lemma slots_of_envelope:
  assumes "aligned4 pl" "pfx_bits pl \<le> E" "E \<le> P" "P \<le> 32" "env \<in> set (slots pl E)" "s \<in> set (slots env P)"
  shows "s \<in> set (slots pl P)"
proof -
  have env: "aligned4 env" "pfx_bits env = E" "contains_addr pl (pfx_addr env)" using assms set_slots [of pl E] by auto
  have s: "aligned4 s" "pfx_bits s = P" "contains_addr env (pfx_addr s)"
    using assms set_slots [OF env(1), of P] env(2) by auto
  have "addrs_of env \<subseteq> addrs_of pl"
    by (rule addrs_of_subset) (use assms env aligned4_valid4 in auto)
  then show ?thesis using s set_slots [OF assms(1), of P] assms by (auto simp: addrs_of_def)
qed

lemma first_clear_None: "first_clear ss reserved carves = None \<longleftrightarrow> (\<forall>s\<in>set ss. \<not> rangeClear s reserved carves)"
  by (simp add: first_clear_def first_where_None_iff)

lemma first_clear_SomeD: "first_clear ss reserved carves = Some s \<Longrightarrow> s \<in> set ss \<and> rangeClear s reserved carves"
  by (auto simp: first_clear_def)

text \<open>The worst-fit pass finds a slot exactly when there is one.\<close>

lemma zero_prefix_invalid: "\<not> is_valid zero_prefix"
  by (simp add: is_valid_def zero_prefix_def)

lemma worst_fit_finds:
  assumes "aligned4 pl" "pfx_bits pl \<le> E" "E \<le> P" "P \<le> 32"
    and "worst_fit (slots pl E) P reserved carves zero_prefix (-1) = (s, n)"
  shows "0 < n \<Longrightarrow> s \<in> set (slots pl P) \<and> rangeClear s reserved carves \<and> is_valid s"
    and "t \<in> set (slots pl P) \<Longrightarrow> rangeClear t reserved carves \<Longrightarrow> 0 < n"
proof -
  note W = worst_fit_spec [OF assms(5)]
  have fs: "freeSlotsIn env P reserved carves =
     ((case first_clear (slots env P) reserved carves of Some s \<Rightarrow> s | None \<Rightarrow> zero_prefix),
      int (count_where (\<lambda>s. rangeClear s reserved carves) (slots env P)))" if "env \<in> set (slots pl E)" for env
  proof -
    have "aligned4 env" "pfx_bits env = E" using that assms set_slots [of pl E] by auto
    then have "\<forall>s\<in>set (slots env P). is_valid s"
      using set_slots [of env P] assms aligned4_valid4 valid4_valid by auto
    then show ?thesis
      by (simp add: freeSlotsIn_def free_slots_loop_eq zero_prefix_invalid)
  qed
  show "s \<in> set (slots pl P) \<and> rangeClear s reserved carves \<and> is_valid s" if n: "0 < n"
  proof -
    obtain env where env: "env \<in> set (slots pl E)" "freeSlotsIn env P reserved carves = (s, n)"
      using W(3) n by auto
    then have "count_where (\<lambda>s. rangeClear s reserved carves) (slots env P) \<noteq> 0" using fs [OF env(1)] n by auto
    then obtain s' where s': "first_clear (slots env P) reserved carves = Some s'"
      using first_clear_None count_where_0_iff by (metis not_None_eq)
    then have "s = s'" using fs [OF env(1)] env(2) by simp
    then have s: "s \<in> set (slots pl P)" "rangeClear s reserved carves"
      using first_clear_SomeD [OF s'] slots_of_envelope [OF assms(1-4) env(1)] by auto
    moreover have "is_valid s" using s(1) set_slots [of pl P] assms aligned4_valid4 valid4_valid by auto
    ultimately show ?thesis by blast
  qed
  show "0 < n" if t: "t \<in> set (slots pl P)" "rangeClear t reserved carves"
  proof -
    obtain env where env: "env \<in> set (slots pl E)" "t \<in> set (slots env P)"
      using slot_in_envelope [OF assms(1-4) t(1)] .
    then have "count_where (\<lambda>s. rangeClear s reserved carves) (slots env P) \<noteq> 0"
      using t(2) env(2) by (auto simp: count_where_0_iff)
    then show ?thesis using W(2) env(1) fs [OF env(1)] by fastforce
  qed
qed

lemma Suggest_cases:
  assumes "valid4 pool0" "pfx_bits pool0 \<le> P" "P \<le> 32" "\<forall>c\<in>set carves. wf_prefix c"
  defines "pl \<equiv> masked pool0"
  defines "E \<equiv> envelope_bits P pl"
  shows "first_clear (slots pl E) reserved carves = Some env \<Longrightarrow>
      Suggest P pool0 reserved carves = Inr (masked (prefix_from (pfx_addr env) P))"
    and "first_clear (slots pl E) reserved carves = None \<Longrightarrow>
      Suggest P pool0 reserved carves =
        (case worst_fit (slots pl E) P reserved carves zero_prefix (-1) of
           (s, n) \<Rightarrow> if 0 < n then Inr s else Inl NbPoolFull)"
proof -
  have al: "aligned4 pl" unfolding pl_def using assms(1) by (rule aligned4_masked)
  have bits: "pfx_bits pl = pfx_bits pool0" unfolding pl_def using assms(1) by (elim valid4E) (simp add: masked4)
  have ok: "is_valid pl" "is4 (pfx_addr pl)" "\<not> P < pfx_bits pl" "\<not> 32 < P"
    using al assms(2,3) bits valid4_valid [OF aligned4_valid4 [OF al]] aligned4_valid4 [OF al]
    by (auto simp: valid4_def)
  note E = envelope_bits_bounds [of pl P, folded E_def]
  have EP: "pfx_bits pl \<le> E" "E \<le> P" using E ok by auto
  have main: "Suggest P pool0 reserved carves =
     (case first_clear (slots pl E) reserved carves of
        Some env \<Rightarrow> Inr (masked (prefix_from (pfx_addr env) P))
      | None \<Rightarrow> (case worst_fit (slots pl E) P reserved carves zero_prefix (-1) of
           (s, n) \<Rightarrow> if 0 < n \<and> is_valid s then Inr s
              else case relax_loop (nat (P - E)) (E + 1) pl reserved carves of
                Some env \<Rightarrow> Inr (masked (prefix_from (pfx_addr env) P))
              | None \<Rightarrow> (case first_clear (slots pl P) reserved carves of
                   Some slot \<Rightarrow> Inr slot | None \<Rightarrow> Inl NbPoolFull)))"
    unfolding Suggest_def Let_def pl_def [symmetric] E_def [symmetric] using ok by (simp only: if_False not_False_eq_True HOL.simp_thms)
  show "first_clear (slots pl E) reserved carves = Some env \<Longrightarrow>
      Suggest P pool0 reserved carves = Inr (masked (prefix_from (pfx_addr env) P))"
    using main by simp
  assume no: "first_clear (slots pl E) reserved carves = None"
  obtain s n where W: "worst_fit (slots pl E) P reserved carves zero_prefix (-1) = (s, n)" by fastforce
  note F = worst_fit_finds [OF al EP assms(3) W]
  have relax: "relax_loop k e pl reserved carves = None"
    if none: "\<forall>t\<in>set (slots pl P). \<not> rangeClear t reserved carves" and e: "pfx_bits pl \<le> e" "e + int k \<le> P + 1" for k e
    using e
  proof (induction k arbitrary: e)
    case (Suc k)
    have "\<not> rangeClear env reserved carves" if env: "env \<in> set (slots pl e)" for env
    proof
      assume cl: "rangeClear env reserved carves"
      have e: "aligned4 env" "pfx_bits env = e" "contains_addr pl (pfx_addr env)"
        using env set_slots [OF al, of e] Suc.prems assms(3) by auto
      note S = start_of_envelope [OF e(1), of P, simplified e(2)]
      let ?s = "masked (prefix_from (pfx_addr env) P)"
      have "?s \<in> set (slots pl P)" using S e(3) set_slots [OF al, of P] Suc.prems assms(3) ok(3) by simp
      moreover have "rangeClear ?s reserved carves"
        using rangeClear_sub [OF aligned4_valid4 [OF e(1)] aligned4_valid4 assms(4) _ cl] S Suc.prems assms(3) by simp
      ultimately show False using none by blast
    qed
    then have "first_clear (slots pl e) reserved carves = None" by (simp add: first_clear_None)
    then show ?case using Suc by simp
  qed simp
  show "Suggest P pool0 reserved carves =
        (case worst_fit (slots pl E) P reserved carves zero_prefix (-1) of
           (s, n) \<Rightarrow> if 0 < n then Inr s else Inl NbPoolFull)"
  proof (cases "0 < n")
    case True
    then show ?thesis using main no W F(1) by simp
  next
    case False
    then have none: "\<forall>t\<in>set (slots pl P). \<not> rangeClear t reserved carves" using F(2) by blast
    have "relax_loop (nat (P - E)) (E + 1) pl reserved carves = None" using relax [OF none] EP by simp
    moreover have "first_clear (slots pl P) reserved carves = None" using none first_clear_None by blast
    ultimately show ?thesis using main no W False by simp
  qed
qed

subsection \<open>The cached snapshot\<close>

definition cache_ok :: "registry \<Rightarrow> netblock_db \<Rightarrow> bool" where
  "cache_ok rg db \<longleftrightarrow> (\<forall>c. rg_cache rg = Some c \<longrightarrow> c = build_cache (rev (nb_rows db)) empty_cache)"

lemma build_cache_lookup:
  assumes "distinct (map nb_name rows)" "\<forall>r\<in>set rows. is_valid (nb_prefix r)"
  shows "map_of (rc_rows (build_cache rows c)) n =
      (case first_where (\<lambda>r. nb_name r = n) rows of Some r \<Rightarrow> Some r | None \<Rightarrow> map_of (rc_rows c) n)"
    and "map_of (rc_by_name (build_cache rows c)) n =
      (case first_where (\<lambda>r. nb_name r = n) rows of Some r \<Rightarrow> Some (nb_prefix r) | None \<Rightarrow> map_of (rc_by_name c) n)"
    and "rc_all (build_cache rows c) = rc_all c @ map nb_prefix rows"
  using assms
proof (atomize (full), induction rows arbitrary: c)
  case (Cons r rows)
  have "nb_name r \<notin> nb_name ` set rows" using Cons.prems by simp
  then have none: "first_where (\<lambda>q. nb_name q = nb_name r) rows = None"
    by (auto simp: first_where_None_iff image_iff)
  then show ?case using Cons.prems
    by (auto simp: Let_def Cons.IH update_conv' split: option.splits)
qed simp

lemma rows_valid: "nb_wf rg db \<Longrightarrow> r \<in> set (nb_rows db) \<Longrightarrow> is_valid (nb_prefix r)"
  by (auto simp: nb_wf_def intro: valid4_valid nb_prefix_ok(3))

lemma first_where_rev:
  assumes "distinct (map key rows)"
  shows "first_where (\<lambda>r. key r = n) (rev rows) = first_where (\<lambda>r. key r = n) rows"
proof (cases "first_where (\<lambda>r. key r = n) rows")
  case None
  then have "first_where (\<lambda>r. key r = n) (rev rows) = None" by (simp add: first_where_None_iff)
  then show ?thesis using None by simp
next
  case (Some r)
  then have "r \<in> set rows" "key r = n" by auto
  then show ?thesis using first_where_unique [of key "rev rows" r] first_where_unique [of key rows r] assms
    by (simp add: rev_map [symmetric])
qed

abbreviation nb_lookup :: "netblock_db \<Rightarrow> string \<Rightarrow> netblock option" where
  "nb_lookup db name \<equiv> first_where (\<lambda>r. nb_name r = name) (nb_rows db)"

lemma snapshot_lookup:
  assumes "nb_wf rg db"
  defines "c \<equiv> build_cache (rev (nb_rows db)) empty_cache"
  shows "map_of (rc_rows c) n = nb_lookup db n"
    and "map_of (rc_by_name c) n = map_option nb_prefix (nb_lookup db n)"
    and "rc_all c = map nb_prefix (rev (nb_rows db))"
    and "set (rc_rows c) = (\<lambda>r. (nb_name r, r)) ` set (nb_rows db)"
proof -
  have d: "distinct (map nb_name (nb_rows db))" using assms by (simp add: nb_wf_def)
  have dr: "distinct (map nb_name (rev (nb_rows db)))" using d by (simp add: rev_map [symmetric])
  have v: "\<forall>r\<in>set (rev (nb_rows db)). is_valid (nb_prefix r)" using rows_valid assms by simp
  note B = build_cache_lookup [OF dr v, of empty_cache, folded c_def]
  show lk: "map_of (rc_rows c) n = nb_lookup db n" for n
    using B(1) first_where_rev [OF d] by (simp add: empty_cache_def split: option.splits)
  show "map_of (rc_by_name c) n = map_option nb_prefix (nb_lookup db n)"
    using B(2) first_where_rev [OF d] by (simp add: empty_cache_def split: option.splits)
  show "rc_all c = map nb_prefix (rev (nb_rows db))" using B(3) by (simp add: empty_cache_def)
  have "distinct (map fst (rc_rows (build_cache rows c0)))" if "distinct (map fst (rc_rows c0))" for rows c0
    using that by (induction rows arbitrary: c0) (auto simp: Let_def distinct_update)
  then have dc: "distinct (map fst (rc_rows c))" unfolding c_def by (simp add: empty_cache_def)
  show "set (rc_rows c) = (\<lambda>r. (nb_name r, r)) ` set (nb_rows db)"
  proof (intro set_eqI iffI)
    fix x assume x: "x \<in> set (rc_rows c)"
    then have "map_of (rc_rows c) (fst x) = Some (snd x)" using dc by simp
    then show "x \<in> (\<lambda>r. (nb_name r, r)) ` set (nb_rows db)" unfolding lk by (cases x) auto
  next
    fix x assume "x \<in> (\<lambda>r. (nb_name r, r)) ` set (nb_rows db)"
    then obtain r where r: "r \<in> set (nb_rows db)" "x = (nb_name r, r)" by auto
    then have "map_of (rc_rows c) (nb_name r) = Some r" unfolding lk using first_where_unique [OF d] by blast
    then show "x \<in> set (rc_rows c)" using r(2) by (simp add: map_of_SomeD)
  qed
qed

lemma snapshot_ok:
  assumes "snapshot f rg db = (r, rg')" "cache_ok rg db"
  shows "cache_ok rg' db" and "r = Inr (build_cache (rev (nb_rows db)) empty_cache) \<or> r = Inl NbDb \<and> f \<and> rg' = rg"
    and "rg_pool rg' = rg_pool rg" "rg_reserved rg' = rg_reserved rg" "rg_gen rg' = rg_gen rg"
  using assms by (auto simp: snapshot_def nb_List_def cache_ok_def snapshot_publish_def Let_def split: option.splits if_splits)

text \<open>Resolution is truthful, and an unknown name falls back to the default block.\<close>

lemma ResolveFull_spec:
  assumes "nb_wf rg db" "cache_ok rg db"
  shows "fst (ResolveFull False rg db name) =
    (case nb_lookup db (if name = [] then NameDefault else name) of
       Some row \<Rightarrow> Inr (resolved_of row)
     | None \<Rightarrow> (case nb_lookup db NameDefault of Some def \<Rightarrow> Inr (resolved_of def) | None \<Rightarrow> Inl NbNotFound))"
proof -
  obtain r rg' where s: "snapshot False rg db = (r, rg')" by fastforce
  then have "r = Inr (build_cache (rev (nb_rows db)) empty_cache)" using snapshot_ok(2) [OF s assms(2)] by blast
  then show ?thesis using s snapshot_lookup(1) [OF assms(1)]
    by (auto simp: ResolveFull_def Let_def split: option.splits)
qed

subsection \<open>The registry behind the allocator's interface\<close>

text \<open>One process: its registry, the shared table, the failures its next statements meet and its clock.
  Each call consumes five slots of the schedule (four statements and the \<open>LiveAddrs\<close> read).\<close>

record nb_proc =
  np_rg :: registry
  np_db :: netblock_db
  np_flt :: faults
  np_now :: time_ns

definition inr_option :: "'e + 'a \<Rightarrow> 'a option" where
  "inr_option r = (case r of Inr x \<Rightarrow> Some x | Inl _ \<Rightarrow> None)"

definition reg_full :: "nb_proc \<Rightarrow> string \<Rightarrow> resolved option \<times> nb_proc" where
  "reg_full p name =
     (case ResolveFull (np_flt p 0) (np_rg p) (np_db p) name of
        (r, rg') \<Rightarrow> (inr_option r, p\<lparr>np_rg := rg', np_flt := skip_faults 5 (np_flt p)\<rparr>))"

definition reg_resolve :: "nb_proc \<Rightarrow> string \<Rightarrow> prefix option \<times> nb_proc" where
  "reg_resolve p name =
     (case Resolve (np_flt p 0) (np_rg p) (np_db p) name of
        (r, rg') \<Rightarrow> (inr_option r, p\<lparr>np_rg := rg', np_flt := skip_faults 5 (np_flt p)\<rparr>))"

definition reg_carves :: "nb_proc \<Rightarrow> prefix list option \<times> nb_proc" where
  "reg_carves p =
     (case Carves (np_flt p 0) (np_rg p) (np_db p) of
        (r, rg') \<Rightarrow> (inr_option r, p\<lparr>np_rg := rg', np_flt := skip_faults 5 (np_flt p)\<rparr>))"

definition reg_grow :: "nb_proc \<Rightarrow> ipam_db \<Rightarrow> string \<Rightarrow> string \<Rightarrow> prefix option \<times> nb_proc" where
  "reg_grow p db name actor =
     (case nb_Grow (np_flt p) (np_rg p) (np_db p) (Some (LiveAddrs (np_flt p 4) (np_now p) db)) name actor of
        (r, db', rg') \<Rightarrow> (inr_option r, p\<lparr>np_rg := rg', np_db := db', np_flt := skip_faults 5 (np_flt p)\<rparr>))"

definition reg_ops :: "nb_proc resolver_ops" where
  "reg_ops = \<lparr>ro_resolve = reg_resolve, ro_carves = reg_carves, ro_full = Some reg_full, ro_grow = Some reg_grow\<rparr>"

text \<open>Control-plane space: the addresses of the reserved blocks.\<close>

definition reserved_space :: "netblock_db \<Rightarrow> addr set" where
  "reserved_space db = (\<Union>r\<in>{r \<in> set (nb_rows db). nb_kind r = KindReserved}. addrs_of (nb_prefix r))"

definition reg_inv :: "prefix \<Rightarrow> addr set \<Rightarrow> nb_proc \<Rightarrow> bool" where
  "reg_inv rng forb p \<longleftrightarrow>
     nb_wf (np_rg p) (np_db p) \<and> cache_ok (np_rg p) (np_db p) \<and> rg_pool (np_rg p) = rng \<and>
     (\<exists>d. nb_lookup (np_db p) NameDefault = Some d \<and> nb_kind d \<noteq> KindReserved) \<and> forb = reserved_space (np_db p)"

definition reg_room :: "nb_proc \<Rightarrow> string \<Rightarrow> nat" where
  "reg_room p name = (case nb_lookup (np_db p) name of None \<Rightarrow> 0 | Some row \<Rightarrow> min 32 (nat (pfx_bits (nb_prefix row))))"

lemma nb_wf_cong: "rg_pool rg' = rg_pool rg \<Longrightarrow> rg_reserved rg' = rg_reserved rg \<Longrightarrow> nb_wf rg' db = nb_wf rg db"
  by (simp add: nb_wf_def nb_row_ok_def)

lemma reg_inv_rg:
  assumes "reg_inv rng forb p" "cache_ok rg' (np_db p)" "rg_pool rg' = rg_pool (np_rg p)" "rg_reserved rg' = rg_reserved (np_rg p)"
  shows "reg_inv rng forb (p\<lparr>np_rg := rg', np_flt := flt\<rparr>)" "reg_room (p\<lparr>np_rg := rg', np_flt := flt\<rparr>) = reg_room p"
  using assms nb_wf_cong [OF assms(3,4)] by (simp_all add: reg_inv_def reg_room_def fun_eq_iff)

lemma block_in_range:
  assumes "nb_wf rg db" "row \<in> set (nb_rows db)"
  shows "valid4 (nb_prefix row)" "addrs_of (nb_prefix row) \<subseteq> addrs_of (rg_pool rg)"
proof -
  have ok: "nb_row_ok rg row" and pool: "aligned4 (rg_pool rg)" using assms by (auto simp: nb_wf_def)
  show "valid4 (nb_prefix row)" using nb_prefix_ok(3) [OF ok] .
  then show "addrs_of (nb_prefix row) \<subseteq> addrs_of (rg_pool rg)"
    using prefixInside_addrs pool nb_prefix_ok(4) [OF ok] by blast
qed

lemma snapshot_keeps_inv:
  assumes "reg_inv rng forb p" "snapshot f (np_rg p) (np_db p) = (r, rg')"
  shows "reg_inv rng forb (p\<lparr>np_rg := rg', np_flt := flt\<rparr>)" "reg_room (p\<lparr>np_rg := rg', np_flt := flt\<rparr>) = reg_room p"
  using snapshot_ok [OF assms(2)] assms(1) reg_inv_rg by (auto simp: reg_inv_def)

lemma ResolveFull_ok:
  assumes "nb_wf rg db" "cache_ok rg db" "ResolveFull f rg db name = (Inr res, rg')"
  shows "\<exists>row\<in>set (nb_rows db). res = resolved_of row" and "rg_cache rg' \<noteq> None"
proof -
  obtain s rg1 where s: "snapshot f rg db = (s, rg1)" by fastforce
  then have c: "s = Inr (build_cache (rev (nb_rows db)) empty_cache)" and rg': "rg' = rg1"
    using snapshot_ok(2) [OF s assms(2)] assms(3) by (auto simp: ResolveFull_def Let_def split: option.splits if_splits)
  show "\<exists>row\<in>set (nb_rows db). res = resolved_of row"
    using assms(3) s c snapshot_lookup(1) [OF assms(1)]
    by (auto simp: ResolveFull_def Let_def split: option.splits if_splits)
  show "rg_cache rg' \<noteq> None" using s c rg'
    by (auto simp: snapshot_def nb_List_def snapshot_publish_def Let_def split: option.splits if_splits)
qed

lemma lookup_update:
  assumes "\<And>r. nb_name (f r) = nb_name r"
  shows "first_where (\<lambda>r. nb_name r = n) (update_where (\<lambda>q. nb_name q = m) f rows) =
    (if n = m then map_option f (first_where (\<lambda>r. nb_name r = n) rows) else first_where (\<lambda>r. nb_name r = n) rows)"
  using assms by (induction rows) auto

lemma reg_grow_ok:
  assumes "reg_inv rng forb p" "reg_grow p db name actor = (r, p')"
  shows "reg_inv rng forb p'"
    and "r = Some q \<Longrightarrow> reg_room p' name < reg_room p name \<and> valid4 q \<and> addrs_of q \<subseteq> addrs_of rng \<and> addrs_of q \<inter> forb = {}"
proof -
  obtain g db' rg' where g: "nb_Grow (np_flt p) (np_rg p) (np_db p) (Some (LiveAddrs (np_flt p 4) (np_now p) db)) name actor = (g, db', rg')"
    by (metis prod_cases3)
  have wf: "nb_wf (np_rg p) (np_db p)" and c: "cache_ok (np_rg p) (np_db p)" and rng: "rg_pool (np_rg p) = rng"
    and forb: "forb = reserved_space (np_db p)" using assms(1) by (auto simp: reg_inv_def)
  have p': "p' = p\<lparr>np_rg := rg', np_db := db', np_flt := skip_faults 5 (np_flt p)\<rparr>" and r: "r = inr_option g"
    using assms(2) g by (auto simp: reg_grow_def)
  consider (no) e where "g = Inl e" "db' = np_db p" "rg' = np_rg p"
    | (yes) row nxt where "g = Inr nxt" "row \<in> set (nb_rows (np_db p))" "nb_name row = name" "nb_kind row = KindNamed"
       "nb_rows db' = update_where (\<lambda>q. nb_name q = name) (\<lambda>q. q\<lparr>nb_cidr := CidrText nxt\<rparr>) (nb_rows (np_db p))"
       "nb_wf (np_rg p) db'" "rg' = invalidate (np_rg p)" "aligned4 nxt" "prefixInside nxt (rg_pool (np_rg p))"
       "pfx_bits nxt = pfx_bits (nb_prefix row) - 1"
    using nb_Grow_cases [OF g wf] by blast
  note ways = this
  have "reg_inv rng forb p' \<and> (\<forall>q. r = Some q \<longrightarrow>
      reg_room p' name < reg_room p name \<and> valid4 q \<and> addrs_of q \<subseteq> addrs_of rng \<and> addrs_of q \<inter> forb = {})"
    using ways
  proof cases
    case no
    then show ?thesis using assms(1) p' r by (simp add: reg_inv_def inr_option_def)
  next
    case yes
    have lk: "nb_lookup db' n = (if n = name then map_option (\<lambda>q. q\<lparr>nb_cidr := CidrText nxt\<rparr>) (nb_lookup (np_db p) n)
        else nb_lookup (np_db p) n)" for n unfolding yes(5) by (rule lookup_update) simp
    have d: "distinct (map nb_name (nb_rows (np_db p)))" using wf by (simp add: nb_wf_def)
    have own: "nb_lookup (np_db p) name = Some row" using first_where_unique [OF d yes(2)] yes(3) by simp
    have mem: "q \<in> set (nb_rows db') \<and> nb_kind q = KindReserved \<longleftrightarrow> q \<in> set (nb_rows (np_db p)) \<and> nb_kind q = KindReserved" for q
    proof -
      have "nb_name x = name \<Longrightarrow> x \<in> set (nb_rows (np_db p)) \<Longrightarrow> nb_kind x \<noteq> KindReserved" for x
        using distinct_map_inj [OF d _ yes(2)] yes(3,4) by (auto simp: KindReserved_def KindNamed_def)
      then show ?thesis unfolding yes(5) set_update_where by auto
    qed
    have forb': "reserved_space db' = forb" unfolding forb reserved_space_def using mem by auto
    have inv': "nb_wf rg' db'" "rg_pool rg' = rng"
      using yes(6,7) nb_wf_cong [of "invalidate (np_rg p)" "np_rg p"] rng by (simp_all add: invalidate_def)
    have c': "cache_ok rg' db'" using yes(7) by (simp add: cache_ok_def invalidate_def)
    have def': "\<exists>d. nb_lookup db' NameDefault = Some d \<and> nb_kind d \<noteq> KindReserved"
      using assms(1) lk [of NameDefault] by (auto simp: reg_inv_def)
    have inv: "reg_inv rng forb p'" using inv' c' def' forb' p' by (simp add: reg_inv_def)
    have q: "nb_prefix (row\<lparr>nb_cidr := CidrText nxt\<rparr>) = nxt" using yes(8) by (simp add: nb_prefix_def aligned4_eq)
    have b: "0 < pfx_bits (nb_prefix row)" "pfx_bits (nb_prefix row) \<le> 32"
      using yes(8,10) aligned4_valid4 [OF yes(8)] block_in_range(1) [OF wf yes(2)] by (auto simp: valid4_def)
    have room: "reg_room p' name < reg_room p name"
      using own lk [of name] b yes(10) q by (simp add: reg_room_def p')
    have row': "row\<lparr>nb_cidr := CidrText nxt\<rparr> \<in> set (nb_rows db')" unfolding yes(5) set_update_where using yes(2,3) by blast
    have "addrs_of nxt \<inter> forb = {}"
    proof -
      have "addrs_of nxt \<inter> addrs_of (nb_prefix x) = {}" if x: "x \<in> set (nb_rows db')" "nb_kind x = KindReserved" for x
      proof -
        have "nb_name x \<noteq> nb_name (row\<lparr>nb_cidr := CidrText nxt\<rparr>)"
          using x mem [of x] yes(2,3,4) distinct_map_inj [OF d, of x row] by (auto simp: KindReserved_def KindNamed_def)
        then show ?thesis using yes(6) x(1) row' q unfolding nb_wf_def disjoint_blocks_def by metis
      qed
      then show ?thesis unfolding forb' [symmetric] reserved_space_def by blast
    qed
    moreover have "valid4 nxt" "addrs_of nxt \<subseteq> addrs_of rng"
      using block_in_range [OF yes(6) row'] q rng by auto
    ultimately show ?thesis using inv room r yes(1) by (simp add: inr_option_def)
  qed
  then show "reg_inv rng forb p'"
    and "r = Some q \<Longrightarrow> reg_room p' name < reg_room p name \<and> valid4 q \<and> addrs_of q \<subseteq> addrs_of rng \<and> addrs_of q \<inter> forb = {}"
    by blast+
qed

lemma via_snapshot:
  "\<exists>f g. ResolveFull fl rg db name = (f (fst (snapshot fl rg db)), snd (snapshot fl rg db)) \<and>
     Resolve fl rg db name = (g (fst (snapshot fl rg db)), snd (snapshot fl rg db))"
  "\<exists>f. Carves fl rg db = (f (fst (snapshot fl rg db)), snd (snapshot fl rg db))"
proof -
  obtain r rg' where s: "snapshot fl rg db = (r, rg')" by fastforce
  show "\<exists>f g. ResolveFull fl rg db name = (f (fst (snapshot fl rg db)), snd (snapshot fl rg db)) \<and>
     Resolve fl rg db name = (g (fst (snapshot fl rg db)), snd (snapshot fl rg db))"
    by (cases r) (auto simp: ResolveFull_def Resolve_def s Let_def split: option.splits if_splits)
  show "\<exists>f. Carves fl rg db = (f (fst (snapshot fl rg db)), snd (snapshot fl rg db))"
    by (cases r) (auto simp: Carves_def s)
qed

lemma reg_full_ok:
  assumes "reg_inv rng forb p" "reg_full p name = (r, p')"
  shows "reg_inv rng forb p'" "reg_room p' = reg_room p"
    and "r = Some res \<Longrightarrow> valid4 (rs_cidr res) \<and> addrs_of (rs_cidr res) \<subseteq> addrs_of rng"
    and "r = Some res \<Longrightarrow> \<not> rs_reserved res \<Longrightarrow> addrs_of (rs_cidr res) \<inter> forb = {}"
    and "r = Some res \<Longrightarrow> rg_cache (np_rg p') \<noteq> None"
proof -
  obtain g rg' where g: "ResolveFull (np_flt p 0) (np_rg p) (np_db p) name = (g, rg')" by fastforce
  have p': "p' = p\<lparr>np_rg := rg', np_flt := skip_faults 5 (np_flt p)\<rparr>" and r: "r = inr_option g"
    using assms(2) g by (auto simp: reg_full_def)
  have "snd (snapshot (np_flt p 0) (np_rg p) (np_db p)) = rg'" using via_snapshot(1) g by (metis snd_conv)
  then show "reg_inv rng forb p'" "reg_room p' = reg_room p"
    using snapshot_keeps_inv [OF assms(1), of "np_flt p 0"] p' by (metis prod.collapse)+
  have wf: "nb_wf (np_rg p) (np_db p)" and c: "cache_ok (np_rg p) (np_db p)" and rng: "rg_pool (np_rg p) = rng"
    and forb: "forb = reserved_space (np_db p)" using assms(1) by (auto simp: reg_inv_def)
  assume "r = Some res"
  then have g': "g = Inr res" using r by (cases g) (auto simp: inr_option_def)
  obtain row where row: "row \<in> set (nb_rows (np_db p))" "res = resolved_of row"
    using ResolveFull_ok(1) [OF wf c g [unfolded g']] by blast
  show "valid4 (rs_cidr res) \<and> addrs_of (rs_cidr res) \<subseteq> addrs_of rng"
    using block_in_range [OF wf row(1)] row(2) rng by (simp add: resolved_of_def)
  show "rg_cache (np_rg p') \<noteq> None" using ResolveFull_ok(2) [OF wf c g [unfolded g']] p' by simp
  assume "\<not> rs_reserved res"
  then have k: "nb_kind row \<noteq> KindReserved" using row(2) by (simp add: resolved_of_def)
  have "addrs_of (nb_prefix row) \<inter> addrs_of (nb_prefix x) = {}" if "x \<in> set (nb_rows (np_db p))" "nb_kind x = KindReserved" for x
  proof -
    have "distinct (map nb_name (nb_rows (np_db p)))" using wf by (simp add: nb_wf_def)
    then have "nb_name row \<noteq> nb_name x" using distinct_map_inj row(1) that k by metis
    then show ?thesis using wf row(1) that(1) by (auto simp: nb_wf_def disjoint_blocks_def)
  qed
  then show "addrs_of (rs_cidr res) \<inter> forb = {}"
    using row(2) forb by (auto simp: resolved_of_def reserved_space_def)
qed

lemma reg_default_ok:
  assumes "reg_inv rng forb p" "rg_cache (np_rg p) \<noteq> None" "reg_full p NameDefault = (r, p')"
  shows "\<exists>d. r = Some d \<and> \<not> rs_reserved d"
proof -
  have wf: "nb_wf (np_rg p) (np_db p)" and c: "cache_ok (np_rg p) (np_db p)" using assms(1) by (auto simp: reg_inv_def)
  obtain d where d: "nb_lookup (np_db p) NameDefault = Some d" "nb_kind d \<noteq> KindReserved"
    using assms(1) by (auto simp: reg_inv_def)
  have "ResolveFull (np_flt p 0) (np_rg p) (np_db p) NameDefault = ResolveFull False (np_rg p) (np_db p) NameDefault"
    using assms(2) by (auto simp: ResolveFull_def snapshot_def split: option.splits)
  then have "fst (ResolveFull (np_flt p 0) (np_rg p) (np_db p) NameDefault) = Inr (resolved_of d)"
    using ResolveFull_spec [OF wf c, of NameDefault] d by (simp add: NameDefault_def)
  then have "r = Some (resolved_of d)"
    using assms(3) by (cases "ResolveFull (np_flt p 0) (np_rg p) (np_db p) NameDefault") (auto simp: reg_full_def inr_option_def)
  then show ?thesis using d(2) by (simp add: resolved_of_def)
qed

lemma reg_resolve_ok:
  assumes "reg_inv rng forb p" "reg_resolve p name = (r, p')"
  shows "reg_inv rng forb p' \<and> reg_room p' = reg_room p \<and> (\<forall>q. r = Some q \<longrightarrow> valid4 q \<and> addrs_of q \<subseteq> addrs_of rng)"
proof -
  have wf: "nb_wf (np_rg p) (np_db p)" and c: "cache_ok (np_rg p) (np_db p)" and rng: "rg_pool (np_rg p) = rng"
    using assms(1) by (auto simp: reg_inv_def)
  obtain s rg' where s: "snapshot (np_flt p 0) (np_rg p) (np_db p) = (s, rg')" by fastforce
  have p': "p' = p\<lparr>np_rg := rg', np_flt := skip_faults 5 (np_flt p)\<rparr>"
    using assms(2) s by (auto simp: reg_resolve_def Resolve_def Let_def split: prod.splits sum.splits option.splits if_splits)
  have "\<exists>row\<in>set (nb_rows (np_db p)). q = nb_prefix row" if "r = Some q" for q
    using that assms(2) s snapshot_ok(2) [OF s c] snapshot_lookup(2) [OF wf]
    by (auto simp: reg_resolve_def Resolve_def Let_def inr_option_def split: prod.splits sum.splits option.splits if_splits)
  then show ?thesis using block_in_range [OF wf] rng snapshot_keeps_inv [OF assms(1) s] p' by blast
qed

interpretation nbreg: guarded_provider reg_ops "reg_inv rng forb" reg_room rng forb for rng forb
proof (unfold_locales, goal_cases)
  case (1 full n name r n')
  then have f: "reg_inv rng forb n" "reg_full n name = (r, n')" by (auto simp: reg_ops_def)
  show ?case using reg_full_ok(1,2,3) [OF f] by blast
next
  case (2 n name p n')
  then show ?case using reg_resolve_ok by (auto simp: reg_ops_def)
next
  case (3 n cs n')
  then show ?case using snapshot_keeps_inv via_snapshot(2)
    by (auto simp: reg_ops_def reg_carves_def split: prod.splits) (metis prod.collapse snd_conv)+
next
  case (4 grow n db name actor p n')
  then have g: "reg_inv rng forb n" "reg_grow n db name actor = (p, n')" by (auto simp: reg_ops_def)
  show ?case using reg_grow_ok [OF g] by blast
next
  case (5 n name)
  then show ?case by (simp add: reg_room_def split: option.splits)
next
  case 6
  then show ?case by (simp add: reg_ops_def)
next
  case (7 full n name res n')
  then show ?case using reg_full_ok(4) by (auto simp: reg_ops_def)
next
  case (8 full n name res n1 r n2)
  then show ?case using reg_full_ok(1,5) reg_default_ok by (metis reg_ops_def option.inject resolver_ops.select_convs(3))
next
  case (9 grow n db name actor q n')
  then have g: "reg_inv rng forb n" "reg_grow n db name actor = (Some q, n')" by (auto simp: reg_ops_def)
  show ?case using reg_grow_ok(2) [OF g] by blast
qed

subsection \<open>Sequences of registry operations\<close>

datatype nb_cmd = CmdAdd string prefix string string | CmdSeed string prefix string string string
  | CmdUpdate string prefix string string | CmdRemove string string | CmdGrow string string
  | CmdResolve string | CmdResolveFull string | CmdCarves | CmdSuggest int

fun nb_exec :: "faults \<Rightarrow> time_ns \<Rightarrow> live_hook \<Rightarrow> nb_cmd \<Rightarrow> registry \<times> netblock_db \<Rightarrow> registry \<times> netblock_db" where
  "nb_exec flt now live (CmdAdd n c d a) (rg, db) = (case nb_Add flt now rg db n c d a of (_, db', rg') \<Rightarrow> (rg', db'))"
| "nb_exec flt now live (CmdSeed n c k d a) (rg, db) = (case nb_Seed flt now rg db n c k d a of (_, db', rg') \<Rightarrow> (rg', db'))"
| "nb_exec flt now live (CmdUpdate n c d a) (rg, db) = (case nb_Update flt rg db live n c d a of (_, db', rg') \<Rightarrow> (rg', db'))"
| "nb_exec flt now live (CmdRemove n a) (rg, db) = (case nb_Remove flt rg db live n a of (_, db', rg') \<Rightarrow> (rg', db'))"
| "nb_exec flt now live (CmdGrow n a) (rg, db) = (case nb_Grow flt rg db live n a of (_, db', rg') \<Rightarrow> (rg', db'))"
| "nb_exec flt now live (CmdResolve n) (rg, db) = (snd (Resolve (flt 0) rg db n), db)"
| "nb_exec flt now live (CmdResolveFull n) (rg, db) = (snd (ResolveFull (flt 0) rg db n), db)"
| "nb_exec flt now live CmdCarves (rg, db) = (snd (Carves (flt 0) rg db), db)"
| "nb_exec flt now live (CmdSuggest P) (rg, db) = (snd (nb_Suggest (flt 0) rg db P), db)"

definition nb_run :: "(faults \<times> time_ns \<times> live_hook \<times> nb_cmd) list \<Rightarrow> registry \<times> netblock_db \<Rightarrow> registry \<times> netblock_db" where
  "nb_run script st = foldl (\<lambda>st (flt, now, live, cmd). nb_exec flt now live cmd st) st script"

definition empty_netblocks :: netblock_db where
  "empty_netblocks = \<lparr>nb_rows = [], nb_seq = 1, nb_log = []\<rparr>"

abbreviation same_config :: "registry \<Rightarrow> registry \<Rightarrow> bool" where
  "same_config rg rg' \<equiv> rg_pool rg' = rg_pool rg \<and> rg_reserved rg' = rg_reserved rg"

lemma invalidate_simps [simp]: "rg_pool (invalidate rg) = rg_pool rg" "rg_reserved (invalidate rg) = rg_reserved rg"
  "rg_cache (invalidate rg) = None" "rg_gen (invalidate rg) = rg_gen rg + 1"
  by (simp_all add: invalidate_def)

lemma nb_Seed_effect:
  assumes "nb_Seed flt now rg db name cidr kind description actor = (r, db', rg')"
  shows "db' = db \<and> rg' = rg \<or> rg' = invalidate rg \<and> (\<exists>row. nb_rows db' = nb_rows db @ [row])"
  using assms unfolding nb_Seed_def
  by (auto simp: Let_def nb_create_def nb_recordAudit_def split: if_splits option.splits create_result.splits prod.splits sum.splits)

lemma snapshot_step:
  assumes "nb_wf rg db" "cache_ok rg db"
  shows "nb_wf (snd (snapshot f rg db)) db \<and> cache_ok (snd (snapshot f rg db)) db \<and> same_config rg (snd (snapshot f rg db))"
proof -
  obtain r rg' where s: "snapshot f rg db = (r, rg')" by fastforce
  show ?thesis using snapshot_ok [OF s assms(2)] assms(1) s nb_wf_cong [of rg' rg db] by simp
qed

lemma reads_snapshot:
  "snd (Resolve f rg db n) = snd (snapshot f rg db)" "snd (ResolveFull f rg db n) = snd (snapshot f rg db)"
  "snd (Carves f rg db) = snd (snapshot f rg db)" "snd (nb_Suggest f rg db P) = snd (snapshot f rg db)"
  by (auto simp: Resolve_def ResolveFull_def Carves_def nb_Suggest_def Let_def split: prod.splits sum.splits option.splits if_splits)

text \<open>Every mutation either leaves table and cache alone or drops the cache.\<close>

lemma nb_exec_keeps:
  assumes "nb_wf rg db" "cache_ok rg db" "nb_exec flt now live cmd (rg, db) = (rg', db')"
  shows "nb_wf rg' db' \<and> cache_ok rg' db' \<and> same_config rg rg'"
proof (cases cmd)
  case (CmdAdd n c d a)
  obtain r where "nb_Add flt now rg db n c d a = (r, db', rg')" using assms(3) CmdAdd by (auto split: prod.splits)
  from nb_Add_cases [OF this assms(1)] show ?thesis
    using assms nb_wf_cong [of "invalidate rg" rg] by (auto simp: cache_ok_def)
next
  case (CmdSeed n c k d a)
  obtain r where r: "nb_Seed flt now rg db n c k d a = (r, db', rg')" using assms(3) CmdSeed by (auto split: prod.splits)
  show ?thesis using nb_Seed_wf [OF r assms(1)] nb_Seed_effect [OF r] assms nb_wf_cong [of "invalidate rg" rg]
    by (auto simp: cache_ok_def)
next
  case (CmdUpdate n c d a)
  obtain r where "nb_Update flt rg db live n c d a = (r, db', rg')" using assms(3) CmdUpdate by (auto split: prod.splits)
  from nb_Update_cases [OF this assms(1)] show ?thesis
    using assms nb_wf_cong [of "invalidate rg" rg] by (auto simp: cache_ok_def)
next
  case (CmdRemove n a)
  obtain r where "nb_Remove flt rg db live n a = (r, db', rg')" using assms(3) CmdRemove by (auto split: prod.splits)
  from nb_Remove_cases [OF this assms(1)] show ?thesis
    using assms nb_wf_cong [of "invalidate rg" rg] by (auto simp: cache_ok_def)
next
  case (CmdGrow n a)
  obtain r where "nb_Grow flt rg db live n a = (r, db', rg')" using assms(3) CmdGrow by (auto split: prod.splits)
  from nb_Grow_cases [OF this assms(1)] show ?thesis
    using assms nb_wf_cong [of "invalidate rg" rg] by (auto simp: cache_ok_def)
qed (use assms(3) snapshot_step [OF assms(1,2), of "flt 0"] in \<open>auto simp: reads_snapshot\<close>)

lemma nb_run_keeps:
  assumes "nb_wf rg db" "cache_ok rg db" "nb_run script (rg, db) = (rg', db')"
  shows "nb_wf rg' db' \<and> cache_ok rg' db' \<and> same_config rg rg'"
  using assms
proof (induction script arbitrary: rg db)
  case (Cons step script)
  obtain flt now live cmd where st: "step = (flt, now, live, cmd)" by (cases step) auto
  obtain rg1 db1 where e: "nb_exec flt now live cmd (rg, db) = (rg1, db1)" by fastforce
  note K = nb_exec_keeps [OF Cons.prems(1,2) e]
  have "nb_run script (rg1, db1) = (rg', db')" using Cons.prems(3) st e by (simp add: nb_run_def)
  then show ?case using Cons.IH [of rg1 db1] K by simp
qed (simp add: nb_run_def)

text \<open>
  C11: after any sequence of registry operations of a process (with any store failures) on a fresh table,
  the blocks are canonical IPv4 prefixes inside the pool, pairwise disjoint as address sets, with unique
  names, and the cached snapshot is the current table.
\<close>

theorem registry_blocks_disjoint:
  assumes "valid4 pl" "nb_run script (nb_New pl reserved audit, empty_netblocks) = (rg, db)"
  shows "(\<forall>r\<in>set (nb_rows db). aligned4 (nb_prefix r) \<and> addrs_of (nb_prefix r) \<subseteq> addrs_of pl \<and>
            (\<forall>a\<in>set reserved. a \<notin> addrs_of (nb_prefix r))) \<and>
    (\<forall>r\<in>set (nb_rows db). \<forall>q\<in>set (nb_rows db). r \<noteq> q \<longrightarrow>
       nb_name r \<noteq> nb_name q \<and> addrs_of (nb_prefix r) \<inter> addrs_of (nb_prefix q) = {}) \<and>
    (\<forall>c. rg_cache rg = Some c \<longrightarrow> c = build_cache (rev (nb_rows db)) empty_cache)"
proof -
  have i: "nb_wf (nb_New pl reserved audit) empty_netblocks" "cache_ok (nb_New pl reserved audit) empty_netblocks"
    using assms(1) by (auto simp: nb_wf_def nb_New_def empty_netblocks_def cache_ok_def disjoint_blocks_def aligned4_masked)
  note K = nb_run_keeps [OF i assms(2)]
  have pool: "rg_pool rg = masked pl" "rg_reserved rg = reserved" using K by (auto simp: nb_New_def)
  have wf: "nb_wf rg db" and c: "cache_ok rg db" using K by auto
  have al: "aligned4 (nb_prefix r)" "\<forall>a\<in>set reserved. a \<notin> addrs_of (nb_prefix r)" if "r \<in> set (nb_rows db)" for r
    using that wf nb_prefix_ok(2,5) [of rg r] pool(2) by (auto simp: nb_wf_def addrs_of_def)
  have ins: "addrs_of (nb_prefix r) \<subseteq> addrs_of pl" if "r \<in> set (nb_rows db)" for r
    using block_in_range(2) [OF wf that] contains_masked [OF assms(1)] pool(1) by (simp add: addrs_of_def)
  have nm: "r = q" if "r \<in> set (nb_rows db)" "q \<in> set (nb_rows db)" "nb_name r = nb_name q" for r q
    using that wf distinct_map_inj unfolding nb_wf_def by metis
  show ?thesis
    using al ins nm wf c unfolding nb_wf_def disjoint_blocks_def cache_ok_def by blast
qed

lemma clear_slot_good:
  assumes "aligned4 pl" "pfx_bits pl \<le> P" "P \<le> 32" "\<forall>c\<in>set carves. wf_prefix c"
    and "s \<in> set (slots pl P)" "rangeClear s reserved carves"
  shows "aligned4 s \<and> pfx_bits s = P \<and> addrs_of s \<subseteq> addrs_of pl \<and>
    (\<forall>a\<in>set reserved. a \<notin> addrs_of s) \<and> (\<forall>c\<in>set carves. valid4 c \<longrightarrow> addrs_of s \<inter> addrs_of c = {})"
proof -
  have s: "aligned4 s" "pfx_bits s = P" "contains_addr pl (pfx_addr s)" using assms(5) set_slots [OF assms(1-3)] by auto
  have "addrs_of s \<subseteq> addrs_of pl" by (rule addrs_of_subset) (use assms s aligned4_valid4 in auto)
  then show ?thesis using s assms(6) rangeClear_iff [OF aligned4_valid4 [OF s(1)] assms(4)] by blast
qed

text \<open>
  C28: \<open>Suggest\<close> is sound and complete.  For a valid IPv4 pool and a length between the pool's and 32 it
  returns an aligned block of exactly that length inside the pool that shares no address with a carve and
  holds no reservation, or it reports a full pool, and then no such block exists.
\<close>

theorem Suggest_sound_complete:
  assumes "valid4 pool0" "pfx_bits pool0 \<le> P" "P \<le> 32" "\<forall>c\<in>set carves. wf_prefix c"
  shows "(\<exists>p. Suggest P pool0 reserved carves = Inr p \<and> aligned4 p \<and> pfx_bits p = P \<and> addrs_of p \<subseteq> addrs_of pool0 \<and>
            (\<forall>a\<in>set reserved. a \<notin> addrs_of p) \<and> (\<forall>c\<in>set carves. valid4 c \<longrightarrow> addrs_of p \<inter> addrs_of c = {})) \<or>
    Suggest P pool0 reserved carves = Inl NbPoolFull \<and>
      (\<forall>p. aligned4 p \<and> pfx_bits p = P \<and> addrs_of p \<subseteq> addrs_of pool0 \<longrightarrow>
         (\<exists>a\<in>set reserved. a \<in> addrs_of p) \<or> (\<exists>c\<in>set carves. valid4 c \<and> addrs_of p \<inter> addrs_of c \<noteq> {}))"
proof -
  define pl where "pl = masked pool0"
  define E where "E = envelope_bits P pl"
  have al: "aligned4 pl" unfolding pl_def using assms(1) by (rule aligned4_masked)
  have bits: "pfx_bits pl = pfx_bits pool0" unfolding pl_def using assms(1) by (elim valid4E) (simp add: masked4)
  have ad: "addrs_of pl = addrs_of pool0" using contains_masked [OF assms(1)] by (simp add: addrs_of_def pl_def)
  have EP: "pfx_bits pl \<le> E" "E \<le> P" using envelope_bits_bounds [of pl P] assms(2) bits E_def by auto
  have Ppl: "pfx_bits pl \<le> P" using assms(2) bits by simp
  note good = clear_slot_good [OF al Ppl assms(3,4), unfolded ad]
  note S = Suggest_cases [OF assms, folded pl_def, folded E_def]
  show ?thesis
  proof (cases "first_clear (slots pl E) reserved carves")
    case (Some env)
    have env: "env \<in> set (slots pl E)" "rangeClear env reserved carves" using first_clear_SomeD [OF Some] by auto
    have e: "aligned4 env" "pfx_bits env = E" "contains_addr pl (pfx_addr env)"
      using env(1) set_slots [OF al EP(1)] EP assms(3) by auto
    let ?s = "masked (prefix_from (pfx_addr env) P)"
    note T = start_of_envelope [OF e(1), of P, simplified e(2), OF EP(2) assms(3)]
    have "?s \<in> set (slots pl P)" using T e(3) set_slots [OF al Ppl assms(3)] by simp
    moreover have "rangeClear ?s reserved carves"
      using rangeClear_sub [OF aligned4_valid4 [OF e(1)] aligned4_valid4 [OF T(1)] assms(4) T(4) env(2)] .
    ultimately show ?thesis using good S(1) [OF Some] by blast
  next
    case None
    obtain s n where W: "worst_fit (slots pl E) P reserved carves zero_prefix (-1) = (s, n)" by fastforce
    note F = worst_fit_finds [OF al EP assms(3) W]
    show ?thesis
    proof (cases "0 < n")
      case True
      then have "Suggest P pool0 reserved carves = Inr s" using S(2) [OF None] W by simp
      then show ?thesis using good F(1) [OF True] by blast
    next
      case False
      have "\<not> rangeClear p reserved carves" if p: "aligned4 p" "pfx_bits p = P" "addrs_of p \<subseteq> addrs_of pool0" for p
      proof -
        have "pfx_addr p \<in> addrs_of p" using contains_self [OF aligned4_valid4 [OF p(1)]] by (simp add: addrs_of_def)
        then have "contains_addr pl (pfx_addr p)" using p(3) ad by (auto simp: addrs_of_def)
        then have "p \<in> set (slots pl P)" using p set_slots [OF al Ppl assms(3)] by simp
        then show ?thesis using F(2) False by blast
      qed
      then show ?thesis using False S(2) [OF None] W rangeClear_iff [OF aligned4_valid4 assms(4)] by auto
    qed
  qed
qed

theorem Suggest_sound_complete_witness:
  "Suggest 27 (Prefix (Addr4 0x0A2C0000) 24) [] [Prefix (Addr4 0x0A2C0000) 27] = Inr (Prefix (Addr4 0x0A2C0020) 27) \<and>
   addrs_of (Prefix (Addr4 0x0A2C0020) 27) \<inter> addrs_of (Prefix (Addr4 0x0A2C0000) 27) = {}"
proof -
  have e: "Suggest 27 (Prefix (Addr4 0x0A2C0000) 24) [] [Prefix (Addr4 0x0A2C0000) 27] = Inr (Prefix (Addr4 0x0A2C0020) 27)"
    by code_simp
  show ?thesis
    using Suggest_sound_complete [of "Prefix (Addr4 0x0A2C0000) 24" 27 "[Prefix (Addr4 0x0A2C0000) 27]" "[]"] e
    by (simp add: wf_prefix_def)
qed

abbreviation keeps_block :: "netblock list \<Rightarrow> netblock \<Rightarrow> addr \<Rightarrow> bool" where
  "keeps_block rows r a \<equiv> \<exists>r'\<in>set rows. nb_name r' = nb_name r \<and> a \<in> addrs_of (nb_prefix r')"

lemma keeps_block_refl: "r \<in> set rows \<Longrightarrow> a \<in> addrs_of (nb_prefix r) \<Longrightarrow> keeps_block rows r a"
  by blast

lemma same_row: "nb_wf rg db \<Longrightarrow> q \<in> set (nb_rows db) \<Longrightarrow> r \<in> set (nb_rows db) \<Longrightarrow> nb_name q = nb_name r \<Longrightarrow> q = r"
  unfolding nb_wf_def by (metis distinct_map_inj)

lemma keeps_block_update:
  assumes "r \<in> set rows" "a \<in> addrs_of (nb_prefix r)" "aligned4 p"
    and "\<And>q. nb_name (f q) = nb_name q" "\<And>q. nb_cidr (f q) = CidrText p" "nb_name r = name \<Longrightarrow> a \<in> addrs_of p"
  shows "keeps_block (update_where (\<lambda>q. nb_name q = name) f rows) r a"
proof (cases "nb_name r = name")
  case True
  then have "f r \<in> set (update_where (\<lambda>q. nb_name q = name) f rows)" using assms(1) by (auto simp: set_update_where)
  moreover have "nb_prefix (f r) = p" using assms(3,5) by (simp add: nb_prefix_def aligned4_eq)
  ultimately show ?thesis using assms(4,6) True by metis
qed (use assms(1,2) in \<open>auto simp: set_update_where\<close>)

lemma stranding_guard:
  assumes "checkNoStranded (Some (Some live)) p q = None" "a \<in> set live" "a \<in> addrs_of p" "is_valid p"
  shows "is_valid q \<and> a \<in> addrs_of q"
  using assms by (auto simp: checkNoStranded_def list_ex_iff addrs_of_def split: if_splits)

lemma Update_keeps_live:
  assumes "nb_Update flt rg db (Some (Some live)) name cidr description actor = (x, db', rg')" "nb_wf rg db"
    and "a \<in> set live" "r \<in> set (nb_rows db)" "a \<in> addrs_of (nb_prefix r)"
  shows "keeps_block (nb_rows db') r a"
proof (cases "db' = db")
  case False
  then obtain row where row: "row \<in> set (nb_rows db)" "nb_name row = name" "aligned4 (masked cidr)"
    "nb_rows db' = update_where (\<lambda>q. nb_name q = name)
       (\<lambda>q. q\<lparr>nb_cidr := CidrText (masked cidr), nb_description := description\<rparr>) (nb_rows db)"
    "checkNoStranded (Some (Some live)) (nb_prefix row) (masked cidr) = None"
    using nb_Update_cases [OF assms(1,2)] by blast
  have "a \<in> addrs_of (masked cidr)" if "nb_name r = name"
  proof -
    have "row = r" using same_row [OF assms(2) row(1) assms(4)] row(2) that by simp
    then show ?thesis using stranding_guard [OF row(5) assms(3)] assms(5) rows_valid [OF assms(2,4)] by blast
  qed
  then show ?thesis unfolding row(4) by (intro keeps_block_update [OF assms(4,5) row(3)]) simp_all
qed (use assms keeps_block_refl in blast)

lemma Remove_keeps_live:
  assumes "nb_Remove flt rg db (Some (Some live)) name actor = (x, db', rg')" "nb_wf rg db"
    and "a \<in> set live" "r \<in> set (nb_rows db)" "a \<in> addrs_of (nb_prefix r)"
  shows "keeps_block (nb_rows db') r a"
proof (cases "db' = db")
  case False
  then obtain row where row: "row \<in> set (nb_rows db)" "nb_name row = name"
    "nb_rows db' = delete_where (\<lambda>q. nb_name q = name) (nb_rows db)"
    "checkNoStranded (Some (Some live)) (nb_prefix row) zero_prefix = None"
    using nb_Remove_cases [OF assms(1,2)] by blast
  have "nb_name r \<noteq> name"
  proof
    assume "nb_name r = name"
    then have "row = r" using same_row [OF assms(2) row(1) assms(4)] row(2) by simp
    then show False
      using stranding_guard [OF row(4) assms(3)] assms(5) rows_valid [OF assms(2,4)] zero_prefix_invalid by blast
  qed
  then show ?thesis unfolding row(3) using assms(4,5) by (auto simp: set_delete_where)
qed (use assms keeps_block_refl in blast)

lemma Grow_keeps_live:
  assumes "nb_Grow flt rg db live name actor = (x, db', rg')" "nb_wf rg db"
    and "r \<in> set (nb_rows db)" "a \<in> addrs_of (nb_prefix r)"
  shows "keeps_block (nb_rows db') r a"
proof (cases "db' = db")
  case False
  then obtain row nxt where row: "row \<in> set (nb_rows db)" "nb_name row = name" "aligned4 nxt"
    "nb_rows db' = update_where (\<lambda>q. nb_name q = name) (\<lambda>q. q\<lparr>nb_cidr := CidrText nxt\<rparr>) (nb_rows db)"
    "addrs_of nxt = addrs_of (nb_prefix row) \<union> addrs_of (buddyOf (nb_prefix row))"
    using nb_Grow_cases [OF assms(1,2)] by blast
  have "a \<in> addrs_of nxt" if "nb_name r = name"
    using row(5) same_row [OF assms(2) row(1) assms(3)] row(2) that assms(4) by simp
  then show ?thesis unfolding row(4) by (intro keeps_block_update [OF assms(3,4) row(3)]) simp_all
qed (use assms keeps_block_refl in blast)

text \<open>
  an edit never takes a live address out of its block: when \<open>Update\<close>, \<open>Remove\<close> or \<open>Grow\<close> runs with the
  live leases at hand, every live address that lay in a block still lies in the block of that name.
\<close>

theorem registry_edits_strand_nothing:
  assumes "nb_wf rg db" and "cmd = CmdUpdate name cidr description actor \<or> cmd = CmdRemove name actor \<or> cmd = CmdGrow name actor"
    and "nb_exec flt now (Some (Some live)) cmd (rg, db) = (rg', db')"
    and "a \<in> set live" "r \<in> set (nb_rows db)" "a \<in> addrs_of (nb_prefix r)"
  shows "\<exists>r'\<in>set (nb_rows db'). nb_name r' = nb_name r \<and> a \<in> addrs_of (nb_prefix r')"
  using assms(2)
proof (elim disjE)
  assume "cmd = CmdUpdate name cidr description actor"
  then show ?thesis using assms(3) Update_keeps_live [OF _ assms(1,4-6)] by (auto split: prod.splits)
next
  assume "cmd = CmdRemove name actor"
  then show ?thesis using assms(3) Remove_keeps_live [OF _ assms(1,4-6)] by (auto split: prod.splits)
next
  assume "cmd = CmdGrow name actor"
  then show ?thesis using assms(3) Grow_keeps_live [OF _ assms(1,5,6)] by (auto split: prod.splits)
qed

subsection \<open>Readers racing with mutations\<close>

text \<open>
  Threads of one process around the mutex-guarded cache.  A reader that misses the cache notes the
  generation, lists the table outside the lock, and publishes; a mutation commits its write and later
  invalidates.  \<open>sn_w\<close> and \<open>sn_k\<close> are history variables: the writes and the invalidations so far.
\<close>

record snap_state =
  sn_rows :: "netblock list"
  sn_rg :: registry
  sn_w :: nat
  sn_k :: nat
  sn_readers :: "(64 word \<times> nat \<times> (netblock list \<times> nat) option) list"

inductive snap_step :: "snap_state \<Rightarrow> snap_state \<Rightarrow> bool" where
  sn_begin: "rg_cache (sn_rg s) = None \<Longrightarrow>
    snap_step s (s\<lparr>sn_readers := (rg_gen (sn_rg s), sn_k s, None) # sn_readers s\<rparr>)"
| sn_read: "sn_readers s = xs @ (g, k, None) # ys \<Longrightarrow>
    snap_step s (s\<lparr>sn_readers := xs @ (g, k, Some (rev (sn_rows s), sn_w s)) # ys\<rparr>)"
| sn_publish: "sn_readers s = xs @ (g, k, Some (rs, w)) # ys \<Longrightarrow>
    snap_step s (s\<lparr>sn_readers := xs @ ys, sn_rg := snapshot_publish g (build_cache rs empty_cache) (sn_rg s)\<rparr>)"
| sn_write: "snap_step s (s\<lparr>sn_rows := rows', sn_w := sn_w s + 1\<rparr>)"
| sn_invalidate: "sn_k s < sn_w s \<Longrightarrow>
    snap_step s (s\<lparr>sn_rg := invalidate (sn_rg s), sn_k := sn_k s + 1\<rparr>)"

definition fresh_since :: "snap_state \<Rightarrow> nat \<Rightarrow> netblock list \<Rightarrow> nat \<Rightarrow> bool" where
  "fresh_since s k rs w \<longleftrightarrow> k \<le> w \<and> w \<le> sn_w s \<and> (w = sn_w s \<longrightarrow> rs = rev (sn_rows s))"

definition reader_ok :: "snap_state \<Rightarrow> 64 word \<times> nat \<times> (netblock list \<times> nat) option \<Rightarrow> bool" where
  "reader_ok s x = (case x of (g, k, r) \<Rightarrow>
     g = of_nat k \<and> k \<le> sn_k s \<and> (case r of None \<Rightarrow> True | Some (rs, w) \<Rightarrow> fresh_since s k rs w))"

definition published_ok :: "snap_state \<Rightarrow> resolver_cache \<Rightarrow> bool" where
  "published_ok s c \<longleftrightarrow> (\<exists>rs w. c = build_cache rs empty_cache \<and> fresh_since s (sn_k s) rs w)"

definition snap_inv :: "snap_state \<Rightarrow> bool" where
  "snap_inv s \<longleftrightarrow>
     sn_k s \<le> sn_w s \<and> rg_gen (sn_rg s) = of_nat (sn_k s) \<and>
     (\<forall>x\<in>set (sn_readers s). reader_ok s x) \<and> (\<forall>c. rg_cache (sn_rg s) = Some c \<longrightarrow> published_ok s c)"

lemma fresh_since_other [simp]:
  "fresh_since (s\<lparr>sn_readers := x\<rparr>) = fresh_since s" "fresh_since (s\<lparr>sn_rg := g\<rparr>) = fresh_since s"
  "fresh_since (s\<lparr>sn_k := k\<rparr>) = fresh_since s"
  by (auto simp: fresh_since_def fun_eq_iff)

lemma reader_ok_other [simp]:
  "reader_ok (s\<lparr>sn_readers := x\<rparr>) = reader_ok s" "reader_ok (s\<lparr>sn_rg := g\<rparr>) = reader_ok s"
  "published_ok (s\<lparr>sn_readers := x\<rparr>) = published_ok s" "published_ok (s\<lparr>sn_rg := g\<rparr>) = published_ok s"
  by (auto simp: reader_ok_def published_ok_def fun_eq_iff split: option.splits)

lemma snap_step_inv:
  assumes "snap_step s s'" "snap_inv s" "sn_k s' < 2 ^ 64"
  shows "snap_inv s'"
  using assms
proof (induction rule: snap_step.induct)
  case (sn_begin s)
  then show ?case by (simp add: snap_inv_def) (simp add: reader_ok_def)
next
  case (sn_read s xs g k ys)
  then have "reader_ok s (g, k, None)" "sn_k s \<le> sn_w s" by (simp_all add: snap_inv_def)
  then have "reader_ok s (g, k, Some (rev (sn_rows s), sn_w s))" by (auto simp: reader_ok_def fresh_since_def)
  then show ?case using sn_read by (simp add: snap_inv_def)
next
  case (sn_publish s xs g k rs w ys)
  have r: "g = of_nat k" "k \<le> sn_k s" "fresh_since s k rs w"
    using sn_publish.prems(1) sn_publish.hyps by (auto simp: snap_inv_def reader_ok_def)
  have "k = sn_k s" if "rg_gen (sn_rg s) = g"
  proof -
    have "of_nat (sn_k s) = (of_nat k :: 64 word)" using that r(1) sn_publish.prems(1) by (simp add: snap_inv_def)
    then have "unat (of_nat (sn_k s) :: 64 word) = unat (of_nat k :: 64 word)" by simp
    moreover have "k < 2 ^ 64" "sn_k s < 2 ^ 64" using r(2) sn_publish.prems(2) by simp_all
    ultimately show ?thesis by (simp add: unsigned_of_nat take_bit_nat_eq_self)
  qed
  then have "published_ok s (build_cache rs empty_cache)" if "rg_gen (sn_rg s) = g"
    using that r(3) unfolding published_ok_def by blast
  then show ?case using sn_publish.prems(1) sn_publish.hyps
    by (simp add: snap_inv_def snapshot_publish_def)
next
  case (sn_write s rows')
  let ?s' = "s\<lparr>sn_rows := rows', sn_w := sn_w s + 1\<rparr>"
  have fw: "fresh_since s k rs w \<Longrightarrow> fresh_since ?s' k rs w" for k rs w
    by (auto simp: fresh_since_def)
  have "reader_ok s x \<Longrightarrow> reader_ok ?s' x" for x
    using fw by (auto simp: reader_ok_def split: prod.splits option.splits)
  moreover have "published_ok s c \<Longrightarrow> published_ok ?s' c" for c
    using fw [of "sn_k s"] unfolding published_ok_def by force
  ultimately show ?case using sn_write.prems(1) by (simp add: snap_inv_def)
next
  case (sn_invalidate s)
  have "reader_ok s x \<Longrightarrow> reader_ok (s\<lparr>sn_rg := invalidate (sn_rg s), sn_k := sn_k s + 1\<rparr>) x" for x
    by (auto simp: reader_ok_def fresh_since_def split: prod.splits option.splits)
  then show ?case using sn_invalidate by (simp add: snap_inv_def)
qed

inductive snap_steps :: "snap_state \<Rightarrow> snap_state \<Rightarrow> bool" where
  sns_refl: "snap_steps s s"
| sns_step: "snap_steps s s1 \<Longrightarrow> snap_step s1 s2 \<Longrightarrow> snap_steps s s2"

lemma snap_step_mono: "snap_step s s' \<Longrightarrow> sn_k s \<le> sn_k s'"
  by (induction rule: snap_step.induct) auto

lemma snap_steps_inv: "snap_steps s s' \<Longrightarrow> snap_inv s \<Longrightarrow> sn_k s' < 2 ^ 64 \<Longrightarrow> snap_inv s'"
proof (induction rule: snap_steps.induct)
  case (sns_step s s1 s2)
  then show ?case using snap_step_mono snap_step_inv le_less_trans by blast
qed

definition snap_start :: "netblock list \<Rightarrow> registry \<Rightarrow> snap_state" where
  "snap_start rows rg = \<lparr>sn_rows = rows, sn_rg = rg\<lparr>rg_cache := None, rg_gen := 0\<rparr>, sn_w = 0, sn_k = 0, sn_readers = []\<rparr>"

text \<open>
  the generation counter closes the lost-update race of the resolver cache.  Whatever the interleaving
  of readers (miss, list, publish) and mutations (write, invalidate), once every committed write has been
  followed by its invalidation a cached snapshot is the current table; this uses that fewer than \<open>2^64\<close>
  invalidations have happened, the counter being a \<open>uint64\<close>.
\<close>

theorem snapshot_race_free:
  assumes "snap_steps (snap_start rows rg) s" "sn_k s < 2 ^ 64" "sn_k s = sn_w s" "rg_cache (sn_rg s) = Some c"
  shows "c = build_cache (rev (sn_rows s)) empty_cache"
proof -
  have "snap_inv (snap_start rows rg)" by (simp add: snap_inv_def snap_start_def)
  then have "snap_inv s" using snap_steps_inv assms(1,2) by blast
  then obtain rs w where "c = build_cache rs empty_cache" "fresh_since s (sn_k s) rs w"
    using assms(4) unfolding snap_inv_def published_ok_def by blast
  then show ?thesis using assms(3) by (simp add: fresh_since_def)
qed

theorem snapshot_race_free_witness:
  "\<exists>s c. snap_steps (snap_start [] (nb_New (Prefix (Addr4 0x0A2C0000) 16) [] True)) s \<and> rg_cache (sn_rg s) = Some c \<and>
     c = build_cache (rev (sn_rows s)) empty_cache"
proof -
  define s0 where "s0 = snap_start [] (nb_New (Prefix (Addr4 0x0A2C0000) 16) [] True)"
  define s1 where "s1 = s0\<lparr>sn_readers := [(0, 0, None)]\<rparr>"
  define s2 where "s2 = s1\<lparr>sn_readers := [] @ (0, 0, Some (rev (sn_rows s1), sn_w s1)) # []\<rparr>"
  define s3 where "s3 = s2\<lparr>sn_readers := [] @ [], sn_rg := snapshot_publish 0 (build_cache [] empty_cache) (sn_rg s2)\<rparr>"
  have "snap_step s0 s1" using sn_begin [of s0] by (simp add: s1_def s0_def snap_start_def)
  moreover have "snap_step s1 s2" unfolding s2_def by (rule sn_read) (simp add: s1_def)
  moreover have "snap_step s2 s3" unfolding s3_def
    by (rule sn_publish [of _ _ _ 0 _ 0]) (simp add: s2_def s1_def s0_def snap_start_def)
  ultimately have run: "snap_steps s0 s3" using sns_refl sns_step by metis
  have c: "rg_cache (sn_rg s3) = Some (build_cache [] empty_cache)" "sn_k s3 < 2 ^ 64" "sn_k s3 = sn_w s3"
    by (simp_all add: s3_def s2_def s1_def s0_def snap_start_def snapshot_publish_def)
  show ?thesis
    using snapshot_race_free [OF run [unfolded s0_def] c(2,3,1)] run c(1) unfolding s0_def by blast
qed

subsection \<open>Where the code falls short of its contract\<close>

text \<open>
  A registry never sees the blocks another process adds.  Once process A holds a cached snapshot, a
  block carved through process B's registry does not exist for A: resolving its name yields A's default
  block, although the table holds the new block.
\<close>

lemma foreign_add_unseen:
  assumes "nb_wf rgA db" "rg_cache rgA = Some (build_cache (rev (nb_rows db)) empty_cache)"
    and "nb_lookup db name = None" "name \<noteq> []" "nb_lookup db NameDefault = Some def"
    and "nb_Add flt now rgB db name cidr description actor = (Inr row, db', rgB')"
  shows "nb_lookup db' name = Some row \<and> ResolveFull f rgA db' name = (Inr (resolved_of def), rgA)"
proof -
  have rows: "nb_rows db' = nb_rows db @ [row]" "nb_name row = name"
    using assms(6) unfolding nb_Add_def nb_Add_write_def
    by (auto simp: Let_def nb_create_def split: option.splits if_splits prod.splits create_result.splits)
  have "nb_lookup db' name = Some row" using assms(3) rows by (simp add: first_where_append)
  moreover have "name \<noteq> NameDefault" using assms(3,5) by auto
  ultimately show ?thesis
    using snapshot_lookup(1) [OF assms(1)] assms(2-5) by (simp add: ResolveFull_def snapshot_def)
qed

subsection \<open>Concrete runs\<close>

definition demo_pool :: prefix where "demo_pool = Prefix (Addr4 0x0A2C0000) 24"

definition demo_script :: "(faults \<times> time_ns \<times> live_hook \<times> nb_cmd) list" where
  "demo_script =
    [(no_faults, 1, Some (Some []), CmdSeed NameCentral (Prefix (Addr4 0x0A2C0000) 27) KindReserved [] ''genesis''),
     (no_faults, 2, Some (Some []), CmdSeed NameDefault (Prefix (Addr4 0x0A2C0020) 27) KindDefault [] ''genesis''),
     (no_faults, 3, Some (Some []), CmdAdd ''office'' (Prefix (Addr4 0x0A2C0040) 28) [] ''admin''),
     (no_faults, 4, Some (Some []), CmdAdd ''clash'' (Prefix (Addr4 0x0A2C0048) 29) [] ''admin''),
     (no_faults, 5, Some (Some [Addr4 0x0A2C0041]), CmdGrow ''office'' ''ipam-autogrow''),
     (no_faults, 6, Some (Some []), CmdResolveFull ''office'')]"

definition demo_state :: "registry \<times> netblock_db" where
  "demo_state = nb_run demo_script (nb_New demo_pool [] True, empty_netblocks)"

lemma demo_state_ok:
  "nb_wf (fst demo_state) (snd demo_state)" "cache_ok (fst demo_state) (snd demo_state)"
proof -
  have "nb_wf (nb_New demo_pool [] True) empty_netblocks" "cache_ok (nb_New demo_pool [] True) empty_netblocks"
    by (auto simp: nb_wf_def nb_New_def empty_netblocks_def cache_ok_def disjoint_blocks_def demo_pool_def
        intro: aligned4_masked)
  from nb_run_keeps [OF this, of demo_script "fst demo_state" "snd demo_state"]
  show "nb_wf (fst demo_state) (snd demo_state)" "cache_ok (fst demo_state) (snd demo_state)"
    by (simp_all add: demo_state_def)
qed

lemma demo_state_rows:
  "map (\<lambda>r. (nb_name r, nb_prefix r)) (nb_rows (snd demo_state)) =
     [(NameCentral, Prefix (Addr4 0x0A2C0000) 27), (NameDefault, Prefix (Addr4 0x0A2C0020) 27),
      (''office'', Prefix (Addr4 0x0A2C0040) 27)]"
  by code_simp

theorem registry_blocks_disjoint_witness:
  "length (nb_rows (snd demo_state)) = 3 \<and>
   addrs_of (nb_prefix (nb_rows (snd demo_state) ! 0)) \<inter> addrs_of (nb_prefix (nb_rows (snd demo_state) ! 2)) = {}"
proof -
  have v: "valid4 demo_pool" by (simp add: demo_pool_def)
  have e: "nb_run demo_script (nb_New demo_pool [] True, empty_netblocks) = (fst demo_state, snd demo_state)"
    by (simp add: demo_state_def)
  have l: "length (nb_rows (snd demo_state)) = 3" using arg_cong [OF demo_state_rows, of length] by simp
  have "nb_name (nb_rows (snd demo_state) ! 0) \<noteq> nb_name (nb_rows (snd demo_state) ! 2)" by code_simp
  then have ne: "nb_rows (snd demo_state) ! 0 \<noteq> nb_rows (snd demo_state) ! 2" by auto
  have mem: "nb_rows (snd demo_state) ! 0 \<in> set (nb_rows (snd demo_state))"
    "nb_rows (snd demo_state) ! 2 \<in> set (nb_rows (snd demo_state))" using l by simp_all
  show ?thesis using registry_blocks_disjoint [OF v e] l ne mem by blast
qed

theorem registry_edits_strand_nothing_witness:
  "\<exists>rg' db' r'. nb_exec no_faults 9 (Some (Some [Addr4 0x0A2C0041]))
       (CmdUpdate ''office'' (Prefix (Addr4 0x0A2C0040) 26) [] ''admin'') demo_state = (rg', db') \<and>
     r' \<in> set (nb_rows db') \<and> nb_name r' = ''office'' \<and> Addr4 0x0A2C0041 \<in> addrs_of (nb_prefix r')"
proof -
  have "(''office'', Prefix (Addr4 0x0A2C0040) 27) \<in> set (map (\<lambda>r. (nb_name r, nb_prefix r)) (nb_rows (snd demo_state)))"
    unfolding demo_state_rows by simp
  then obtain r where r: "r \<in> set (nb_rows (snd demo_state))" "nb_name r = ''office''"
    "nb_prefix r = Prefix (Addr4 0x0A2C0040) 27" by auto
  have a: "Addr4 0x0A2C0041 \<in> addrs_of (nb_prefix r)" unfolding r(3) addrs_of_def mem_Collect_eq by code_simp
  obtain rg' db' where e: "nb_exec no_faults 9 (Some (Some [Addr4 0x0A2C0041]))
       (CmdUpdate ''office'' (Prefix (Addr4 0x0A2C0040) 26) [] ''admin'') (fst demo_state, snd demo_state) = (rg', db')"
    by fastforce
  have "\<exists>r'\<in>set (nb_rows db'). nb_name r' = nb_name r \<and> Addr4 0x0A2C0041 \<in> addrs_of (nb_prefix r')"
    by (rule registry_edits_strand_nothing [OF demo_state_ok(1) disjI1 [OF refl] e _ r(1) a]) simp
  then show ?thesis using e r(2) by auto
qed

lemma foreign_add_unseen_witness:
  "\<exists>row db' rgB'. nb_Add no_faults 9 (nb_New demo_pool [] True) (snd demo_state) ''vpn'' (Prefix (Addr4 0x0A2C0080) 28) [] ''admin''
       = (Inr row, db', rgB') \<and>
     nb_lookup db' ''vpn'' = Some row \<and>
     map_option rs_cidr (inr_option (fst (ResolveFull False (fst demo_state) db' ''vpn''))) = Some (Prefix (Addr4 0x0A2C0020) 27)"
proof -
  let ?add = "nb_Add no_faults 9 (nb_New demo_pool [] True) (snd demo_state) ''vpn'' (Prefix (Addr4 0x0A2C0080) 28) [] ''admin''"
  obtain x db' rgB' where x: "?add = (x, db', rgB')" by (metis prod_cases3)
  have "inr_option (fst ?add) \<noteq> None" by code_simp
  then obtain row where row: "?add = (Inr row, db', rgB')" using x by (cases x) (auto simp: inr_option_def)
  have cs: "rg_cache (fst demo_state) \<noteq> None" by code_simp
  then have c: "rg_cache (fst demo_state) = Some (build_cache (rev (nb_rows (snd demo_state))) empty_cache)"
    using demo_state_ok(2) by (auto simp: cache_ok_def)
  have n: "nb_lookup (snd demo_state) ''vpn'' = None" by code_simp
  have "map_option nb_prefix (nb_lookup (snd demo_state) NameDefault) = Some (Prefix (Addr4 0x0A2C0020) 27)" by code_simp
  then obtain def where d: "nb_lookup (snd demo_state) NameDefault = Some def" "nb_prefix def = Prefix (Addr4 0x0A2C0020) 27" by auto
  have "nb_lookup db' ''vpn'' = Some row \<and> ResolveFull False (fst demo_state) db' ''vpn'' = (Inr (resolved_of def), fst demo_state)"
    by (rule foreign_add_unseen [OF demo_state_ok(1) c n _ d(1) row]) simp
  then show ?thesis using row d(2) by (simp add: inr_option_def resolved_of_def)
qed

end
