(* ===== verification/Address_Space.thy ===== *)
theory Address_Space
  imports Netblock
begin

text \<open>
  The allocator running over the netblock registry (\<open>WithResolver\<close> in the wiring of \<open>cmd/harbor\<close>): the
  facts of the interpretation \<open>nbreg\<close> read on the code's own definitions, and the places where the pair
  falls short of its comments.
\<close>

text \<open>
  C7: with the registry as resolver, an address handed to a join source lies inside the mesh pool and
  outside every reserved (control-plane) block, whichever netblock name the join source asked for,
  whatever store statements fail and whatever other allocators do, as long as a default block exists.
\<close>

theorem Allocate_avoids_control_plane:
  assumes "a_resolver a = Some reg_ops"
    and "nb_wf (np_rg p) (np_db p)" "cache_ok (np_rg p) (np_db p)"
    and "nb_lookup (np_db p) NameDefault = Some def" "nb_kind def \<noteq> KindReserved"
    and "Allocate flt others a now db p deviceName netblockName via = (Inr ip, db', p')"
  shows "ip \<in> addrs_of (rg_pool (np_rg p)) \<and>
    (\<forall>r\<in>set (nb_rows (np_db p)). nb_kind r = KindReserved \<longrightarrow> ip \<notin> addrs_of (nb_prefix r))"
proof -
  have inv: "reg_inv (rg_pool (np_rg p)) (reserved_space (np_db p)) p"
    using assms(2-5) by (auto simp: reg_inv_def)
  show ?thesis
    using nbreg.Allocate_in_range [OF assms(1) inv assms(6)] nbreg.Allocate_avoids_forbidden [OF assms(1) inv assms(6)]
    by (auto simp: reserved_space_def)
qed

text \<open>
  with no other allocator at work, \<open>Allocate\<close> over the registry never gives up with the contention
  error: an insert cannot collide with what the scan has just read, and a named block can grow at most 32
  times, fewer than the 100 attempts.
\<close>

theorem Allocate_alone_never_contended:
  assumes "a_resolver a = Some reg_ops"
    and "nb_wf (np_rg p) (np_db p)" "cache_ok (np_rg p) (np_db p)"
    and "nb_lookup (np_db p) NameDefault = Some def" "nb_kind def \<noteq> KindReserved"
  shows "fst (Allocate flt (\<lambda>_ d. d) a now db p deviceName netblockName via) \<noteq> Inl ErrContended"
proof -
  have "reg_inv (rg_pool (np_rg p)) (reserved_space (np_db p)) p" using assms(2-5) by (auto simp: reg_inv_def)
  then show ?thesis by (rule nbreg.Allocate_uncontended [OF assms(1)])
qed

subsection \<open>Concrete runs\<close>

definition demo_proc :: nb_proc where
  "demo_proc = \<lparr>np_rg = fst demo_state, np_db = snd demo_state, np_flt = no_faults, np_now = 9\<rparr>"

definition demo_wired :: "nb_proc allocator" where
  "demo_wired = WithResolver \<lparr>a_pool = \<lparr>pl_prefix = demo_pool, pl_subranges = [], pl_reserved = [], pl_quarantine_ttl = 100\<rparr>,
     a_resolver = None\<rparr> reg_ops"

definition no_leases :: ipam_db where
  "no_leases = \<lparr>devices = [], dev_seq = 1, allocs = [], alloc_seq = 1, ipam_events = []\<rparr>"

lemma demo_proc_ok:
  "a_resolver demo_wired = Some reg_ops" "nb_wf (np_rg demo_proc) (np_db demo_proc)"
  "cache_ok (np_rg demo_proc) (np_db demo_proc)"
  "\<exists>def. nb_lookup (np_db demo_proc) NameDefault = Some def \<and> nb_kind def \<noteq> KindReserved"
proof -
  have "map_option (\<lambda>d. nb_kind d = KindReserved) (nb_lookup (np_db demo_proc) NameDefault) = Some False" by code_simp
  then show "\<exists>def. nb_lookup (np_db demo_proc) NameDefault = Some def \<and> nb_kind def \<noteq> KindReserved" by auto
qed (simp_all add: demo_wired_def WithResolver_def demo_proc_def demo_state_ok)

theorem Allocate_avoids_control_plane_witness:
  "\<exists>db' p'. Allocate no_faults (\<lambda>_ d. d) demo_wired 9 no_leases demo_proc ''web-1'' NameCentral ''token'' =
     (Inr (Addr4 0x0A2C0021), db', p') \<and> Addr4 0x0A2C0021 \<in> addrs_of (rg_pool (np_rg demo_proc))"
proof -
  let ?A = "Allocate no_faults (\<lambda>_ d. d) demo_wired 9 no_leases demo_proc ''web-1'' NameCentral ''token''"
  obtain x db' p' where x: "?A = (x, db', p')" by (metis prod_cases3)
  have "fst ?A = Inr (Addr4 0x0A2C0021)" by code_simp
  then have A: "?A = (Inr (Addr4 0x0A2C0021), db', p')" using x by simp
  obtain def where d: "nb_lookup (np_db demo_proc) NameDefault = Some def" "nb_kind def \<noteq> KindReserved"
    using demo_proc_ok(4) by blast
  show ?thesis using Allocate_avoids_control_plane [OF demo_proc_ok(1-3) d A] A by blast
qed

theorem Allocate_alone_never_contended_witness:
  "fst (Allocate no_faults (\<lambda>_ d. d) demo_wired 9 no_leases demo_proc ''web-1'' ''office'' ''token'') \<noteq> Inl ErrContended"
proof -
  obtain def where d: "nb_lookup (np_db demo_proc) NameDefault = Some def" "nb_kind def \<noteq> KindReserved"
    using demo_proc_ok(4) by blast
  show ?thesis by (rule Allocate_alone_never_contended [OF demo_proc_ok(1-3) d])
qed

subsection \<open>Shortfalls\<close>

text \<open>
  Two \<open>Add\<close> calls that overlap in time can carve overlapping blocks: each validates against the table
  before the other inserts, and the insert only checks the name.
\<close>

lemma concurrent_adds_overlap:
  "\<exists>rg db c1 c2 r1 r2 db1 db2 rg1 rg2.
     nb_wf rg db \<and> nb_Add_check False rg db ''a'' c1 = None \<and> nb_Add_check False rg db ''b'' c2 = None \<and>
     nb_Add_write False 1 rg db ''a'' c1 [] ''admin'' = (Inr r1, db1, rg1) \<and>
     nb_Add_write False 2 rg1 db1 ''b'' c2 [] ''admin'' = (Inr r2, db2, rg2) \<and>
     nb_rows db2 = nb_rows db @ [r1, r2] \<and> addrs_of (nb_prefix r1) \<inter> addrs_of (nb_prefix r2) \<noteq> {}"
proof -
  let ?rg = "fst demo_state" and ?db = "snd demo_state"
  let ?c1 = "Prefix (Addr4 0x0A2C0080) 28" and ?c2 = "Prefix (Addr4 0x0A2C0080) 27"
  obtain x1 db1 rg1 where w1: "nb_Add_write False 1 ?rg ?db ''a'' ?c1 [] ''admin'' = (x1, db1, rg1)" by (metis prod_cases3)
  have o1: "map_option nb_prefix (inr_option (fst (nb_Add_write False 1 ?rg ?db ''a'' ?c1 [] ''admin''))) = Some ?c1" by code_simp
  then obtain r1 where r1: "x1 = Inr r1" "nb_prefix r1 = ?c1" using w1 by (cases x1) (auto simp: inr_option_def)
  obtain x2 db2 rg2 where w2: "nb_Add_write False 2 rg1 db1 ''b'' ?c2 [] ''admin'' = (x2, db2, rg2)" by (metis prod_cases3)
  have "map_option nb_prefix (inr_option (case nb_Add_write False 1 ?rg ?db ''a'' ?c1 [] ''admin'' of
      (_, db1, rg1) \<Rightarrow> fst (nb_Add_write False 2 rg1 db1 ''b'' ?c2 [] ''admin''))) = Some ?c2" by code_simp
  then obtain r2 where r2: "x2 = Inr r2" "nb_prefix r2 = ?c2" using w1 w2 by (cases x2) (auto simp: inr_option_def)
  have rows: "nb_rows db2 = nb_rows ?db @ [r1, r2]"
    using w1 w2 r1(1) r2(1) unfolding nb_Add_write_def
    by (auto simp: Let_def nb_create_def split: prod.splits create_result.splits if_splits)
  have checks: "nb_Add_check False ?rg ?db ''a'' ?c1 = None" "nb_Add_check False ?rg ?db ''b'' ?c2 = None" by code_simp+
  have "Addr4 0x0A2C0080 \<in> addrs_of ?c1 \<inter> addrs_of ?c2" by (simp add: addrs_of_def contains4_iff)
  then have "addrs_of (nb_prefix r1) \<inter> addrs_of (nb_prefix r2) \<noteq> {}" using r1(2) r2(2) by auto
  then show ?thesis using demo_state_ok(1) checks w1 w2 r1(1) r2(1) rows by blast
qed

text \<open>
  \<open>NewAllocator\<close> accepts a sub-range that is not inside the pool, because it only looks at the
  sub-range's base address: \<open>10.0.0.0/8\<close> passes for the pool \<open>10.0.0.0/16\<close>.
\<close>

lemma NewAllocator_accepts_wider_subrange:
  "\<exists>pl. (NewAllocator pl :: ipam_err + unit allocator) = Inr \<lparr>a_pool = pl, a_resolver = None\<rparr> \<and>
     pl_subranges pl = [(''cloud'', Prefix (Addr4 0x0A000000) 8)] \<and>
     \<not> addrs_of (Prefix (Addr4 0x0A000000) 8) \<subseteq> addrs_of (pl_prefix pl)"
proof -
  let ?pl = "\<lparr>pl_prefix = Prefix (Addr4 0x0A000000) 16, pl_subranges = [(''cloud'', Prefix (Addr4 0x0A000000) 8)],
    pl_reserved = [], pl_quarantine_ttl = 0\<rparr>"
  have "(NewAllocator ?pl :: ipam_err + unit allocator) = Inr \<lparr>a_pool = ?pl, a_resolver = None\<rparr>" 
    by (simp add: NewAllocator_def is_valid_def contains4_iff)
  moreover have "Addr4 0x0A010000 \<in> addrs_of (Prefix (Addr4 0x0A000000) 8)" unfolding addrs_of_def mem_Collect_eq by code_simp
  moreover have "\<not> contains_addr (Prefix (Addr4 0x0A000000) 16) (Addr4 0x0A010000)" by code_simp
  then have "Addr4 0x0A010000 \<notin> addrs_of (pl_prefix ?pl)" by (simp add: addrs_of_def)
  ultimately show ?thesis by (intro exI [of _ ?pl]) (simp, blast)
qed

end
