(* ===== verification/Dualcontrol.thy ===== *)
theory Dualcontrol
  imports Prelude
begin

text \<open>
  \<open>internal/dualcontrol/dualcontrol.go\<close>: the two-person workflow over the tables \<open>approvals\<close> and
  \<open>approval_signoffs\<close>.  A committer is a function of the change on a world \<open>'w\<close> of its own; \<open>dc_runs\<close> is a
  history variable that records for which changes the commit section was entered.  SHA-256 is the
  parameter \<open>sha\<close>.  A failed commit returns the error alone (the code returns the reloaded row beside it).  The operations are given twice: as whole calls, and as the statements of the calls
  interleaved by a step relation.
\<close>

definition StatePending :: string where "StatePending = ''pending''"
definition StateCommitting :: string where "StateCommitting = ''committing''"
definition StateCommitted :: string where "StateCommitted = ''committed''"
definition StateDenied :: string where "StateDenied = ''denied''"
definition StateFailed :: string where "StateFailed = ''failed''"
definition decisionApprove :: string where "decisionApprove = ''approve''"
definition decisionDeny :: string where "decisionDeny = ''deny''"

lemmas dc_consts = StatePending_def StateCommitting_def StateCommitted_def StateDenied_def StateFailed_def
  decisionApprove_def decisionDeny_def

datatype dc_err = DcNotFound | DcNotPending | DcSelfApproval | DcDuplicateActor | DcNoProposer | DcNoActor
  | DcCommit string | DcDb

record change =
  ch_id :: int
  ch_kind :: string
  ch_target :: string
  ch_payload :: bytes
  ch_hash :: bytes
  ch_state :: string
  ch_quorum :: int
  ch_proposer :: string
  ch_created :: time_ns
  ch_decided :: time_ns

record signoff =
  so_id :: int
  so_change :: int
  so_actor :: string
  so_decision :: string
  so_created :: time_ns

record 'w dc =
  dc_changes :: "change list"
  dc_cseq :: int
  dc_signoffs :: "signoff list"
  dc_sseq :: int
  dc_audit :: "audit_note list"
  dc_world :: 'w
  dc_runs :: "int list"

text \<open>A controller: its clamped quorum, whether an audit callback is set, and its committers by kind.\<close>

type_synonym 'w committer = "change \<Rightarrow> 'w \<Rightarrow> string option \<times> 'w"

record 'w controller =
  dcc_quorum :: int
  dcc_audit :: bool
  dcc_committers :: "string \<Rightarrow> 'w committer option"

definition dc_New :: "int \<Rightarrow> bool \<Rightarrow> 'w controller" where
  "dc_New quorum audit = \<lparr>dcc_quorum = (if quorum < 2 then 2 else quorum), dcc_audit = audit, dcc_committers = (\<lambda>_. None)\<rparr>"

definition dc_Register :: "'w controller \<Rightarrow> string \<Rightarrow> 'w committer \<Rightarrow> 'w controller" where
  "dc_Register c kind f = c\<lparr>dcc_committers := (dcc_committers c)(kind := Some f)\<rparr>"

definition dc_target :: "change \<Rightarrow> string" where
  "dc_target ch = (if ch_target ch \<noteq> [] then ch_target ch else ch_kind ch @ ''#'' @ show_int (ch_id ch))"

definition dc_note :: "bool \<Rightarrow> 'w controller \<Rightarrow> audit_note \<Rightarrow> 'w dc \<Rightarrow> 'w dc" where
  "dc_note fails c note d = (if \<not> dcc_audit c \<or> fails then d else d\<lparr>dc_audit := dc_audit d @ [note]\<rparr>)"

definition loadPending :: "bool \<Rightarrow> 'w dc \<Rightarrow> int \<Rightarrow> dc_err + change" where
  "loadPending fails d cid =
     (if fails then Inl DcDb
      else case first_where (\<lambda>ch. ch_id ch = cid) (dc_changes d) of
        None \<Rightarrow> Inl DcNotFound
      | Some ch \<Rightarrow> if ch_state ch \<noteq> StatePending then Inl DcNotPending else Inr ch)"

definition dc_reload :: "bool \<Rightarrow> 'w dc \<Rightarrow> int \<Rightarrow> dc_err + change" where
  "dc_reload fails d cid =
     (if fails then Inl DcDb
      else case first_where (\<lambda>ch. ch_id ch = cid) (dc_changes d) of None \<Rightarrow> Inl DcDb | Some ch \<Rightarrow> Inr ch)"

definition set_state :: "int \<Rightarrow> string \<Rightarrow> time_ns \<Rightarrow> 'w dc \<Rightarrow> 'w dc" where
  "set_state cid st now d =
     d\<lparr>dc_changes := update_where (\<lambda>ch. ch_id ch = cid) (\<lambda>ch. ch\<lparr>ch_state := st, ch_decided := now\<rparr>) (dc_changes d)\<rparr>"

definition finalize :: "bool \<Rightarrow> int \<Rightarrow> string \<Rightarrow> time_ns \<Rightarrow> 'w dc \<Rightarrow> 'w dc" where
  "finalize fails cid st now d = (if fails then d else set_state cid st now d)"

text \<open>\<open>Create\<close> of a sign-off, refused by \<open>UNIQUE(change_id, actor)\<close>.\<close>

definition create_signoff :: "bool \<Rightarrow> int \<Rightarrow> string \<Rightarrow> string \<Rightarrow> time_ns \<Rightarrow> 'w dc \<Rightarrow> 'w dc option" where
  "create_signoff fails cid actor decision now d =
     (if fails \<or> list_ex (\<lambda>s. so_change s = cid \<and> so_actor s = actor) (dc_signoffs d) then None
      else Some (d\<lparr>dc_signoffs := dc_signoffs d @
                     [\<lparr>so_id = dc_sseq d, so_change = cid, so_actor = actor, so_decision = decision, so_created = now\<rparr>],
                   dc_sseq := dc_sseq d + 1\<rparr>))"

definition approvals_of :: "int \<Rightarrow> 'w dc \<Rightarrow> nat" where
  "approvals_of cid d = count_where (\<lambda>s. so_change s = cid \<and> so_decision s = decisionApprove) (dc_signoffs d)"

definition Propose ::
  "faults \<Rightarrow> (bytes \<Rightarrow> bytes) \<Rightarrow> 'w controller \<Rightarrow> time_ns \<Rightarrow> 'w dc \<Rightarrow> string \<Rightarrow> string \<Rightarrow> bytes \<Rightarrow> string \<Rightarrow>
   (dc_err + change) \<times> 'w dc" where
  "Propose flt sha c now d kind tgt payload proposer =
     (if proposer = [] then (Inl DcNoProposer, d)
      else
        let ch = \<lparr>ch_id = dc_cseq d, ch_kind = kind, ch_target = tgt, ch_payload = payload, ch_hash = sha payload,
                  ch_state = StatePending, ch_quorum = dcc_quorum c, ch_proposer = proposer, ch_created = now, ch_decided = 0\<rparr>;
            d1 = d\<lparr>dc_changes := dc_changes d @ [ch], dc_cseq := dc_cseq d + 1\<rparr> in
        if flt 0 then (Inl DcDb, d)
        else case create_signoff (flt 1) (ch_id ch) proposer decisionApprove now d1 of
          None \<Rightarrow> (Inl DcDb, d)
        | Some d2 \<Rightarrow> (Inr ch, dc_note (flt 2) c (proposer, ''dualcontrol-propose'', dc_target ch) d2))"

subsection \<open>Approve, statement by statement\<close>

text \<open>The checks of the sign-off transaction; an error keeps the loaded change for the audit row.\<close>

definition approve_check :: "faults \<Rightarrow> 'w dc \<Rightarrow> int \<Rightarrow> string \<Rightarrow> (dc_err \<times> change option) + change" where
  "approve_check flt d cid actor =
     (case loadPending (flt 0) d cid of
        Inl e \<Rightarrow> Inl (e, None)
      | Inr ch \<Rightarrow>
          if actor = ch_proposer ch then Inl (DcSelfApproval, Some ch)
          else if flt 1 then Inl (DcDb, Some ch)
          else if count_where (\<lambda>s. so_change s = cid \<and> so_actor s = actor) (dc_signoffs d) > 0
          then Inl (DcDuplicateActor, Some ch)
          else Inr ch)"

text \<open>Its insert and the count that decides whether the quorum is reached.\<close>

definition approve_sign :: "faults \<Rightarrow> time_ns \<Rightarrow> 'w dc \<Rightarrow> change \<Rightarrow> int \<Rightarrow> string \<Rightarrow> (bool \<times> 'w dc) option" where
  "approve_sign flt now d ch cid actor =
     (case create_signoff (flt 2) cid actor decisionApprove now d of
        None \<Rightarrow> None
      | Some d1 \<Rightarrow> if flt 3 then None else Some (int (approvals_of cid d1) \<ge> ch_quorum ch, d1))"

text \<open>The compare-and-set that elects the one approver who runs the committer.\<close>

definition approve_claim :: "int \<Rightarrow> 'w dc \<Rightarrow> bool \<times> 'w dc" where
  "approve_claim cid d =
     (let hit = (\<lambda>ch. ch_id ch = cid \<and> ch_state ch = StatePending) in
      if count_where hit (dc_changes d) = 0 then (False, d)
      else (True, d\<lparr>dc_changes := update_where hit (\<lambda>ch. ch\<lparr>ch_state := StateCommitting\<rparr>) (dc_changes d)\<rparr>))"

definition run_committer :: "'w controller \<Rightarrow> change \<Rightarrow> int \<Rightarrow> 'w dc \<Rightarrow> string option \<times> 'w dc" where
  "run_committer c ch cid d =
     (case dcc_committers c (ch_kind ch) of
        None \<Rightarrow> (None, d\<lparr>dc_runs := dc_runs d @ [cid]\<rparr>)
      | Some f \<Rightarrow> (case f ch (dc_world d) of (e, w) \<Rightarrow> (e, d\<lparr>dc_world := w, dc_runs := dc_runs d @ [cid]\<rparr>)))"

definition Approve :: "faults \<Rightarrow> 'w controller \<Rightarrow> time_ns \<Rightarrow> 'w dc \<Rightarrow> int \<Rightarrow> string \<Rightarrow> (dc_err + change) \<times> 'w dc" where
  "Approve flt c now d cid actor =
     (if actor = [] then (Inl DcNoActor, d)
      else case approve_check flt d cid actor of
        Inl (e, och) \<Rightarrow>
          (Inl e, if e = DcSelfApproval \<or> e = DcDuplicateActor
                  then dc_note (flt 6) c (actor, ''dualcontrol-approve-blocked'', dc_target (the och)) d else d)
      | Inr ch \<Rightarrow>
          (case approve_sign flt now d ch cid actor of
             None \<Rightarrow> (Inl DcDb, d)
           | Some (False, d1) \<Rightarrow>
               (let d2 = dc_note (flt 6) c (actor, ''dualcontrol-approve'', dc_target ch) d1 in (dc_reload (flt 7) d2 cid, d2))
           | Some (True, d1) \<Rightarrow>
               if flt 4 then (Inl DcDb, d1)
               else (case approve_claim cid d1 of
                 (False, d2) \<Rightarrow> (dc_reload (flt 7) d2 cid, d2)
               | (True, d2) \<Rightarrow>
                   (case run_committer c ch cid d2 of
                      (Some err, d3) \<Rightarrow>
                        (Inl (DcCommit err),
                         dc_note (flt 6) c (actor, ''dualcontrol-commit-failed'', dc_target ch) (finalize (flt 5) cid StateFailed now d3))
                    | (None, d3) \<Rightarrow>
                        (let d4 = dc_note (flt 6) c (actor, ''dualcontrol-commit'', dc_target ch)
                                    (finalize (flt 5) cid StateCommitted now d3)
                         in (dc_reload (flt 7) d4 cid, d4))))))"

text \<open>\<open>Deny\<close>: the duplicate count is best effort (a failing count reads as zero).\<close>

definition deny_write :: "faults \<Rightarrow> time_ns \<Rightarrow> 'w dc \<Rightarrow> int \<Rightarrow> string \<Rightarrow> 'w dc option" where
  "deny_write flt now d cid actor =
     (let dup = (if flt 1 then 0 else count_where (\<lambda>s. so_change s = cid \<and> so_actor s = actor) (dc_signoffs d)) in
      case (if dup = 0 then create_signoff (flt 2) cid actor decisionDeny now d else Some d) of
        None \<Rightarrow> None
      | Some d1 \<Rightarrow> if flt 3 then None else Some (set_state cid StateDenied now d1))"

definition Deny :: "faults \<Rightarrow> 'w controller \<Rightarrow> time_ns \<Rightarrow> 'w dc \<Rightarrow> int \<Rightarrow> string \<Rightarrow> (dc_err + change) \<times> 'w dc" where
  "Deny flt c now d cid actor =
     (if actor = [] then (Inl DcNoActor, d)
      else case loadPending (flt 0) d cid of
        Inl e \<Rightarrow> (Inl e, d)
      | Inr ch \<Rightarrow>
          (case deny_write flt now d cid actor of
             None \<Rightarrow> (Inl DcDb, d)
           | Some d1 \<Rightarrow>
               let d2 = dc_note (flt 4) c (actor, ''dualcontrol-deny'', dc_target ch) d1 in (dc_reload (flt 5) d2 cid, d2)))"

definition dc_Get :: "faults \<Rightarrow> 'w dc \<Rightarrow> int \<Rightarrow> dc_err + (change \<times> signoff list)" where
  "dc_Get flt d cid =
     (case (if flt 0 then Inl DcDb
            else case first_where (\<lambda>ch. ch_id ch = cid) (dc_changes d) of None \<Rightarrow> Inl DcNotFound | Some ch \<Rightarrow> Inr ch) of
        Inl e \<Rightarrow> Inl e
      | Inr ch \<Rightarrow> if flt 1 then Inl DcDb
                  else Inr (ch, sort_key so_created (filter (\<lambda>s. so_change s = cid) (dc_signoffs d))))"

definition dc_List :: "bool \<Rightarrow> 'w dc \<Rightarrow> string \<Rightarrow> dc_err + change list" where
  "dc_List fails d st =
     (if fails then Inl DcDb
      else Inr (filter (\<lambda>ch. st = [] \<or> ch_state ch = st) (rev (dc_changes d))))"

definition LatestCommitted :: "bool \<Rightarrow> 'w dc \<Rightarrow> string \<Rightarrow> dc_err + change option" where
  "LatestCommitted fails d kind =
     (if fails then Inl DcDb
      else Inr (first_where (\<lambda>ch. ch_kind ch = kind \<and> ch_state ch = StateCommitted) (rev (dc_changes d))))"

subsection \<open>The calls as interleaved statements\<close>

text \<open>
  What a call has done so far.  \<open>ApChecked\<close>: the sign-off transaction has passed its checks; \<open>ApQuorum\<close>: it
  has committed with the quorum reached; \<open>ApClaimed\<close>: the compare-and-set was won; \<open>ApRan\<close>: the committer has
  returned (with an error or not); \<open>DenyChecked\<close>: the veto transaction has read the change as pending.
\<close>

datatype call = ApChecked change string | ApQuorum change string | ApClaimed change string
  | ApRan change string bool | DenyChecked int string

inductive dc_step :: "'w controller \<Rightarrow> 'w dc \<times> call list \<Rightarrow> 'w dc \<times> call list \<Rightarrow> bool" for c where
  st_propose: "Propose flt sha c now d kind tgt payload proposer = (r, d') \<Longrightarrow> dc_step c (d, cs) (d', cs)"
| st_check: "actor \<noteq> [] \<Longrightarrow> approve_check flt d cid actor = Inr ch \<Longrightarrow> dc_step c (d, cs) (d, ApChecked ch actor # cs)"
| st_sign: "approve_sign flt now d ch (ch_id ch) actor = Some (q, d') \<Longrightarrow>
    dc_step c (d, xs @ ApChecked ch actor # ys) (d', (if q then [ApQuorum ch actor] else []) @ xs @ ys)"
| st_claim: "approve_claim (ch_id ch) d = (won, d') \<Longrightarrow>
    dc_step c (d, xs @ ApQuorum ch actor # ys) (d', (if won then [ApClaimed ch actor] else []) @ xs @ ys)"
| st_run: "run_committer c ch (ch_id ch) d = (e, d') \<Longrightarrow>
    dc_step c (d, xs @ ApClaimed ch actor # ys) (d', ApRan ch actor (e = None) # xs @ ys)"
| st_finalize: "dc_step c (d, xs @ ApRan ch actor ok # ys)
    (finalize fails (ch_id ch) (if ok then StateCommitted else StateFailed) now d, xs @ ys)"
| st_deny_check: "actor \<noteq> [] \<Longrightarrow> loadPending fails d cid = Inr ch \<Longrightarrow> dc_step c (d, cs) (d, DenyChecked cid actor # cs)"
| st_deny: "deny_write flt now d cid actor = Some d' \<Longrightarrow> dc_step c (d, xs @ DenyChecked cid actor # ys) (d', xs @ ys)"
| st_crash: "dc_step c (d, xs @ call # ys) (d, xs @ ys)"
| st_note: "dc_step c (d, cs) (dc_note fails c note d, cs)"

inductive dc_steps :: "'w controller \<Rightarrow> 'w dc \<times> call list \<Rightarrow> 'w dc \<times> call list \<Rightarrow> bool" for c where
  dcs_refl: "dc_steps c s s"
| dcs_step: "dc_steps c s s1 \<Longrightarrow> dc_step c s1 s2 \<Longrightarrow> dc_steps c s s2"

definition dc_empty :: "'w \<Rightarrow> 'w dc" where
  "dc_empty w = \<lparr>dc_changes = [], dc_cseq = 1, dc_signoffs = [], dc_sseq = 1, dc_audit = [], dc_world = w, dc_runs = []\<rparr>"

text \<open>The distinct actors who approved a change.\<close>

definition approvers :: "int \<Rightarrow> 'w dc \<Rightarrow> string set" where
  "approvers cid d = so_actor ` {s \<in> set (dc_signoffs d). so_change s = cid \<and> so_decision s = decisionApprove}"

text \<open>The change as proposed: the fields that no operation rewrites.\<close>

definition same_request :: "change \<Rightarrow> change \<Rightarrow> bool" where
  "same_request x y \<longleftrightarrow> ch_id x = ch_id y \<and> ch_kind x = ch_kind y \<and> ch_target x = ch_target y \<and> ch_payload x = ch_payload y \<and>
     ch_hash x = ch_hash y \<and> ch_quorum x = ch_quorum y \<and> ch_proposer x = ch_proposer y \<and> ch_created x = ch_created y"

text \<open>A change whose committer may run: enough distinct approvers, the proposer among them.\<close>

definition quorum_met :: "change \<Rightarrow> 'w dc \<Rightarrow> bool" where
  "quorum_met ch d \<longleftrightarrow> ch_quorum ch \<le> int (card (approvers (ch_id ch) d)) \<and> ch_proposer ch \<in> approvers (ch_id ch) d"

fun call_ok :: "'w dc \<Rightarrow> call \<Rightarrow> bool" where
  "call_ok d (ApChecked ch actor) \<longleftrightarrow> (\<exists>x\<in>set (dc_changes d). same_request x ch)"
| "call_ok d (ApQuorum ch actor) \<longleftrightarrow> (\<exists>x\<in>set (dc_changes d). same_request x ch) \<and> quorum_met ch d"
| "call_ok d (ApClaimed ch actor) \<longleftrightarrow> (\<exists>x\<in>set (dc_changes d). same_request x ch \<and> ch_state x \<noteq> StatePending) \<and> quorum_met ch d \<and>
     ch_id ch \<notin> set (dc_runs d)"
| "call_ok d (ApRan ch actor ok) \<longleftrightarrow> (\<exists>x\<in>set (dc_changes d). same_request x ch \<and> ch_state x \<noteq> StatePending) \<and> quorum_met ch d \<and>
     ch_id ch \<in> set (dc_runs d)"
| "call_ok d (DenyChecked cid actor) \<longleftrightarrow> cid \<in> ch_id ` set (dc_changes d)"

fun claims :: "int \<Rightarrow> call \<Rightarrow> bool" where
  "claims cid (ApClaimed ch _) \<longleftrightarrow> ch_id ch = cid"
| "claims cid _ \<longleftrightarrow> False"

definition tables_ok :: "'w dc \<Rightarrow> bool" where
  "tables_ok d \<longleftrightarrow>
     distinct (map ch_id (dc_changes d)) \<and>
     (\<forall>x\<in>set (dc_changes d). ch_id x < dc_cseq d \<and> 2 \<le> ch_quorum x \<and> ch_proposer x \<in> approvers (ch_id x) d) \<and>
     distinct (map (\<lambda>s. (so_change s, so_actor s)) (dc_signoffs d)) \<and>
     (\<forall>s\<in>set (dc_signoffs d). so_change s < dc_cseq d) \<and>
     (\<forall>cid\<in>set (dc_runs d). cid < dc_cseq d)"

definition states_ok :: "'w dc \<Rightarrow> bool" where
  "states_ok d \<longleftrightarrow>
     (\<forall>x\<in>set (dc_changes d). ch_state x \<in> {StateCommitting, StateCommitted, StateFailed} \<or> ch_id x \<in> set (dc_runs d) \<longrightarrow>
        ch_state x \<noteq> StatePending \<and> quorum_met x d)"

definition once :: "'w dc \<Rightarrow> call list \<Rightarrow> bool" where
  "once d cs \<longleftrightarrow> (\<forall>cid. length (filter (claims cid) cs) + count_list (dc_runs d) cid \<le> 1)"

definition dc_inv :: "'w dc \<times> call list \<Rightarrow> bool" where
  "dc_inv s \<longleftrightarrow> (case s of (d, cs) \<Rightarrow> tables_ok d \<and> states_ok d \<and> (\<forall>call\<in>set cs. call_ok d call) \<and> once d cs)"

subsection \<open>Tables only grow\<close>

definition dc_ext :: "'w dc \<Rightarrow> 'w dc \<Rightarrow> bool" where
  "dc_ext d d' \<longleftrightarrow> set (dc_signoffs d) \<subseteq> set (dc_signoffs d') \<and>
     (\<forall>x\<in>set (dc_changes d). \<exists>y\<in>set (dc_changes d'). same_request y x \<and> (ch_state x \<noteq> StatePending \<longrightarrow> ch_state y \<noteq> StatePending))"

lemma same_request_refl [simp]: "same_request x x"
  by (simp add: same_request_def)

lemma same_request_trans: "same_request x y \<Longrightarrow> same_request y z \<Longrightarrow> same_request x z"
  by (simp add: same_request_def)

lemma dc_ext_changes: "dc_changes d' = dc_changes d \<Longrightarrow> set (dc_signoffs d) \<subseteq> set (dc_signoffs d') \<Longrightarrow> dc_ext d d'"
  unfolding dc_ext_def using same_request_refl by metis

lemma approvers_mono: "set (dc_signoffs d) \<subseteq> set (dc_signoffs d') \<Longrightarrow> approvers cid d \<subseteq> approvers cid d'"
  by (auto simp: approvers_def)

lemma finite_approvers [simp]: "finite (approvers cid d)"
  by (simp add: approvers_def)

lemma quorum_met_mono: "set (dc_signoffs d) \<subseteq> set (dc_signoffs d') \<Longrightarrow> quorum_met ch d \<Longrightarrow> quorum_met ch d'"
  unfolding quorum_met_def
  by (meson approvers_mono card_mono finite_approvers in_mono of_nat_mono order_trans)

lemma quorum_met_signoffs: "dc_signoffs d' = dc_signoffs d \<Longrightarrow> quorum_met ch d' = quorum_met ch d"
  by (simp add: quorum_met_def approvers_def)

lemma dc_note_sel [simp]:
  "dc_changes (dc_note f c nt d) = dc_changes d" "dc_signoffs (dc_note f c nt d) = dc_signoffs d"
  "dc_cseq (dc_note f c nt d) = dc_cseq d" "dc_runs (dc_note f c nt d) = dc_runs d"
  by (simp_all add: dc_note_def)

lemma dc_note_ok [simp]:
  "tables_ok (dc_note f c nt d) = tables_ok d" "states_ok (dc_note f c nt d) = states_ok d"
  "dc_ext d0 (dc_note f c nt d) = dc_ext d0 d"
  by (simp_all add: tables_ok_def states_ok_def dc_ext_def approvers_def quorum_met_def)

lemma quorum_met_request: "same_request x y \<Longrightarrow> quorum_met x d = quorum_met y d"
  by (simp add: same_request_def quorum_met_def)

lemma call_ok_ext:
  assumes "dc_ext d d'" "set (dc_runs d') = set (dc_runs d)" "call_ok d call"
  shows "call_ok d' call"
proof -
  have ex: "\<exists>y\<in>set (dc_changes d'). same_request y ch \<and> (ch_state x \<noteq> StatePending \<longrightarrow> ch_state y \<noteq> StatePending)"
    if "x \<in> set (dc_changes d)" "same_request x ch" for x ch
    using assms(1) that same_request_trans unfolding dc_ext_def by meson
  have q: "quorum_met ch d \<Longrightarrow> quorum_met ch d'" for ch using assms(1) quorum_met_mono unfolding dc_ext_def by blast
  show ?thesis
  proof (cases call)
    case (DenyChecked cid actor)
    then obtain x where x: "x \<in> set (dc_changes d)" "ch_id x = cid" using assms(3) by auto
    then obtain y where "y \<in> set (dc_changes d')" "ch_id y = cid"
      using ex [OF x(1) same_request_refl] by (auto simp: same_request_def)
    then show ?thesis using DenyChecked by auto
  qed (use assms(2,3) ex q in \<open>fastforce+\<close>)
qed

lemma approvals_card:
  assumes "distinct (map (\<lambda>s. (so_change s, so_actor s)) (dc_signoffs d))"
  shows "approvals_of cid d = card (approvers cid d)"
proof -
  let ?F = "filter (\<lambda>s. so_change s = cid \<and> so_decision s = decisionApprove) (dc_signoffs d)"
  have "distinct (map so_actor ?F)"
    using assms by (induction "dc_signoffs d" arbitrary: d rule: list.induct) (auto simp: distinct_map inj_on_def)
  then have "card (set (map so_actor ?F)) = length ?F" using distinct_card by fastforce
  moreover have "set (map so_actor ?F) = approvers cid d" by (auto simp: approvers_def)
  ultimately show ?thesis by (simp add: approvals_of_def count_where_def)
qed

subsection \<open>Every statement keeps the invariant\<close>

lemma states_distinct:
  "StateCommitting \<noteq> StatePending" "StateCommitted \<noteq> StatePending" "StateFailed \<noteq> StatePending" "StateDenied \<noteq> StatePending"
  "StateDenied \<noteq> StateCommitting" "StateDenied \<noteq> StateCommitted" "StateDenied \<noteq> StateFailed"
  by (simp_all add: dc_consts)

lemma restate_ok:
  fixes P :: "change \<Rightarrow> bool"
  assumes "\<And>x. same_request (f x) x" "\<And>x. ch_state (f x) \<noteq> StatePending" "tables_ok d"
  defines "d' \<equiv> d\<lparr>dc_changes := update_where P f (dc_changes d)\<rparr>"
  shows "tables_ok d'" "dc_ext d d'"
proof -
  have k: "ch_id (f x) = ch_id x" "ch_quorum (f x) = ch_quorum x" "ch_proposer (f x) = ch_proposer x" for x
    using assms(1) [of x] by (auto simp: same_request_def)
  have a: "approvers cid d' = approvers cid d" for cid by (simp add: approvers_def d'_def)
  show "tables_ok d'" using assms(3)
    by (simp add: tables_ok_def a) (auto simp: d'_def map_key_update_where [where key = ch_id, OF k(1)] set_update_where k)
  show "dc_ext d d'" unfolding dc_ext_def
  proof (intro conjI ballI)
    fix x assume "x \<in> set (dc_changes d)"
    then show "\<exists>y\<in>set (dc_changes d'). same_request y x \<and> (ch_state x \<noteq> StatePending \<longrightarrow> ch_state y \<noteq> StatePending)"
    proof (cases "P x")
      case True
      then have "f x \<in> set (dc_changes d')" using \<open>x \<in> set (dc_changes d)\<close> by (auto simp: d'_def set_update_where)
      then show ?thesis using assms(1,2) by blast
    next
      case False
      then have "x \<in> set (dc_changes d')" using \<open>x \<in> set (dc_changes d)\<close> by (auto simp: d'_def set_update_where)
      then show ?thesis using same_request_refl by blast
    qed
  qed (simp add: d'_def)
qed

lemma set_state_ok:
  assumes "tables_ok d" "st \<noteq> StatePending"
  shows "tables_ok (set_state cid st now d)" "dc_ext d (set_state cid st now d)"
  using restate_ok [of "\<lambda>ch. ch\<lparr>ch_state := st, ch_decided := now\<rparr>" d "\<lambda>ch. ch_id ch = cid"] assms
  by (simp_all add: set_state_def same_request_def)

lemma states_ok_set_state:
  assumes "states_ok d" "st \<noteq> StatePending"
    and q: "\<And>x. st \<in> {StateCommitting, StateCommitted, StateFailed} \<Longrightarrow> x \<in> set (dc_changes d) \<Longrightarrow> ch_id x = cid \<Longrightarrow> quorum_met x d"
  shows "states_ok (set_state cid st now d)"
proof -
  have met: "quorum_met y (set_state cid st now d) = quorum_met y d" for y
    by (simp add: quorum_met_def approvers_def set_state_def)
  have met': "quorum_met (y\<lparr>ch_state := st', ch_decided := now\<rparr>) d = quorum_met y d" for y st'
    by (simp add: quorum_met_def)
  show ?thesis
    unfolding states_ok_def met using assms(1,2) q
    by (auto simp: set_state_def set_update_where states_ok_def met')
qed

lemma create_signoff_ok:
  assumes "create_signoff f cid actor dec now d = Some d'" "tables_ok d" "cid < dc_cseq d"
  shows "tables_ok d'" "dc_ext d d'" "dc_changes d' = dc_changes d" "dc_runs d' = dc_runs d"
    "set (dc_signoffs d) \<subseteq> set (dc_signoffs d')" "dec = decisionApprove \<Longrightarrow> approvers cid d' = insert actor (approvers cid d)"
proof -
  let ?s = "\<lparr>so_id = dc_sseq d, so_change = cid, so_actor = actor, so_decision = dec, so_created = now\<rparr>"
  have d': "d' = d\<lparr>dc_signoffs := dc_signoffs d @ [?s], dc_sseq := dc_sseq d + 1\<rparr>"
    and n: "\<forall>s\<in>set (dc_signoffs d). \<not> (so_change s = cid \<and> so_actor s = actor)"
    using assms(1) by (auto simp: create_signoff_def list_ex_iff split: if_splits)
  show "dc_changes d' = dc_changes d" "dc_runs d' = dc_runs d" and sub: "set (dc_signoffs d) \<subseteq> set (dc_signoffs d')"
    by (auto simp: d')
  have "approvers c d \<subseteq> approvers c d'" for c using sub by (rule approvers_mono)
  then show "tables_ok d'" using assms(2,3) n
    by (auto simp: tables_ok_def d' image_iff)
  show "dc_ext d d'" using dc_ext_changes [OF _ sub] by (simp add: d')
  have "{s \<in> set (dc_signoffs d'). so_change s = cid \<and> so_decision s = dec} =
      insert ?s {s \<in> set (dc_signoffs d). so_change s = cid \<and> so_decision s = dec}" by (auto simp: d')
  then show "dec = decisionApprove \<Longrightarrow> approvers cid d' = insert actor (approvers cid d)"
    by (simp add: approvers_def)
qed

lemma states_ok_signoffs:
  assumes "states_ok d" "dc_changes d' = dc_changes d" "dc_runs d' = dc_runs d" "set (dc_signoffs d) \<subseteq> set (dc_signoffs d')"
  shows "states_ok d'"
  using assms quorum_met_mono [OF assms(4)] by (auto simp: states_ok_def)

lemma loadPending_Inr:
  "loadPending f d cid = Inr ch \<Longrightarrow> ch \<in> set (dc_changes d) \<and> ch_id ch = cid \<and> ch_state ch = StatePending"
  by (auto simp: loadPending_def split: if_splits option.splits)

lemma approve_check_Inr:
  "approve_check flt d cid actor = Inr ch \<Longrightarrow> ch \<in> set (dc_changes d) \<and> ch_id ch = cid \<and> actor \<noteq> ch_proposer ch"
  by (auto simp: approve_check_def dest: loadPending_Inr split: if_splits sum.splits)

lemma Propose_ok:
  assumes "Propose flt sha c now d kind tgt payload proposer = (r, d')" "tables_ok d" "states_ok d" "2 \<le> dcc_quorum c"
  shows "tables_ok d' \<and> states_ok d' \<and> dc_ext d d' \<and> dc_runs d' = dc_runs d"
proof -
  define ch where "ch = \<lparr>ch_id = dc_cseq d, ch_kind = kind, ch_target = tgt, ch_payload = payload, ch_hash = sha payload,
     ch_state = StatePending, ch_quorum = dcc_quorum c, ch_proposer = proposer, ch_created = now, ch_decided = 0\<rparr>"
  define d1 where "d1 = d\<lparr>dc_changes := dc_changes d @ [ch], dc_cseq := dc_cseq d + 1\<rparr>"
  consider "d' = d" | d2 f nt where "create_signoff (flt 1) (dc_cseq d) proposer decisionApprove now d1 = Some d2"
      "d' = dc_note f c nt d2"
    using assms(1) unfolding Propose_def d1_def ch_def by (auto simp: Let_def split: if_splits option.splits)
  then show ?thesis
  proof cases
    case 1
    then show ?thesis using assms(2,3) dc_ext_changes by auto
  next
    case 2
    let ?s = "\<lparr>so_id = dc_sseq d, so_change = dc_cseq d, so_actor = proposer, so_decision = decisionApprove, so_created = now\<rparr>"
    have d2: "d2 = d1\<lparr>dc_signoffs := dc_signoffs d @ [?s], dc_sseq := dc_sseq d + 1\<rparr>"
      using 2(1) by (auto simp: create_signoff_def d1_def split: if_splits)
    have new: "dc_cseq d \<notin> ch_id ` set (dc_changes d)" "dc_cseq d \<notin> set (dc_runs d)"
      "\<forall>s\<in>set (dc_signoffs d). so_change s \<noteq> dc_cseq d"
      using assms(2) by (auto simp: tables_ok_def)
    have sel: "dc_changes d2 = dc_changes d @ [ch]" "dc_cseq d2 = dc_cseq d + 1" "dc_signoffs d2 = dc_signoffs d @ [?s]"
      "dc_runs d2 = dc_runs d" by (simp_all add: d2 d1_def)
    have old: "approvers cid d \<subseteq> approvers cid d2" for cid by (rule approvers_mono) (auto simp: sel)
    have "?s \<in> {s \<in> set (dc_signoffs d2). so_change s = dc_cseq d \<and> so_decision s = decisionApprove}" by (simp add: sel)
    then have own: "proposer \<in> approvers (dc_cseq d) d2" unfolding approvers_def by (rule rev_image_eqI) simp
    have chs: "ch_id ch = dc_cseq d" "ch_state ch = StatePending" "ch_quorum ch = dcc_quorum c" "ch_proposer ch = proposer"
      by (simp_all add: ch_def)
    have "\<forall>x\<in>set (dc_changes d2). ch_id x < dc_cseq d2 \<and> 2 \<le> ch_quorum x \<and> ch_proposer x \<in> approvers (ch_id x) d2"
      using assms(2,4) old own unfolding tables_ok_def sel by (fastforce simp: chs)
    then have "tables_ok d2" using assms(2) new unfolding tables_ok_def sel by (auto simp: chs image_iff)
    moreover have "states_ok d2"
      using assms(3) new quorum_met_mono [of d d2] unfolding states_ok_def sel
      by (auto simp: chs states_distinct states_distinct [symmetric])
    moreover have "dc_ext d d2" unfolding dc_ext_def sel
    proof (intro conjI ballI)
      fix x assume "x \<in> set (dc_changes d)"
      then show "\<exists>y\<in>set (dc_changes d @ [ch]). same_request y x \<and> (ch_state x \<noteq> StatePending \<longrightarrow> ch_state y \<noteq> StatePending)"
        by (intro bexI [of _ x]) auto
    qed auto
    ultimately show ?thesis using 2(2) sel(4) by simp
  qed
qed


lemma request_unique:
  assumes "tables_ok d" "x \<in> set (dc_changes d)" "y \<in> set (dc_changes d)" "same_request y ch" "ch_id x = ch_id ch"
  shows "x = y"
  using assms distinct_map_inj unfolding tables_ok_def same_request_def by (metis (mono_tags, lifting) distinct_map inj_onD)

lemma dc_invI:
  "tables_ok d \<Longrightarrow> states_ok d \<Longrightarrow> (\<And>call. call \<in> set cs \<Longrightarrow> call_ok d call) \<Longrightarrow> once d cs \<Longrightarrow> dc_inv (d, cs)"
  by (simp add: dc_inv_def)

lemma dc_invD:
  assumes "dc_inv (d, cs)"
  shows "tables_ok d" "states_ok d" "call \<in> set cs \<Longrightarrow> call_ok d call" "once d cs"
  using assms by (simp_all add: dc_inv_def)

lemma dc_inv_ext:
  assumes "dc_inv (d, cs)" "tables_ok d'" "states_ok d'" "dc_ext d d'" "dc_runs d' = dc_runs d"
    "\<And>call. call \<in> set cs' \<Longrightarrow> call \<in> set cs \<or> call_ok d' call"
    "\<And>cid. length (filter (claims cid) cs') \<le> length (filter (claims cid) cs)"
  shows "dc_inv (d', cs')"
proof (rule dc_invI)
  show "call_ok d' call" if "call \<in> set cs'" for call
    using assms(6) [OF that] call_ok_ext [OF assms(4)] dc_invD(3) [OF assms(1)] assms(5) by auto
  show "once d' cs'"
    using dc_invD(4) [OF assms(1)] assms(5,7) unfolding once_def by (metis add_le_mono1 order_trans)
qed (use assms in auto)

lemma inv_drop: "dc_inv (d, xs @ call # ys) \<Longrightarrow> dc_inv (d, xs @ ys)"
  by (auto simp: dc_inv_def once_def split: if_splits intro: le_trans [rotated])

lemma inv_sign:
  assumes "dc_inv (d, xs @ ApChecked ch actor # ys)" "approve_sign flt now d ch (ch_id ch) actor = Some (q, d')"
  shows "dc_inv (d', (if q then [ApQuorum ch actor] else []) @ xs @ ys)"
proof -
  note I = dc_invD [OF assms(1)]
  obtain x where x: "x \<in> set (dc_changes d)" "same_request x ch" using I(3) [of "ApChecked ch actor"] by auto
  then have id: "ch_id ch < dc_cseq d" and own: "ch_proposer ch \<in> approvers (ch_id ch) d"
    using I(1) by (auto simp: tables_ok_def same_request_def)
  have c: "create_signoff (flt 2) (ch_id ch) actor decisionApprove now d = Some d'"
    and q: "q \<longleftrightarrow> int (approvals_of (ch_id ch) d') \<ge> ch_quorum ch"
    using assms(2) by (auto simp: approve_sign_def split: option.splits if_splits)
  note S = create_signoff_ok [OF c I(1) id]
  have "quorum_met ch d'" if q
    using that q own S(6) approvals_card [of d' "ch_id ch"] S(1) by (simp add: quorum_met_def tables_ok_def)
  then show ?thesis
    using x S(3) by (intro dc_inv_ext [OF assms(1) S(1) states_ok_signoffs [OF I(2) S(3,4,5)] S(2,4)]) auto
qed

lemma inv_claim:
  assumes "dc_inv (d, xs @ ApQuorum ch actor # ys)" "approve_claim (ch_id ch) d = (won, d')"
  shows "dc_inv (d', (if won then [ApClaimed ch actor] else []) @ xs @ ys)"
proof (cases won)
  case False
  then have "d' = d" using assms(2) by (auto simp: approve_claim_def Let_def split: if_splits)
  then show ?thesis using False inv_drop [OF assms(1)] by simp
next
  case True
  note I = dc_invD [OF assms(1)]
  let ?hit = "\<lambda>x. ch_id x = ch_id ch \<and> ch_state x = StatePending"
  let ?f = "\<lambda>x. x\<lparr>ch_state := StateCommitting\<rparr>"
  have d': "d' = d\<lparr>dc_changes := update_where ?hit ?f (dc_changes d)\<rparr>"
    and c: "count_where ?hit (dc_changes d) \<noteq> 0"
    using True assms(2) by (auto simp: approve_claim_def Let_def split: if_splits)
  obtain x where x: "x \<in> set (dc_changes d)" "same_request x ch" and q: "quorum_met ch d"
    using I(3) [of "ApQuorum ch actor"] by auto
  obtain z where "z \<in> set (dc_changes d)" "?hit z" using c by (auto simp: count_where_0_iff)
  then have pend: "ch_state x = StatePending" using request_unique [OF I(1) _ x] by auto
  then have nrun: "ch_id ch \<notin> set (dc_runs d)" using I(2) x by (auto simp: states_ok_def same_request_def)
  have R: "tables_ok d'" "dc_ext d d'"
    using restate_ok [of ?f d ?hit] I(1) states_distinct by (simp_all add: d' same_request_def)
  have met: "quorum_met y d' = quorum_met y d" for y by (simp add: quorum_met_def approvers_def d')
  have xq: "quorum_met (?f x) d" using q x by (simp add: quorum_met_def same_request_def)
  have "states_ok d'" unfolding states_ok_def met
  proof (intro ballI impI)
    fix y assume y: "y \<in> set (dc_changes d')" "ch_state y \<in> {StateCommitting, StateCommitted, StateFailed} \<or> ch_id y \<in> set (dc_runs d')"
    then consider "y \<in> set (dc_changes d)" | z where "z \<in> set (dc_changes d)" "?hit z" "y = ?f z"
      by (auto simp: d' set_update_where)
    then show "ch_state y \<noteq> StatePending \<and> quorum_met y d"
    proof cases
      case 1
      then show ?thesis using y(2) I(2) by (auto simp: states_ok_def d')
    next
      case 2
      then show ?thesis using request_unique [OF I(1) _ x] xq states_distinct by auto
    qed
  qed
  moreover have "call_ok d' (ApClaimed ch actor)"
  proof -
    have "?f x \<in> set (dc_changes d')" "same_request (?f x) ch" "ch_state (?f x) \<noteq> StatePending"
      using x pend states_distinct by (auto simp: d' set_update_where same_request_def)
    then show ?thesis using q nrun unfolding call_ok.simps met by (auto simp: d')
  qed
  moreover have "\<not> claims (ch_id ch) call" if mem: "call \<in> set (xs @ ys)" for call
  proof
    assume "claims (ch_id ch) call"
    then obtain ch' a where call: "call = ApClaimed ch' a" "ch_id ch' = ch_id ch" by (cases call) auto
    then obtain z where "z \<in> set (dc_changes d)" "same_request z ch'" "ch_state z \<noteq> StatePending"
      using I(3) [of call] mem call(1) by auto
    then show False using request_unique [OF I(1) _ x] pend call(2) by (auto simp: same_request_def)
  qed
  then have "filter (claims (ch_id ch)) xs = []" "filter (claims (ch_id ch)) ys = []"
    by (auto simp: filter_empty_conv)
  then have "once d' ([ApClaimed ch actor] @ xs @ ys)"
    using I(4) nrun unfolding once_def by (auto simp: d' count_list_0_iff)
  moreover have "call_ok d' call" if "call \<in> set (xs @ ys)" for call
    using that call_ok_ext [OF R(2)] I(3) [of call] by (auto simp: d')
  ultimately show ?thesis using True R(1) by (intro dc_invI) auto
qed


lemma inv_run:
  assumes "dc_inv (d, xs @ ApClaimed ch actor # ys)" "run_committer c ch (ch_id ch) d = (e, d')"
  shows "dc_inv (d', ApRan ch actor ok # xs @ ys)"
proof -
  note I = dc_invD [OF assms(1)]
  obtain w where d': "d' = d\<lparr>dc_world := w, dc_runs := dc_runs d @ [ch_id ch]\<rparr>"
  proof (cases "dcc_committers c (ch_kind ch)")
    case None
    then show ?thesis using that [of "dc_world d"] assms(2) by (auto simp: run_committer_def)
  next
    case (Some f)
    then show ?thesis using that assms(2) by (auto simp: run_committer_def split: prod.splits)
  qed
  obtain x where x: "x \<in> set (dc_changes d)" "same_request x ch" "ch_state x \<noteq> StatePending" and q: "quorum_met ch d"
    and nrun: "ch_id ch \<notin> set (dc_runs d)"
    using I(3) [of "ApClaimed ch actor"] by auto
  have met: "quorum_met y d' = quorum_met y d" for y by (simp add: quorum_met_def approvers_def d')
  have ap: "approvers cid d' = approvers cid d" for cid by (simp add: approvers_def d')
  have "tables_ok d'" using I(1) x unfolding tables_ok_def ap by (auto simp: d' same_request_def)
  moreover have "states_ok d'" unfolding states_ok_def met
  proof (intro ballI impI)
    fix y assume y: "y \<in> set (dc_changes d')" "ch_state y \<in> {StateCommitting, StateCommitted, StateFailed} \<or> ch_id y \<in> set (dc_runs d')"
    show "ch_state y \<noteq> StatePending \<and> quorum_met y d"
    proof (cases "ch_id y = ch_id ch")
      case True
      then show ?thesis using request_unique [OF I(1) _ x(1,2)] y(1) x(3) q quorum_met_request [OF x(2), of d] by (auto simp: d')
    next
      case False
      then show ?thesis using y I(2) by (auto simp: states_ok_def d')
    qed
  qed
  moreover have none: "\<not> claims (ch_id ch) call" if "call \<in> set (xs @ ys)" for call
  proof
    assume "claims (ch_id ch) call"
    then have "filter (claims (ch_id ch)) xs \<noteq> [] \<or> filter (claims (ch_id ch)) ys \<noteq> []"
      using that by (auto simp: filter_empty_conv)
    then show False using I(4) unfolding once_def by (auto simp: dest!: spec [of _ "ch_id ch"])
  qed
  moreover have "once d' (ApRan ch actor ok # xs @ ys)"
  proof -
    have "length (filter (claims cid) (ApRan ch actor ok # xs @ ys)) + count_list (dc_runs d') cid =
        length (filter (claims cid) (xs @ ApClaimed ch actor # ys)) + count_list (dc_runs d) cid" for cid
      by (simp add: d')
    then show ?thesis using I(4) unfolding once_def by presburger
  qed
  moreover have "call_ok d' call" if "call \<in> set (xs @ ys)" for call
  proof -
    have "call_ok d call" using that I(3) by auto
    then show ?thesis using none [OF that]
      by (induction call rule: call.induct) (simp_all only: call_ok.simps met, auto simp: d')
  qed
  moreover have "call_ok d' (ApRan ch actor ok)"
  proof -
    have "x \<in> set (dc_changes d')" "ch_id ch \<in> set (dc_runs d')" using x(1) by (simp_all add: d')
    then show ?thesis using x(2,3) q unfolding call_ok.simps met by blast
  qed
  ultimately show ?thesis by (intro dc_invI) auto
qed

lemma inv_finalize:
  assumes "dc_inv (d, xs @ ApRan ch actor ok # ys)"
  shows "dc_inv (finalize fails (ch_id ch) (if ok then StateCommitted else StateFailed) now d, xs @ ys)"
proof (cases fails)
  case True
  then show ?thesis using inv_drop [OF assms] by (simp add: finalize_def)
next
  case False
  note I = dc_invD [OF assms]
  define st where "st = (if ok then StateCommitted else StateFailed)"
  have st: "st \<noteq> StatePending" by (simp add: st_def states_distinct)
  obtain x where x: "x \<in> set (dc_changes d)" "same_request x ch" and q: "quorum_met ch d"
    using I(3) [of "ApRan ch actor ok"] by auto
  have qm: "quorum_met y d" if "y \<in> set (dc_changes d)" "ch_id y = ch_id ch" for y
    using request_unique [OF I(1) that(1) x that(2)] q quorum_met_request [OF x(2), of d] by simp
  have "dc_inv (set_state (ch_id ch) st now d, xs @ ys)"
    by (rule dc_inv_ext [OF assms set_state_ok(1) [OF I(1) st] states_ok_set_state [OF I(2) st qm] set_state_ok(2) [OF I(1) st]])
       (auto simp: set_state_def)
  then show ?thesis using False by (simp add: finalize_def st_def)
qed

lemma inv_deny:
  assumes "dc_inv (d, xs @ DenyChecked cid actor # ys)" "deny_write flt now d cid actor = Some d'"
  shows "dc_inv (d', xs @ ys)"
proof -
  note I = dc_invD [OF assms(1)]
  have id: "cid < dc_cseq d" using I(1) I(3) [of "DenyChecked cid actor"] by (auto simp: tables_ok_def)
  obtain d1 where d1: "d1 = d \<or> create_signoff (flt 2) cid actor decisionDeny now d = Some d1" "d' = set_state cid StateDenied now d1"
    using assms(2) by (auto simp: deny_write_def Let_def split: option.splits if_splits)
  have k: "tables_ok d1 \<and> states_ok d1 \<and> dc_ext d d1 \<and> dc_runs d1 = dc_runs d"
  proof (cases "d1 = d")
    case True
    then show ?thesis using I(1,2) dc_ext_changes [of d d] by simp
  next
    case False
    then have c: "create_signoff (flt 2) cid actor decisionDeny now d = Some d1" using d1(1) by simp
    show ?thesis using create_signoff_ok [OF c I(1) id] states_ok_signoffs [OF I(2)] by blast
  qed
  have st: "StateDenied \<noteq> StatePending" by (simp add: states_distinct)
  have s: "states_ok d'" unfolding d1(2) using k st states_distinct by (intro states_ok_set_state) auto
  have "dc_inv (d1, xs @ DenyChecked cid actor # ys)"
    by (rule dc_inv_ext [OF assms(1)]) (use k in auto)
  then show ?thesis
    by (rule dc_inv_ext) (use k s set_state_ok [OF _ st, of d1 cid now] d1(2) in \<open>auto simp: set_state_def\<close>)
qed

lemma inv_note: "dc_inv (d, cs) \<Longrightarrow> dc_inv (dc_note fails c nt d, cs)"
  by (rule dc_inv_ext [where d = d and cs = cs]) (auto dest: dc_invD intro: dc_ext_changes)

lemma dc_step_inv:
  assumes "dc_step c s s'" "2 \<le> dcc_quorum c" "dc_inv s"
  shows "dc_inv s'"
  using assms
proof (induction rule: dc_step.induct)
  case (st_propose flt sha now d kind tgt payload proposer r d' cs)
  note P = Propose_ok [OF st_propose(1) dc_invD(1,2) [OF st_propose(3)] st_propose(2)]
  then show ?case by (intro dc_inv_ext [OF st_propose(3)]) auto
next
  case (st_check actor flt d cid ch cs)
  then have "call_ok d (ApChecked ch actor)"
    using approve_check_Inr [OF st_check(2)] by (auto intro!: bexI [of _ ch])
  then show ?case using st_check(4) by (auto simp: dc_inv_def once_def)
next
  case (st_deny_check actor fails d cid ch cs)
  then show ?case using loadPending_Inr [OF st_deny_check(2)] by (auto simp: dc_inv_def once_def)
qed (blast intro: inv_sign inv_claim inv_run inv_finalize inv_deny inv_drop inv_note)+

lemma dc_steps_inv: "dc_steps c s s' \<Longrightarrow> 2 \<le> dcc_quorum c \<Longrightarrow> dc_inv s \<Longrightarrow> dc_inv s'"
  by (induction rule: dc_steps.induct) (auto intro: dc_step_inv)

lemma dc_empty_inv: "dc_inv (dc_empty w, [])"
  by (simp add: dc_inv_def dc_empty_def tables_ok_def states_ok_def once_def)


subsection \<open>The whole calls\<close>

text \<open>A controller as the program builds it: \<open>New\<close>, then a \<open>Register\<close> per kind.\<close>

definition controller_of :: "int \<Rightarrow> bool \<Rightarrow> (string \<times> 'w committer) list \<Rightarrow> 'w controller" where
  "controller_of quorum audit regs = foldl (\<lambda>c (kind, f). dc_Register c kind f) (dc_New quorum audit) regs"

lemma controller_of_quorum [simp]: "dcc_quorum (controller_of quorum audit regs) = max 2 quorum"
proof -
  have "dcc_quorum (foldl (\<lambda>c (kind, f). dc_Register c kind f) c regs) = dcc_quorum c" for c :: "'a controller"
    by (induction regs arbitrary: c) (auto simp: dc_Register_def)
  then show ?thesis by (simp add: controller_of_def dc_New_def)
qed

datatype dc_op = OpPropose string string bytes string | OpApprove int string | OpDeny int string

fun dc_exec :: "(bytes \<Rightarrow> bytes) \<Rightarrow> 'w controller \<Rightarrow> 'w dc \<Rightarrow> faults \<times> time_ns \<times> dc_op \<Rightarrow> 'w dc" where
  "dc_exec sha c d (flt, now, OpPropose kind tgt payload proposer) = snd (Propose flt sha c now d kind tgt payload proposer)"
| "dc_exec sha c d (flt, now, OpApprove cid actor) = snd (Approve flt c now d cid actor)"
| "dc_exec sha c d (flt, now, OpDeny cid actor) = snd (Deny flt c now d cid actor)"

definition dc_ids :: "'w dc \<Rightarrow> bool" where
  "dc_ids d \<longleftrightarrow> distinct (map ch_id (dc_changes d)) \<and> (\<forall>x\<in>set (dc_changes d). ch_id x < dc_cseq d)"

definition settled :: "change \<Rightarrow> nat \<Rightarrow> 'w dc \<Rightarrow> bool" where
  "settled ch n d \<longleftrightarrow> ch \<in> set (dc_changes d) \<and> ch_state ch \<noteq> StatePending \<and> dc_ids d \<and> count_list (dc_runs d) (ch_id ch) = n"

lemma settled_note [simp]: "settled ch n (dc_note f c nt d) = settled ch n d"
  by (simp add: settled_def dc_ids_def)

lemma settled_signoff: "create_signoff f cid actor dec now d = Some d' \<Longrightarrow> settled ch n d' = settled ch n d"
  by (auto simp: create_signoff_def settled_def dc_ids_def split: if_splits)

lemma settled_restate:
  assumes "settled ch n d" "\<And>x. P x \<Longrightarrow> ch_id x \<noteq> ch_id ch" "\<And>x. ch_id (f x) = ch_id x"
  shows "settled ch n (d\<lparr>dc_changes := update_where P f (dc_changes d)\<rparr>)"
proof -
  have "\<not> P ch" using assms(2) by blast
  then show ?thesis using assms(1,3)
    by (auto simp: settled_def dc_ids_def set_update_where map_key_update_where [where key = ch_id])
qed

lemma settled_set_state: "settled ch n d \<Longrightarrow> cid \<noteq> ch_id ch \<Longrightarrow> settled ch n (set_state cid st now d)"
  unfolding set_state_def by (rule settled_restate) auto

lemma settled_finalize: "settled ch n d \<Longrightarrow> cid \<noteq> ch_id ch \<Longrightarrow> settled ch n (finalize f cid st now d)"
  by (simp add: finalize_def settled_set_state)

lemma settled_claim: "settled ch n d \<Longrightarrow> cid \<noteq> ch_id ch \<Longrightarrow> settled ch n (snd (approve_claim cid d))"
  by (auto simp: approve_claim_def Let_def intro!: settled_restate)

lemma settled_run: "settled ch n d \<Longrightarrow> cid \<noteq> ch_id ch \<Longrightarrow> settled ch n (snd (run_committer c x cid d))"
  by (auto simp: run_committer_def settled_def dc_ids_def split: option.splits prod.splits)

lemma settled_loadPending:
  assumes "settled ch n d" "loadPending f d cid = Inr x"
  shows "cid \<noteq> ch_id ch"
proof
  assume "cid = ch_id ch"
  then have "x = ch" using loadPending_Inr [OF assms(2)] assms(1)
    unfolding settled_def dc_ids_def by (auto simp: distinct_map inj_on_def)
  then show False using loadPending_Inr [OF assms(2)] assms(1) by (simp add: settled_def)
qed

lemma settled_Approve:
  assumes "settled ch n d"
  shows "settled ch n (snd (Approve flt c now d cid actor))"
proof (cases "approve_check flt d cid actor")
  case (Inl p)
  then show ?thesis using assms by (auto simp: Approve_def split: prod.splits)
next
  case (Inr x)
  then have cid: "cid \<noteq> ch_id ch"
    using settled_loadPending [OF assms] by (auto simp: approve_check_def split: sum.splits if_splits)
  have s: "settled ch n d1" if "approve_sign flt now d x cid actor = Some (q, d1)" for q d1
    using that assms by (auto simp: approve_sign_def settled_signoff split: option.splits if_splits)
  have m: "settled ch n (snd (run_committer c x cid (snd (approve_claim cid d1))))" if "settled ch n d1" for d1
    using settled_run [OF settled_claim [OF that cid] cid] .
  show ?thesis using Inr assms
    by (auto simp: Approve_def Let_def split: option.splits prod.splits bool.splits
        intro!: settled_finalize dest!: s dest: settled_claim [OF _ cid] m simp: cid)
qed

lemma settled_Deny: "settled ch n d \<Longrightarrow> settled ch n (snd (Deny flt c now d cid actor))"
  using settled_loadPending [of ch n d "flt 0" cid] settled_signoff [of _ cid actor _ now d _ ch n]
  by (auto simp: Deny_def deny_write_def Let_def split: sum.splits option.splits if_splits intro!: settled_set_state)

lemma settled_Propose: "settled ch n d \<Longrightarrow> settled ch n (snd (Propose flt sha c now d kind tgt payload proposer))"
  by (auto simp: Propose_def Let_def create_signoff_def settled_def dc_ids_def split: option.splits if_splits)


lemma settled_exec: "settled ch n d \<Longrightarrow> settled ch n (dc_exec sha c d op)"
  by (induction sha c d op rule: dc_exec.induct) (simp_all add: settled_Approve settled_Deny settled_Propose)

lemma settled_foldl: "settled ch n d \<Longrightarrow> settled ch n (foldl (dc_exec sha c) d ops)"
  by (induction ops arbitrary: d) (simp_all add: settled_exec)

lemma two_approvers:
  assumes "quorum_met ch d" "2 \<le> ch_quorum ch"
  shows "\<exists>actor. actor \<noteq> ch_proposer ch \<and> actor \<in> approvers (ch_id ch) d"
proof (rule ccontr)
  assume "\<not> ?thesis"
  then have "approvers (ch_id ch) d \<subseteq> {ch_proposer ch}" by blast
  then have "card (approvers (ch_id ch) d) \<le> 1" using card_mono [of "{ch_proposer ch}"] by fastforce
  then show False using assms by (simp add: quorum_met_def)
qed

section \<open>Properties\<close>

text \<open>
  C3: No one acts alone.  Whatever the calls of the operators do and however their statements
  interleave, with any store failures and crashes: a change that is committing, committed or failed,
  and every change whose committer was entered, carries approvals of at least its quorum of distinct
  actors (at least two), the proposer and somebody else among them.
\<close>

theorem commit_needs_two_people:
  assumes "dc_steps (controller_of quorum audit regs) (dc_empty w, []) (d, calls)"
    and "ch \<in> set (dc_changes d)"
    and "ch_state ch \<in> {StateCommitting, StateCommitted, StateFailed} \<or> ch_id ch \<in> set (dc_runs d)"
  shows "2 \<le> ch_quorum ch \<and> ch_quorum ch \<le> int (card (approvers (ch_id ch) d)) \<and>
    ch_proposer ch \<in> approvers (ch_id ch) d \<and>
    (\<exists>actor. actor \<noteq> ch_proposer ch \<and> actor \<in> approvers (ch_id ch) d)"
proof -
  have "dc_inv (d, calls)" using dc_steps_inv [OF assms(1) _ dc_empty_inv] by simp
  then have "2 \<le> ch_quorum ch" "quorum_met ch d"
    using assms(2,3) by (auto simp: dc_inv_def tables_ok_def states_ok_def)
  then show ?thesis using two_approvers by (auto simp: quorum_met_def)
qed

definition demo_ctl :: "string list controller" where
  "demo_ctl = controller_of 2 False [(''policy'', \<lambda>ch w. (None, ch_target ch # w))]"

definition demo_sha :: "bytes \<Rightarrow> bytes" where
  "demo_sha b = b"

definition demo_proposed :: "string list dc" where
  "demo_proposed = snd (Propose no_faults demo_sha demo_ctl 10 (dc_empty []) ''policy'' ''v2'' [1] ''alice'')"

text \<open>Bob's \<open>Approve\<close> up to the point where the committer has returned, and Carol's veto between.\<close>

definition demo_change :: change where
  "demo_change = hd (dc_changes demo_proposed)"

definition demo_signed :: "string list dc" where
  "demo_signed = snd (the (approve_sign no_faults 20 demo_proposed demo_change 1 ''bob''))"

definition demo_claimed :: "string list dc" where
  "demo_claimed = snd (approve_claim 1 demo_signed)"

definition demo_vetoed :: "string list dc" where
  "demo_vetoed = the (deny_write no_faults 25 demo_claimed 1 ''carol'')"

definition demo_ran :: "string list dc" where
  "demo_ran = snd (run_committer demo_ctl demo_change 1 demo_vetoed)"

definition demo_final :: "string list dc" where
  "demo_final = finalize False 1 StateCommitted 30 demo_ran"

lemma demo_schedule:
  "dc_steps demo_ctl (dc_empty [], []) (demo_vetoed, [ApClaimed demo_change ''bob''])"
  "dc_steps demo_ctl (demo_vetoed, [ApClaimed demo_change ''bob'']) (demo_final, [])"
proof -
  have id: "ch_id demo_change = 1" by code_simp
  have s1: "dc_step demo_ctl (dc_empty [], []) (demo_proposed, [])"
    unfolding demo_proposed_def by (rule st_propose [OF prod.collapse [symmetric]])
  have s2: "dc_step demo_ctl (demo_proposed, []) (demo_proposed, [DenyChecked 1 ''carol''])"
    by (rule st_deny_check [where fails = False and ch = demo_change]; code_simp)
  have s3: "dc_step demo_ctl (demo_proposed, cs) (demo_proposed, ApChecked demo_change ''bob'' # cs)" for cs
    by (rule st_check [where flt = no_faults and cid = 1]; code_simp)
  have "approve_sign no_faults 20 demo_proposed demo_change (ch_id demo_change) ''bob'' = Some (True, demo_signed)" by code_simp
  from st_sign [OF this, of demo_ctl "[]"]
  have s4: "dc_step demo_ctl (demo_proposed, ApChecked demo_change ''bob'' # cs) (demo_signed, ApQuorum demo_change ''bob'' # cs)" for cs
    by simp
  have "approve_claim (ch_id demo_change) demo_signed = (True, demo_claimed)" by code_simp
  from st_claim [OF this, of demo_ctl "[]"]
  have s5: "dc_step demo_ctl (demo_signed, ApQuorum demo_change ''bob'' # cs) (demo_claimed, ApClaimed demo_change ''bob'' # cs)" for cs
    by simp
  have "deny_write no_faults 25 demo_claimed 1 ''carol'' = Some demo_vetoed" by code_simp
  from st_deny [OF this, of demo_ctl "[ApClaimed demo_change ''bob'']" "[]"]
  have s6: "dc_step demo_ctl (demo_claimed, [ApClaimed demo_change ''bob'', DenyChecked 1 ''carol''])
      (demo_vetoed, [ApClaimed demo_change ''bob''])" by simp
  have "run_committer demo_ctl demo_change (ch_id demo_change) demo_vetoed = (None, demo_ran)" by code_simp
  from st_run [OF this, of "[]"]
  have s7: "dc_step demo_ctl (demo_vetoed, [ApClaimed demo_change ''bob'']) (demo_ran, [ApRan demo_change ''bob'' True])" by simp
  have s8: "dc_step demo_ctl (demo_ran, [ApRan demo_change ''bob'' True]) (demo_final, [])"
    using st_finalize [of demo_ctl demo_ran "[]" demo_change "''bob''" True "[]" False 30] by (simp add: demo_final_def id)
  show "dc_steps demo_ctl (dc_empty [], []) (demo_vetoed, [ApClaimed demo_change ''bob''])"
    by (rule dcs_step [OF dcs_step [OF dcs_step [OF dcs_step [OF dcs_step [OF dcs_step [OF dcs_refl s1] s2] s3] s4] s5] s6])
  show "dc_steps demo_ctl (demo_vetoed, [ApClaimed demo_change ''bob'']) (demo_final, [])"
    by (rule dcs_step [OF dcs_step [OF dcs_refl s7] s8])
qed

lemma dc_steps_trans: "dc_steps c s1 s2 \<Longrightarrow> dc_steps c s0 s1 \<Longrightarrow> dc_steps c s0 s2"
  by (induction rule: dc_steps.induct) (auto intro: dcs_step)

theorem commit_needs_two_people_witness:
  "\<exists>actor. actor \<noteq> ''alice'' \<and> actor \<in> approvers 1 demo_final"
proof -
  let ?ch = "hd (dc_changes demo_final)"
  have "dc_steps demo_ctl (dc_empty [], []) (demo_final, [])"
    using demo_schedule dc_steps_trans by blast
  moreover have "?ch \<in> set (dc_changes demo_final)" "ch_state ?ch \<in> {StateCommitting, StateCommitted, StateFailed}"
    "ch_proposer ?ch = ''alice''" "ch_id ?ch = 1" by code_simp+
  ultimately show ?thesis
    unfolding demo_ctl_def using commit_needs_two_people [of 2 False _ "[]" demo_final "[]" ?ch] by auto
qed

text \<open>C24: However the calls interleave, the committer of a change is entered at most once.\<close>

theorem committer_runs_at_most_once:
  assumes "dc_steps (controller_of quorum audit regs) (dc_empty w, []) (d, calls)"
  shows "count_list (dc_runs d) cid \<le> 1"
proof -
  have "once d calls" using dc_steps_inv [OF assms(1) _ dc_empty_inv] by (simp add: dc_inv_def)
  then show ?thesis unfolding once_def by (metis add_leD2)
qed

theorem committer_runs_at_most_once_witness:
  "dc_runs demo_final = [1] \<and> count_list (dc_runs demo_final) 1 \<le> 1"
proof -
  have "dc_steps demo_ctl (dc_empty [], []) (demo_final, [])"
    using demo_schedule dc_steps_trans by blast
  then have "count_list (dc_runs demo_final) 1 \<le> 1"
    unfolding demo_ctl_def by (rule committer_runs_at_most_once)
  moreover have "dc_runs demo_final = [1]" by code_simp
  ultimately show ?thesis by simp
qed

text \<open>
  When the calls do not overlap, a decided change is final: once its state is not pending, no
  sequence of proposals, approvals and vetoes, with any store failures, rewrites its row or enters its
  committer again.
\<close>

theorem decided_change_is_final:
  assumes "ch \<in> set (dc_changes d)" "ch_state ch \<noteq> StatePending" "dc_ids d"
  shows "ch \<in> set (dc_changes (foldl (dc_exec sha c) d ops)) \<and>
    count_list (dc_runs (foldl (dc_exec sha c) d ops)) (ch_id ch) = count_list (dc_runs d) (ch_id ch)"
  using settled_foldl [of ch "count_list (dc_runs d) (ch_id ch)" d sha c ops] assms by (simp add: settled_def)

theorem decided_change_is_final_witness:
  "count_list (dc_runs (foldl (dc_exec demo_sha demo_ctl) demo_final
     [(no_faults, 40, OpDeny 1 ''carol''), (no_faults, 50, OpApprove 1 ''dave'')])) 1 = 1"
proof -
  let ?ch = "hd (dc_changes demo_final)"
  have "?ch \<in> set (dc_changes demo_final)" "ch_state ?ch \<noteq> StatePending" "dc_ids demo_final"
    "ch_id ?ch = 1" "count_list (dc_runs demo_final) 1 = 1" by code_simp+
  then show ?thesis
    using decided_change_is_final [of ?ch demo_final demo_sha demo_ctl
        "[(no_faults, 40, OpDeny 1 ''carol''), (no_faults, 50, OpApprove 1 ''dave'')]"] by simp
qed

text \<open>
  Overlapping calls break that finality.  There is a schedule in which a veto that passed its pending
  check completes, so the change is denied and its committer has not run, and afterwards the same change
  is committed with its committer run: the write of \<open>Deny\<close> does not test the state it overwrites, and the
  approver who won the claim does not look again.
\<close>

lemma vetoed_change_commits:
  "\<exists>c d1 calls d2. dc_steps c (dc_empty ([] :: string list), []) (d1, calls) \<and> dc_steps c (d1, calls) (d2, []) \<and>
     map ch_state (dc_changes d1) = [StateDenied] \<and> dc_runs d1 = [] \<and>
     map ch_state (dc_changes d2) = [StateCommitted] \<and> dc_runs d2 = [1]"
proof -
  have "map ch_state (dc_changes demo_vetoed) = [StateDenied]" "dc_runs demo_vetoed = []"
    "map ch_state (dc_changes demo_final) = [StateCommitted]" "dc_runs demo_final = [1]" by code_simp+
  then show ?thesis using demo_schedule
    by (intro exI [of _ demo_ctl] exI [of _ demo_vetoed] exI [of _ "[ApClaimed demo_change ''bob'']"] exI [of _ demo_final]) simp
qed

text \<open>
  The workflow makes progress: on a working store the approval that completes the quorum of a pending
  change, by somebody who is not the proposer and has not signed, runs the registered committer on the
  change and leaves it committed; the call returns the committed row.
\<close>

theorem Approve_commits:
  assumes "dc_ids d" "ch \<in> set (dc_changes d)" "ch_state ch = StatePending"
    and "actor \<noteq> []" "actor \<noteq> ch_proposer ch"
    and "\<forall>s\<in>set (dc_signoffs d). \<not> (so_change s = ch_id ch \<and> so_actor s = actor)"
    and "ch_quorum ch \<le> int (approvals_of (ch_id ch) d) + 1"
    and "dcc_committers c (ch_kind ch) = Some f" "f ch (dc_world d) = (None, w)"
  shows "\<exists>d'. Approve no_faults c now d (ch_id ch) actor = (Inr (ch\<lparr>ch_state := StateCommitted, ch_decided := now\<rparr>), d') \<and>
    dc_world d' = w \<and> dc_runs d' = dc_runs d @ [ch_id ch]"
proof -
  let ?s = "\<lparr>so_id = dc_sseq d, so_change = ch_id ch, so_actor = actor, so_decision = decisionApprove, so_created = now\<rparr>"
  define d1 where "d1 = d\<lparr>dc_signoffs := dc_signoffs d @ [?s], dc_sseq := dc_sseq d + 1\<rparr>"
  have D: "distinct (map ch_id (dc_changes d))" using assms(1) by (simp add: dc_ids_def)
  have n: "count_where (\<lambda>s. so_change s = ch_id ch \<and> so_actor s = actor) (dc_signoffs d) = 0"
    using assms(6) by (auto simp: count_where_0_iff)
  have get: "first_where (\<lambda>x. ch_id x = ch_id ch) (dc_changes d) = Some ch"
    using D assms(2) by (rule first_where_unique)
  have chk: "approve_check no_faults d (ch_id ch) actor = Inr ch"
    using get assms(3,5) n by (simp add: approve_check_def loadPending_def)
  have sgn: "approve_sign no_faults now d ch (ch_id ch) actor = Some (True, d1)"
    using assms(6,7) by (auto simp: approve_sign_def create_signoff_def list_ex_iff d1_def approvals_of_def)
  let ?hit = "\<lambda>x. ch_id x = ch_id ch \<and> ch_state x = StatePending"
  define rows where "rows = update_where ?hit (\<lambda>x. x\<lparr>ch_state := StateCommitting\<rparr>) (dc_changes d)"
  have "count_where ?hit (dc_changes d) \<noteq> 0" using assms(2,3) by (auto simp: count_where_0_iff)
  then have clm: "approve_claim (ch_id ch) d1 = (True, d1\<lparr>dc_changes := rows\<rparr>)"
    by (simp add: approve_claim_def d1_def rows_def)
  define fin where "fin = update_where (\<lambda>x. ch_id x = ch_id ch) (\<lambda>x. x\<lparr>ch_state := StateCommitted, ch_decided := now\<rparr>) rows"
  have "map ch_id fin = map ch_id (dc_changes d)"
    by (simp add: fin_def rows_def update_where_def)
  moreover have "ch\<lparr>ch_state := StateCommitted, ch_decided := now\<rparr> \<in> set fin"
    using assms(2,3) by (auto simp: fin_def rows_def set_update_where image_iff intro!: bexI [of _ ch])
  ultimately have res: "first_where (\<lambda>x. ch_id x = ch_id ch) fin = Some (ch\<lparr>ch_state := StateCommitted, ch_decided := now\<rparr>)"
    using first_where_unique [of ch_id fin "ch\<lparr>ch_state := StateCommitted, ch_decided := now\<rparr>"] D by simp
  show ?thesis
    using assms(4,8,9) chk sgn clm res
    by (simp add: Approve_def run_committer_def finalize_def set_state_def dc_reload_def Let_def fin_def d1_def)
       (simp add: dc_note_def)
qed

theorem Approve_commits_witness:
  "fst (Approve no_faults demo_ctl 20 demo_proposed 1 ''bob'') =
     Inr (demo_change\<lparr>ch_state := StateCommitted, ch_decided := 20\<rparr>)"
proof -
  have "dc_ids demo_proposed" "demo_change \<in> set (dc_changes demo_proposed)" "ch_state demo_change = StatePending"
    "''bob'' \<noteq> ch_proposer demo_change" "ch_id demo_change = 1"
    "\<forall>s\<in>set (dc_signoffs demo_proposed). \<not> (so_change s = ch_id demo_change \<and> so_actor s = ''bob'')"
    "ch_quorum demo_change \<le> int (approvals_of (ch_id demo_change) demo_proposed) + 1" by code_simp+
  moreover have "ch_kind demo_change = ''policy''" "dc_world demo_proposed = []" by code_simp+
  moreover have "dcc_committers demo_ctl ''policy'' = Some (\<lambda>ch w. (None, ch_target ch # w))"
    by (simp add: demo_ctl_def controller_of_def dc_Register_def)
  ultimately show ?thesis
    using Approve_commits [of demo_proposed demo_change "''bob''" demo_ctl "\<lambda>ch w. (None, ch_target ch # w)" "[ch_target demo_change]" 20]
    by force
qed

end
