(* ===== verification/Encoding.thy ===== *)
theory Encoding
  imports Prelude
begin

text \<open>
  The encodings of the standard library on the wire: \<open>binary.BigEndian\<close> of a 64-bit word and
  \<open>base64.RawURLEncoding\<close>.  The decoder is Go's: it drops carriage returns and line feeds anywhere in the
  input and does not check the unused bits of the last character.
\<close>

definition PutUint64 :: "64 word \<Rightarrow> bytes" where
  "PutUint64 w = map (\<lambda>i. of_nat (unat w div 256 ^ i)) (rev [0..<8])"

definition Uint64 :: "bytes \<Rightarrow> 64 word" where
  "Uint64 bs = of_nat (foldl (\<lambda>n b. n * 256 + unat b) 0 bs)"

lemma length_PutUint64 [simp]: "length (PutUint64 w) = 8"
  by (simp add: PutUint64_def)

lemma unat_byte: "unat (of_nat n :: 8 word) = n mod 256"
  by (simp add: unsigned_of_nat take_bit_eq_mod)

lemma horner_digits:
  "foldl (\<lambda>n b. n * 256 + unat b) 0 (map (\<lambda>i. (of_nat (n div 256 ^ i) :: 8 word)) (rev [0..<k])) = n mod 256 ^ k"
proof (induction k arbitrary: n)
  case 0
  then show ?case by simp
next
  case (Suc k)
  have "rev [0..<Suc k] = map Suc (rev [0..<k]) @ [0]"
    by (simp add: rev_map [symmetric] map_Suc_upt upt_conv_Cons)
  then have "map (\<lambda>i. (of_nat (n div 256 ^ i) :: 8 word)) (rev [0..<Suc k]) =
      map (\<lambda>i. of_nat (n div 256 div 256 ^ i)) (rev [0..<k]) @ [of_nat n]"
    by (simp add: div_mult2_eq comp_def)
  then have "foldl (\<lambda>n b. n * 256 + unat b) 0 (map (\<lambda>i. (of_nat (n div 256 ^ i) :: 8 word)) (rev [0..<Suc k])) =
      (n div 256 mod 256 ^ k) * 256 + n mod 256"
    by (simp only: foldl_append Suc.IH [of "n div 256"] foldl.simps unat_byte)
  also have "\<dots> = n mod 256 ^ Suc k" by (simp add: mod_mult2_eq)
  finally show ?case .
qed

lemma Uint64_PutUint64 [simp]: "Uint64 (PutUint64 w) = w"
proof -
  have "unat w < 256 ^ 8" using unsigned_less [of w] by simp
  then show ?thesis unfolding Uint64_def PutUint64_def horner_digits by simp
qed

lemma sint_of_int64: "- (2 ^ 63) \<le> x \<Longrightarrow> x < 2 ^ 63 \<Longrightarrow> sint (word_of_int x :: 64 word) = x"
  by (simp add: signed_of_int signed_take_bit_int_eq_self)

text \<open>The bytes of a string (\<open>[]byte(s)\<close>).\<close>

definition str_bytes :: "string \<Rightarrow> bytes" where
  "str_bytes s = map (\<lambda>c. of_nat (of_char c)) s"

lemma length_str_bytes [simp]: "length (str_bytes s) = length s"
  by (simp add: str_bytes_def)

lemma str_bytes_inject [simp]: "str_bytes s = str_bytes t \<longleftrightarrow> s = t"
proof -
  have "inj (\<lambda>c :: char. (of_nat (of_char c) :: 8 word))"
  proof (rule injI)
    fix c d :: char
    assume "(of_nat (of_char c) :: 8 word) = of_nat (of_char d)"
    then have "(of_char c :: nat) mod 256 = of_char d mod 256" using unat_byte by metis
    then show "c = d" by simp
  qed
  then show ?thesis unfolding str_bytes_def by (simp add: inj_map_eq_map)
qed

lemma PutUint64_inject [simp]: "PutUint64 u = PutUint64 w \<longleftrightarrow> u = w"
  by (metis Uint64_PutUint64)

subsection \<open>Base64\<close>

definition b64_alphabet :: string where
  "b64_alphabet = ''ABCDEFGHIJKLMNOPQRSTUVWXYZabcdefghijklmnopqrstuvwxyz0123456789-_''"

definition b64_char :: "nat \<Rightarrow> char" where
  "b64_char n = b64_alphabet ! n"

definition b64_index :: "char \<Rightarrow> nat option" where
  "b64_index c = (let n = length (takeWhile (\<lambda>d. d \<noteq> c) b64_alphabet) in if n < 64 then Some n else None)"

fun b64_encode :: "nat list \<Rightarrow> nat list" where
  "b64_encode (a # b # c # rest) =
     [a div 4, (a mod 4) * 16 + b div 16, (b mod 16) * 4 + c div 64, c mod 64] @ b64_encode rest"
| "b64_encode [a, b] = [a div 4, (a mod 4) * 16 + b div 16, (b mod 16) * 4]"
| "b64_encode [a] = [a div 4, (a mod 4) * 16]"
| "b64_encode [] = []"

fun b64_decode :: "nat list \<Rightarrow> nat list option" where
  "b64_decode (w # x # y # z # rest) =
     (case b64_decode rest of
        None \<Rightarrow> None
      | Some bs \<Rightarrow> Some ([w * 4 + x div 16, (x mod 16) * 16 + y div 4, (y mod 4) * 64 + z] @ bs))"
| "b64_decode [w, x, y] = Some [w * 4 + x div 16, (x mod 16) * 16 + y div 4]"
| "b64_decode [w, x] = Some [w * 4 + x div 16]"
| "b64_decode [w] = None"
| "b64_decode [] = Some []"

definition EncodeToString :: "bytes \<Rightarrow> string" where
  "EncodeToString bs = map b64_char (b64_encode (map unat bs))"

fun b64_indices :: "string \<Rightarrow> nat list option" where
  "b64_indices [] = Some []"
| "b64_indices (c # s) = (case (b64_index c, b64_indices s) of (Some n, Some ns) \<Rightarrow> Some (n # ns) | _ \<Rightarrow> None)"

definition DecodeString :: "string \<Rightarrow> bytes option" where
  "DecodeString s =
     (case b64_indices (filter (\<lambda>c. c \<noteq> CHR 0x0A \<and> c \<noteq> CHR 0x0D) s) of
        None \<Rightarrow> None
      | Some ns \<Rightarrow> map_option (map of_nat) (b64_decode ns))"

lemma b64_index_char:
  assumes "n < 64"
  shows "b64_index (b64_char n) = Some n \<and> b64_char n \<noteq> CHR 0x0A \<and> b64_char n \<noteq> CHR 0x0D"
proof -
  have "list_all (\<lambda>n. b64_index (b64_char n) = Some n \<and> b64_char n \<noteq> CHR 0x0A \<and> b64_char n \<noteq> CHR 0x0D) [0..<64]" by code_simp
  then show ?thesis using assms by (simp add: list_all_iff)
qed

lemma b64_encode_small:
  assumes "\<forall>b\<in>set bs. b < 256"
  shows "\<forall>n\<in>set (b64_encode bs). n < 64"
  using assms by (induction bs rule: b64_encode.induct) (auto simp: algebra_simps; arith)+

lemma join_digits:
  fixes x y k :: nat
  assumes "y < k"
  shows "(x * k + y) div k = x" "(x * k + y) mod k = y"
  using assms by simp_all

lemma b64_decode_encode:
  assumes "\<forall>b\<in>set bs. b < 256"
  shows "b64_decode (b64_encode bs) = Some bs"
  using assms
proof (induction bs rule: b64_encode.induct)
  case (1 a b c rest)
  then have "b div 16 < 16" "c div 64 < 4" by (auto simp: less_mult_imp_div_less)
  then show ?case using 1 by (simp add: join_digits)
next
  case (2 a b)
  then have "b div 16 < 16" by (auto simp: less_mult_imp_div_less)
  then show ?case using 2 by (simp add: join_digits)
qed simp_all

lemma b64_indices_chars: "\<forall>n\<in>set ns. n < 64 \<Longrightarrow> b64_indices (map b64_char ns) = Some ns"
  by (induction ns) (auto simp: b64_index_char)

theorem DecodeString_EncodeToString [simp]: "DecodeString (EncodeToString bs) = Some bs"
proof -
  have small: "\<forall>b\<in>set (map unat bs). b < 256" using unsigned_less [where 'b = 8 and 'a = nat] by auto
  let ?ns = "b64_encode (map unat bs)"
  have "filter (\<lambda>c. c \<noteq> CHR 0x0A \<and> c \<noteq> CHR 0x0D) (map b64_char ?ns) = map b64_char ?ns"
    using b64_encode_small [OF small] b64_index_char by (auto simp: filter_id_conv)
  then show ?thesis
    using b64_indices_chars [OF b64_encode_small [OF small]] b64_decode_encode [OF small]
    by (simp add: DecodeString_def EncodeToString_def comp_def)
qed

lemma DecodeString_newline: "DecodeString (CHR 0x0A # s) = DecodeString s"
  by (simp add: DecodeString_def)

end
