(* ===== verification/Nonce.thy ===== *)
theory Nonce
  imports Encoding
begin

text \<open>
  \<open>internal/nonce/nonce.go\<close>: the stateless enrollment nonce, \<open>base64url(ts || mac)\<close>, with the timestamp as an
  \<open>int64\<close> of seconds whose age is computed with 64-bit wrap-around; and \<open>internal/replay\<close>: the two stores that
  make an accepted nonce single-use, the in-process \<open>Cache\<close> and the shared \<open>SQLStore\<close>, behind one interface.
  HMAC-SHA256 is the parameter \<open>hmac\<close> (key, message, 32-byte tag).
\<close>

definition nonce_label :: bytes where
  "nonce_label = str_bytes ''ncp-nonce-v1''"

definition macLen :: nat where "macLen = 16"
definition tsLen :: nat where "tsLen = 8"
definition DefaultTTL :: int where "DefaultTTL = 60 * 10 ^ 9"
definition DefaultMaxSkew :: int where "DefaultMaxSkew = 30 * 10 ^ 9"

lemmas nonce_consts = macLen_def tsLen_def DefaultTTL_def DefaultMaxSkew_def

datatype nonce_err = NonceMalformed | NonceExpired | NonceBadMAC

record keyring =
  kr_keys :: "bytes list"
  kr_ttl :: int
  kr_maxSkew :: int

definition NewKeyring :: "bytes list \<Rightarrow> int \<Rightarrow> int \<Rightarrow> keyring option" where
  "NewKeyring keys ttl maxSkew =
     (if keys = [] \<or> list_ex (\<lambda>k. length k < 16) keys then None
      else Some \<lparr>kr_keys = keys, kr_ttl = (if ttl \<le> 0 then DefaultTTL else ttl),
                 kr_maxSkew = (if maxSkew \<le> 0 then DefaultMaxSkew else maxSkew)\<rparr>)"

definition nonce_mac :: "(bytes \<Rightarrow> bytes \<Rightarrow> bytes) \<Rightarrow> bytes \<Rightarrow> bytes \<Rightarrow> bytes \<Rightarrow> bytes" where
  "nonce_mac hmac key tsb binding = take macLen (hmac key (nonce_label @ tsb @ binding))"

text \<open>\<open>Time.Unix\<close>: whole seconds, rounded down, as an \<open>int64\<close>.\<close>

definition unix_secs :: "time_ns \<Rightarrow> 64 word" where
  "unix_secs now = word_of_int (now div 10 ^ 9)"

definition Mint :: "(bytes \<Rightarrow> bytes \<Rightarrow> bytes) \<Rightarrow> keyring \<Rightarrow> time_ns \<Rightarrow> bytes \<Rightarrow> string \<times> time_ns" where
  "Mint hmac k now binding =
     (let ts = unix_secs now; tsb = PutUint64 ts in
      (EncodeToString (tsb @ nonce_mac hmac (hd (kr_keys k)) tsb binding), sint ts * 10 ^ 9 + kr_ttl k))"

definition nonce_Verify :: "(bytes \<Rightarrow> bytes \<Rightarrow> bytes) \<Rightarrow> keyring \<Rightarrow> time_ns \<Rightarrow> string \<Rightarrow> bytes \<Rightarrow> nonce_err option" where
  "nonce_Verify hmac k now nonceB64 binding =
     (case DecodeString nonceB64 of
        None \<Rightarrow> Some NonceMalformed
      | Some raw \<Rightarrow>
          if length raw \<noteq> tsLen + macLen then Some NonceMalformed
          else
            let ts = Uint64 (take tsLen raw);
                got = drop tsLen raw;
                age = unix_secs now - ts in
            if sint age > kr_ttl k div 10 ^ 9 \<or> sint age < - (kr_maxSkew k div 10 ^ 9) then Some NonceExpired
            else if list_ex (\<lambda>key. got = nonce_mac hmac key (take tsLen raw) binding) (kr_keys k) then None
            else Some NonceBadMAC)"

subsection \<open>Replay stores\<close>

datatype replay_err = ReplayDb

text \<open>The in-process cache: nonce to expiry, an association list with distinct keys.\<close>

record cache =
  ca_ttl :: int
  ca_seen :: "(string \<times> time_ns) list"

definition replay_New :: "int \<Rightarrow> cache" where
  "replay_New ttl = \<lparr>ca_ttl = ttl, ca_seen = []\<rparr>"

text \<open>The sweep of expired entries and the new entry.\<close>

definition cache_record :: "time_ns \<Rightarrow> cache \<Rightarrow> string \<Rightarrow> cache" where
  "cache_record now c nc = c\<lparr>ca_seen := (nc, now + ca_ttl c) # filter (\<lambda>(k, e). \<not> e \<le> now) (ca_seen c)\<rparr>"

definition cache_Observe :: "time_ns \<Rightarrow> cache \<Rightarrow> string \<Rightarrow> (replay_err + bool) \<times> cache" where
  "cache_Observe now c nc =
     (case map_of (ca_seen c) nc of
        Some e \<Rightarrow> if e > now then (Inr False, c) else (Inr True, cache_record now c nc)
      | None \<Rightarrow> (Inr True, cache_record now c nc))"

definition gcInterval :: int where "gcInterval = 60 * 10 ^ 9"

record nonce_row =
  nr_nonce :: string
  nr_expires :: time_ns

text \<open>The shared table, and the time of the last sweep of each process (\<open>None\<close>: never).\<close>

record sql_store =
  sq_rows :: "nonce_row list"
  sq_ttl :: int
  sq_lastGC :: "nat \<Rightarrow> time_ns option"

definition NewSQLStore :: "nonce_row list \<Rightarrow> int \<Rightarrow> sql_store" where
  "NewSQLStore rows ttl = \<lparr>sq_rows = rows, sq_ttl = ttl, sq_lastGC = (\<lambda>_. None)\<rparr>"

definition sql_GC :: "bool \<Rightarrow> time_ns \<Rightarrow> sql_store \<Rightarrow> (replay_err + nat) \<times> sql_store" where
  "sql_GC fails now s =
     (if fails then (Inl ReplayDb, s)
      else (Inr (count_where (\<lambda>r. nr_expires r < now) (sq_rows s)),
            s\<lparr>sq_rows := delete_where (\<lambda>r. nr_expires r < now) (sq_rows s)\<rparr>))"

definition maybeGC :: "bool \<Rightarrow> nat \<Rightarrow> time_ns \<Rightarrow> sql_store \<Rightarrow> sql_store" where
  "maybeGC fails proc now s =
     (case sq_lastGC s proc of
        Some prev \<Rightarrow> if now - prev < gcInterval then s
                     else snd (sql_GC fails now (s\<lparr>sq_lastGC := (sq_lastGC s)(proc := Some now)\<rparr>))
      | None \<Rightarrow> snd (sql_GC fails now (s\<lparr>sq_lastGC := (sq_lastGC s)(proc := Some now)\<rparr>)))"

text \<open>\<open>INSERT ... ON CONFLICT DO NOTHING\<close> on the primary key.\<close>

definition sql_Observe :: "faults \<Rightarrow> nat \<Rightarrow> time_ns \<Rightarrow> sql_store \<Rightarrow> string \<Rightarrow> (replay_err + bool) \<times> sql_store" where
  "sql_Observe flt proc now s0 nc =
     (let s = maybeGC (flt 0) proc now s0 in
      if flt 1 then (Inl ReplayDb, s)
      else if list_ex (\<lambda>r. nr_nonce r = nc) (sq_rows s) then (Inr False, s)
      else (Inr True, s\<lparr>sq_rows := sq_rows s @ [\<lparr>nr_nonce = nc, nr_expires = now + sq_ttl s\<rparr>]\<rparr>))"

subsection \<open>Admission of a nonce\<close>

text \<open>
  The end of \<open>verify\<close> in \<open>internal/enrollment/enrollment.go\<close>: freshness and authenticity, then the replay store.
  \<open>observe\<close> takes the schedule, the process and the clock; \<open>admit_run\<close> folds a history of requests of the Core
  processes and collects the nonces that were let through.
\<close>

datatype admit_err = AdmitNonce | AdmitReplay | AdmitStore

record nonce_req =
  nq_time :: time_ns
  nq_proc :: nat
  nq_flt :: faults
  nq_nonce :: string
  nq_binding :: bytes

definition admit_nonce ::
  "(time_ns \<Rightarrow> string \<Rightarrow> bytes \<Rightarrow> bool) \<Rightarrow> (faults \<Rightarrow> nat \<Rightarrow> time_ns \<Rightarrow> 's \<Rightarrow> string \<Rightarrow> (replay_err + bool) \<times> 's) \<Rightarrow> 's \<Rightarrow> nonce_req \<Rightarrow>
   admit_err option \<times> 's" where
  "admit_nonce fresh observe s q =
     (if \<not> fresh (nq_time q) (nq_nonce q) (nq_binding q) then (Some AdmitNonce, s)
      else case observe (nq_flt q) (nq_proc q) (nq_time q) s (nq_nonce q) of
        (Inl e, s') \<Rightarrow> (Some AdmitStore, s')
      | (Inr first, s') \<Rightarrow> (if first then None else Some AdmitReplay, s'))"

fun admit_run ::
  "(time_ns \<Rightarrow> string \<Rightarrow> bytes \<Rightarrow> bool) \<Rightarrow> (faults \<Rightarrow> nat \<Rightarrow> time_ns \<Rightarrow> 's \<Rightarrow> string \<Rightarrow> (replay_err + bool) \<times> 's) \<Rightarrow> 's \<Rightarrow> nonce_req list \<Rightarrow>
   string list" where
  "admit_run fresh observe s [] = []"
| "admit_run fresh observe s (q # qs) =
     (case admit_nonce fresh observe s q of
        (None, s') \<Rightarrow> nq_nonce q # admit_run fresh observe s' qs
      | (Some e, s') \<Rightarrow> admit_run fresh observe s' qs)"

text \<open>
  What the admission relies on: a store that remembers a nonce until a time refuses it, remembers every nonce
  it lets through for more than the freshness window, and no call makes it forget one that is still due.
\<close>

locale replay_guard =
  fixes observe :: "faults \<Rightarrow> nat \<Rightarrow> time_ns \<Rightarrow> 's \<Rightarrow> string \<Rightarrow> (replay_err + bool) \<times> 's"
    and remembers :: "'s \<Rightarrow> time_ns \<Rightarrow> string \<Rightarrow> bool"
    and inv :: "'s \<Rightarrow> bool"
    and ttl :: int
  assumes observe_inv: "inv s \<Longrightarrow> inv (snd (observe flt proc now s nc))"
    and observe_refuses: "inv s \<Longrightarrow> remembers s now nc \<Longrightarrow> fst (observe flt proc now s nc) \<noteq> Inr True"
    and observe_records: "inv s \<Longrightarrow> fst (observe flt proc now s nc) = Inr True \<Longrightarrow> t < now + ttl \<Longrightarrow>
      remembers (snd (observe flt proc now s nc)) t nc"
    and observe_keeps: "inv s \<Longrightarrow> remembers s t nc \<Longrightarrow> now \<le> t \<Longrightarrow> remembers (snd (observe flt proc now s nc')) t nc"
begin

lemma admit_inv: "inv s \<Longrightarrow> inv (snd (admit_nonce fresh observe s q))"
  using observe_inv [of s "nq_flt q" "nq_proc q" "nq_time q" "nq_nonce q"]
  by (auto simp: admit_nonce_def split: prod.splits sum.splits)

lemma admit_keeps:
  "inv s \<Longrightarrow> remembers s t nc \<Longrightarrow> nq_time q \<le> t \<Longrightarrow> remembers (snd (admit_nonce fresh observe s q)) t nc"
  using observe_keeps [of s t nc "nq_time q" "nq_flt q" "nq_proc q" "nq_nonce q"]
  by (auto simp: admit_nonce_def split: prod.splits sum.splits)

lemma admit_some:
  assumes "inv s" "admit_nonce fresh observe s q = (None, s')"
  shows "fresh (nq_time q) (nq_nonce q) (nq_binding q)" "\<not> remembers s (nq_time q) (nq_nonce q)"
    "t < nq_time q + ttl \<Longrightarrow> remembers s' t (nq_nonce q)"
proof -
  obtain r where r: "observe (nq_flt q) (nq_proc q) (nq_time q) s (nq_nonce q) = (Inr True, s')"
    and f: "fresh (nq_time q) (nq_nonce q) (nq_binding q)"
    using assms(2) by (auto simp: admit_nonce_def split: if_splits prod.splits sum.splits)
  show "fresh (nq_time q) (nq_nonce q) (nq_binding q)" by (rule f)
  show "\<not> remembers s (nq_time q) (nq_nonce q)"
    using observe_refuses [OF assms(1), of "nq_time q" "nq_nonce q" "nq_flt q" "nq_proc q"] r by auto
  show "t < nq_time q + ttl \<Longrightarrow> remembers s' t (nq_nonce q)"
    using observe_records [OF assms(1), of "nq_flt q" "nq_proc q" "nq_time q" "nq_nonce q" t] r by auto
qed

text \<open>A nonce that is remembered whenever it is still fresh is not let through again.\<close>

lemma remembered_not_admitted:
  assumes "inv s" "sorted (map nq_time qs)"
    and "\<And>q. q \<in> set qs \<Longrightarrow> nq_nonce q = nc \<Longrightarrow> fresh (nq_time q) nc (nq_binding q) \<Longrightarrow> remembers s (nq_time q) nc"
  shows "nc \<notin> set (admit_run fresh observe s qs)"
  using assms
proof (induction qs arbitrary: s)
  case (Cons q qs)
  obtain r s' where a: "admit_nonce fresh observe s q = (r, s')" by (cases "admit_nonce fresh observe s q")
  have inv': "inv s'" using admit_inv [OF Cons.prems(1), of fresh q] a by simp
  have "remembers s' (nq_time x) nc" if "x \<in> set qs" "nq_nonce x = nc" "fresh (nq_time x) nc (nq_binding x)" for x
  proof -
    have "nq_time q \<le> nq_time x" using Cons.prems(2) that(1) by simp
    then show ?thesis using admit_keeps [OF Cons.prems(1) Cons.prems(3) [OF _ that(2,3)], of q fresh] that(1) a by simp
  qed
  then have rest: "nc \<notin> set (admit_run fresh observe s' qs)" using Cons.IH [OF inv'] Cons.prems(2) by simp
  show ?case
  proof (cases r)
    case None
    then have "nq_nonce q \<noteq> nc" using admit_some(1,2) [OF Cons.prems(1) a [unfolded None]] Cons.prems(3) [of q] by auto
    then show ?thesis using None a rest by simp
  qed (use a rest in simp)
qed simp

lemma single_use:
  assumes "inv s" "sorted (map nq_time qs)"
    and win: "\<And>x y. x \<in> set qs \<Longrightarrow> y \<in> set qs \<Longrightarrow> nq_nonce x = nq_nonce y \<Longrightarrow> nq_time x \<le> nq_time y \<Longrightarrow>
      fresh (nq_time x) (nq_nonce x) (nq_binding x) \<Longrightarrow> fresh (nq_time y) (nq_nonce y) (nq_binding y) \<Longrightarrow> nq_time y < nq_time x + ttl"
  shows "distinct (admit_run fresh observe s qs)"
  using assms
proof (induction qs arbitrary: s)
  case (Cons q qs)
  obtain r s' where a: "admit_nonce fresh observe s q = (r, s')" by (cases "admit_nonce fresh observe s q")
  have inv': "inv s'" using admit_inv [OF Cons.prems(1), of fresh q] a by simp
  have rest: "distinct (admit_run fresh observe s' qs)"
    using Cons.prems(2,3) by (intro Cons.IH [OF inv']) auto
  show ?case
  proof (cases r)
    case None
    note S = admit_some [OF Cons.prems(1) a [unfolded None]]
    have "nq_nonce q \<notin> set (admit_run fresh observe s' qs)"
    proof (rule remembered_not_admitted [OF inv'])
      fix x assume x: "x \<in> set qs" "nq_nonce x = nq_nonce q" "fresh (nq_time x) (nq_nonce q) (nq_binding x)"
      have "nq_time q \<le> nq_time x" using Cons.prems(2) x(1) by simp
      then have "nq_time x < nq_time q + ttl" using Cons.prems(3) [of q x] x S(1) by simp
      then show "remembers s' (nq_time x) (nq_nonce q)" by (rule S(3))
    qed (use Cons.prems(2) in simp)
    then show ?thesis using None a rest by simp
  qed (use a rest in simp)
qed simp

end


subsection \<open>Both stores are replay guards\<close>

definition cache_step :: "faults \<Rightarrow> nat \<Rightarrow> time_ns \<Rightarrow> cache \<Rightarrow> string \<Rightarrow> (replay_err + bool) \<times> cache" where
  "cache_step flt proc now c nc = cache_Observe now c nc"

definition cache_remembers :: "cache \<Rightarrow> time_ns \<Rightarrow> string \<Rightarrow> bool" where
  "cache_remembers c t nc = (case map_of (ca_seen c) nc of None \<Rightarrow> False | Some e \<Rightarrow> t < e)"

definition cache_inv :: "int \<Rightarrow> cache \<Rightarrow> bool" where
  "cache_inv ttl c \<longleftrightarrow> ca_ttl c = ttl \<and> distinct (map fst (ca_seen c))"

definition sql_remembers :: "sql_store \<Rightarrow> time_ns \<Rightarrow> string \<Rightarrow> bool" where
  "sql_remembers s t nc = list_ex (\<lambda>r. nr_nonce r = nc \<and> t \<le> nr_expires r) (sq_rows s)"

lemma cache_record_seen:
  assumes "distinct (map fst (ca_seen c))"
  shows "map_of (ca_seen (cache_record now c nc)) k =
    (if k = nc then Some (now + ca_ttl c)
     else case map_of (ca_seen c) k of Some e \<Rightarrow> if e \<le> now then None else Some e | None \<Rightarrow> None)"
proof -
  have "map_of (filter (\<lambda>(k, e). \<not> e \<le> now) xs) k = (case map_of xs k of Some e \<Rightarrow> if e \<le> now then None else Some e | None \<Rightarrow> None)"
    if "distinct (map fst xs)" for xs :: "(string \<times> time_ns) list"
    using that
  proof (induction xs)
    case (Cons x xs)
    then have "map_of xs (fst x) = None" by (simp add: map_of_eq_None_iff)
    then show ?case using Cons by (cases x) (auto split: option.splits)
  qed simp
  then show ?thesis using assms by (simp add: cache_record_def)
qed

lemma cache_record_inv:
  assumes "cache_inv ttl c" "case map_of (ca_seen c) nc of None \<Rightarrow> True | Some e \<Rightarrow> e \<le> now"
  shows "cache_inv ttl (cache_record now c nc)"
proof -
  have d: "distinct (map fst (ca_seen c))" using assms(1) by (simp add: cache_inv_def)
  have "e \<le> now" if "(nc, e) \<in> set (ca_seen c)" for e
    using assms(2) map_of_is_SomeI [OF d that] by simp
  then have "nc \<notin> fst ` set (filter (\<lambda>(k, e). \<not> e \<le> now) (ca_seen c))" by auto
  then show ?thesis using assms(1) d by (simp add: cache_inv_def cache_record_def distinct_map_filter)
qed

interpretation rcache: replay_guard cache_step cache_remembers "cache_inv ttl" ttl for ttl
proof unfold_locales
  fix s nc flt proc now
  assume I: "cache_inv ttl s"
  then show "cache_inv ttl (snd (cache_step flt proc now s nc))"
    by (auto simp: cache_step_def cache_Observe_def intro: cache_record_inv split: option.splits)
  show "cache_remembers s now nc \<Longrightarrow> fst (cache_step flt proc now s nc) \<noteq> Inr True"
    by (auto simp: cache_remembers_def cache_step_def cache_Observe_def split: option.splits)
next
  fix s nc flt proc now t
  assume "cache_inv ttl s" "fst (cache_step flt proc now s nc) = Inr True" "t < now + ttl"
  then show "cache_remembers (snd (cache_step flt proc now s nc)) t nc"
    by (cases "map_of (ca_seen s) nc") (auto simp: cache_inv_def cache_step_def cache_Observe_def cache_remembers_def cache_record_seen split: if_splits)
next
  fix s nc nc' flt proc now t
  assume h: "cache_inv ttl s" "cache_remembers s t nc" "now \<le> t"
  then obtain e where e: "map_of (ca_seen s) nc = Some e" "t < e" by (auto simp: cache_remembers_def split: option.splits)
  show "cache_remembers (snd (cache_step flt proc now s nc')) t nc"
  proof (cases "snd (cache_step flt proc now s nc') = s")
    case False
    then have "snd (cache_step flt proc now s nc') = cache_record now s nc'" "nc' \<noteq> nc"
      using e h(3) by (auto simp: cache_step_def cache_Observe_def split: option.splits if_splits)
    then show ?thesis using e h by (simp add: cache_inv_def cache_remembers_def cache_record_seen)
  qed (use h in simp)
qed

lemma maybeGC_sel:
  "sq_ttl (maybeGC f proc now s) = sq_ttl s"
  "sq_rows (maybeGC f proc now s) = sq_rows s \<or> sq_rows (maybeGC f proc now s) = delete_where (\<lambda>r. nr_expires r < now) (sq_rows s)"
  by (auto simp: maybeGC_def sql_GC_def split: option.splits)

lemma maybeGC_remembers: "sql_remembers s t nc \<Longrightarrow> now \<le> t \<Longrightarrow> sql_remembers (maybeGC f proc now s) t nc"
  using maybeGC_sel(2) [of f proc now s] by (auto simp: sql_remembers_def list_ex_iff set_delete_where)

interpretation rsql: replay_guard sql_Observe sql_remembers "\<lambda>s :: sql_store. sq_ttl s = ttl" ttl for ttl
proof unfold_locales
  fix s :: sql_store and nc flt proc now
  assume I: "sq_ttl s = ttl"
  then show "sq_ttl (snd (sql_Observe flt proc now s nc)) = ttl"
    by (simp add: sql_Observe_def Let_def maybeGC_sel(1))
  show "sql_remembers s now nc \<Longrightarrow> fst (sql_Observe flt proc now s nc) \<noteq> Inr True"
    using maybeGC_remembers [of s now nc now "flt 0" proc] by (auto simp: sql_Observe_def Let_def sql_remembers_def list_ex_iff)
next
  fix s :: sql_store and nc flt proc now t
  assume "sq_ttl s = ttl" "fst (sql_Observe flt proc now s nc) = Inr True" "t < now + ttl"
  then show "sql_remembers (snd (sql_Observe flt proc now s nc)) t nc"
    by (auto simp: sql_Observe_def Let_def sql_remembers_def maybeGC_sel(1) split: if_splits)
next
  fix s :: sql_store and nc nc' flt proc now t
  assume "sq_ttl s = ttl" "sql_remembers s t nc" "now \<le> t"
  then show "sql_remembers (snd (sql_Observe flt proc now s nc')) t nc"
    using maybeGC_remembers [of s t nc now "flt 0" proc] by (auto simp: sql_Observe_def Let_def sql_remembers_def)
qed

subsection \<open>Ages\<close>

lemma sint_secs_diff:
  assumes "0 \<le> a" "a < 2 ^ 62" "0 \<le> b" "b < 2 ^ 62"
  shows "sint (word_of_int a - word_of_int b :: 64 word) = a - b"
  unfolding of_int_diff [symmetric] by (rule sint_of_int64) (use assms in auto)

lemma secs_bounds: "0 \<le> t \<Longrightarrow> t < 2 ^ 63 \<Longrightarrow> 0 \<le> t div 10 ^ 9 \<and> t div 10 ^ 9 < (2 ^ 62 :: int)"
  by auto

lemma nonce_Verify_NoneD:
  assumes "nonce_Verify hmac k now nc b = None"
  obtains raw where "DecodeString nc = Some raw" "length raw = 24"
    "- (kr_maxSkew k div 10 ^ 9) \<le> sint (unix_secs now - Uint64 (take 8 raw))"
    "sint (unix_secs now - Uint64 (take 8 raw)) \<le> kr_ttl k div 10 ^ 9"
    "\<exists>key\<in>set (kr_keys k). drop 8 raw = nonce_mac hmac key (take 8 raw) b"
  using assms by (auto simp: nonce_Verify_def nonce_consts Let_def list_ex_iff not_less split: option.splits if_splits)

lemma freshness_window:
  assumes "nonce_Verify hmac k t1 nc b1 = None" "nonce_Verify hmac k t2 nc b2 = None"
    and t: "0 \<le> t1" "t1 \<le> t2" "t2 < 2 ^ 63"
    and k: "0 \<le> kr_ttl k" "kr_ttl k < 2 ^ 63" "0 \<le> kr_maxSkew k" "kr_maxSkew k < 2 ^ 63"
  shows "t2 < t1 + (kr_ttl k div 10 ^ 9 + kr_maxSkew k div 10 ^ 9 + 1) * 10 ^ 9"
proof -
  let ?T = "kr_ttl k div 10 ^ 9" and ?S = "kr_maxSkew k div 10 ^ 9"
  obtain raw where raw: "DecodeString nc = Some raw" "- ?S \<le> sint (unix_secs t1 - Uint64 (take 8 raw))"
    "sint (unix_secs t1 - Uint64 (take 8 raw)) \<le> ?T"
    using nonce_Verify_NoneD [OF assms(1)] by metis
  then have raw2: "- ?S \<le> sint (unix_secs t2 - Uint64 (take 8 raw))" "sint (unix_secs t2 - Uint64 (take 8 raw)) \<le> ?T"
    using nonce_Verify_NoneD [OF assms(2)] by (metis option.inject)+
  define x where "x = unix_secs t1 - Uint64 (take 8 raw)"
  define y where "y = unix_secs t2 - Uint64 (take 8 raw)"
  have "?T < 2 ^ 61" "?S < 2 ^ 61" "0 \<le> ?T" "0 \<le> ?S" using k by auto
  then have b: "- (2 ^ 63) \<le> sint y - sint x" "sint y - sint x < 2 ^ 63" "sint y - sint x \<le> ?T + ?S"
    using raw(2,3) raw2 by (auto simp: x_def y_def)
  have "unix_secs t2 - unix_secs t1 = y - x" by (simp add: x_def y_def)
  also have "\<dots> = word_of_int (sint y - sint x)" by simp
  finally have "sint (unix_secs t2 - unix_secs t1) = sint y - sint x" using sint_of_int64 [OF b(1,2)] by (simp only:)
  then have "t2 div 10 ^ 9 - t1 div 10 ^ 9 = sint y - sint x"
    using sint_secs_diff [of "t2 div 10 ^ 9" "t1 div 10 ^ 9"] secs_bounds [of t1] secs_bounds [of t2] t
    by (simp add: unix_secs_def)
  then have "t2 div 10 ^ 9 \<le> t1 div 10 ^ 9 + ?T + ?S" using b(3) by simp
  moreover have "t2 < (t2 div 10 ^ 9 + 1) * 10 ^ 9" "(t1 div 10 ^ 9) * 10 ^ 9 \<le> t1" by auto
  ultimately show ?thesis by (simp add: algebra_simps)
qed

section \<open>Properties\<close>

text \<open>
  A minted nonce verifies for its binding exactly during its lifetime: a verifier that still holds the
  minting key accepts it unless its own clock, in whole seconds, is more than the lifetime ahead of the
  minting clock or more than the tolerated skew behind it, and then the answer is \<open>NonceExpired\<close>.
\<close>

theorem minted_nonce_lifetime:
  assumes "kr_keys m \<noteq> []" "hd (kr_keys m) \<in> set (kr_keys v)"
    and "\<And>key msg. length (hmac key msg) = 32"
    and t: "0 \<le> t0" "t0 < 2 ^ 63" "0 \<le> t1" "t1 < 2 ^ 63"
  shows "nonce_Verify hmac v t1 (fst (Mint hmac m t0 b)) b =
    (if t1 div 10 ^ 9 - t0 div 10 ^ 9 > kr_ttl v div 10 ^ 9 \<or> t0 div 10 ^ 9 - t1 div 10 ^ 9 > kr_maxSkew v div 10 ^ 9
     then Some NonceExpired else None)"
proof -
  let ?tsb = "PutUint64 (unix_secs t0)"
  let ?mac = "nonce_mac hmac (hd (kr_keys m)) ?tsb b"
  have len: "length ?mac = 16" using assms(3) by (simp add: nonce_mac_def macLen_def)
  have ok: "list_ex (\<lambda>key. ?mac = nonce_mac hmac key ?tsb b) (kr_keys v)"
    using assms(2) by (auto simp: list_ex_iff)
  have "sint (unix_secs t1 - unix_secs t0) = t1 div 10 ^ 9 - t0 div 10 ^ 9"
    using sint_secs_diff secs_bounds [of t0] secs_bounds [of t1] t by (simp add: unix_secs_def)
  then show ?thesis using len ok by (auto simp: nonce_Verify_def Mint_def Let_def nonce_consts)
qed

definition demo_hmac :: "bytes \<Rightarrow> bytes \<Rightarrow> bytes" where
  "demo_hmac key msg = take 32 (rev msg @ key @ replicate 32 0)"

definition demo_ring :: keyring where
  "demo_ring = the (NewKeyring [replicate 16 7] 0 0)"

lemma demo_hmac_length: "length (demo_hmac key msg) = 32"
  by (simp add: demo_hmac_def)

theorem minted_nonce_lifetime_witness:
  "nonce_Verify demo_hmac demo_ring (1060 * 10 ^ 9 + 5) (fst (Mint demo_hmac demo_ring (1000 * 10 ^ 9) [1, 2])) [1, 2] = None \<and>
   nonce_Verify demo_hmac demo_ring (1061 * 10 ^ 9) (fst (Mint demo_hmac demo_ring (1000 * 10 ^ 9) [1, 2])) [1, 2] = Some NonceExpired"
proof -
  have r: "kr_keys demo_ring = [replicate 16 7]" "kr_ttl demo_ring = 60 * 10 ^ 9" "kr_maxSkew demo_ring = 30 * 10 ^ 9"
    by (simp_all add: demo_ring_def NewKeyring_def nonce_consts)
  show ?thesis
    using minted_nonce_lifetime [of demo_ring demo_ring demo_hmac "1000 * 10 ^ 9" "1060 * 10 ^ 9 + 5" "[1, 2]"]
      minted_nonce_lifetime [of demo_ring demo_ring demo_hmac "1000 * 10 ^ 9" "1061 * 10 ^ 9" "[1, 2]"]
      demo_hmac_length r by simp
qed

text \<open>
  C17: An enrollment nonce is single-use across the fleet: however many Core processes share the SQL store, with
  any failures of the store and any sweeps, and for any rows left in the table, no nonce text is let through
  twice, as long as the clock readings do not go backwards and rows are kept longer than a nonce can stay
  fresh (lifetime, skew and one second of rounding; deployed: 60 s and 30 s against two minutes).
\<close>

theorem nonce_single_use:
  assumes "sorted (map nq_time qs)" "\<forall>q\<in>set qs. 0 \<le> nq_time q \<and> nq_time q < 2 ^ 63"
    and k: "0 \<le> kr_ttl k" "kr_ttl k < 2 ^ 63" "0 \<le> kr_maxSkew k" "kr_maxSkew k < 2 ^ 63"
    and ttl: "(kr_ttl k div 10 ^ 9 + kr_maxSkew k div 10 ^ 9 + 1) * 10 ^ 9 \<le> ttl"
  shows "distinct (admit_run (\<lambda>now nc b. nonce_Verify hmac k now nc b = None) sql_Observe (NewSQLStore rows ttl) qs)"
proof (rule rsql.single_use [where ttl = ttl])
  fix x y
  assume "x \<in> set qs" "y \<in> set qs" "nq_nonce x = nq_nonce y" "nq_time x \<le> nq_time y"
    "nonce_Verify hmac k (nq_time x) (nq_nonce x) (nq_binding x) = None"
    "nonce_Verify hmac k (nq_time y) (nq_nonce y) (nq_binding y) = None"
  then have "nq_time y < nq_time x + (kr_ttl k div 10 ^ 9 + kr_maxSkew k div 10 ^ 9 + 1) * 10 ^ 9"
    using freshness_window [of hmac k "nq_time x" "nq_nonce x" "nq_binding x" "nq_time y" "nq_binding y"] assms(2) k by simp
  then show "nq_time y < nq_time x + ttl" using ttl by simp
qed (use assms in \<open>simp_all add: NewSQLStore_def\<close>)

definition demo_nonce :: string where
  "demo_nonce = fst (Mint demo_hmac demo_ring (1000 * 10 ^ 9) [1, 2])"

definition demo_replays :: "nonce_req list" where
  "demo_replays =
     [\<lparr>nq_time = 1001 * 10 ^ 9, nq_proc = 0, nq_flt = no_faults, nq_nonce = demo_nonce, nq_binding = [1, 2]\<rparr>,
      \<lparr>nq_time = 1030 * 10 ^ 9, nq_proc = 1, nq_flt = no_faults, nq_nonce = demo_nonce, nq_binding = [1, 2]\<rparr>]"

theorem nonce_single_use_witness:
  "distinct (admit_run (\<lambda>now nc b. nonce_Verify demo_hmac demo_ring now nc b = None) sql_Observe (NewSQLStore [] (120 * 10 ^ 9)) demo_replays)"
proof -
  have r: "kr_ttl demo_ring = 60 * 10 ^ 9" "kr_maxSkew demo_ring = 30 * 10 ^ 9"
    by (simp_all add: demo_ring_def NewKeyring_def nonce_consts)
  show ?thesis by (rule nonce_single_use) (simp_all add: demo_replays_def r)
qed

text \<open>
  The guard is on the text, not on the bytes it decodes to: a line feed put before an admitted nonce gives a
  text that verifies the same and that the store has not seen.
\<close>

lemma newline_variant_admitted:
  assumes "nonce_Verify hmac k now nc b = None"
  defines "q \<equiv> \<lparr>nq_time = now, nq_proc = 0, nq_flt = no_faults, nq_nonce = nc, nq_binding = b\<rparr>"
  shows "admit_run (\<lambda>now nc b. nonce_Verify hmac k now nc b = None) sql_Observe (NewSQLStore [] ttl)
     [q, q\<lparr>nq_nonce := CHR 0x0A # nc\<rparr>] = [nc, CHR 0x0A # nc]"
proof -
  have "nonce_Verify hmac k now (CHR 0x0A # nc) b = None"
    using assms(1) by (simp add: nonce_Verify_def DecodeString_newline)
  then show ?thesis using assms(1)
    by (simp add: q_def admit_nonce_def sql_Observe_def NewSQLStore_def maybeGC_def sql_GC_def gcInterval_def)
qed

end
