(* ===== verification/Auditlog.thy ===== *)
theory Auditlog
  imports Encoding
begin

text \<open>
  \<open>internal/store/audit.go\<close>: the hash-chained audit log, and the periodic check of \<open>internal/auditverify\<close>.
  SHA-256 is the parameter \<open>sha\<close>; integers are committed to at 64 bits.  The append runs under a process
  mutex and a fleet-wide advisory lock, so an append is one step.
\<close>

definition hashLen :: nat where "hashLen = 32"
definition genesisPrev :: bytes where "genesisPrev = replicate hashLen 0"

record audit_row =
  au_seq :: int
  au_ts :: time_ns
  au_actor :: string
  au_action :: string
  au_target :: string
  au_details :: string
  au_prev :: bytes
  au_hash :: bytes

definition writeUint :: "int \<Rightarrow> bytes" where
  "writeUint v = PutUint64 (word_of_int v)"

definition writeField :: "bytes \<Rightarrow> bytes" where
  "writeField b = writeUint (int (length b)) @ b"

definition audit_bytes :: "audit_row \<Rightarrow> bytes" where
  "audit_bytes e = writeUint (au_seq e) @ writeUint (au_ts e) @ writeField (str_bytes (au_actor e)) @
     writeField (str_bytes (au_action e)) @ writeField (str_bytes (au_target e)) @ writeField (str_bytes (au_details e)) @
     writeField (au_prev e)"

definition auditHash :: "(bytes \<Rightarrow> bytes) \<Rightarrow> audit_row \<Rightarrow> bytes" where
  "auditHash sha e = sha (audit_bytes e)"

text \<open>The table in ascending order of the primary key.\<close>

definition AppendAudit ::
  "(bytes \<Rightarrow> bytes) \<Rightarrow> faults \<Rightarrow> time_ns \<Rightarrow> audit_row list \<Rightarrow> string \<Rightarrow> string \<Rightarrow> string \<Rightarrow> string \<Rightarrow> audit_row option \<times> audit_row list" where
  "AppendAudit sha flt now rows actor action target details =
     (if flt 0 \<or> flt 1 then (None, rows)
      else
        let seq = (if rows = [] then 1 else au_seq (last rows) + 1);
            prev = (if rows = [] then genesisPrev else au_hash (last rows));
            e = \<lparr>au_seq = seq, au_ts = now, au_actor = actor, au_action = action, au_target = target, au_details = details,
                 au_prev = prev, au_hash = []\<rparr>;
            e' = e\<lparr>au_hash := auditHash sha e\<rparr> in
        if flt 2 then (None, rows) else (Some e', rows @ [e']))"

datatype audit_err = AuditGap int int | AuditLink int | AuditHash int | AuditRead

fun verify_rows :: "(bytes \<Rightarrow> bytes) \<Rightarrow> bytes \<Rightarrow> int \<Rightarrow> audit_row list \<Rightarrow> int \<times> audit_err option" where
  "verify_rows sha prev want [] = (want - 1, None)"
| "verify_rows sha prev want (r # rs) =
     (if au_seq r \<noteq> want then (want - 1, Some (AuditGap want (au_seq r)))
      else if au_prev r \<noteq> prev then (au_seq r - 1, Some (AuditLink (au_seq r)))
      else if au_hash r \<noteq> auditHash sha r then (au_seq r - 1, Some (AuditHash (au_seq r)))
      else verify_rows sha (au_hash r) (want + 1) rs)"

definition VerifyAudit :: "(bytes \<Rightarrow> bytes) \<Rightarrow> bool \<Rightarrow> audit_row list \<Rightarrow> int \<times> audit_err option" where
  "VerifyAudit sha fails rows = (if fails then (0, Some AuditRead) else verify_rows sha genesisPrev 1 rows)"

text \<open>The metrics of the verifier (\<open>auditverify.go\<close>).\<close>

record verify_metrics =
  vm_runs :: nat
  vm_failures :: nat
  vm_tampered :: nat
  vm_rows :: int
  vm_last_success :: int

definition ErrAuditTampered :: "audit_err \<Rightarrow> bool" where
  "ErrAuditTampered e \<longleftrightarrow> e \<noteq> AuditRead"

definition verifyOnce :: "time_ns \<Rightarrow> int \<times> audit_err option \<Rightarrow> verify_metrics \<Rightarrow> verify_metrics" where
  "verifyOnce now res vm0 =
     (let vm = vm0\<lparr>vm_runs := vm_runs vm0 + 1\<rparr> in
      case snd res of
        None \<Rightarrow> vm\<lparr>vm_rows := fst res, vm_last_success := now div 10 ^ 9\<rparr>
      | Some e \<Rightarrow>
          (let vm' = vm\<lparr>vm_failures := vm_failures vm + 1\<rparr> in
           if ErrAuditTampered e then vm'\<lparr>vm_tampered := vm_tampered vm' + 1\<rparr> else vm'))"

subsection \<open>The encoding is injective\<close>

lemma writeUint_inject:
  assumes "- (2 ^ 63) \<le> a" "a < 2 ^ 63" "- (2 ^ 63) \<le> b" "b < 2 ^ 63"
  shows "writeUint a = writeUint b \<longleftrightarrow> a = b"
  using sint_of_int64 [OF assms(1,2)] sint_of_int64 [OF assms(3,4)] by (metis PutUint64_inject writeUint_def)

lemma length_writeUint [simp]: "length (writeUint v) = 8"
  by (simp add: writeUint_def)

lemma writeField_cancel:
  assumes "length b < 2 ^ 63" "length c < 2 ^ 63"
  shows "writeField b @ x = writeField c @ y \<longleftrightarrow> b = c \<and> x = y"
proof -
  have "writeUint (int (length b)) = writeUint (int (length c)) \<longleftrightarrow> length b = length c"
    using assms by (subst writeUint_inject) auto
  then show ?thesis by (auto simp: writeField_def append_eq_append_conv)
qed

definition row_fits :: "audit_row \<Rightarrow> bool" where
  "row_fits e \<longleftrightarrow> - (2 ^ 63) \<le> au_seq e \<and> au_seq e < 2 ^ 63 \<and> - (2 ^ 63) \<le> au_ts e \<and> au_ts e < 2 ^ 63 \<and>
     length (au_actor e) < 2 ^ 63 \<and> length (au_action e) < 2 ^ 63 \<and> length (au_target e) < 2 ^ 63 \<and>
     length (au_details e) < 2 ^ 63 \<and> length (au_prev e) < 2 ^ 63"

lemma writeField_inject: "length b < 2 ^ 63 \<Longrightarrow> length c < 2 ^ 63 \<Longrightarrow> writeField b = writeField c \<longleftrightarrow> b = c"
  using writeField_cancel [of b c "[]" "[]"] by simp

lemma audit_bytes_inject:
  assumes "row_fits d" "row_fits e" "audit_bytes d = audit_bytes e"
  shows "d\<lparr>au_hash := h\<rparr> = e\<lparr>au_hash := h\<rparr>"
proof -
  have "au_seq d = au_seq e \<and> au_ts d = au_ts e \<and> au_actor d = au_actor e \<and> au_action d = au_action e \<and>
      au_target d = au_target e \<and> au_details d = au_details e \<and> au_prev d = au_prev e"
    using assms unfolding audit_bytes_def row_fits_def
    by (simp add: append_eq_append_conv writeField_cancel writeField_inject writeUint_inject)
  then show ?thesis by (cases d, cases e) simp
qed

subsection \<open>Verified chains\<close>

fun chained :: "(bytes \<Rightarrow> bytes) \<Rightarrow> bytes \<Rightarrow> int \<Rightarrow> audit_row list \<Rightarrow> bool" where
  "chained sha prev want [] = True"
| "chained sha prev want (r # rs) \<longleftrightarrow>
     au_seq r = want \<and> au_prev r = prev \<and> au_hash r = auditHash sha r \<and> chained sha (au_hash r) (want + 1) rs"

lemma verify_rows_chained:
  "snd (verify_rows sha prev want rows) = None \<longleftrightarrow> chained sha prev want rows"
  "chained sha prev want rows \<Longrightarrow> fst (verify_rows sha prev want rows) = want - 1 + int (length rows)"
  by (induction sha prev want rows rule: verify_rows.induct) auto

lemma chained_append:
  "chained sha prev want (xs @ [e]) \<longleftrightarrow> chained sha prev want xs \<and> au_seq e = want + int (length xs) \<and>
     au_prev e = (if xs = [] then prev else au_hash (last xs)) \<and> au_hash e = auditHash sha e"
  by (induction xs arbitrary: prev want) (auto simp: algebra_simps)

lemma chained_last: "chained sha prev want xs \<Longrightarrow> xs \<noteq> [] \<Longrightarrow> au_seq (last xs) = want + int (length xs) - 1"
  by (cases xs rule: rev_cases) (auto simp: chained_append)

definition append_all :: "(bytes \<Rightarrow> bytes) \<Rightarrow> (faults \<times> time_ns \<times> string \<times> string \<times> string \<times> string) list \<Rightarrow> audit_row list" where
  "append_all sha calls = foldl (\<lambda>rows (flt, now, actor, action, target, details).
     snd (AppendAudit sha flt now rows actor action target details)) [] calls"

lemma append_chained:
  assumes "chained sha genesisPrev 1 rows"
  shows "chained sha genesisPrev 1 (snd (AppendAudit sha flt now rows actor action target details))"
  using assms chained_last [OF assms] by (auto simp: AppendAudit_def Let_def chained_append auditHash_def audit_bytes_def)

text \<open>
  Appending keeps the log verifiable: after any sequence of appends, each succeeding or failing at any
  statement, the verifier walks the whole log without complaint and counts every row.
\<close>

lemma VerifyAudit_append_all:
  "VerifyAudit sha False (append_all sha calls) = (int (length (append_all sha calls)), None)"
proof -
  have "chained sha genesisPrev 1 rows \<Longrightarrow> chained sha genesisPrev 1 (foldl (\<lambda>rows (flt, now, actor, action, target, details).
      snd (AppendAudit sha flt now rows actor action target details)) rows calls)" for rows
    by (induction calls arbitrary: rows) (auto intro: append_chained)
  then have "chained sha genesisPrev 1 (append_all sha calls)" by (simp add: append_all_def)
  then show ?thesis using verify_rows_chained [of sha genesisPrev 1 "append_all sha calls"]
    by (simp add: VerifyAudit_def prod_eq_iff)
qed

lemma chained_take: "chained sha p w xs \<Longrightarrow> chained sha p w (take n xs)"
  by (induction xs arbitrary: p w n) (auto simp: take_Cons split: nat.splits)

text \<open>Two chains with one head are the same, or two of their rows are a collision.\<close>

definition collision :: "(bytes \<Rightarrow> bytes) \<Rightarrow> audit_row \<Rightarrow> audit_row \<Rightarrow> bool" where
  "collision sha x y \<longleftrightarrow> audit_bytes x \<noteq> audit_bytes y \<and> auditHash sha x = auditHash sha y"

lemma chained_unique:
  assumes "chained sha p w xs" "chained sha p w ys" "xs \<noteq> []" "ys \<noteq> []"
    and "au_hash (last xs) = au_hash (last ys)" "\<forall>e\<in>set xs \<union> set ys. row_fits e"
    and nocol: "\<forall>x\<in>set xs. \<forall>y\<in>set ys. \<not> collision sha x y"
  shows "xs = ys"
  using assms
proof (induction xs arbitrary: ys rule: rev_induct)
  case (snoc x xs)
  then obtain y zs where ys: "ys = zs @ [y]" by (metis rev_exhaust)
  have cx: "chained sha p w xs" "au_hash x = auditHash sha x" "au_seq x = w + int (length xs)"
    and cy: "chained sha p w zs" "au_hash y = auditHash sha y" "au_seq y = w + int (length zs)"
    using snoc.prems(1,2) by (simp_all add: ys chained_append)
  have "audit_bytes x = audit_bytes y"
    using snoc.prems(5,7) cx(2) cy(2) by (simp add: ys collision_def)
  moreover have "row_fits x" "row_fits y" using snoc.prems(6) by (simp_all add: ys)
  ultimately have "x\<lparr>au_hash := au_hash x\<rparr> = y\<lparr>au_hash := au_hash x\<rparr>" by (intro audit_bytes_inject)
  then have xy: "x = y" using snoc.prems(5) by (simp add: ys)
  then have len: "length xs = length zs" using cx(3) cy(3) by simp
  show ?case
  proof (cases "xs = []")
    case True
    then show ?thesis using xy len by (simp add: ys)
  next
    case False
    then have "zs \<noteq> []" using len by auto
    then have "au_hash (last xs) = au_hash (last zs)"
      using snoc.prems(1,2) False xy by (simp add: ys chained_append)
    then have "xs = zs" using snoc.IH [OF cx(1) cy(1) False \<open>zs \<noteq> []\<close>] snoc.prems(6,7) by (simp add: ys)
    then show ?thesis using xy by (simp add: ys)
  qed
qed simp

text \<open>
  C19: The log is tamper-evident below any row hash kept outside of it.  Let xs be a log that verified and whose newest hash was
  noted.  A log ys that verifies later, of whatever length, and carries that hash in some row has exactly the rows of xs up to that
  row: none edited, dropped, inserted or reordered.  Otherwise a row of xs and a row of ys are a SHA-256 collision: their encodings
  differ and hash to the same value.  (Integers and lengths are assumed to fit 64 bits, as they do in the program.)
\<close>

theorem audit_log_tamper_evident:
  assumes "snd (VerifyAudit sha False xs) = None" "snd (VerifyAudit sha False ys) = None"
    and "xs \<noteq> []" "i < length ys" "au_hash (last xs) = au_hash (ys ! i)"
    and "\<forall>e\<in>set xs \<union> set ys. row_fits e"
  shows "take (Suc i) ys = xs \<or>
    (\<exists>x\<in>set xs. \<exists>y\<in>set ys. audit_bytes x \<noteq> audit_bytes y \<and> sha (audit_bytes x) = sha (audit_bytes y))"
proof (rule disjCI)
  assume "\<not> (\<exists>x\<in>set xs. \<exists>y\<in>set ys. audit_bytes x \<noteq> audit_bytes y \<and> sha (audit_bytes x) = sha (audit_bytes y))"
  then have "\<forall>x\<in>set xs. \<forall>y\<in>set (take (Suc i) ys). \<not> collision sha x y"
    by (auto simp: collision_def auditHash_def dest: in_set_takeD)
  moreover have "chained sha genesisPrev 1 xs" "chained sha genesisPrev 1 (take (Suc i) ys)"
    using assms(1,2) by (simp_all add: VerifyAudit_def verify_rows_chained(1) chained_take)
  moreover have "last (take (Suc i) ys) = ys ! i" "take (Suc i) ys \<noteq> []"
    using assms(4) by (simp_all add: take_Suc_conv_app_nth)
  moreover have "\<forall>e\<in>set xs \<union> set (take (Suc i) ys). row_fits e" using assms(6) by (auto dest: in_set_takeD)
  ultimately show "take (Suc i) ys = xs" using chained_unique [of sha genesisPrev 1 xs "take (Suc i) ys"] assms(3,5) by simp
qed

text \<open>An injective stand-in for the hash: a log, and the same log with a row appended.\<close>

definition demo_hash :: "bytes \<Rightarrow> bytes" where
  "demo_hash b = 7 # b"

definition demo_log :: "string \<Rightarrow> audit_row list" where
  "demo_log actor = append_all demo_hash [(no_faults, 5, actor, ''issue-cert'', ''host-1'', [])]"

definition demo_later :: "string \<Rightarrow> audit_row list" where
  "demo_later actor = append_all demo_hash [(no_faults, 5, actor, ''issue-cert'', ''host-1'', []), (no_faults, 9, ''bob'', ''sign-bundle'', ''host-1'', [])]"

lemma demo_logs: "\<exists>x r. demo_log actor = [x] \<and> demo_later actor = [x, r]"
  by (simp add: demo_log_def demo_later_def append_all_def AppendAudit_def Let_def)

theorem audit_log_tamper_evident_witness:
  "demo_log ''alice'' \<noteq> [] \<and> demo_later ''alice'' \<noteq> demo_log ''alice'' \<and> take 1 (demo_later ''alice'') = demo_log ''alice''"
proof -
  let ?x = "demo_log ''alice''" and ?y = "demo_later ''alice''"
  obtain x r where l: "?x = [x]" "?y = [x, r]" using demo_logs by blast
  have v: "snd (VerifyAudit demo_hash False ?x) = None" "snd (VerifyAudit demo_hash False ?y) = None"
    unfolding demo_log_def demo_later_def by (simp_all only: VerifyAudit_append_all snd_conv)
  have "\<forall>e\<in>set ?x \<union> set ?y. row_fits e"
    by (simp add: demo_log_def demo_later_def append_all_def AppendAudit_def Let_def row_fits_def auditHash_def demo_hash_def audit_bytes_def
      writeField_def str_bytes_def genesisPrev_def hashLen_def)
  then have "take (Suc 0) ?y = ?x \<or> (\<exists>x\<in>set ?x. \<exists>y\<in>set ?y. audit_bytes x \<noteq> audit_bytes y \<and> demo_hash (audit_bytes x) = demo_hash (audit_bytes y))"
    by (intro audit_log_tamper_evident [OF v]) (simp_all add: l)
  then show ?thesis by (auto simp: l demo_hash_def)
qed

text \<open>Dropping the newest rows leaves a log that still verifies.\<close>

lemma truncated_log_verifies:
  assumes "snd (VerifyAudit sha False xs) = None"
  shows "snd (VerifyAudit sha False (take n xs)) = None"
  using assms chained_take by (simp add: VerifyAudit_def verify_rows_chained(1))

end
