(* ===== verification/Joinkey.thy ===== *)
theory Joinkey
  imports Encoding
begin

text \<open>
  \<open>internal/joinkey/joinkey.go\<close>: bearer join keys, stored by the hash of their secret, with expiry, a use limit
  and a rate quota.  The JSON column \<open>groups\<close> is the list it encodes; the random bytes of a new secret and
  SHA-256 are parameters.  \<open>name\<close> and \<open>secret_hash\<close> are unique columns.
\<close>

definition secretPrefix :: string where "secretPrefix = ''njk_''"

datatype jk_err = JkNotFound | JkExpired | JkExhausted | JkDb

record joinkey =
  jk_id :: int
  jk_name :: string
  jk_hash :: bytes
  jk_groups :: "string list"
  jk_subrange :: string
  jk_max_uses :: int
  jk_used :: int
  jk_expires :: time_ns
  jk_auto :: bool
  jk_ephemeral :: bool
  jk_quota :: int
  jk_state :: string
  jk_created :: time_ns

record jk_params =
  jp_name :: string
  jp_groups :: "string list"
  jp_subrange :: string
  jp_max_uses :: int
  jp_ttl :: int
  jp_auto :: bool
  jp_ephemeral :: bool
  jp_quota :: int

record jk_table =
  jk_rows :: "joinkey list"
  jk_seq :: int

definition jk_Create ::
  "(bytes \<Rightarrow> bytes) \<Rightarrow> bytes \<Rightarrow> bool \<Rightarrow> time_ns \<Rightarrow> jk_table \<Rightarrow> jk_params \<Rightarrow> (jk_err + string \<times> joinkey) \<times> jk_table" where
  "jk_Create sha raw fails now tb p =
     (let secret = secretPrefix @ EncodeToString raw;
          jk = \<lparr>jk_id = jk_seq tb, jk_name = jp_name p, jk_hash = sha (str_bytes secret), jk_groups = jp_groups p,
                jk_subrange = jp_subrange p, jk_max_uses = jp_max_uses p, jk_used = 0,
                jk_expires = (if jp_ttl p > 0 then now + jp_ttl p else 0), jk_auto = jp_auto p, jk_ephemeral = jp_ephemeral p,
                jk_quota = jp_quota p, jk_state = ''active'', jk_created = now\<rparr> in
      if fails \<or> list_ex (\<lambda>r. jk_name r = jk_name jk \<or> jk_hash r = jk_hash jk) (jk_rows tb) then (Inl JkDb, tb)
      else (Inr (secret, jk), tb\<lparr>jk_rows := jk_rows tb @ [jk], jk_seq := jk_seq tb + 1\<rparr>))"

definition jk_List :: "bool \<Rightarrow> jk_table \<Rightarrow> jk_err + joinkey list" where
  "jk_List fails tb = (if fails then Inl JkDb else Inr (jk_rows tb))"

definition jk_active :: "string \<Rightarrow> joinkey \<Rightarrow> bool" where
  "jk_active name r \<longleftrightarrow> jk_name r = name \<and> jk_state r = ''active''"

definition jk_Revoke :: "bool \<Rightarrow> jk_table \<Rightarrow> string \<Rightarrow> jk_err option \<times> jk_table" where
  "jk_Revoke fails tb name =
     (if fails then (Some JkDb, tb)
      else if count_where (jk_active name) (jk_rows tb) = 0 then (Some JkNotFound, tb)
      else (None, tb\<lparr>jk_rows := update_where (jk_active name) (\<lambda>r. r\<lparr>jk_state := ''revoked''\<rparr>) (jk_rows tb)\<rparr>))"

record jk_update =
  ju_groups :: "string list option"
  ju_subrange :: "string option"
  ju_max_uses :: "int option"
  ju_quota :: "int option"
  ju_auto :: "bool option"
  ju_ephemeral :: "bool option"
  ju_ttl :: "int option"

definition set_opt :: "'a option \<Rightarrow> ('a \<Rightarrow> 'r \<Rightarrow> 'r) \<Rightarrow> 'r \<Rightarrow> 'r" where
  "set_opt v f r = (case v of None \<Rightarrow> r | Some x \<Rightarrow> f x r)"

definition jk_fields :: "time_ns \<Rightarrow> jk_update \<Rightarrow> joinkey \<Rightarrow> joinkey" where
  "jk_fields now p r =
     set_opt (ju_ttl p) (\<lambda>v r. r\<lparr>jk_expires := if v > 0 then now + v else 0\<rparr>)
      (set_opt (ju_ephemeral p) (\<lambda>v r. r\<lparr>jk_ephemeral := v\<rparr>)
       (set_opt (ju_auto p) (\<lambda>v r. r\<lparr>jk_auto := v\<rparr>)
        (set_opt (ju_quota p) (\<lambda>v r. r\<lparr>jk_quota := v\<rparr>)
         (set_opt (ju_max_uses p) (\<lambda>v r. r\<lparr>jk_max_uses := v\<rparr>)
          (set_opt (ju_subrange p) (\<lambda>v r. r\<lparr>jk_subrange := v\<rparr>)
           (set_opt (ju_groups p) (\<lambda>v r. r\<lparr>jk_groups := v\<rparr>) r))))))"

definition no_update :: "jk_update \<Rightarrow> bool" where
  "no_update p \<longleftrightarrow> ju_groups p = None \<and> ju_subrange p = None \<and> ju_max_uses p = None \<and> ju_quota p = None \<and>
     ju_auto p = None \<and> ju_ephemeral p = None \<and> ju_ttl p = None"

definition jk_Update :: "faults \<Rightarrow> time_ns \<Rightarrow> jk_table \<Rightarrow> string \<Rightarrow> jk_update \<Rightarrow> (jk_err + joinkey) \<times> jk_table" where
  "jk_Update flt now tb name p =
     (let written = (if no_update p then Inr tb
                     else if flt 0 then Inl JkDb
                     else if count_where (jk_active name) (jk_rows tb) = 0 then Inl JkNotFound
                     else Inr (tb\<lparr>jk_rows := update_where (jk_active name) (jk_fields now p) (jk_rows tb)\<rparr>)) in
      case written of
        Inl e \<Rightarrow> (Inl e, tb)
      | Inr tb' \<Rightarrow>
          if flt 1 then (Inl JkDb, tb')
          else (case first_where (jk_active name) (jk_rows tb') of None \<Rightarrow> (Inl JkNotFound, tb') | Some r \<Rightarrow> (Inr r, tb')))"

definition Lookup :: "(bytes \<Rightarrow> bytes) \<Rightarrow> bool \<Rightarrow> time_ns \<Rightarrow> jk_table \<Rightarrow> string \<Rightarrow> jk_err + joinkey" where
  "Lookup sha fails now tb secret =
     (if fails then Inl JkDb
      else case first_where (\<lambda>r. jk_hash r = sha (str_bytes secret) \<and> jk_state r = ''active'') (jk_rows tb) of
        None \<Rightarrow> Inl JkNotFound
      | Some jk \<Rightarrow>
          if jk_expires jk \<noteq> 0 \<and> now \<ge> jk_expires jk then Inl JkExpired
          else if jk_max_uses jk > 0 \<and> jk_used jk \<ge> jk_max_uses jk then Inl JkExhausted
          else Inr jk)"

text \<open>The conditional update takes the limit from the row that was looked up.\<close>

definition consumable :: "joinkey \<Rightarrow> joinkey \<Rightarrow> bool" where
  "consumable jk r \<longleftrightarrow> jk_id r = jk_id jk \<and> jk_state r = ''active'' \<and> (jk_max_uses jk > 0 \<longrightarrow> jk_used r < jk_max_uses jk)"

definition Consume :: "bool \<Rightarrow> jk_table \<Rightarrow> joinkey \<Rightarrow> jk_err option \<times> jk_table" where
  "Consume fails tb jk =
     (if fails then (Some JkDb, tb)
      else if count_where (consumable jk) (jk_rows tb) = 0 then (Some JkExhausted, tb)
      else (None, tb\<lparr>jk_rows := update_where (consumable jk) (\<lambda>r. r\<lparr>jk_used := jk_used r + 1\<rparr>) (jk_rows tb)\<rparr>))"

definition ValidateAndConsume :: "(bytes \<Rightarrow> bytes) \<Rightarrow> faults \<Rightarrow> time_ns \<Rightarrow> jk_table \<Rightarrow> string \<Rightarrow> (jk_err + joinkey) \<times> jk_table" where
  "ValidateAndConsume sha flt now tb secret =
     (case Lookup sha (flt 0) now tb secret of
        Inl e \<Rightarrow> (Inl e, tb)
      | Inr jk \<Rightarrow> (case Consume (flt 1) tb jk of
            (Some e, tb') \<Rightarrow> (Inl e, tb')
          | (None, tb') \<Rightarrow> (Inr (jk\<lparr>jk_used := jk_used jk + 1\<rparr>), tb')))"

subsection \<open>Interleaved callers\<close>

text \<open>
  The statements of concurrent callers in any order.  The state keeps the rows looked up and not yet consumed,
  and a history variable counts the uses handed out per key.
\<close>

record jk_world =
  jw_tb :: jk_table
  jw_held :: "joinkey list"
  jw_uses :: "int \<Rightarrow> nat"

inductive jk_step :: "(bytes \<Rightarrow> bytes) \<Rightarrow> jk_world \<Rightarrow> jk_world \<Rightarrow> bool" for sha where
  js_create: "jk_step sha w (w\<lparr>jw_tb := snd (jk_Create sha raw fails now (jw_tb w) p)\<rparr>)"
| js_revoke: "jk_step sha w (w\<lparr>jw_tb := snd (jk_Revoke fails (jw_tb w) name)\<rparr>)"
| js_update: "ju_max_uses p = None \<Longrightarrow> jk_step sha w (w\<lparr>jw_tb := snd (jk_Update flt now (jw_tb w) name p)\<rparr>)"
| js_lookup: "Lookup sha fails now (jw_tb w) secret = Inr jk \<Longrightarrow> jk_step sha w (w\<lparr>jw_held := jk # jw_held w\<rparr>)"
| js_consume: "jk \<in> set (jw_held w) \<Longrightarrow> Consume fails (jw_tb w) jk = (None, tb) \<Longrightarrow>
    jk_step sha w (w\<lparr>jw_tb := tb, jw_uses := (jw_uses w)(jk_id jk := jw_uses w (jk_id jk) + 1)\<rparr>)"

inductive jk_steps :: "(bytes \<Rightarrow> bytes) \<Rightarrow> jk_world \<Rightarrow> jk_world \<Rightarrow> bool" for sha where
  jss_refl: "jk_steps sha w w"
| jss_step: "jk_steps sha w w1 \<Longrightarrow> jk_step sha w1 w2 \<Longrightarrow> jk_steps sha w w2"

definition jk_empty :: jk_world where
  "jk_empty = \<lparr>jw_tb = \<lparr>jk_rows = [], jk_seq = 1\<rparr>, jw_held = [], jw_uses = (\<lambda>_. 0)\<rparr>"

definition jk_row_ok :: "int \<Rightarrow> (int \<Rightarrow> nat) \<Rightarrow> joinkey \<Rightarrow> bool" where
  "jk_row_ok seq uses r \<longleftrightarrow> jk_id r < seq \<and> jk_used r = int (uses (jk_id r)) \<and> (jk_max_uses r > 0 \<longrightarrow> jk_used r \<le> jk_max_uses r)"

definition jk_known :: "joinkey list \<Rightarrow> joinkey \<Rightarrow> bool" where
  "jk_known rows h \<longleftrightarrow> (\<exists>r\<in>set rows. jk_id r = jk_id h \<and> jk_max_uses r = jk_max_uses h)"

definition jk_inv :: "jk_world \<Rightarrow> bool" where
  "jk_inv w \<longleftrightarrow>
     distinct (map jk_id (jk_rows (jw_tb w))) \<and>
     (\<forall>i \<ge> jk_seq (jw_tb w). jw_uses w i = 0) \<and>
     (\<forall>r\<in>set (jk_rows (jw_tb w)). jk_row_ok (jk_seq (jw_tb w)) (jw_uses w) r) \<and>
     (\<forall>h\<in>set (jw_held w). jk_known (jk_rows (jw_tb w)) h)"

lemma jk_invD:
  assumes "jk_inv w"
  shows "distinct (map jk_id (jk_rows (jw_tb w)))" "jk_seq (jw_tb w) \<le> i \<Longrightarrow> jw_uses w i = 0"
    "r \<in> set (jk_rows (jw_tb w)) \<Longrightarrow> jk_row_ok (jk_seq (jw_tb w)) (jw_uses w) r"
    "h \<in> set (jw_held w) \<Longrightarrow> jk_known (jk_rows (jw_tb w)) h"
  using assms by (simp_all add: jk_inv_def)

lemma jk_inv_restate:
  assumes I: "jk_inv w" and f: "\<And>r. jk_id (f r) = jk_id r \<and> jk_used (f r) = jk_used r \<and> jk_max_uses (f r) = jk_max_uses r"
  shows "jk_inv (w\<lparr>jw_tb := (jw_tb w)\<lparr>jk_rows := update_where P f (jk_rows (jw_tb w))\<rparr>\<rparr>)"
proof -
  let ?R = "jk_rows (jw_tb w)" and ?U = "update_where P f (jk_rows (jw_tb w))"
  have ids: "map jk_id ?U = map jk_id ?R" using f by (intro map_key_update_where) simp
  have old: "\<exists>q\<in>set ?R. jk_id r = jk_id q \<and> jk_used r = jk_used q \<and> jk_max_uses r = jk_max_uses q" if "r \<in> set ?U" for r
    using that f by (auto simp: set_update_where)
  have new: "\<exists>q\<in>set ?U. jk_id q = jk_id r \<and> jk_max_uses q = jk_max_uses r" if "r \<in> set ?R" for r
    using that f by (cases "P r") (force simp: set_update_where)+
  have "jk_row_ok (jk_seq (jw_tb w)) (jw_uses w) r" if r: "r \<in> set ?U" for r
  proof -
    obtain q where q: "q \<in> set ?R" "jk_id r = jk_id q" "jk_used r = jk_used q" "jk_max_uses r = jk_max_uses q"
      using old [OF r] by blast
    then show ?thesis using jk_invD(3) [OF I q(1)] by (auto simp: jk_row_ok_def)
  qed
  moreover have "jk_known ?U h" if "h \<in> set (jw_held w)" for h
    using jk_invD(4) [OF I that] new by (force simp: jk_known_def)
  ultimately show ?thesis using I by (simp add: jk_inv_def ids)
qed

lemma jk_fields_keeps:
  "jk_id (jk_fields now p r) = jk_id r" "jk_used (jk_fields now p r) = jk_used r"
  "ju_max_uses p = None \<Longrightarrow> jk_max_uses (jk_fields now p r) = jk_max_uses r"
  by (simp_all add: jk_fields_def set_opt_def split: option.splits)

lemma Consume_rows:
  assumes "Consume fails tb jk = (None, tb')"
  shows "\<exists>r\<in>set (jk_rows tb). consumable jk r"
    "tb' = tb\<lparr>jk_rows := update_where (consumable jk) (\<lambda>r. r\<lparr>jk_used := jk_used r + 1\<rparr>) (jk_rows tb)\<rparr>"
  using assms by (auto simp: Consume_def count_where_0_iff split: if_splits)

lemma jk_inv_consume:
  assumes I: "jk_inv w" and h: "jk \<in> set (jw_held w)" and c: "Consume fails (jw_tb w) jk = (None, tb)"
  shows "jk_inv (w\<lparr>jw_tb := tb, jw_uses := (jw_uses w)(jk_id jk := jw_uses w (jk_id jk) + 1)\<rparr>)"
proof -
  let ?rows = "jk_rows (jw_tb w)" and ?f = "\<lambda>r. r\<lparr>jk_used := jk_used r + 1\<rparr>"
  obtain q where q: "q \<in> set ?rows" "consumable jk q" using Consume_rows(1) [OF c] by blast
  have D: "distinct (map jk_id ?rows)" using I by (simp add: jk_inv_def)
  have same: "r = q" if "r \<in> set ?rows" "jk_id r = jk_id jk" for r
    using that q distinct_map_inj [OF D that(1) q(1)] by (simp add: consumable_def)
  obtain r0 where r0: "r0 \<in> set ?rows" "jk_id r0 = jk_id jk" "jk_max_uses r0 = jk_max_uses jk"
    using jk_invD(4) [OF I h] by (auto simp: jk_known_def)
  then have lim: "jk_max_uses q = jk_max_uses jk" using same by blast
  have tb: "jk_rows tb = update_where (consumable jk) ?f ?rows" "jk_seq tb = jk_seq (jw_tb w)"
    using Consume_rows(2) [OF c] by simp_all
  have rows: "set (jk_rows tb) = insert (?f q) (set ?rows - {q})"
  proof -
    have hit: "consumable jk r \<longleftrightarrow> r = q" if "r \<in> set ?rows" for r
    proof
      show "consumable jk r \<Longrightarrow> r = q" using same [OF that] by (simp add: consumable_def)
    qed (use q in simp)
    have "{r \<in> set ?rows. consumable jk r} = {q}" "{r \<in> set ?rows. \<not> consumable jk r} = set ?rows - {q}"
      using hit q(1) by auto
    then show ?thesis unfolding tb(1) set_update_where by simp
  qed
  have ids: "map jk_id (jk_rows tb) = map jk_id ?rows" unfolding tb(1) by (rule map_key_update_where) simp
  have qid: "jk_id q = jk_id jk" using q(2) by (simp add: consumable_def)
  let ?uses = "(jw_uses w)(jk_id jk := jw_uses w (jk_id jk) + 1)"
  have "jk_row_ok (jk_seq (jw_tb w)) ?uses (?f q)"
    using jk_invD(3) [OF I q(1)] q(2) lim qid by (auto simp: jk_row_ok_def consumable_def)
  moreover have "jk_row_ok (jk_seq (jw_tb w)) ?uses r" if "r \<in> set ?rows" "r \<noteq> q" for r
    using jk_invD(3) [OF I that(1)] same [OF that(1)] that(2) by (auto simp: jk_row_ok_def)
  moreover have "?uses i = 0" if "jk_seq (jw_tb w) \<le> i" for i
    using jk_invD(2) [OF I that] jk_invD(3) [OF I q(1)] qid that by (auto simp: jk_row_ok_def)
  moreover have "jk_known (jk_rows tb) x" if "x \<in> set (jw_held w)" for x
    using jk_invD(4) [OF I that] unfolding jk_known_def rows by force
  ultimately show ?thesis using jk_invD(1) [OF I] by (simp add: jk_inv_def ids rows tb(2))
qed

lemma jk_Create_rows:
  "snd (jk_Create sha raw fails now tb p) = tb \<or>
   (\<exists>r. snd (jk_Create sha raw fails now tb p) = tb\<lparr>jk_rows := jk_rows tb @ [r], jk_seq := jk_seq tb + 1\<rparr> \<and> jk_id r = jk_seq tb \<and> jk_used r = 0)"
  unfolding jk_Create_def Let_def by (auto split: if_splits)

lemma jk_step_inv: "jk_step sha w w' \<Longrightarrow> jk_inv w \<Longrightarrow> jk_inv w'"
proof (induction rule: jk_step.induct)
  case (js_create w raw fails now p)
  show ?case
  proof (cases "snd (jk_Create sha raw fails now (jw_tb w) p) = jw_tb w")
    case False
    then obtain r where r: "snd (jk_Create sha raw fails now (jw_tb w) p) =
        (jw_tb w)\<lparr>jk_rows := jk_rows (jw_tb w) @ [r], jk_seq := jk_seq (jw_tb w) + 1\<rparr>" "jk_id r = jk_seq (jw_tb w)" "jk_used r = 0"
      using jk_Create_rows [of sha raw fails now "jw_tb w" p] by blast
    have "jk_row_ok (jk_seq (jw_tb w) + 1) (jw_uses w) r"
      using jk_invD(2) [OF js_create, of "jk_seq (jw_tb w)"] r(2,3) by (simp add: jk_row_ok_def)
    moreover have "jk_row_ok (jk_seq (jw_tb w) + 1) (jw_uses w) q" if "q \<in> set (jk_rows (jw_tb w))" for q
      using jk_invD(3) [OF js_create that] r(2) by (auto simp: jk_row_ok_def)
    moreover have "jk_id r \<notin> jk_id ` set (jk_rows (jw_tb w))"
      using jk_invD(3) [OF js_create] r(2) by (force simp: jk_row_ok_def)
    moreover have "jk_known (jk_rows (jw_tb w) @ [r]) h" if "h \<in> set (jw_held w)" for h
      using jk_invD(4) [OF js_create that] by (auto simp: jk_known_def)
    ultimately show ?thesis using js_create unfolding r(1) by (simp add: jk_inv_def)
  qed (use js_create in \<open>simp add: jk_inv_def\<close>)
next
  case (js_revoke w fails name)
  then show ?case using jk_inv_restate [OF js_revoke] by (auto simp: jk_Revoke_def)
next
  case (js_update p w flt now name)
  then show ?case using jk_inv_restate [OF js_update(2), of "jk_fields now p"]
    by (auto simp: jk_Update_def jk_fields_keeps Let_def split: option.splits)
next
  case (js_lookup fails now w secret jk)
  then have "jk \<in> set (jk_rows (jw_tb w))" by (auto simp: Lookup_def split: if_splits option.splits)
  then show ?case using js_lookup(2) by (auto simp: jk_inv_def jk_known_def)
next
  case (js_consume jk w fails tb)
  then show ?case by (intro jk_inv_consume)
qed

lemma jk_steps_inv: "jk_steps sha w w' \<Longrightarrow> jk_inv w \<Longrightarrow> jk_inv w'"
  by (induction rule: jk_steps.induct) (auto intro: jk_step_inv)

text \<open>
  C32: A limited join key is never overused: whatever concurrent callers look up, hold and consume, with keys
  created, revoked and edited in between as long as no edit changes a use limit, the number of uses handed
  out for a key equals its counter and does not exceed its limit.
\<close>

theorem join_key_use_limit:
  assumes "jk_steps sha jk_empty w" "r \<in> set (jk_rows (jw_tb w))" "jk_max_uses r > 0"
  shows "int (jw_uses w (jk_id r)) = jk_used r \<and> jk_used r \<le> jk_max_uses r"
proof -
  have "jk_inv jk_empty" by (simp add: jk_inv_def jk_empty_def)
  then have "jk_inv w" using jk_steps_inv [OF assms(1)] by blast
  then show ?thesis using jk_invD(3) [OF _ assms(2)] assms(3) by (auto simp: jk_row_ok_def)
qed

definition demo_params :: jk_params where
  "demo_params = \<lparr>jp_name = ''ci'', jp_groups = [''runner''], jp_subrange = [], jp_max_uses = 1, jp_ttl = 0, jp_auto = False,
     jp_ephemeral = True, jp_quota = 0\<rparr>"

definition demo_table :: jk_table where
  "demo_table = snd (jk_Create (\<lambda>b. b) [] False 10 (jw_tb jk_empty) demo_params)"

definition demo_key :: joinkey where
  "demo_key = hd (jk_rows demo_table)"

definition demo_used :: jk_table where
  "demo_used = snd (Consume False demo_table demo_key)"

theorem join_key_use_limit_witness:
  "jk_used (hd (jk_rows demo_used)) = 1 \<and> jk_used (hd (jk_rows demo_used)) \<le> jk_max_uses (hd (jk_rows demo_used)) \<and>
   Consume False demo_used demo_key = (Some JkExhausted, demo_used)"
proof -
  let ?w1 = "jk_empty\<lparr>jw_tb := demo_table\<rparr>"
  let ?w2 = "?w1\<lparr>jw_held := demo_key # jw_held ?w1\<rparr>"
  let ?w3 = "?w2\<lparr>jw_tb := demo_used, jw_uses := (jw_uses ?w2)(jk_id demo_key := jw_uses ?w2 (jk_id demo_key) + 1)\<rparr>"
  have s1: "jk_step (\<lambda>b. b) jk_empty ?w1" unfolding demo_table_def by (rule js_create)
  have "Lookup (\<lambda>b. b) False 20 demo_table ''njk_'' = Inr demo_key" by code_simp
  then have s2: "jk_step (\<lambda>b. b) ?w1 ?w2" by (intro js_lookup [where secret = "''njk_''" and now = 20 and fails = False]) simp
  have c: "Consume False demo_table demo_key = (None, demo_used)" by code_simp
  then have s3: "jk_step (\<lambda>b. b) ?w2 ?w3" by (intro js_consume [where fails = False]) simp_all
  have "jk_steps (\<lambda>b. b) jk_empty ?w3" by (rule jss_step [OF jss_step [OF jss_step [OF jss_refl s1] s2] s3])
  moreover have r: "hd (jk_rows demo_used) \<in> set (jk_rows demo_used)" "jk_max_uses (hd (jk_rows demo_used)) > 0"
    "jk_used (hd (jk_rows demo_used)) = 1" "Consume False demo_used demo_key = (Some JkExhausted, demo_used)" by code_simp+
  ultimately show ?thesis using join_key_use_limit [of "\<lambda>b. b" ?w3 "hd (jk_rows demo_used)"] by simp
qed

end
