(* ===== verification/Queue.thy ===== *)
theory Queue
  imports Encoding
begin

text \<open>
  The gateway-to-Core queue (internal/queue): the in-process queue, and the durable one with its authenticated
  messages, leases, poison handling and backpressure (\<open>queue_items\<close>) and its one-time result store
  (\<open>queue_results\<close>).  HMAC-SHA256 and SHA-256 are parameters.
\<close>

record candidate =
  cd_id :: string
  cd_pubkey :: string
  cd_jws :: string
  cd_secret_hash :: bytes
  cd_received :: time_ns

section \<open>The in-process queue\<close>

definition mem_Publish :: "candidate \<Rightarrow> candidate list \<Rightarrow> candidate list" where
  "mem_Publish c items = items @ [c]"

definition mem_Drain :: "candidate list \<Rightarrow> candidate list \<times> candidate list" where
  "mem_Drain items = (items, [])"

definition mem_Len :: "candidate list \<Rightarrow> nat" where
  "mem_Len items = length items"

section \<open>The durable queue\<close>

datatype q_status = QReady | QInflight | QDead

datatype q_err = ErrDuplicate | ErrBackpressure | ErrResultNotFound | ErrResultGone | QKeyShort | QDb

record q_item =
  qi_id :: int
  qi_eid :: string
  qi_pubkey :: string
  qi_jws :: string
  qi_secret_hash :: bytes
  qi_received :: time_ns
  qi_mac :: bytes
  qi_status :: q_status
  qi_attempts :: int
  qi_lease :: time_ns

record q_result =
  qr_id :: int
  qr_eid :: string
  qr_status :: string
  qr_bundle :: string
  qr_secret_hash :: bytes
  qr_reason :: string
  qr_expires :: time_ns
  qr_reads :: int

record q_store =
  qs_items :: "q_item list"
  qs_item_seq :: int
  qs_results :: "q_result list"
  qs_result_seq :: int

record durable =
  du_key :: bytes
  du_max_depth :: int
  du_max_attempts :: int

definition OpenDurable :: "bytes \<Rightarrow> int \<Rightarrow> int \<Rightarrow> q_err + durable" where
  "OpenDurable key depth attempts =
     (if length key < 16 then Inl QKeyShort
      else Inr \<lparr>du_key = key, du_max_depth = (if depth \<le> 0 then 10000 else depth), du_max_attempts = (if attempts \<le> 0 then 5 else attempts)\<rparr>)"

definition q_writeField :: "bytes \<Rightarrow> bytes" where
  "q_writeField b = PutUint64 (of_nat (length b)) @ b"

definition q_mac :: "(bytes \<Rightarrow> bytes \<Rightarrow> bytes) \<Rightarrow> durable \<Rightarrow> q_item \<Rightarrow> bytes" where
  "q_mac hmac d it = hmac (du_key d)
     (q_writeField (str_bytes (qi_eid it)) @ q_writeField (str_bytes (qi_pubkey it)) @ q_writeField (str_bytes (qi_jws it)) @ q_writeField (qi_secret_hash it))"

definition is_live :: "q_item \<Rightarrow> bool" where
  "is_live it \<longleftrightarrow> qi_status it = QReady \<or> qi_status it = QInflight"

definition new_item :: "(bytes \<Rightarrow> bytes \<Rightarrow> bytes) \<Rightarrow> durable \<Rightarrow> int \<Rightarrow> candidate \<Rightarrow> q_item" where
  "new_item hmac d i c =
     (let it = \<lparr>qi_id = i, qi_eid = cd_id c, qi_pubkey = cd_pubkey c, qi_jws = cd_jws c, qi_secret_hash = cd_secret_hash c,
                qi_received = cd_received c, qi_mac = [], qi_status = QReady, qi_attempts = 0, qi_lease = 0\<rparr> in
      it\<lparr>qi_mac := q_mac hmac d it\<rparr>)"

definition Publish :: "(bytes \<Rightarrow> bytes \<Rightarrow> bytes) \<Rightarrow> durable \<Rightarrow> faults \<Rightarrow> candidate \<Rightarrow> q_store \<Rightarrow> q_err option \<times> q_store" where
  "Publish hmac d flt c s =
     (if flt 0 then (Some QDb, s)
      else if int (count_where is_live (qs_items s)) \<ge> du_max_depth d then (Some ErrBackpressure, s)
      else if flt 1 then (Some QDb, s)
      else if list_ex (\<lambda>it. qi_eid it = cd_id c) (qs_items s) then (Some ErrDuplicate, s)
      else (None, s\<lparr>qs_items := qs_items s @ [new_item hmac d (qs_item_seq s) c], qs_item_seq := qs_item_seq s + 1\<rparr>))"

record leased =
  ls_id :: int
  ls_cand :: candidate
  ls_attempts :: int

definition set_status :: "int \<Rightarrow> q_status \<Rightarrow> q_item list \<Rightarrow> q_item list" where
  "set_status i st items = update_where (\<lambda>it. qi_id it = i) (\<lambda>it. it\<lparr>qi_status := st\<rparr>) items"

definition reclaim :: "time_ns \<Rightarrow> q_item list \<Rightarrow> q_item list" where
  "reclaim now items = update_where (\<lambda>it. qi_status it = QInflight \<and> qi_lease it \<le> now) (\<lambda>it. it\<lparr>qi_status := QReady\<rparr>) items"

definition lease_of :: "q_item \<Rightarrow> leased" where
  "lease_of it = \<lparr>ls_id = qi_id it, ls_cand = \<lparr>cd_id = qi_eid it, cd_pubkey = qi_pubkey it, cd_jws = qi_jws it,
     cd_secret_hash = qi_secret_hash it, cd_received = qi_received it\<rparr>, ls_attempts = qi_attempts it + 1\<rparr>"

definition claimable :: "int \<Rightarrow> q_item \<Rightarrow> bool" where
  "claimable i it \<longleftrightarrow> qi_id it = i \<and> qi_status it = QReady"

text \<open>
  One selected row: a bad MAC dead-letters it, otherwise it is taken if it is still ready.  An update that
  fails changes no row, and the row is skipped.
\<close>

definition claim_row ::
  "(bytes \<Rightarrow> bytes \<Rightarrow> bytes) \<Rightarrow> durable \<Rightarrow> bool \<Rightarrow> time_ns \<Rightarrow> q_item \<Rightarrow> q_item list \<Rightarrow> leased option \<times> q_item list" where
  "claim_row hmac d fails lease it items =
     (if qi_mac it \<noteq> q_mac hmac d it then (None, if fails then items else set_status (qi_id it) QDead items)
      else if fails \<or> \<not> list_ex (claimable (qi_id it)) items then (None, items)
      else (Some (lease_of it), update_where (claimable (qi_id it))
              (\<lambda>r. r\<lparr>qi_status := QInflight, qi_lease := lease, qi_attempts := qi_attempts r + 1\<rparr>) items))"

fun claim_rows ::
  "(bytes \<Rightarrow> bytes \<Rightarrow> bytes) \<Rightarrow> durable \<Rightarrow> faults \<Rightarrow> time_ns \<Rightarrow> q_item list \<Rightarrow> q_item list \<Rightarrow> leased list \<times> q_item list" where
  "claim_rows hmac d flt lease [] items = ([], items)"
| "claim_rows hmac d flt lease (it # its) items =
     (let (o1, items1) = claim_row hmac d (flt 0) lease it items;
          (outs, items2) = claim_rows hmac d (skip_faults 1 flt) lease its items1 in
      (case o1 of None \<Rightarrow> outs | Some l \<Rightarrow> l # outs, items2))"

definition Claim ::
  "(bytes \<Rightarrow> bytes \<Rightarrow> bytes) \<Rightarrow> durable \<Rightarrow> faults \<Rightarrow> time_ns \<Rightarrow> nat \<Rightarrow> int \<Rightarrow> q_store \<Rightarrow> (q_err + leased list) \<times> q_store" where
  "Claim hmac d flt now limit ttl s =
     (if flt 0 then (Inl QDb, s)
      else let items = reclaim now (qs_items s) in
      if flt 1 then (Inl QDb, s\<lparr>qs_items := items\<rparr>)
      else let rows = take limit (filter (\<lambda>it. qi_status it = QReady) items);
               (outs, items') = claim_rows hmac d (skip_faults 2 flt) (now + ttl) rows items in
           (Inr outs, s\<lparr>qs_items := items'\<rparr>))"

definition Ack :: "bool \<Rightarrow> int \<Rightarrow> q_store \<Rightarrow> q_err option \<times> q_store" where
  "Ack fails i s = (if fails then (Some QDb, s) else (None, s\<lparr>qs_items := delete_where (\<lambda>it. qi_id it = i) (qs_items s)\<rparr>))"

definition Nack :: "durable \<Rightarrow> faults \<Rightarrow> int \<Rightarrow> q_store \<Rightarrow> q_err option \<times> q_store" where
  "Nack d flt i s =
     (if flt 0 then (Some QDb, s)
      else case first_where (\<lambda>it. qi_id it = i) (qs_items s) of
        None \<Rightarrow> (Some QDb, s)
      | Some it \<Rightarrow>
          if flt 1 then (Some QDb, s)
          else if qi_attempts it \<ge> du_max_attempts d then (None, s\<lparr>qs_items := set_status i QDead (qs_items s)\<rparr>)
          else (None, s\<lparr>qs_items := update_where (\<lambda>it. qi_id it = i) (\<lambda>it. it\<lparr>qi_status := QReady, qi_lease := 0\<rparr>) (qs_items s)\<rparr>))"

definition Depth :: "bool \<Rightarrow> q_store \<Rightarrow> q_err + nat" where
  "Depth fails s = (if fails then Inl QDb else Inr (count_where is_live (qs_items s)))"

section \<open>Results\<close>

definition PutResult ::
  "bool \<Rightarrow> string \<Rightarrow> string \<Rightarrow> bytes \<Rightarrow> string \<Rightarrow> string \<Rightarrow> time_ns \<Rightarrow> q_store \<Rightarrow> q_err option \<times> q_store" where
  "PutResult fails eid status secret_hash bundle reason expires s =
     (if fails then (Some QDb, s)
      else if list_ex (\<lambda>r. qr_eid r = eid) (qs_results s)
      then (None, s\<lparr>qs_results := update_where (\<lambda>r. qr_eid r = eid)
             (\<lambda>r. r\<lparr>qr_status := status, qr_bundle := bundle, qr_reason := reason, qr_expires := expires\<rparr>) (qs_results s)\<rparr>)
      else (None, s\<lparr>qs_results := qs_results s @ [\<lparr>qr_id = qs_result_seq s, qr_eid = eid, qr_status = status, qr_bundle = bundle,
              qr_secret_hash = secret_hash, qr_reason = reason, qr_expires = expires, qr_reads = 0\<rparr>], qs_result_seq := qs_result_seq s + 1\<rparr>))"

record poll_result =
  po_status :: string
  po_bundle :: string
  po_reason :: string

text \<open>GetResult reads the row and checks the secret and the expiry; the second statement consumes an issued bundle.\<close>

definition read_result :: "(bytes \<Rightarrow> bytes) \<Rightarrow> bool \<Rightarrow> time_ns \<Rightarrow> string \<Rightarrow> string \<Rightarrow> q_store \<Rightarrow> q_err + q_result" where
  "read_result sha fails now eid secret s =
     (if fails then Inl QDb
      else case first_where (\<lambda>r. qr_eid r = eid) (qs_results s) of
        None \<Rightarrow> Inl ErrResultNotFound
      | Some r \<Rightarrow>
          if sha (str_bytes secret) \<noteq> qr_secret_hash r then Inl ErrResultNotFound
          else if qr_expires r \<noteq> 0 \<and> now \<ge> qr_expires r then Inl ErrResultGone
          else Inr r)"

definition unread :: "int \<Rightarrow> q_result \<Rightarrow> bool" where
  "unread i r \<longleftrightarrow> qr_id r = i \<and> qr_status r = ''issued'' \<and> qr_reads r = 0"

definition consume_result :: "bool \<Rightarrow> q_result \<Rightarrow> q_store \<Rightarrow> (q_err + poll_result) \<times> q_store" where
  "consume_result fails r s =
     (let p = \<lparr>po_status = qr_status r, po_bundle = qr_bundle r, po_reason = qr_reason r\<rparr> in
      if qr_status r = ''issued'' then
        (if fails then (Inl QDb, s)
         else if \<not> list_ex (unread (qr_id r)) (qs_results s) then (Inl ErrResultGone, s)
         else (Inr p, s\<lparr>qs_results := update_where (unread (qr_id r)) (\<lambda>q. q\<lparr>qr_reads := qr_reads q + 1\<rparr>) (qs_results s)\<rparr>))
      else (Inr p, s))"

definition GetResult :: "(bytes \<Rightarrow> bytes) \<Rightarrow> faults \<Rightarrow> time_ns \<Rightarrow> string \<Rightarrow> string \<Rightarrow> q_store \<Rightarrow> (q_err + poll_result) \<times> q_store" where
  "GetResult sha flt now eid secret s = (case read_result sha (flt 0) now eid secret s of
     Inl e \<Rightarrow> (Inl e, s)
   | Inr r \<Rightarrow> consume_result (flt 1) r s)"

definition PendingResultIDs :: "bool \<Rightarrow> q_store \<Rightarrow> q_err + string list" where
  "PendingResultIDs fails s = (if fails then Inl QDb else Inr (map qr_eid (filter (\<lambda>r. qr_status r = ''pending'') (qs_results s))))"

section \<open>Processes on one store\<close>

text \<open>
  Gateway and Core processes interleave statement by statement on the results: a poll first reads the row, holds
  it while others run, and then consumes.  \<open>qw_delivered i\<close> counts the issued bundles handed out for the result row i.
\<close>

record q_world =
  qw_store :: q_store
  qw_held :: "q_result list"
  qw_delivered :: "int \<Rightarrow> nat"

inductive q_step :: "(bytes \<Rightarrow> bytes \<Rightarrow> bytes) \<Rightarrow> (bytes \<Rightarrow> bytes) \<Rightarrow> durable \<Rightarrow> q_world \<Rightarrow> q_world \<Rightarrow> bool" for hmac sha d where
  qs_publish: "q_step hmac sha d w (w\<lparr>qw_store := snd (Publish hmac d flt c (qw_store w))\<rparr>)"
| qs_claim: "q_step hmac sha d w (w\<lparr>qw_store := snd (Claim hmac d flt now limit ttl (qw_store w))\<rparr>)"
| qs_ack: "q_step hmac sha d w (w\<lparr>qw_store := snd (Ack fails i (qw_store w))\<rparr>)"
| qs_nack: "q_step hmac sha d w (w\<lparr>qw_store := snd (Nack d flt i (qw_store w))\<rparr>)"
| qs_put: "q_step hmac sha d w (w\<lparr>qw_store := snd (PutResult fails eid status sh bundle reason expires (qw_store w))\<rparr>)"
| qs_read: "read_result sha fails now eid secret (qw_store w) = Inr r \<Longrightarrow> q_step hmac sha d w (w\<lparr>qw_held := r # qw_held w\<rparr>)"
| qs_consume: "r \<in> set (qw_held w) \<Longrightarrow> consume_result fails r (qw_store w) = (Inr p, s') \<Longrightarrow>
    q_step hmac sha d w (w\<lparr>qw_store := s',
      qw_delivered := (if po_status p = ''issued'' then (qw_delivered w)(qr_id r := qw_delivered w (qr_id r) + 1) else qw_delivered w)\<rparr>)"

inductive q_steps :: "(bytes \<Rightarrow> bytes \<Rightarrow> bytes) \<Rightarrow> (bytes \<Rightarrow> bytes) \<Rightarrow> durable \<Rightarrow> q_world \<Rightarrow> q_world \<Rightarrow> bool" for hmac sha d where
  qss_refl: "q_steps hmac sha d w w"
| qss_step: "q_steps hmac sha d w w1 \<Longrightarrow> q_step hmac sha d w1 w2 \<Longrightarrow> q_steps hmac sha d w w2"

definition q_empty :: q_world where
  "q_empty = \<lparr>qw_store = \<lparr>qs_items = [], qs_item_seq = 1, qs_results = [], qs_result_seq = 1\<rparr>, qw_held = [], qw_delivered = (\<lambda>_. 0)\<rparr>"

definition result_ok :: "int \<Rightarrow> (int \<Rightarrow> nat) \<Rightarrow> q_result \<Rightarrow> bool" where
  "result_ok seq del r \<longleftrightarrow> qr_id r < seq \<and> int (del (qr_id r)) = qr_reads r \<and> qr_reads r \<le> 1"

definition q_inv :: "q_world \<Rightarrow> bool" where
  "q_inv w \<longleftrightarrow> distinct (map qr_id (qs_results (qw_store w))) \<and> distinct (map qr_eid (qs_results (qw_store w))) \<and>
     (\<forall>r\<in>set (qs_results (qw_store w)). result_ok (qs_result_seq (qw_store w)) (qw_delivered w) r) \<and>
     (\<forall>i. i \<notin> qr_id ` set (qs_results (qw_store w)) \<longrightarrow> qw_delivered w i = 0)"

text \<open>The message operations leave the results alone.\<close>

definition same_results :: "q_store \<Rightarrow> q_store \<Rightarrow> bool" where
  "same_results s s' \<longleftrightarrow> qs_results s' = qs_results s \<and> qs_result_seq s' = qs_result_seq s"

lemma item_ops_results:
  "same_results s (snd (Publish hmac d flt c s))" "same_results s (snd (Claim hmac d flt now limit ttl s))"
  "same_results s (snd (Ack fails i s))" "same_results s (snd (Nack d flt i s))"
  by (auto simp: same_results_def Publish_def Claim_def Ack_def Nack_def Let_def split: option.splits prod.splits)

lemma q_inv_same: "q_inv w \<Longrightarrow> same_results (qw_store w) s \<Longrightarrow> q_inv (w\<lparr>qw_store := s\<rparr>)"
  by (simp add: q_inv_def same_results_def)

lemma q_inv_put:
  assumes "q_inv w"
  shows "q_inv (w\<lparr>qw_store := snd (PutResult fails eid status sh bundle reason expires (qw_store w))\<rparr>)"
proof (cases "fails \<or> list_ex (\<lambda>r. qr_eid r = eid) (qs_results (qw_store w))")
  case True
  then show ?thesis using assms
    by (auto simp: PutResult_def q_inv_def result_ok_def set_update_where map_key_update_where image_Un image_image)
next
  case False
  let ?w = "w\<lparr>qw_store := snd (PutResult fails eid status sh bundle reason expires (qw_store w))\<rparr>"
  have fresh: "r \<in> set (qs_results (qw_store w)) \<Longrightarrow> qr_eid r \<noteq> eid \<and> qr_id r < qs_result_seq (qw_store w)" for r
    using False assms by (auto simp: list_ex_iff q_inv_def result_ok_def)
  then have "qs_result_seq (qw_store w) \<notin> qr_id ` set (qs_results (qw_store w))" by fastforce
  then have "qw_delivered w (qs_result_seq (qw_store w)) = 0" using assms by (simp add: q_inv_def)
  then show ?thesis using False assms fresh by (auto simp: PutResult_def q_inv_def result_ok_def dest: fresh)
qed

lemma q_inv_consume:
  assumes inv: "q_inv w" and c: "consume_result fails r (qw_store w) = (Inr p, s')"
  shows "q_inv (w\<lparr>qw_store := s',
    qw_delivered := (if po_status p = ''issued'' then (qw_delivered w)(qr_id r := qw_delivered w (qr_id r) + 1) else qw_delivered w)\<rparr>)"
proof (cases "qr_status r = ''issued''")
  case False
  then have "s' = qw_store w" "po_status p \<noteq> ''issued''" using c by (auto simp: consume_result_def Let_def)
  then show ?thesis using inv by simp
next
  case True
  then have ex: "list_ex (unread (qr_id r)) (qs_results (qw_store w))" and p: "po_status p = ''issued''"
    and s': "s' = (qw_store w)\<lparr>qs_results := update_where (unread (qr_id r)) (\<lambda>q. q\<lparr>qr_reads := qr_reads q + 1\<rparr>) (qs_results (qw_store w))\<rparr>"
    using c by (auto simp: consume_result_def Let_def split: if_splits)
  obtain q where q: "q \<in> set (qs_results (qw_store w))" "unread (qr_id r) q" using ex by (auto simp: list_ex_iff)
  have same: "unread (qr_id r) t \<longleftrightarrow> qr_id t = qr_id r" if "t \<in> set (qs_results (qw_store w))" for t
    using inv q that by (auto simp: q_inv_def unread_def dest: distinct_map_inj)
  then show ?thesis using inv q p unfolding s'
    by (auto simp: q_inv_def result_ok_def set_update_where map_key_update_where image_Un image_image unread_def)
qed

lemma q_inv_step: "q_step hmac sha d w w' \<Longrightarrow> q_inv w \<Longrightarrow> q_inv w'"
proof (induction rule: q_step.induct)
  case (qs_read fails now eid secret w r)
  then show ?case by (simp add: q_inv_def)
qed (simp_all only: q_inv_same item_ops_results q_inv_put q_inv_consume)

lemma q_inv_steps: "q_steps hmac sha d w w' \<Longrightarrow> q_inv w \<Longrightarrow> q_inv w'"
  by (induction rule: q_steps.induct) (auto intro: q_inv_step)

section \<open>Delivery\<close>

text \<open>What Claim hands out, when no statement fails: the ready rows in order, up to the limit, without the forged ones.\<close>

lemma claim_row_other:
  assumes "qi_id r \<noteq> qi_id it"
  shows "list_ex (claimable (qi_id r)) (snd (claim_row hmac d fails lease it items)) = list_ex (claimable (qi_id r)) items"
  using assms by (auto simp: claim_row_def set_status_def list_ex_iff set_update_where claimable_def)

lemma claim_rows_outs:
  assumes "distinct (map qi_id rows)" "\<And>r. r \<in> set rows \<Longrightarrow> list_ex (claimable (qi_id r)) items"
  shows "fst (claim_rows hmac d no_faults lease rows items) = map lease_of (filter (\<lambda>it. qi_mac it = q_mac hmac d it) rows)"
  using assms
proof (induction rows arbitrary: items)
  case (Cons it rows)
  let ?s = "claim_row hmac d False lease it items"
  have rest: "list_ex (claimable (qi_id r)) (snd ?s)" if "r \<in> set rows" for r
  proof -
    have "qi_id r \<in> qi_id ` set rows" using that by (rule imageI)
    then have "qi_id r \<noteq> qi_id it" using Cons.prems(1) by (metis distinct.simps(2) list.set_map list.simps(9))
    then show ?thesis using Cons.prems(2) [of r] that by (simp add: claim_row_other)
  qed
  have "distinct (map qi_id rows)" using Cons.prems(1) by simp
  then have ih: "fst (claim_rows hmac d no_faults lease rows (snd ?s)) = map lease_of (filter (\<lambda>it. qi_mac it = q_mac hmac d it) rows)"
    by (rule Cons.IH) (rule rest)
  have "fst ?s = (if qi_mac it = q_mac hmac d it then Some (lease_of it) else None)"
    using Cons.prems(2) by (simp add: claim_row_def)
  moreover have "claim_rows hmac d no_faults lease (it # rows) items =
    (let (o1, items1) = ?s; (outs, items2) = claim_rows hmac d no_faults lease rows items1 in (case o1 of None \<Rightarrow> outs | Some l \<Rightarrow> l # outs, items2))"
    by (subst claim_rows.simps, subst skip_no_faults, subst no_faults_apply) (rule refl)
  ultimately show ?case using ih
    by (cases ?s; cases "claim_rows hmac d no_faults lease rows (snd ?s)") (auto simp del: no_faults_apply claim_rows.simps)
qed simp

lemma Claim_outs:
  assumes "distinct (map qi_id (qs_items s))"
  shows "fst (Claim hmac d no_faults now limit ttl s) = Inr (map lease_of (filter (\<lambda>it. qi_mac it = q_mac hmac d it)
    (take limit (filter (\<lambda>it. qi_status it = QReady) (reclaim now (qs_items s))))))"
proof -
  let ?rows = "take limit (filter (\<lambda>it. qi_status it = QReady) (reclaim now (qs_items s)))"
  have "distinct (map qi_id (reclaim now (qs_items s)))" using assms by (simp add: reclaim_def map_key_update_where)
  then have "distinct (map qi_id ?rows)" by (metis distinct_map_filter distinct_take take_map)
  moreover have "list_ex (claimable (qi_id r)) (reclaim now (qs_items s))" if "r \<in> set ?rows" for r
    using that set_take_subset by (fastforce simp: list_ex_iff claimable_def)
  ultimately have "fst (claim_rows hmac d no_faults (now + ttl) ?rows (reclaim now (qs_items s))) =
    map lease_of (filter (\<lambda>it. qi_mac it = q_mac hmac d it) ?rows)" by (rule claim_rows_outs)
  then show ?thesis by (auto simp: Claim_def Let_def split: prod.splits)
qed

text \<open>The MAC and the delivered fields do not see the status, the lease or the attempt count.\<close>

lemma reclaim_origin:
  assumes "it \<in> set (reclaim now items)"
  shows "\<exists>it0\<in>set items. lease_of it = lease_of it0 \<and> qi_mac it = qi_mac it0 \<and> q_mac hmac d it = q_mac hmac d it0"
  using assms by (auto simp: reclaim_def set_update_where lease_of_def q_mac_def)

definition items_wf :: "q_store \<Rightarrow> bool" where
  "items_wf s \<longleftrightarrow> distinct (map qi_id (qs_items s)) \<and> list_all (\<lambda>it. qi_id it < qs_item_seq s) (qs_items s)"

lemma items_wf_ops:
  assumes "items_wf s"
  shows "items_wf (snd (Publish hmac d flt c s))" "items_wf (snd (Ack fails i s))" "items_wf (snd (Nack d flt i s))"
  using assms by (auto simp: items_wf_def Publish_def new_item_def Let_def Ack_def Nack_def set_status_def list_all_iff set_update_where
    set_delete_where map_key_update_where split: option.splits)

section \<open>Properties\<close>

text \<open>
  C33: An enrolment bundle is handed out at most once: however gateway and Core processes interleave their statements on
  the shared store (polls that read before others consume, results rewritten in between, failing statements), at most one
  poll ever receives the issued bundle of a result row, and an enrolment has at most one row.
\<close>

theorem bundle_read_once:
  assumes "q_steps hmac sha d q_empty w"
  shows "qw_delivered w i \<le> 1 \<and> distinct (map qr_eid (qs_results (qw_store w)))"
proof -
  have "q_inv q_empty" by (simp add: q_inv_def q_empty_def)
  then have inv: "q_inv w" using q_inv_steps [OF assms] by blast
  then have "qw_delivered w i \<le> 1"
    by (cases "i \<in> qr_id ` set (qs_results (qw_store w))") (auto simp: q_inv_def result_ok_def)
  then show ?thesis using inv by (simp add: q_inv_def)
qed

definition demo_row :: q_result where
  "demo_row = \<lparr>qr_id = 1, qr_eid = ''e'', qr_status = ''issued'', qr_bundle = ''b'', qr_secret_hash = str_bytes ''k'', qr_reason = '''', qr_expires = 0, qr_reads = 0\<rparr>"

definition demo_durable :: durable where
  "demo_durable = \<lparr>du_key = replicate 16 0, du_max_depth = 10, du_max_attempts = 5\<rparr>"

theorem bundle_read_once_witness:
  "\<exists>w. q_steps (\<lambda>k m. m) id demo_durable q_empty w \<and> qw_delivered w 1 = 1 \<and> length (qw_held w) = 2 \<and>
     fst (consume_result False demo_row (qw_store w)) = Inl ErrResultGone \<and> qw_delivered w 1 \<le> 1"
proof -
  let ?step = "q_step (\<lambda>k m. m) id demo_durable"
  define w1 where "w1 = q_empty\<lparr>qw_store := snd (PutResult False ''e'' ''issued'' (str_bytes ''k'') ''b'' '''' 0 (qw_store q_empty))\<rparr>"
  define w3 where "w3 = w1\<lparr>qw_held := [demo_row, demo_row]\<rparr>"
  define w4 where "w4 = w3\<lparr>qw_store := (qw_store w3)\<lparr>qs_results := [demo_row\<lparr>qr_reads := 1\<rparr>]\<rparr>, qw_delivered := (qw_delivered w3)(1 := qw_delivered w3 1 + 1)\<rparr>"
  have rd: "read_result id False 0 ''e'' ''k'' (qw_store w1) = Inr demo_row"
    by (simp add: w1_def q_empty_def PutResult_def read_result_def demo_row_def)
  have "?step q_empty w1" unfolding w1_def by (rule qs_put)
  moreover have "?step w1 (w1\<lparr>qw_held := [demo_row]\<rparr>)"
    using qs_read [OF rd] by (simp add: w1_def q_empty_def)
  moreover have "?step (w1\<lparr>qw_held := [demo_row]\<rparr>) w3"
    using qs_read [of id False 0 "''e''" "''k''" "w1\<lparr>qw_held := [demo_row]\<rparr>" demo_row] rd by (simp add: w3_def)
  moreover have "?step w3 w4"
  proof -
    have "consume_result False demo_row (qw_store w3) = (Inr \<lparr>po_status = ''issued'', po_bundle = ''b'', po_reason = ''''\<rparr>,
        (qw_store w3)\<lparr>qs_results := [demo_row\<lparr>qr_reads := 1\<rparr>]\<rparr>)"
      by (simp add: consume_result_def w3_def w1_def q_empty_def PutResult_def unread_def demo_row_def)
    from qs_consume [OF _ this, of "\<lambda>k m. m" id demo_durable] show ?thesis by (simp add: w4_def w3_def demo_row_def)
  qed
  ultimately have st: "q_steps (\<lambda>k m. m) id demo_durable q_empty w4" by (meson qss_refl qss_step)
  have "qw_delivered w4 1 = 1" "length (qw_held w4) = 2" "fst (consume_result False demo_row (qw_store w4)) = Inl ErrResultGone"
    by (simp_all add: w4_def w3_def w1_def q_empty_def consume_result_def unread_def demo_row_def)
  then show ?thesis using st bundle_read_once [OF st, of 1] by blast
qed

text \<open>
  A published candidate is delivered, and only authentic ones are: once Publish has accepted it, a claim on a working
  store with room for the backlog hands it out with exactly the published fields as a first attempt, and
  every message the claim hands out carries a valid MAC over its fields under the shared key.
\<close>

theorem published_message_delivered:
  assumes "items_wf s" "Publish hmac d flt c s = (None, s1)" "length (qs_items s1) \<le> limit"
  shows "\<exists>outs s2. Claim hmac d no_faults now limit ttl s1 = (Inr outs, s2) \<and>
    \<lparr>ls_id = qs_item_seq s, ls_cand = c, ls_attempts = 1\<rparr> \<in> set outs \<and>
    (\<forall>l\<in>set outs. \<exists>it\<in>set (qs_items s1). qi_mac it = q_mac hmac d it \<and> l = lease_of it)"
proof -
  let ?it = "new_item hmac d (qs_item_seq s) c"
  have s1: "qs_items s1 = qs_items s @ [?it]" using assms(2) by (auto simp: Publish_def split: if_splits)
  have "distinct (map qi_id (qs_items s1))" using items_wf_ops(1) [OF assms(1), of hmac d flt c] assms(2) by (simp add: items_wf_def)
  note outs = Claim_outs [OF this, of hmac d now limit ttl]
  have it: "?it \<in> set (reclaim now (qs_items s1))" "qi_status ?it = QReady" "qi_mac ?it = q_mac hmac d ?it"
    "lease_of ?it = \<lparr>ls_id = qs_item_seq s, ls_cand = c, ls_attempts = 1\<rparr>"
    by (auto simp: s1 reclaim_def set_update_where new_item_def Let_def q_mac_def lease_of_def)
  have tk: "take limit (filter P (reclaim now (qs_items s1))) = filter P (reclaim now (qs_items s1))" for P
    using assms(3) length_filter_le [of P "reclaim now (qs_items s1)"] by (simp add: reclaim_def)
  obtain s2 where c: "Claim hmac d no_faults now limit ttl s1 = (Inr (map lease_of (filter (\<lambda>it. qi_mac it = q_mac hmac d it)
      (filter (\<lambda>it. qi_status it = QReady) (reclaim now (qs_items s1))))), s2)"
    using outs unfolding tk by (metis fst_conv surj_pair)
  have "\<exists>it\<in>set (qs_items s1). qi_mac it = q_mac hmac d it \<and> lease_of r = lease_of it"
    if "r \<in> set (reclaim now (qs_items s1))" "qi_mac r = q_mac hmac d r" for r
    using reclaim_origin [OF that(1), of hmac d] that(2) by metis
  then show ?thesis using c it by (auto intro!: image_eqI [where x = ?it])
qed

definition demo_candidate :: candidate where
  "demo_candidate = \<lparr>cd_id = ''e'', cd_pubkey = ''p'', cd_jws = ''j'', cd_secret_hash = [], cd_received = 4\<rparr>"

definition demo_store :: q_store where
  "demo_store = \<lparr>qs_items = [], qs_item_seq = 1, qs_results = [], qs_result_seq = 1\<rparr>"

theorem published_message_delivered_witness:
  "fst (Publish (\<lambda>k m. []) demo_durable no_faults demo_candidate demo_store) = None \<and>
   (\<exists>outs s2. Claim (\<lambda>k m. []) demo_durable no_faults 9 10 60 (snd (Publish (\<lambda>k m. []) demo_durable no_faults demo_candidate demo_store)) = (Inr outs, s2) \<and>
      \<lparr>ls_id = 1, ls_cand = demo_candidate, ls_attempts = 1\<rparr> \<in> set outs)"
proof -
  obtain s1 where s1: "Publish (\<lambda>k m. []) demo_durable no_faults demo_candidate demo_store = (None, s1)" "length (qs_items s1) \<le> 10"
    by (simp add: Publish_def demo_store_def demo_durable_def)
  have "items_wf demo_store" "qs_item_seq demo_store = 1" by (simp_all add: items_wf_def demo_store_def)
  then show ?thesis using published_message_delivered [OF _ s1, of 9 60] s1 by auto
qed

end
