(* ===== verification/Gostrings.thy ===== *)
theory Gostrings
  imports Prelude
begin

text \<open>
  The functions of Go's \<open>strings\<close> and \<open>strconv\<close> packages that the components call, on byte strings.
  Space and letter case are the ASCII ones.  \<open>Atoi\<close> keeps the 64-bit range of \<open>int\<close>.
\<close>

definition is_space :: "char \<Rightarrow> bool" where
  "is_space c \<longleftrightarrow> c \<in> {CHR 0x09, CHR 0x0A, CHR 0x0B, CHR 0x0C, CHR 0x0D, CHR '' ''}"

definition TrimSpace :: "string \<Rightarrow> string" where
  "TrimSpace s = rev (dropWhile is_space (rev (dropWhile is_space s)))"

text \<open>\<open>split_by P\<close> cuts at every character that satisfies \<open>P\<close>; \<open>Split\<close> has a one-character separator.\<close>

fun split_by :: "(char \<Rightarrow> bool) \<Rightarrow> string \<Rightarrow> string list" where
  "split_by P [] = [[]]"
| "split_by P (c # s) = (if P c then [] # split_by P s
     else (case split_by P s of [] \<Rightarrow> [[c]] | w # ws \<Rightarrow> (c # w) # ws))"

definition Split :: "string \<Rightarrow> char \<Rightarrow> string list" where
  "Split s sep = split_by (\<lambda>c. c = sep) s"

definition Fields :: "string \<Rightarrow> string list" where
  "Fields s = filter (\<lambda>w. w \<noteq> []) (split_by is_space s)"

definition HasPrefix :: "string \<Rightarrow> string \<Rightarrow> bool" where
  "HasPrefix s p \<longleftrightarrow> take (length p) s = p"

definition TrimPrefix :: "string \<Rightarrow> string \<Rightarrow> string" where
  "TrimPrefix s p = (if HasPrefix s p then drop (length p) s else s)"

definition lower_char :: "char \<Rightarrow> char" where
  "lower_char c = (if 65 \<le> (of_char c :: nat) \<and> (of_char c :: nat) \<le> 90 then char_of ((of_char c :: nat) + 32) else c)"

definition ToLower :: "string \<Rightarrow> string" where
  "ToLower s = map lower_char s"

text \<open>\<open>Cut\<close> with a one-character separator: the parts around its first occurrence.\<close>

definition Cut :: "string \<Rightarrow> char \<Rightarrow> (string \<times> string) option" where
  "Cut s sep =
     (let before = takeWhile (\<lambda>c. c \<noteq> sep) s in
      if length before = length s then None else Some (before, drop (length before + 1) s))"

definition is_digit :: "char \<Rightarrow> bool" where
  "is_digit c \<longleftrightarrow> 48 \<le> (of_char c :: nat) \<and> (of_char c :: nat) \<le> 57"

definition digits_val :: "string \<Rightarrow> nat" where
  "digits_val s = foldl (\<lambda>n c. n * 10 + ((of_char c :: nat) - 48)) 0 s"

definition Atoi :: "string \<Rightarrow> int option" where
  "Atoi s =
     (let neg = (s \<noteq> [] \<and> hd s = CHR ''-'');
          ds = (if s \<noteq> [] \<and> (hd s = CHR ''-'' \<or> hd s = CHR ''+'') then tl s else s) in
      if ds = [] \<or> \<not> list_all is_digit ds then None
      else let v = (if neg then - int (digits_val ds) else int (digits_val ds)) in
           if v < - (2 ^ 63) \<or> 2 ^ 63 \<le> v then None else Some v)"

subsection \<open>Splitting\<close>

lemma split_by_nonempty [simp]: "split_by P s \<noteq> []"
  by (induction s) (auto split: list.splits)

lemma split_by_free: "list_all (\<lambda>c. \<not> P c) w \<Longrightarrow> split_by P w = [w]"
  by (induction w) auto

lemma split_by_cons:
  "list_all (\<lambda>c. \<not> P c) w \<Longrightarrow> P c \<Longrightarrow> split_by P (w @ c # s) = w # split_by P s"
  by (induction w) (auto split: list.splits)

lemma split_by_parts: "w \<in> set (split_by P s) \<Longrightarrow> list_all (\<lambda>c. \<not> P c) w"
proof (induction s arbitrary: w)
  case (Cons c s)
  then show ?case by (auto split: if_splits list.splits)
qed simp

lemma Fields_cons:
  assumes "w \<noteq> []" "list_all (\<lambda>c. \<not> is_space c) w"
  shows "Fields (w @ CHR '' '' # s) = w # Fields s" "Fields w = [w]"
proof -
  have sp: "is_space (CHR '' '')" by (simp add: is_space_def)
  show "Fields (w @ CHR '' '' # s) = w # Fields s"
    using assms(1) unfolding Fields_def by (subst split_by_cons [OF assms(2) sp]) simp
  show "Fields w = [w]"
    using assms(1) unfolding Fields_def by (subst split_by_free [OF assms(2)]) simp
qed

lemma Fields_words: "w \<in> set (Fields s) \<Longrightarrow> w \<noteq> [] \<and> list_all (\<lambda>c. \<not> is_space c) w"
  unfolding Fields_def using split_by_parts by auto

lemma TrimSpace_id:
  assumes "s \<noteq> []" "\<not> is_space (hd s)" "\<not> is_space (last s)"
  shows "TrimSpace s = s"
proof -
  have "dropWhile is_space s = s" using assms by (cases s) auto
  moreover have "dropWhile is_space (rev s) = rev s"
    using assms by (cases s rule: rev_cases) auto
  ultimately show ?thesis by (simp add: TrimSpace_def)
qed

subsection \<open>Numbers\<close>

lemma Atoi_chars:
  assumes "Atoi s = Some n" "c \<in> set s"
  shows "is_digit c \<or> c = CHR ''-'' \<or> c = CHR ''+''"
proof (cases s)
  case (Cons a t)
  then show ?thesis using assms
    by (auto simp: Atoi_def Let_def list_all_iff split: if_splits)
qed (use assms in simp)

lemma Atoi_nonempty: "Atoi [] = None"
  by (simp add: Atoi_def)

lemma Cut_None_iff: "Cut s sep = None \<longleftrightarrow> sep \<notin> set s"
proof -
  have "takeWhile (\<lambda>c. c \<noteq> sep) s = s \<longleftrightarrow> sep \<notin> set s" by (auto simp: takeWhile_eq_all_conv)
  moreover have "length (takeWhile (\<lambda>c. c \<noteq> sep) s) = length s \<longleftrightarrow> takeWhile (\<lambda>c. c \<noteq> sep) s = s"
    by (metis takeWhile_eq_take take_all_iff nle_le)
  ultimately show ?thesis by (simp add: Cut_def Let_def)
qed

lemma Cut_Some: "Cut s sep = Some (a, b) \<longleftrightarrow> s = a @ sep # b \<and> sep \<notin> set a"
proof
  assume "Cut s sep = Some (a, b)"
  then have ab: "a = takeWhile (\<lambda>c. c \<noteq> sep) s" "b = drop (length a + 1) s" and ne: "length a \<noteq> length s"
    by (auto simp: Cut_def Let_def split: if_splits)
  have s: "s = a @ dropWhile (\<lambda>c. c \<noteq> sep) s" by (simp add: ab(1))
  have "dropWhile (\<lambda>c. c \<noteq> sep) s \<noteq> []" using ne s by (metis append_Nil2)
  then obtain t where t: "dropWhile (\<lambda>c. c \<noteq> sep) s = sep # t"
    by (metis (mono_tags, lifting) hd_dropWhile list.collapse)
  then have "s = a @ sep # t" using s by simp
  moreover from this have "b = t" by (simp add: ab(2))
  moreover have "sep \<notin> set a" by (auto simp: ab(1) dest: set_takeWhileD)
  ultimately show "s = a @ sep # b \<and> sep \<notin> set a" by simp
next
  assume h: "s = a @ sep # b \<and> sep \<notin> set a"
  then have "takeWhile (\<lambda>c. c \<noteq> sep) s = a" by (subst conjunct1 [OF h]) (auto simp: takeWhile_append)
  then show "Cut s sep = Some (a, b)" using h by (simp add: Cut_def Let_def)
qed

end
