(* ===== verification/Breaker.thy ===== *)
theory Breaker
  imports Prelude
begin

text \<open>
  The signing circuit breaker of \<open>internal/signer\<close>: the in-process one (\<open>breaker.go\<close>) and the shared one over the
  tables \<open>signer_breaker\<close> and \<open>signer_issuance\<close> (\<open>breaker_sql.go\<close>), whose count-and-latch transaction runs under
  an advisory lock and is one step here.  Both are proved to refine one abstract breaker that remembers every
  issuance since the last reset.  A call reads its clock once.
\<close>

datatype br_out = BrErr | BrAllowed | BrRefused | BrTripped

subsection \<open>The in-process breaker\<close>

record breaker =
  br_max :: int
  br_window :: int
  br_events :: "time_ns list"
  br_open :: bool

definition newBreaker :: "int \<Rightarrow> int \<Rightarrow> breaker" where
  "newBreaker mx window = \<lparr>br_max = mx, br_window = window, br_events = [], br_open = False\<rparr>"

definition br_acquire :: "time_ns \<Rightarrow> breaker \<Rightarrow> br_out \<times> breaker" where
  "br_acquire now b =
     (if br_open b then (BrRefused, b)
      else if br_max b \<le> 0 then (BrAllowed, b)
      else
        let kept = filter (\<lambda>t. t > now - br_window b) (br_events b) in
        if int (length kept) \<ge> br_max b then (BrTripped, b\<lparr>br_events := kept, br_open := True\<rparr>)
        else (BrAllowed, b\<lparr>br_events := kept @ [now]\<rparr>))"

definition br_reset :: "breaker \<Rightarrow> breaker" where
  "br_reset b = b\<lparr>br_open := False, br_events := []\<rparr>"

definition br_limit :: "breaker \<Rightarrow> int" where
  "br_limit b = br_max b"

definition br_isOpen :: "breaker \<Rightarrow> bool" where
  "br_isOpen b = br_open b"

subsection \<open>The shared breaker\<close>

definition breakerGCInterval :: int where "breakerGCInterval = 60 * 10 ^ 9"

record latch_row =
  la_lane :: string
  la_open :: bool
  la_opened_at :: time_ns

record issuance_row =
  is_id :: int
  is_lane :: string
  is_ts :: time_ns

record br_tables =
  bt_latches :: "latch_row list"
  bt_issuances :: "issuance_row list"
  bt_seq :: int

record sql_breaker =
  sb_lane :: string
  sb_max :: int
  sb_window :: int

text \<open>The tables and the time of the last sweep of each process.\<close>

type_synonym sb_state = "br_tables \<times> (nat \<Rightarrow> time_ns option)"

definition upsertLatch :: "latch_row \<Rightarrow> br_tables \<Rightarrow> br_tables" where
  "upsertLatch row tb =
     (if list_ex (\<lambda>r. la_lane r = la_lane row) (bt_latches tb)
      then tb\<lparr>bt_latches := update_where (\<lambda>r. la_lane r = la_lane row)
                (\<lambda>r. r\<lparr>la_open := la_open row, la_opened_at := la_opened_at row\<rparr>) (bt_latches tb)\<rparr>
      else tb\<lparr>bt_latches := bt_latches tb @ [row]\<rparr>)"

definition sb_maybeGC :: "bool \<Rightarrow> sql_breaker \<Rightarrow> nat \<Rightarrow> time_ns \<Rightarrow> sb_state \<Rightarrow> sb_state" where
  "sb_maybeGC fails b proc now st =
     (case st of (tb, gc) \<Rightarrow>
        if (case gc proc of None \<Rightarrow> False | Some prev \<Rightarrow> now - prev < breakerGCInterval) then (tb, gc)
        else (if fails then tb
              else tb\<lparr>bt_issuances := delete_where (\<lambda>r. is_lane r = sb_lane b \<and> is_ts r < now - sb_window b) (bt_issuances tb)\<rparr>,
              gc(proc := Some now)))"

definition latch_of :: "string \<Rightarrow> br_tables \<Rightarrow> latch_row" where
  "latch_of lane tb =
     (case first_where (\<lambda>r. la_lane r = lane) (bt_latches tb) of
        None \<Rightarrow> \<lparr>la_lane = lane, la_open = False, la_opened_at = 0\<rparr>
      | Some r \<Rightarrow> r)"

definition sb_transaction :: "faults \<Rightarrow> sql_breaker \<Rightarrow> time_ns \<Rightarrow> br_tables \<Rightarrow> br_out \<times> br_tables" where
  "sb_transaction flt b now tb =
     (if flt 0 \<or> flt 1 then (BrErr, tb)
      else
        let row = latch_of (sb_lane b) tb in
        if la_open row then (BrRefused, tb)
        else if flt 2 then (BrErr, tb)
        else if int (count_where (\<lambda>r. is_lane r = sb_lane b \<and> is_ts r > now - sb_window b) (bt_issuances tb)) \<ge> sb_max b
        then (if flt 3 then (BrErr, tb) else (BrTripped, upsertLatch (row\<lparr>la_open := True, la_opened_at := now\<rparr>) tb))
        else if flt 3 then (BrErr, tb)
        else (BrAllowed, tb\<lparr>bt_issuances := bt_issuances tb @ [\<lparr>is_id = bt_seq tb, is_lane = sb_lane b, is_ts = now\<rparr>],
                            bt_seq := bt_seq tb + 1\<rparr>))"

definition sb_acquire :: "faults \<Rightarrow> sql_breaker \<Rightarrow> nat \<Rightarrow> time_ns \<Rightarrow> sb_state \<Rightarrow> br_out \<times> sb_state" where
  "sb_acquire flt b proc now st =
     (if sb_max b \<le> 0 then (BrAllowed, st)
      else case sb_maybeGC (flt 4) b proc now st of
        (tb, gc) \<Rightarrow> (case sb_transaction flt b now tb of (r, tb') \<Rightarrow> (r, (tb', gc))))"

definition sb_isOpen :: "bool \<Rightarrow> sql_breaker \<Rightarrow> br_tables \<Rightarrow> bool option" where
  "sb_isOpen fails b tb = (if sb_max b \<le> 0 then Some False else if fails then None else Some (la_open (latch_of (sb_lane b) tb)))"

definition sb_reset :: "faults \<Rightarrow> sql_breaker \<Rightarrow> br_tables \<Rightarrow> bool \<times> br_tables" where
  "sb_reset flt b tb =
     (if flt 0 \<or> flt 1 then (False, tb)
      else (True, upsertLatch \<lparr>la_lane = sb_lane b, la_open = False, la_opened_at = 0\<rparr>
              (tb\<lparr>bt_issuances := delete_where (\<lambda>r. is_lane r = sb_lane b) (bt_issuances tb)\<rparr>)))"

subsection \<open>The abstract breaker\<close>

text \<open>Every issuance since the last reset, and the latch.\<close>

type_synonym abs_br = "time_ns list \<times> bool"

definition abs_acquire :: "int \<Rightarrow> int \<Rightarrow> time_ns \<Rightarrow> abs_br \<Rightarrow> br_out \<times> abs_br" where
  "abs_acquire mx window now a =
     (if snd a then (BrRefused, a)
      else if mx \<le> 0 then (BrAllowed, (fst a @ [now], False))
      else if int (length (filter (\<lambda>t. t > now - window) (fst a))) \<ge> mx then (BrTripped, (fst a, True))
      else (BrAllowed, (fst a @ [now], False)))"

text \<open>
  A concrete breaker refines it when its own record of recent issuances agrees with the full one on every
  window that can still be asked for.
\<close>

fun outputs_of :: "('i \<Rightarrow> 's \<Rightarrow> br_out \<times> 's) \<Rightarrow> 's \<Rightarrow> 'i list \<Rightarrow> br_out list" where
  "outputs_of acquire s [] = []"
| "outputs_of acquire s (i # is) = (case acquire i s of (r, s') \<Rightarrow> r # outputs_of acquire s' is)"

definition in_window :: "int \<Rightarrow> time_ns \<Rightarrow> time_ns \<Rightarrow> bool" where
  "in_window window u t \<longleftrightarrow> u - window < t \<and> t \<le> u"

locale breaker_refines =
  fixes acquire :: "'i \<Rightarrow> 's \<Rightarrow> br_out \<times> 's"
    and clock :: "'i \<Rightarrow> time_ns"
    and rel :: "time_ns \<Rightarrow> abs_br \<Rightarrow> 's \<Rightarrow> bool"
    and mx :: int
    and window :: int
  assumes acquire_refines: "rel t a s \<Longrightarrow> t \<le> clock i \<Longrightarrow> fst (acquire i s) \<noteq> BrErr \<Longrightarrow>
      fst (acquire i s) = fst (abs_acquire mx window (clock i) a) \<and>
      rel (clock i) (snd (abs_acquire mx window (clock i) a)) (snd (acquire i s))"
    and acquire_err: "rel t a s \<Longrightarrow> t \<le> clock i \<Longrightarrow> fst (acquire i s) = BrErr \<Longrightarrow> rel (clock i) a (snd (acquire i s))"
begin

lemma outputs_refine:
  assumes "rel t a s" "sorted (t # map clock is)" "BrErr \<notin> set (outputs_of acquire s is)"
  shows "outputs_of acquire s is = outputs_of (\<lambda>i. abs_acquire mx window (clock i)) a is"
  using assms
proof (induction "is" arbitrary: t a s)
  case (Cons i "is")
  obtain r s' where r: "acquire i s = (r, s')" by (cases "acquire i s")
  obtain q a' where q: "abs_acquire mx window (clock i) a = (q, a')" by (cases "abs_acquire mx window (clock i) a")
  have "r = q" "rel (clock i) a' s'" using acquire_refines [OF Cons.prems(1), of i] Cons.prems(2,3) r q by auto
  then show ?case using Cons.IH [of "clock i" a' s'] Cons.prems(2,3) r q by simp
qed simp

text \<open>A call that is granted keeps every window of the grants since some moment at the ceiling, whatever was recorded before that.\<close>

lemma acquire_bound:
  assumes "rel t (old @ ev, opn) s" "t \<le> clock i" "mx > 0" "\<And>u. int (length (filter (in_window window u) ev)) \<le> mx"
  defines "ev' \<equiv> ev @ (if fst (acquire i s) = BrAllowed then [clock i] else [])"
  shows "\<exists>o'. rel (clock i) (old @ ev', o') (snd (acquire i s))" "int (length (filter (in_window window u) ev')) \<le> mx"
proof -
  let ?n = "clock i"
  show "\<exists>o'. rel ?n (old @ ev', o') (snd (acquire i s))"
  proof (cases "fst (acquire i s) = BrErr")
    case True
    then show ?thesis using acquire_err [OF assms(1,2)] by (auto simp: ev'_def)
  next
    case False
    then show ?thesis using acquire_refines [OF assms(1,2)] assms(3)
      by (cases opn) (auto simp: abs_acquire_def ev'_def split: if_splits)
  qed
  show "int (length (filter (in_window window u) ev')) \<le> mx"
  proof (cases "fst (acquire i s) = BrAllowed \<and> in_window window u ?n")
    case True
    then have "int (length (filter (\<lambda>e. e > ?n - window) (old @ ev))) < mx"
      using acquire_refines [OF assms(1,2)] assms(3) by (auto simp: abs_acquire_def split: if_splits)
    moreover have "filter (in_window window u) ev = filter (in_window window u) (filter (\<lambda>e. e > ?n - window) ev)"
      using True by (auto simp: in_window_def intro!: filter_cong)
    then have "length (filter (in_window window u) ev) \<le> length (filter (\<lambda>e. e > ?n - window) ev)"
      by (metis length_filter_le)
    ultimately show ?thesis using True by (simp add: ev'_def)
  qed (use assms(4) [of u] in \<open>auto simp: ev'_def\<close>)
qed

end

subsection \<open>Both breakers refine it\<close>

definition br_rel :: "int \<Rightarrow> int \<Rightarrow> time_ns \<Rightarrow> abs_br \<Rightarrow> breaker \<Rightarrow> bool" where
  "br_rel mx window t a b \<longleftrightarrow> br_max b = mx \<and> br_window b = window \<and> br_open b = snd a \<and>
     (mx > 0 \<longrightarrow> (\<forall>u \<ge> t. length (filter (\<lambda>e. e > u - window) (br_events b)) = length (filter (\<lambda>e. e > u - window) (fst a))))"

lemma filter_later: "u \<ge> (now :: int) \<Longrightarrow> filter (\<lambda>e. now - w < e \<and> u - w < e) xs = filter ((<) (u - w)) xs"
  by (auto intro: filter_cong)

interpretation mbr: breaker_refines br_acquire "\<lambda>now. now" "br_rel mx window" mx window for mx window
proof unfold_locales
  fix t a s i
  assume r: "br_rel mx window t a s" and t: "t \<le> i"
  have n: "length (filter (\<lambda>e. e > i - window) (br_events s)) = length (filter (\<lambda>e. e > i - window) (fst a))" if "mx > 0"
    using r t that by (simp add: br_rel_def)
  show "fst (br_acquire i s) = fst (abs_acquire mx window i a) \<and> br_rel mx window i (snd (abs_acquire mx window i a)) (snd (br_acquire i s))"
    if "fst (br_acquire i s) \<noteq> BrErr"
    using r t n unfolding br_acquire_def abs_acquire_def br_rel_def Let_def
    by (auto simp: filter_later)
  show "fst (br_acquire i s) = BrErr \<Longrightarrow> br_rel mx window i a (snd (br_acquire i s))"
    by (auto simp: br_acquire_def Let_def split: if_splits)
qed

record sb_call =
  sc_flt :: faults
  sc_proc :: nat
  sc_now :: time_ns

definition sb_run :: "sql_breaker \<Rightarrow> sb_call \<Rightarrow> sb_state \<Rightarrow> br_out \<times> sb_state" where
  "sb_run b c st = sb_acquire (sc_flt c) b (sc_proc c) (sc_now c) st"

definition recent :: "sql_breaker \<Rightarrow> time_ns \<Rightarrow> br_tables \<Rightarrow> nat" where
  "recent b u tb = count_where (\<lambda>r. is_lane r = sb_lane b \<and> is_ts r > u - sb_window b) (bt_issuances tb)"

definition sb_rel :: "sql_breaker \<Rightarrow> time_ns \<Rightarrow> abs_br \<Rightarrow> sb_state \<Rightarrow> bool" where
  "sb_rel b t a st \<longleftrightarrow> (sb_max b > 0 \<longrightarrow>
       la_open (latch_of (sb_lane b) (fst st)) = snd a \<and> (\<forall>u \<ge> t. recent b u (fst st) = length (filter (\<lambda>e. e > u - sb_window b) (fst a)))) \<and>
     (sb_max b \<le> 0 \<longrightarrow> \<not> snd a)"

lemma first_updated:
  "list_ex P rows \<Longrightarrow> (\<And>r. P (f r) = P r) \<Longrightarrow> \<exists>r. first_where P (update_where P f rows) = Some (f r)"
  by (induction rows) auto

lemma latch_upsert:
  assumes l: "la_lane row = lane"
  shows "la_open (latch_of lane (upsertLatch row tb)) = la_open row"
proof (cases "list_ex (\<lambda>r. la_lane r = lane) (bt_latches tb)")
  case True
  then obtain r where "first_where (\<lambda>r. la_lane r = lane) (update_where (\<lambda>r. la_lane r = lane)
      (\<lambda>r. r\<lparr>la_open := la_open row, la_opened_at := la_opened_at row\<rparr>) (bt_latches tb)) =
      Some (r\<lparr>la_open := la_open row, la_opened_at := la_opened_at row\<rparr>)"
    using first_updated [OF True, of "\<lambda>r. r\<lparr>la_open := la_open row, la_opened_at := la_opened_at row\<rparr>"] by auto
  then show ?thesis using True l by (simp add: upsertLatch_def latch_of_def)
next
  case False
  then have "first_where (\<lambda>r. la_lane r = lane) (bt_latches tb) = None" by (auto simp: first_where_None_iff list_ex_iff)
  then show ?thesis using False l by (simp add: upsertLatch_def latch_of_def first_where_append)
qed

lemma upsert_issuances [simp]: "bt_issuances (upsertLatch row tb) = bt_issuances tb"
  by (simp add: upsertLatch_def)

lemma gc_keeps:
  assumes "sb_maybeGC f b proc now (tb, gc) = (tb', gc')"
  shows "bt_latches tb' = bt_latches tb" "u \<ge> now \<Longrightarrow> recent b u tb' = recent b u tb"
proof -
  have tb': "tb' = tb \<or> tb' = tb\<lparr>bt_issuances := delete_where (\<lambda>r. is_lane r = sb_lane b \<and> is_ts r < now - sb_window b) (bt_issuances tb)\<rparr>"
    using assms by (auto simp: sb_maybeGC_def split: if_splits)
  then show "bt_latches tb' = bt_latches tb" by auto
  have "u \<ge> now \<Longrightarrow> count_where (\<lambda>r. is_lane r = sb_lane b \<and> is_ts r > u - sb_window b)
      (delete_where (\<lambda>r. is_lane r = sb_lane b \<and> is_ts r < now - sb_window b) rows) =
      count_where (\<lambda>r. is_lane r = sb_lane b \<and> is_ts r > u - sb_window b) rows" for rows
    by (induction rows) auto
  then show "u \<ge> now \<Longrightarrow> recent b u tb' = recent b u tb" using tb' by (auto simp: recent_def)
qed

lemma latch_same: "bt_latches tb' = bt_latches tb \<Longrightarrow> latch_of lane tb' = latch_of lane tb"
  by (simp add: latch_of_def)

lemma transaction_refines:
  assumes mx: "sb_max b > 0" and lat: "la_open (latch_of (sb_lane b) tb) = snd a"
    and rec: "\<And>u. u \<ge> now \<Longrightarrow> recent b u tb = length (filter (\<lambda>e. e > u - sb_window b) (fst a))"
    and tr: "sb_transaction flt b now tb = (r, tb')"
  shows "if r = BrErr then tb' = tb
    else r = fst (abs_acquire (sb_max b) (sb_window b) now a) \<and>
      la_open (latch_of (sb_lane b) tb') = snd (snd (abs_acquire (sb_max b) (sb_window b) now a)) \<and>
      (\<forall>u \<ge> now. recent b u tb' = length (filter (\<lambda>e. e > u - sb_window b) (fst (snd (abs_acquire (sb_max b) (sb_window b) now a)))))"
proof -
  have lane: "la_lane (latch_of (sb_lane b) tb) = sb_lane b" by (auto simp: latch_of_def split: option.splits)
  have app: "recent b u (tb\<lparr>bt_issuances := bt_issuances tb @ [\<lparr>is_id = x, is_lane = sb_lane b, is_ts = now\<rparr>], bt_seq := y\<rparr>) =
      recent b u tb + (if now > u - sb_window b then 1 else 0)" for u x y
    by (simp add: recent_def)
  have ups: "recent b u (upsertLatch row tb) = recent b u tb" for u row by (simp add: recent_def)
  have lsame: "latch_of (sb_lane b) (tb\<lparr>bt_issuances := x, bt_seq := y\<rparr>) = latch_of (sb_lane b) tb" for x y
    by (rule latch_same) simp
  have cnt: "count_where (\<lambda>r. is_lane r = sb_lane b \<and> is_ts r > now - sb_window b) (bt_issuances tb) =
      length (filter (\<lambda>e. e > now - sb_window b) (fst a))"
    using rec [of now] by (simp add: recent_def)
  show ?thesis
    using tr mx lat rec lane unfolding sb_transaction_def abs_acquire_def Let_def cnt
    by (auto simp: app ups lsame latch_upsert split: if_splits)
qed

interpretation sbr: breaker_refines "sb_run b" sc_now "sb_rel b" "sb_max b" "sb_window b" for b
proof unfold_locales
  fix t a s and i :: sb_call
  assume r: "sb_rel b t a s" and t: "t \<le> sc_now i"
  obtain tb gc where s: "s = (tb, gc)" by (cases s)
  obtain tb1 gc1 where g: "sb_maybeGC (sc_flt i 4) b (sc_proc i) (sc_now i) (tb, gc) = (tb1, gc1)" by (cases "sb_maybeGC (sc_flt i 4) b (sc_proc i) (sc_now i) (tb, gc)")
  obtain o2 tb2 where tr: "sb_transaction (sc_flt i) b (sc_now i) tb1 = (o2, tb2)" by (cases "sb_transaction (sc_flt i) b (sc_now i) tb1")
  have pos: "la_open (latch_of (sb_lane b) tb1) = snd a \<and>
      (\<forall>u \<ge> sc_now i. recent b u tb1 = length (filter (\<lambda>e. e > u - sb_window b) (fst a)))" if "sb_max b > 0"
    using r t that gc_keeps [OF g] latch_same [of tb1 tb] by (simp add: sb_rel_def s)
  have call: "sb_run b i s = (if sb_max b \<le> 0 then (BrAllowed, s) else (o2, (tb2, gc1)))"
    by (simp add: sb_run_def sb_acquire_def s g tr)
  note T = transaction_refines [OF _ _ _ tr, of a]
  show "fst (sb_run b i s) = fst (abs_acquire (sb_max b) (sb_window b) (sc_now i) a) \<and>
      sb_rel b (sc_now i) (snd (abs_acquire (sb_max b) (sb_window b) (sc_now i) a)) (snd (sb_run b i s))"
    if "fst (sb_run b i s) \<noteq> BrErr"
  proof (cases "sb_max b > 0")
    case True
    then show ?thesis using T pos that call by (auto simp: sb_rel_def)
  next
    case False
    then show ?thesis using r call by (simp add: sb_rel_def abs_acquire_def)
  qed
  show "sb_rel b (sc_now i) a (snd (sb_run b i s))" if "fst (sb_run b i s) = BrErr"
    using T pos that call r by (auto simp: sb_rel_def split: if_splits)
qed

definition fresh_lane :: "sql_breaker \<Rightarrow> br_tables \<Rightarrow> bool" where
  "fresh_lane b tb \<longleftrightarrow> \<not> la_open (latch_of (sb_lane b) tb) \<and> list_all (\<lambda>r. is_lane r \<noteq> sb_lane b) (bt_issuances tb)"

lemma fresh_lane_rel: "fresh_lane b tb \<Longrightarrow> sb_rel b t ([], False) (tb, gc)"
  by (auto simp: fresh_lane_def sb_rel_def recent_def list_all_iff count_where_0_iff)

lemma newBreaker_rel: "br_rel mx window t ([], False) (newBreaker mx window)"
  by (simp add: br_rel_def newBreaker_def)

text \<open>A successful reset gives a fresh lane again.\<close>

lemma reset_fresh: "sb_reset flt b tb = (True, tb') \<Longrightarrow> fresh_lane b tb'"
  using latch_upsert [of "\<lparr>la_lane = sb_lane b, la_open = False, la_opened_at = 0\<rparr>"]
  by (auto simp: sb_reset_def fresh_lane_def list_all_iff set_delete_where split: if_splits)

text \<open>Every state of the tables records some issuances of the lane and the latch.\<close>

definition lane_times :: "sql_breaker \<Rightarrow> br_tables \<Rightarrow> time_ns list" where
  "lane_times b tb = map is_ts (filter (\<lambda>r. is_lane r = sb_lane b) (bt_issuances tb))"

lemma lane_rel:
  assumes "sb_max b > 0"
  shows "sb_rel b t (lane_times b tb, la_open (latch_of (sb_lane b) tb)) (tb, gc)"
proof -
  have "count_where (\<lambda>r. is_lane r = sb_lane b \<and> is_ts r > v) rows = length (filter (\<lambda>e. e > v) (map is_ts (filter (\<lambda>r. is_lane r = sb_lane b) rows)))"
    for rows v by (induction rows) auto
  then have "recent b u tb = length (filter (\<lambda>e. e > u - sb_window b) (lane_times b tb))" for u
    unfolding recent_def lane_times_def by blast
  then show ?thesis using assms by (simp add: sb_rel_def)
qed

subsection \<open>Histories of the shared breaker\<close>

text \<open>What any process does to a lane: ask for an issuance, or (an operator) reset the breaker at some time.\<close>

datatype sb_op = OpAcquire sb_call | OpReset faults time_ns

fun op_time :: "sb_op \<Rightarrow> time_ns" where
  "op_time (OpAcquire c) = sc_now c"
| "op_time (OpReset flt t) = t"

fun grants_of :: "sql_breaker \<Rightarrow> sb_state \<Rightarrow> sb_op list \<Rightarrow> time_ns list" where
  "grants_of b st [] = []"
| "grants_of b st (OpAcquire c # ops) =
     (case sb_run b c st of (r, st') \<Rightarrow> (if r = BrAllowed then [sc_now c] else []) @ grants_of b st' ops)"
| "grants_of b st (OpReset flt t # ops) = grants_of b (snd (sb_reset flt b (fst st)), snd st) ops"

fun resets_of :: "sql_breaker \<Rightarrow> sb_state \<Rightarrow> sb_op list \<Rightarrow> time_ns list" where
  "resets_of b st [] = []"
| "resets_of b st (OpAcquire c # ops) = resets_of b (snd (sb_run b c st)) ops"
| "resets_of b st (OpReset flt t # ops) =
     (case sb_reset flt b (fst st) of (ok, tb) \<Rightarrow> (if ok then [t] else []) @ resets_of b (tb, snd st) ops)"

lemma grants_times: "set (grants_of b st ops) \<subseteq> op_time ` set ops"
  by (induction b st ops rule: grants_of.induct) (auto split: prod.splits)

lemma failed_reset: "sb_reset flt b tb = (False, tb') \<Longrightarrow> tb' = tb"
  by (auto simp: sb_reset_def split: if_splits)

text \<open>The grants before and after a reset, in a window that contains the reset or lies on one side of it.\<close>

lemma reset_bound:
  fixes mx window :: int and u t :: time_ns
  defines "n xs \<equiv> int (length (filter (in_window window u) xs))"
  assumes "mx > 0" "n ev \<le> mx" "n gs \<le> mx * (1 + n rs)" "\<forall>e\<in>set ev. e \<le> t" "\<forall>g\<in>set gs. t \<le> g"
  shows "n (ev @ gs) \<le> mx * (1 + n (t # rs))"
proof -
  have app: "n (xs @ ys) = n xs + n ys" for xs ys by (simp add: n_def)
  consider "in_window window u t" | "t \<le> u - window" | "t > u" by (force simp: in_window_def)
  then show ?thesis
  proof cases
    case 1
    then have "n (t # rs) = n rs + 1" by (simp add: n_def)
    then show ?thesis using assms(3,4) by (simp add: app algebra_simps)
  next
    case 2
    then have "n ev = 0" "n (t # rs) = n rs" using assms(5) by (fastforce simp: n_def in_window_def filter_empty_conv)+
    then show ?thesis using assms(4) by (simp add: app)
  next
    case 3
    then have "n gs = 0" using assms(6) by (fastforce simp: n_def in_window_def filter_empty_conv)
    moreover have "mx * 1 \<le> mx * (1 + n (t # rs))" using assms(2) by (intro mult_left_mono) (simp_all add: n_def)
    ultimately show ?thesis using assms(3) by (simp add: app)
  qed
qed

lemma ceiling_from:
  assumes "sb_rel b t (old @ ev, opn) st" "sorted (t # map op_time ops)" "sb_max b > 0" "\<forall>e\<in>set ev. e \<le> t"
    and "\<And>u. int (length (filter (in_window (sb_window b) u) ev)) \<le> sb_max b"
  shows "int (length (filter (in_window (sb_window b) u) (ev @ grants_of b st ops))) \<le>
    sb_max b * (1 + int (length (filter (in_window (sb_window b) u) (resets_of b st ops))))"
  using assms
proof (induction b st ops arbitrary: t old ev opn rule: grants_of.induct)
  case (1 b st)
  then show ?case by simp
next
  case (2 b st c ops)
  obtain r st' where r: "sb_run b c st = (r, st')" by (cases "sb_run b c st")
  have t: "t \<le> sc_now c" using 2(3) by simp
  let ?ev = "ev @ (if r = BrAllowed then [sc_now c] else [])"
  obtain o' where rel: "sb_rel b (sc_now c) (old @ ?ev, o') st'"
    using sbr.acquire_bound(1) [OF 2(2) t 2(4,6)] by (auto simp: r)
  have bnd: "int (length (filter (in_window (sb_window b) u) ?ev)) \<le> sb_max b" for u
    using sbr.acquire_bound(2) [OF 2(2) t 2(4,6), of u] by (simp add: r)
  have "sorted (sc_now c # map op_time ops)" "\<forall>e\<in>set ?ev. e \<le> sc_now c" using 2(3,5) t by auto
  from 2(1) [OF r [symmetric] rel this(1) 2(4) this(2) bnd] show ?case by (simp add: r)
next
  case (3 b st flt t' ops)
  obtain ok tb where r: "sb_reset flt b (fst st) = (ok, tb)" by (cases "sb_reset flt b (fst st)")
  let ?n = "\<lambda>xs. int (length (filter (in_window (sb_window b) u) xs))"
  show ?case
  proof (cases ok)
    case False
    then have "sb_rel b t' (old @ ev, opn) (tb, snd st)" using 3(2,3) failed_reset [of flt b "fst st" tb] r by (auto simp: sb_rel_def)
    moreover have "sorted (t' # map op_time ops)" "\<forall>e\<in>set ev. e \<le> t'" using 3(3,5) by auto
    ultimately show ?thesis using 3(1) [of t' old ev opn] 3(4,6) False r by simp
  next
    case True
    have "sb_rel b t' ([] @ [], False) (tb, snd st)" using fresh_lane_rel reset_fresh r True by simp
    then have rest: "?n (grants_of b (tb, snd st) ops) \<le> sb_max b * (1 + ?n (resets_of b (tb, snd st) ops))"
      using 3(1) [of t' "[]" "[]" False] 3(3,4) r by simp
    have "\<forall>e\<in>set ev. e \<le> t'" "\<forall>g\<in>set (grants_of b (tb, snd st) ops). t' \<le> g"
      using 3(3,5) grants_times [of b "(tb, snd st)" ops] by fastforce+
    from reset_bound [OF 3(4,6) rest this] show ?thesis using r True by simp
  qed
qed

lemma latched_until_reset:
  assumes "sb_rel b t (ev, True) st" "sorted (t # map op_time ops)" "resets_of b st ops = []"
  shows "grants_of b st ops = []"
  using assms
proof (induction b st ops arbitrary: t rule: grants_of.induct)
  case (2 b st c ops)
  have t: "t \<le> sc_now c" using 2(3) by simp
  have "fst (sb_run b c st) \<noteq> BrAllowed \<and> sb_rel b (sc_now c) (ev, True) (snd (sb_run b c st))"
    using sbr.acquire_refines [OF 2(2) t] sbr.acquire_err [OF 2(2) t]
    by (cases "fst (sb_run b c st) = BrErr") (auto simp: abs_acquire_def)
  then show ?case using 2(1) [of "fst (sb_run b c st)" "snd (sb_run b c st)" "sc_now c"] 2(3,4) by (cases "sb_run b c st") auto
next
  case (3 b st flt t' ops)
  obtain ok tb where r: "sb_reset flt b (fst st) = (ok, tb)" by (cases "sb_reset flt b (fst st)")
  then have "\<not> ok" using 3(4) by (auto split: if_splits)
  then have "sb_rel b t' (ev, True) (tb, snd st)" using 3(2,3) failed_reset [of flt b "fst st" tb] r by (auto simp: sb_rel_def)
  then show ?case using 3(1) [of t'] 3(3,4) r \<open>\<not> ok\<close> by simp
qed simp

lemma no_fault_call: "fst (sb_acquire no_faults b proc now st) \<noteq> BrErr"
  by (auto simp: sb_acquire_def sb_transaction_def Let_def split: prod.splits if_splits)

lemma outputs_no_error:
  assumes "\<And>i s. i \<in> set is \<Longrightarrow> fst (acquire i s) \<noteq> BrErr"
  shows "BrErr \<notin> set (outputs_of acquire s is)"
  using assms
proof (induction "is" arbitrary: s)
  case (Cons i "is")
  then show ?case by (cases "acquire i s") (auto, metis fst_conv)
qed simp

lemma no_fault_outputs: "BrErr \<notin> set (outputs_of (sb_run b) st (map (\<lambda>(proc, t). \<lparr>sc_flt = no_faults, sc_proc = proc, sc_now = t\<rparr>) cs))"
  by (rule outputs_no_error) (auto simp: sb_run_def no_fault_call)

lemma memory_outputs: "BrErr \<notin> set (outputs_of br_acquire s ts)"
  by (rule outputs_no_error) (simp add: br_acquire_def Let_def)

lemma outputs_map: "outputs_of acq s (map f is) = outputs_of (\<lambda>i. acq (f i)) s is"
  by (induction "is" arbitrary: s) (auto split: prod.splits)

section \<open>Properties\<close>

text \<open>
  C18: The certificate ceiling holds fleet-wide.  Take any tables and any sequence of issuance requests and breaker resets by any
  processes, with any store failures and sweeps and with clocks that do not go backwards.  A time window of the configured length
  contains at most the configured number of granted issuances, and that many more for each successful reset in the window (a reset
  forgets the issuances counted so far).  While the latch is open nothing is granted to anyone until a reset succeeds.
\<close>

theorem issuance_ceiling:
  assumes "sb_max b > 0" "sorted (map op_time ops)"
  shows "int (length (filter (in_window (sb_window b) u) (grants_of b st ops))) \<le>
      sb_max b * (1 + int (length (filter (in_window (sb_window b) u) (resets_of b st ops)))) \<and>
    (la_open (latch_of (sb_lane b) (fst st)) \<longrightarrow> resets_of b st ops = [] \<longrightarrow> grants_of b st ops = [])"
proof (cases ops)
  case (Cons c cs)
  have s: "sorted (op_time c # map op_time ops)" using assms(2) Cons by simp
  have r: "sb_rel b (op_time c) (lane_times b (fst st), la_open (latch_of (sb_lane b) (fst st))) st"
    using lane_rel [OF assms(1), of _ "fst st" "snd st"] by simp
  show ?thesis using ceiling_from [of b "op_time c" "lane_times b (fst st)" "[]" _ st ops u] latched_until_reset [of b "op_time c" _ st ops] r s assms(1) by auto
qed (use assms(1) in simp)

definition demo_breaker :: sql_breaker where
  "demo_breaker = \<lparr>sb_lane = ''ca'', sb_max = 2, sb_window = 3600 * 10 ^ 9\<rparr>"

definition demo_tables :: br_tables where
  "demo_tables = \<lparr>bt_latches = [], bt_issuances = [], bt_seq = 1\<rparr>"

definition demo_calls :: "(nat \<times> time_ns) list" where
  "demo_calls = [(0, 10), (1, 20), (0, 30), (1, 4000 * 10 ^ 9)]"

definition demo_call :: "nat \<times> time_ns \<Rightarrow> sb_call" where
  "demo_call = (\<lambda>(proc, t). \<lparr>sc_flt = no_faults, sc_proc = proc, sc_now = t\<rparr>)"

text \<open>Two grants, a trip, a reset, two more grants: four in one window, with one reset in it.\<close>

definition demo_ops :: "sb_op list" where
  "demo_ops = map (OpAcquire \<circ> demo_call) [(0, 10), (1, 20), (0, 30)] @ [OpReset no_faults 40] @ map (OpAcquire \<circ> demo_call) [(1, 50), (0, 60), (1, 70)]"

theorem issuance_ceiling_witness:
  "grants_of demo_breaker (demo_tables, \<lambda>_. None) demo_ops = [10, 20, 50, 60] \<and>
   resets_of demo_breaker (demo_tables, \<lambda>_. None) demo_ops = [40] \<and>
   int (length (filter (in_window (sb_window demo_breaker) 70) (grants_of demo_breaker (demo_tables, \<lambda>_. None) demo_ops))) \<le>
     sb_max demo_breaker * (1 + int (length (filter (in_window (sb_window demo_breaker) 70) (resets_of demo_breaker (demo_tables, \<lambda>_. None) demo_ops))))"
proof -
  have "sb_max demo_breaker > 0" "sorted (map op_time demo_ops)"
    "grants_of demo_breaker (demo_tables, \<lambda>_. None) demo_ops = [10, 20, 50, 60]"
    "resets_of demo_breaker (demo_tables, \<lambda>_. None) demo_ops = [40]" by code_simp+
  then show ?thesis using issuance_ceiling [of demo_breaker demo_ops 70 "(demo_tables, \<lambda>_. None)"] by simp
qed

text \<open>
  C31: The shared breaker is the in-process one lifted to the fleet: on a working store, whichever processes call
  it and however it sweeps its table, it answers (grant, trip, refuse) exactly as one in-process breaker with
  the same ceiling and window would answer the same calls, starting from a fresh lane.
\<close>

theorem shared_breaker_equals_local:
  assumes "fresh_lane b tb" "sorted (map snd cs)"
  shows "outputs_of (sb_run b) (tb, gc) (map (\<lambda>(proc, t). \<lparr>sc_flt = no_faults, sc_proc = proc, sc_now = t\<rparr>) cs) =
    outputs_of br_acquire (newBreaker (sb_max b) (sb_window b)) (map snd cs)"
proof (cases cs)
  case (Cons c rest)
  let ?calls = "map (\<lambda>(proc, t). \<lparr>sc_flt = no_faults, sc_proc = proc, sc_now = t\<rparr>) cs"
  have clk: "map sc_now ?calls = map snd cs" by (simp add: comp_def case_prod_beta)
  have "outputs_of (sb_run b) (tb, gc) ?calls = outputs_of (\<lambda>i. abs_acquire (sb_max b) (sb_window b) (sc_now i)) ([], False) ?calls"
    by (rule sbr.outputs_refine [OF fresh_lane_rel [OF assms(1), of "snd c"] _ no_fault_outputs])
       (use assms(2) Cons in \<open>auto simp: case_prod_beta comp_def\<close>)
  also have "\<dots> = outputs_of (\<lambda>i. abs_acquire (sb_max b) (sb_window b) i) ([], False) (map sc_now ?calls)"
    by (simp only: outputs_map)
  also have "\<dots> = outputs_of br_acquire (newBreaker (sb_max b) (sb_window b)) (map snd cs)"
    unfolding clk by (rule mbr.outputs_refine [OF newBreaker_rel [of _ _ "snd c"] _ memory_outputs, symmetric])
      (use assms(2) Cons in simp)
  finally show ?thesis .
qed simp

theorem shared_breaker_equals_local_witness:
  "outputs_of br_acquire (newBreaker 2 (3600 * 10 ^ 9)) (map snd demo_calls) = [BrAllowed, BrAllowed, BrTripped, BrRefused] \<and>
   outputs_of (sb_run demo_breaker) (demo_tables, \<lambda>_. None) (map (\<lambda>(proc, t). \<lparr>sc_flt = no_faults, sc_proc = proc, sc_now = t\<rparr>) demo_calls) =
     [BrAllowed, BrAllowed, BrTripped, BrRefused]"
proof -
  have o: "outputs_of br_acquire (newBreaker 2 (3600 * 10 ^ 9)) (map snd demo_calls) = [BrAllowed, BrAllowed, BrTripped, BrRefused]"
    "fresh_lane demo_breaker demo_tables" "sorted (map snd demo_calls)" by code_simp+
  moreover have "sb_max demo_breaker = 2" "sb_window demo_breaker = 3600 * 10 ^ 9" by (simp_all add: demo_breaker_def)
  ultimately show ?thesis using shared_breaker_equals_local [of demo_breaker demo_tables demo_calls "\<lambda>_. None"] by simp
qed

end
