(* ===== verification/Signer.thy ===== *)
theory Signer
  imports Netip Gostrings Breaker
begin

text \<open>
  The certificate signer (internal/signer/signer.go): validation of a template against the issue policy, the
  gated and audited Issue, and the hot swap of the signing identity that follows the registry's active CA.

  The Nebula certificate library is the record of functions \<open>nebula_lib\<close>, a CA key is a \<open>backend\<close>, and the
  circuit breaker is the function \<open>acquire\<close> on its state, so both breakers of Breaker.thy can be plugged in.
  \<open>sg_signings\<close> counts the calls that reach a CA key.
\<close>

datatype curve = Curve25519 | Curve_P256

record cert =
  ct_name :: string
  ct_networks :: "prefix list"
  ct_groups :: "string list"
  ct_is_ca :: bool
  ct_not_before :: time_ns
  ct_not_after :: time_ns
  ct_pub :: bytes
  ct_curve :: curve
  ct_issuer :: string
  ct_sig :: bytes

record tbs =
  tb_name :: string
  tb_networks :: "prefix list"
  tb_groups :: "string list"
  tb_is_ca :: bool
  tb_not_before :: time_ns
  tb_not_after :: time_ns
  tb_pub :: bytes
  tb_curve :: curve

text \<open>
  The certificate library: parsing a PEM, the fingerprint (empty when it cannot be computed), signing a
  to-be-signed certificate for an issuer with a signing function, and the PEM encoding.
\<close>

record nebula_lib =
  nl_parse :: "string \<Rightarrow> cert option"
  nl_fingerprint :: "cert \<Rightarrow> string"
  nl_sign_with :: "tbs \<Rightarrow> cert option \<Rightarrow> curve \<Rightarrow> (bytes \<Rightarrow> bytes option) \<Rightarrow> cert option"
  nl_pem :: "cert \<Rightarrow> string option"

record backend =
  bk_pub :: "bytes option"
  bk_sign :: "bytes \<Rightarrow> bytes option"

record template =
  tm_name :: string
  tm_networks :: "prefix list"
  tm_groups :: "string list"
  tm_not_before :: time_ns
  tm_not_after :: time_ns
  tm_pub :: bytes

record issue_policy =
  ip_network :: prefix
  ip_groups :: "(string \<times> bool) list"
  ip_max_lifetime :: int

datatype sg_err =
    ErrEmptyName | ErrBadPublicKey | ErrNoNetworks | ErrIPOutOfAllocation prefix | ErrGroupNotAllowed string
  | ErrInvalidValidity | ErrLifetimeTooLong int | ErrExpiresAfterCA time_ns
  | ErrCircuitOpen | SgBreaker | SgSign | SgMarshal | SgAudit | SgConfig | SgNoBackend | SgParse | SgNotCA
  | SgCurve curve | SgBackendKey | SgKeyMismatch | SgExpired string | SgActive | SgFactory

definition LaneCA :: string where "LaneCA = ''ca''"

record signing_identity =
  si_cert :: cert
  si_backend :: backend
  si_fingerprint :: string

datatype sg_details =
    DErr sg_err | DLimit int | DKms string
  | DIssued (di_fingerprint: string) (di_networks: "prefix list") (di_groups: "string list") (di_not_after: time_ns)

type_synonym sg_note = "string \<times> string \<times> string \<times> sg_details"

record 'b signer =
  sg_identity :: signing_identity
  sg_policy :: issue_policy
  sg_breaker :: 'b
  sg_log :: "sg_note list"
  sg_alarms :: "int list"
  sg_open :: bool
  sg_trips :: nat
  sg_cutovers :: nat
  sg_signings :: nat

definition newIdentity :: "nebula_lib \<Rightarrow> string \<Rightarrow> backend option \<Rightarrow> sg_err + signing_identity" where
  "newIdentity lib pem b = (case b of
     None \<Rightarrow> Inl SgNoBackend
   | Some b \<Rightarrow> (case nl_parse lib pem of
       None \<Rightarrow> Inl SgParse
     | Some ca \<Rightarrow>
         if \<not> ct_is_ca ca then Inl SgNotCA
         else if ct_curve ca \<noteq> Curve_P256 then Inl (SgCurve (ct_curve ca))
         else (case bk_pub b of
             None \<Rightarrow> Inl SgBackendKey
           | Some pub \<Rightarrow>
               if pub \<noteq> ct_pub ca then Inl SgKeyMismatch
               else Inr \<lparr>si_cert = ca, si_backend = b, si_fingerprint = ToLower (TrimSpace (nl_fingerprint lib ca))\<rparr>)))"

definition New :: "nebula_lib \<Rightarrow> bool \<Rightarrow> string \<Rightarrow> backend option \<Rightarrow> issue_policy \<Rightarrow> 'b \<Rightarrow> sg_err + 'b signer" where
  "New lib has_audit pem b pol br =
     (if \<not> has_audit then Inl SgConfig
      else case newIdentity lib pem b of
        Inl e \<Rightarrow> Inl e
      | Inr i \<Rightarrow> Inr \<lparr>sg_identity = i, sg_policy = pol, sg_breaker = br, sg_log = [], sg_alarms = [],
                      sg_open = False, sg_trips = 0, sg_cutovers = 0, sg_signings = 0\<rparr>)"

definition CurrentFingerprint :: "'b signer \<Rightarrow> string" where
  "CurrentFingerprint s = si_fingerprint (sg_identity s)"

definition CACert :: "'b signer \<Rightarrow> cert" where
  "CACert s = si_cert (sg_identity s)"

definition SwapCA :: "nebula_lib \<Rightarrow> time_ns \<Rightarrow> string \<Rightarrow> backend option \<Rightarrow> 'b signer \<Rightarrow> sg_err option \<times> 'b signer" where
  "SwapCA lib now pem b s = (case newIdentity lib pem b of
     Inl e \<Rightarrow> (Some e, s)
   | Inr i \<Rightarrow>
       if \<not> ct_not_after (si_cert i) > now then (Some (SgExpired (si_fingerprint i)), s)
       else if si_fingerprint (sg_identity s) = si_fingerprint i then (None, s)
       else (None, s\<lparr>sg_identity := i\<rparr>))"

text \<open>The audit callback: the row is in the log unless the call fails.\<close>

definition sg_audit :: "bool \<Rightarrow> sg_note \<Rightarrow> 'b signer \<Rightarrow> 'b signer" where
  "sg_audit fails r s = (if fails then s else s\<lparr>sg_log := sg_log s @ [r]\<rparr>)"

record active_ref =
  ar_fingerprint :: string
  ar_pem :: string
  ar_kms :: string

definition ReconcileActiveCA ::
  "nebula_lib \<Rightarrow> bool \<Rightarrow> time_ns \<Rightarrow> active_ref option \<Rightarrow> (string \<Rightarrow> bytes \<Rightarrow> backend option) \<Rightarrow> 'b signer \<Rightarrow> (sg_err + bool) \<times> 'b signer" where
  "ReconcileActiveCA lib fails now active factory s = (case active of
     None \<Rightarrow> (Inl SgActive, s)
   | Some ref \<Rightarrow>
       if ar_fingerprint ref = '''' then (Inr False, s)
       else if ToLower (TrimSpace (ar_fingerprint ref)) = ToLower (CurrentFingerprint s) then (Inr False, s)
       else (case nl_parse lib (ar_pem ref) of
           None \<Rightarrow> (Inl SgParse, s)
         | Some ca \<Rightarrow> (case factory (ar_kms ref) (ct_pub ca) of
             None \<Rightarrow> (Inl SgFactory, s)
           | Some b \<Rightarrow> (case SwapCA lib now (ar_pem ref) (Some b) s of
               (Some e, s) \<Rightarrow> (Inl e, s)
             | (None, s) \<Rightarrow>
                 (Inr True, sg_audit fails (''system'', ''ca-signing-cutover'', ar_fingerprint ref, DKms (ar_kms ref))
                    (s\<lparr>sg_cutovers := sg_cutovers s + 1\<rparr>))))))"

text \<open>One tick of the poller reads the registry and reconciles; an error is logged and the next tick retries.\<close>

record tick =
  tk_fails :: bool
  tk_now :: time_ns
  tk_active :: "active_ref option"
  tk_factory :: "string \<Rightarrow> bytes \<Rightarrow> backend option"

definition RunActiveCAReconciler :: "nebula_lib \<Rightarrow> tick list \<Rightarrow> 'b signer \<Rightarrow> 'b signer" where
  "RunActiveCAReconciler lib ticks s =
     foldl (\<lambda>s t. snd (ReconcileActiveCA lib (tk_fails t) (tk_now t) (tk_active t) (tk_factory t) s)) s ticks"

definition validate :: "issue_policy \<Rightarrow> cert \<Rightarrow> template \<Rightarrow> sg_err option" where
  "validate pol ca t =
     (if tm_name t = '''' then Some ErrEmptyName
      else if length (tm_pub t) \<noteq> 65 then Some ErrBadPublicKey
      else if tm_networks t = [] then Some ErrNoNetworks
      else case (if is_valid (ip_network pol) then first_where (\<lambda>n. \<not> contains_addr (ip_network pol) (pfx_addr n)) (tm_networks t) else None) of
        Some n \<Rightarrow> Some (ErrIPOutOfAllocation n)
      | None \<Rightarrow> (case (if ip_groups pol \<noteq> [] then first_where (\<lambda>g. map_of (ip_groups pol) g \<noteq> Some True) (tm_groups t) else None) of
          Some g \<Rightarrow> Some (ErrGroupNotAllowed g)
        | None \<Rightarrow>
            if \<not> tm_not_after t > tm_not_before t then Some ErrInvalidValidity
            else if ip_max_lifetime pol > 0 \<and> tm_not_after t - tm_not_before t > ip_max_lifetime pol
              then Some (ErrLifetimeTooLong (tm_not_after t - tm_not_before t))
            else if tm_not_after t > ct_not_after ca then Some (ErrExpiresAfterCA (ct_not_after ca))
            else None))"

definition SignTBS :: "nebula_lib \<Rightarrow> (bytes \<Rightarrow> bytes) \<Rightarrow> backend \<Rightarrow> tbs \<Rightarrow> cert option \<Rightarrow> cert option" where
  "SignTBS lib sha b tb ca = nl_sign_with lib tb ca Curve_P256 (\<lambda>certBytes. bk_sign b (sha certBytes))"

definition leaf_tbs :: "template \<Rightarrow> tbs" where
  "leaf_tbs t = \<lparr>tb_name = tm_name t, tb_networks = tm_networks t, tb_groups = tm_groups t, tb_is_ca = False,
     tb_not_before = tm_not_before t, tb_not_after = tm_not_after t, tb_pub = tm_pub t, tb_curve = Curve_P256\<rparr>"

definition Issue ::
  "nebula_lib \<Rightarrow> (bytes \<Rightarrow> bytes) \<Rightarrow> ('b \<Rightarrow> br_out \<times> 'b) \<Rightarrow> int \<Rightarrow> faults \<Rightarrow> string \<Rightarrow> template \<Rightarrow> 'b signer \<Rightarrow>
   (sg_err + cert \<times> string) \<times> 'b signer" where
  "Issue lib sha acquire limit flt actor t s =
     (let i = sg_identity s in
      case validate (sg_policy s) (si_cert i) t of
        Some e \<Rightarrow> (Inl e, sg_audit (flt 0) (actor, ''issue-cert-rejected'', tm_name t, DErr e) s)
      | None \<Rightarrow>
        (let (out, br) = acquire (sg_breaker s); s = s\<lparr>sg_breaker := br\<rparr> in
         case out of
           BrErr \<Rightarrow> (Inl SgBreaker, sg_audit (flt 0) (actor, ''issue-cert-error'', tm_name t, DErr SgBreaker) s)
         | BrRefused \<Rightarrow> (Inl ErrCircuitOpen, sg_audit (flt 0) (actor, ''issue-cert-rejected'', tm_name t, DErr ErrCircuitOpen) (s\<lparr>sg_open := True\<rparr>))
         | BrTripped \<Rightarrow>
             (Inl ErrCircuitOpen, sg_audit (flt 1) (actor, ''issue-cert-rejected'', tm_name t, DErr ErrCircuitOpen)
               (sg_audit (flt 0) (''system'', ''signing-circuit-tripped'', tm_name t, DLimit limit)
                 (s\<lparr>sg_open := True, sg_trips := sg_trips s + 1, sg_alarms := sg_alarms s @ [limit]\<rparr>)))
         | BrAllowed \<Rightarrow>
             (let s = s\<lparr>sg_open := False, sg_signings := sg_signings s + 1\<rparr> in
              case SignTBS lib sha (si_backend i) (leaf_tbs t) (Some (si_cert i)) of
                None \<Rightarrow> (Inl SgSign, sg_audit (flt 0) (actor, ''issue-cert-error'', tm_name t, DErr SgSign) s)
              | Some c \<Rightarrow> (case nl_pem lib c of
                  None \<Rightarrow> (Inl SgMarshal, s)
                | Some pem \<Rightarrow>
                    if flt 0 then (Inl SgAudit, s)
                    else (Inr (c, pem), sg_audit False (actor, ''issue-cert'', tm_name t,
                            DIssued (nl_fingerprint lib c) (tm_networks t) (tm_groups t) (tm_not_after t)) s)))))"

definition BreakerOpen :: "('b \<Rightarrow> bool option) \<Rightarrow> 'b signer \<Rightarrow> bool option" where
  "BreakerOpen isOpen s = isOpen (sg_breaker s)"

definition ResetBreaker :: "('b \<Rightarrow> bool \<times> 'b) \<Rightarrow> 'b signer \<Rightarrow> bool \<times> 'b signer" where
  "ResetBreaker reset s = (case reset (sg_breaker s) of
     (False, br) \<Rightarrow> (False, s\<lparr>sg_breaker := br\<rparr>)
   | (True, br) \<Rightarrow> (True, s\<lparr>sg_breaker := br, sg_open := False\<rparr>))"

definition RefreshBreakerMetric :: "('b \<Rightarrow> bool option) \<Rightarrow> 'b signer \<Rightarrow> bool \<times> 'b signer" where
  "RefreshBreakerMetric isOpen s = (case isOpen (sg_breaker s) of
     None \<Rightarrow> (False, s)
   | Some opn \<Rightarrow> (True, s\<lparr>sg_open := opn\<rparr>))"

record ca_template =
  cm_name :: string
  cm_networks :: "prefix list"
  cm_not_before :: time_ns
  cm_not_after :: time_ns

definition SelfSignCA :: "nebula_lib \<Rightarrow> (bytes \<Rightarrow> bytes) \<Rightarrow> backend \<Rightarrow> ca_template \<Rightarrow> sg_err + cert \<times> string" where
  "SelfSignCA lib sha b t = (case bk_pub b of
     None \<Rightarrow> Inl SgBackendKey
   | Some pub \<Rightarrow> (case SignTBS lib sha b \<lparr>tb_name = cm_name t, tb_networks = cm_networks t, tb_groups = [], tb_is_ca = True,
          tb_not_before = cm_not_before t, tb_not_after = cm_not_after t, tb_pub = pub, tb_curve = Curve_P256\<rparr> None of
       None \<Rightarrow> Inl SgSign
     | Some c \<Rightarrow> (case nl_pem lib c of None \<Rightarrow> Inl SgMarshal | Some pem \<Rightarrow> Inr (c, pem))))"

section \<open>The laws of the certificate library\<close>

text \<open>
  What the signer relies on: a signed certificate carries the fields of the template (in some order of its
  networks), names its issuer by fingerprint, and its signature is what the signing function returned for
  the bytes \<open>sbytes c\<close> that a verifier of the certificate hashes.
\<close>

definition sign_with_ok :: "nebula_lib \<Rightarrow> (cert \<Rightarrow> bytes) \<Rightarrow> bool" where
  "sign_with_ok lib sbytes \<longleftrightarrow> (\<forall>tb ca crv lam c. nl_sign_with lib tb ca crv lam = Some c \<longrightarrow>
     ct_name c = tb_name tb \<and> set (ct_networks c) = set (tb_networks tb) \<and> ct_groups c = tb_groups tb \<and>
     ct_is_ca c = tb_is_ca tb \<and> ct_not_before c = tb_not_before tb \<and> ct_not_after c = tb_not_after tb \<and>
     ct_pub c = tb_pub tb \<and> ct_curve c = crv \<and>
     ct_issuer c = (case ca of None \<Rightarrow> '''' | Some i \<Rightarrow> nl_fingerprint lib i) \<and> lam (sbytes c) = Some (ct_sig c))"

lemma sign_with_fields:
  assumes "sign_with_ok lib sbytes" "SignTBS lib sha b tb ca = Some c"
  shows "ct_name c = tb_name tb" "set (ct_networks c) = set (tb_networks tb)" "ct_groups c = tb_groups tb"
    "ct_is_ca c = tb_is_ca tb" "ct_not_before c = tb_not_before tb" "ct_not_after c = tb_not_after tb"
    "ct_pub c = tb_pub tb" "ct_curve c = Curve_P256"
    "ct_issuer c = (case ca of None \<Rightarrow> '''' | Some i \<Rightarrow> nl_fingerprint lib i)" "bk_sign b (sha (sbytes c)) = Some (ct_sig c)"
  using assms unfolding sign_with_ok_def SignTBS_def by metis+

section \<open>Validation\<close>

lemma validate_ok:
  assumes "validate pol ca t = None"
  shows "tm_name t \<noteq> ''''" "length (tm_pub t) = 65" "tm_networks t \<noteq> []"
    "is_valid (ip_network pol) \<Longrightarrow> n \<in> set (tm_networks t) \<Longrightarrow> contains_addr (ip_network pol) (pfx_addr n)"
    "ip_groups pol \<noteq> [] \<Longrightarrow> g \<in> set (tm_groups t) \<Longrightarrow> map_of (ip_groups pol) g = Some True"
    "tm_not_before t < tm_not_after t"
    "ip_max_lifetime pol > 0 \<Longrightarrow> tm_not_after t - tm_not_before t \<le> ip_max_lifetime pol"
    "tm_not_after t \<le> ct_not_after ca"
  using assms unfolding validate_def by (auto simp: first_where_None_iff split: if_splits option.splits)

section \<open>Issue\<close>

lemma Issue_okD:
  assumes "Issue lib sha acquire limit flt actor t s = (Inr (c, pem), s')"
  shows "validate (sg_policy s) (si_cert (sg_identity s)) t = None" "fst (acquire (sg_breaker s)) = BrAllowed"
    "SignTBS lib sha (si_backend (sg_identity s)) (leaf_tbs t) (Some (si_cert (sg_identity s))) = Some c"
    "nl_pem lib c = Some pem" "\<not> flt 0"
    "s' = s\<lparr>sg_breaker := snd (acquire (sg_breaker s)), sg_open := False, sg_signings := sg_signings s + 1,
       sg_log := sg_log s @ [(actor, ''issue-cert'', tm_name t, DIssued (nl_fingerprint lib c) (tm_networks t) (tm_groups t) (tm_not_after t))]\<rparr>"
  using assms unfolding Issue_def
  by (auto simp: Let_def sg_audit_def split: option.splits prod.splits br_out.splits if_splits)

lemma Issue_keeps: 
  "sg_identity (snd (Issue lib sha acquire limit flt actor t s)) = sg_identity s"
  "sg_policy (snd (Issue lib sha acquire limit flt actor t s)) = sg_policy s"
  unfolding Issue_def by (auto simp: Let_def sg_audit_def split: option.splits prod.splits br_out.splits if_splits)

lemma Issue_key_use:
  "sg_signings (snd (Issue lib sha acquire limit flt actor t s)) = sg_signings s +
     (if validate (sg_policy s) (si_cert (sg_identity s)) t = None \<and> fst (acquire (sg_breaker s)) = BrAllowed then 1 else 0)"
  unfolding Issue_def by (auto simp: Let_def sg_audit_def split: option.splits prod.splits br_out.splits if_splits)

text \<open>Every path of Issue on a working audit log leaves at least one row, except a PEM encoding failure.\<close>

lemma Issue_audited:
  assumes "\<And>k. \<not> flt k" "fst (Issue lib sha acquire limit flt actor t s) \<noteq> Inl SgMarshal"
  shows "length (sg_log (snd (Issue lib sha acquire limit flt actor t s))) > length (sg_log s)"
  using assms unfolding Issue_def
  by (auto simp: Let_def sg_audit_def split: option.splits prod.splits br_out.splits if_splits)

section \<open>The signing identity\<close>

definition identity_ok :: "nebula_lib \<Rightarrow> signing_identity \<Rightarrow> bool" where
  "identity_ok lib i \<longleftrightarrow> ct_is_ca (si_cert i) \<and> ct_curve (si_cert i) = Curve_P256 \<and>
     bk_pub (si_backend i) = Some (ct_pub (si_cert i)) \<and> si_fingerprint i = ToLower (TrimSpace (nl_fingerprint lib (si_cert i)))"

lemma newIdentity_ok: "newIdentity lib pem b = Inr i \<Longrightarrow> identity_ok lib i"
  by (auto simp: newIdentity_def identity_ok_def split: option.splits if_splits)

lemma New_ok: "New lib has_audit pem b pol br = Inr s \<Longrightarrow> identity_ok lib (sg_identity s)"
  by (auto simp: New_def newIdentity_ok split: if_splits sum.splits)

lemma SwapCA_ok:
  assumes "SwapCA lib now pem b s = (r, s')" "identity_ok lib (sg_identity s)"
  shows "identity_ok lib (sg_identity s')"
    "s' = s \<or> (r = None \<and> s' = s\<lparr>sg_identity := sg_identity s'\<rparr> \<and> now < ct_not_after (CACert s'))" "r \<noteq> None \<Longrightarrow> s' = s"
  using assms by (auto simp: SwapCA_def CACert_def newIdentity_ok split: sum.splits if_splits)

text \<open>A tick that reports an error, or finds nothing to do, leaves the signer as it was.\<close>

lemma reconcile_untouched:
  assumes "fst (ReconcileActiveCA lib fails now active factory s) \<noteq> Inr True"
  shows "snd (ReconcileActiveCA lib fails now active factory s) = s"
  using assms unfolding ReconcileActiveCA_def
  by (auto simp: SwapCA_def split: option.splits prod.splits if_splits sum.splits)

lemma reconcile_keeps:
  "sg_policy (snd (ReconcileActiveCA lib fails now active factory s)) = sg_policy s"
  "sg_breaker (snd (ReconcileActiveCA lib fails now active factory s)) = sg_breaker s"
  "sg_signings (snd (ReconcileActiveCA lib fails now active factory s)) = sg_signings s"
  unfolding ReconcileActiveCA_def
  by (auto simp: SwapCA_def sg_audit_def split: option.splits prod.splits if_splits sum.splits)

lemma reconcile_identity_ok:
  assumes "identity_ok lib (sg_identity s)"
  shows "identity_ok lib (sg_identity (snd (ReconcileActiveCA lib fails now active factory s)))"
  using assms unfolding ReconcileActiveCA_def
  by (auto simp: SwapCA_def sg_audit_def newIdentity_ok split: option.splits prod.splits if_splits sum.splits)

lemma reconciler_invariant:
  assumes "identity_ok lib (sg_identity s)"
  shows "identity_ok lib (sg_identity (RunActiveCAReconciler lib ticks s))"
    "sg_policy (RunActiveCAReconciler lib ticks s) = sg_policy s"
    "sg_breaker (RunActiveCAReconciler lib ticks s) = sg_breaker s"
    "sg_signings (RunActiveCAReconciler lib ticks s) = sg_signings s"
  using assms unfolding RunActiveCAReconciler_def
  by (induction ticks arbitrary: s) (simp_all add: reconcile_identity_ok reconcile_keeps)

text \<open>A tick on which the registry's active CA can be taken over: it is readable, its key is reachable and matches.\<close>

definition usable :: "nebula_lib \<Rightarrow> tick \<Rightarrow> active_ref \<Rightarrow> bool" where
  "usable lib t ref \<longleftrightarrow> tk_active t = Some ref \<and> ar_fingerprint ref \<noteq> '''' \<and> (case nl_parse lib (ar_pem ref) of
     None \<Rightarrow> False
   | Some ca \<Rightarrow> ct_is_ca ca \<and> ct_curve ca = Curve_P256 \<and> tk_now t < ct_not_after ca \<and>
       ToLower (TrimSpace (nl_fingerprint lib ca)) = ToLower (TrimSpace (ar_fingerprint ref)) \<and>
       (case tk_factory t (ar_kms ref) (ct_pub ca) of None \<Rightarrow> False | Some b \<Rightarrow> bk_pub b = Some (ct_pub ca)))"

lemma lower_char_idem: "lower_char (lower_char c) = lower_char c"
proof (cases "65 \<le> (of_char c :: nat) \<and> (of_char c :: nat) \<le> 90")
  case True
  then have "(of_char (lower_char c) :: nat) = of_char c + 32" by (simp add: lower_char_def)
  then show ?thesis using True by (simp add: lower_char_def [of "lower_char c"])
qed (auto simp: lower_char_def)

lemma ToLower_idem [simp]: "ToLower (ToLower s) = ToLower s"
  by (simp add: ToLower_def lower_char_idem)

lemma reconcile_converges:
  assumes "identity_ok lib (sg_identity s)" "usable lib t ref"
  shows "CurrentFingerprint (snd (ReconcileActiveCA lib (tk_fails t) (tk_now t) (tk_active t) (tk_factory t) s)) = ToLower (TrimSpace (ar_fingerprint ref))"
  using assms unfolding ReconcileActiveCA_def usable_def identity_ok_def CurrentFingerprint_def
  by (auto simp: SwapCA_def sg_audit_def newIdentity_def split: option.splits prod.splits if_splits sum.splits)

section \<open>Properties\<close>

text \<open>
  C2: A certificate that Issue returns is sound: the breaker granted it; it is a leaf, issued in the name of the
  CA the signer holds and signed by that CA's own key; its name, key, networks, groups and lifetime are within the issue
  policy and it does not outlive the CA; and the audit log holds its row.
\<close>

theorem issued_certificate_sound:
  assumes "sign_with_ok lib sbytes" "identity_ok lib (sg_identity s)"
    and "Issue lib sha acquire limit flt actor t s = (Inr (c, pem), s')"
  shows "fst (acquire (sg_breaker s)) = BrAllowed \<and> \<not> ct_is_ca c \<and> ct_issuer c = nl_fingerprint lib (CACert s) \<and>
    bk_sign (si_backend (sg_identity s)) (sha (sbytes c)) = Some (ct_sig c) \<and> bk_pub (si_backend (sg_identity s)) = Some (ct_pub (CACert s)) \<and>
    ct_name c \<noteq> '''' \<and> length (ct_pub c) = 65 \<and> ct_networks c \<noteq> [] \<and>
    (is_valid (ip_network (sg_policy s)) \<longrightarrow> (\<forall>n\<in>set (ct_networks c). contains_addr (ip_network (sg_policy s)) (pfx_addr n))) \<and>
    (ip_groups (sg_policy s) \<noteq> [] \<longrightarrow> (\<forall>g\<in>set (ct_groups c). map_of (ip_groups (sg_policy s)) g = Some True)) \<and>
    ct_not_before c < ct_not_after c \<and> ct_not_after c \<le> ct_not_after (CACert s) \<and>
    (ip_max_lifetime (sg_policy s) > 0 \<longrightarrow> ct_not_after c - ct_not_before c \<le> ip_max_lifetime (sg_policy s)) \<and>
    (actor, ''issue-cert'', ct_name c, DIssued (nl_fingerprint lib c) (tm_networks t) (ct_groups c) (ct_not_after c)) \<in> set (sg_log s')"
proof -
  note ok = Issue_okD [OF assms(3)]
  note f = sign_with_fields [OF assms(1) ok(3)]
  note v = validate_ok [OF ok(1)]
  have lt: "tb_name (leaf_tbs t) = tm_name t" "tb_networks (leaf_tbs t) = tm_networks t" "tb_groups (leaf_tbs t) = tm_groups t"
    "\<not> tb_is_ca (leaf_tbs t)" "tb_not_before (leaf_tbs t) = tm_not_before t" "tb_not_after (leaf_tbs t) = tm_not_after t"
    "tb_pub (leaf_tbs t) = tm_pub t" by (simp_all add: leaf_tbs_def)
  have "ct_networks c \<noteq> []" using f(2) v(3) lt(2) by auto
  moreover have "bk_pub (si_backend (sg_identity s)) = Some (ct_pub (CACert s))" using assms(2) by (simp add: identity_ok_def CACert_def)
  ultimately show ?thesis using ok(2) f v lt by (simp add: CACert_def ok(6))
qed

definition demo_ca :: cert where
  "demo_ca = \<lparr>ct_name = ''ca'', ct_networks = [], ct_groups = [], ct_is_ca = True, ct_not_before = 0, ct_not_after = 1000,
     ct_pub = [7], ct_curve = Curve_P256, ct_issuer = '''', ct_sig = []\<rparr>"

definition demo_lib :: nebula_lib where
  "demo_lib = \<lparr>nl_parse = (\<lambda>pem. if pem = '''' then None else Some (demo_ca\<lparr>ct_name := pem\<rparr>)), nl_fingerprint = ct_name,
     nl_sign_with = (\<lambda>tb ca crv lam. map_option (\<lambda>sig. \<lparr>ct_name = tb_name tb, ct_networks = tb_networks tb, ct_groups = tb_groups tb,
        ct_is_ca = tb_is_ca tb, ct_not_before = tb_not_before tb, ct_not_after = tb_not_after tb, ct_pub = tb_pub tb, ct_curve = crv,
        ct_issuer = (case ca of None \<Rightarrow> '''' | Some i \<Rightarrow> ct_name i), ct_sig = sig\<rparr>) (lam (tb_pub tb))),
     nl_pem = Some \<circ> ct_name\<rparr>"

definition demo_backend :: backend where "demo_backend = \<lparr>bk_pub = Some [7], bk_sign = Some\<rparr>"

definition demo_signer :: "breaker signer" where
  "demo_signer = \<lparr>sg_identity = \<lparr>si_cert = demo_ca, si_backend = demo_backend, si_fingerprint = ''ca''\<rparr>,
     sg_policy = \<lparr>ip_network = Prefix (Addr4 0) 8, ip_groups = [(''web'', True)], ip_max_lifetime = 100\<rparr>,
     sg_breaker = newBreaker 1 3600, sg_log = [], sg_alarms = [], sg_open = False, sg_trips = 0, sg_cutovers = 0, sg_signings = 0\<rparr>"

definition demo_template :: template where
  "demo_template = \<lparr>tm_name = ''h'', tm_networks = [Prefix (Addr4 9) 24], tm_groups = [''web''], tm_not_before = 10, tm_not_after = 60,
     tm_pub = replicate 65 1\<rparr>"

lemma demo_lib_ok: "sign_with_ok demo_lib ct_pub"
  by (auto simp: sign_with_ok_def demo_lib_def split: option.splits)

theorem issued_certificate_sound_witness:
  "\<exists>c pem s'. Issue demo_lib id (br_acquire 5) 1 no_faults ''op'' demo_template demo_signer = (Inr (c, pem), s') \<and>
    ct_issuer c = ''ca'' \<and> ct_not_after c \<le> 1000 \<and> (''op'', ''issue-cert'', ''h'', DIssued ''h'' [Prefix (Addr4 9) 24] [''web''] 60) \<in> set (sg_log s')"
proof -
  obtain r s' where r: "Issue demo_lib id (br_acquire 5) 1 no_faults ''op'' demo_template demo_signer = (r, s')" by fastforce
  have "validate (sg_policy demo_signer) demo_ca demo_template = None" "fst (br_acquire 5 (newBreaker 1 3600)) = BrAllowed" by code_simp+
  then have "\<exists>c pem. r = Inr (c, pem) \<and> ct_name c = ''h'' \<and> ct_groups c = [''web''] \<and> ct_not_after c = 60" using r
    by (auto simp: Issue_def Let_def demo_signer_def demo_lib_def SignTBS_def demo_backend_def leaf_tbs_def demo_template_def
      split: prod.splits br_out.splits)
  then obtain c pem where c: "r = Inr (c, pem)" "ct_name c = ''h''" "ct_groups c = [''web'']" "ct_not_after c = 60" by blast
  have i: "identity_ok demo_lib (sg_identity demo_signer)" by code_simp
  have "tm_networks demo_template = [Prefix (Addr4 9) 24]" "nl_fingerprint demo_lib = ct_name" "CACert demo_signer = demo_ca"
    by (simp_all add: demo_template_def demo_lib_def CACert_def demo_signer_def)
  then show ?thesis using issued_certificate_sound [OF demo_lib_ok i r [unfolded c(1)]] r c by (auto simp: demo_ca_def)
qed

text \<open>
  The online CA cut-over is safe and live: whatever the registry, the key factory and the clock answer over any
  number of polls, the signer keeps an identity that its constructor would accept (a P256 CA whose key is the
  backend's) with breaker and policy untouched, and one poll that can reach the active CA makes it the one that signs.
\<close>

theorem active_CA_followed:
  assumes "identity_ok lib (sg_identity s)"
  shows "identity_ok lib (sg_identity (RunActiveCAReconciler lib ticks s)) \<and>
    sg_policy (RunActiveCAReconciler lib ticks s) = sg_policy s \<and> sg_breaker (RunActiveCAReconciler lib ticks s) = sg_breaker s \<and>
    (usable lib t ref \<longrightarrow> CurrentFingerprint (RunActiveCAReconciler lib (ticks @ [t]) s) = ToLower (TrimSpace (ar_fingerprint ref)))"
  using reconciler_invariant [OF assms, of ticks] reconcile_converges [of lib "RunActiveCAReconciler lib ticks s" t ref]
  by (simp add: RunActiveCAReconciler_def)

definition demo_tick :: "string \<Rightarrow> tick" where
  "demo_tick pem = \<lparr>tk_fails = False, tk_now = 20, tk_active = Some \<lparr>ar_fingerprint = ''CA2'', ar_pem = pem, ar_kms = ''k''\<rparr>,
     tk_factory = (\<lambda>_ _. Some demo_backend)\<rparr>"

theorem active_CA_followed_witness:
  "identity_ok demo_lib (sg_identity demo_signer) \<and> CurrentFingerprint demo_signer = ''ca'' \<and>
   CurrentFingerprint (RunActiveCAReconciler demo_lib ([demo_tick ''''] @ [demo_tick ''ca2'']) demo_signer) = ''ca2''"
proof -
  have "identity_ok demo_lib (sg_identity demo_signer)" "CurrentFingerprint demo_signer = ''ca''"
    "usable demo_lib (demo_tick ''ca2'') \<lparr>ar_fingerprint = ''CA2'', ar_pem = ''ca2'', ar_kms = ''k''\<rparr>"
    "ToLower (TrimSpace ''CA2'') = ''ca2''" by code_simp+
  then show ?thesis
    using active_CA_followed [of demo_lib demo_signer "[demo_tick '''']" "demo_tick ''ca2''" "\<lparr>ar_fingerprint = ''CA2'', ar_pem = ''ca2'', ar_kms = ''k''\<rparr>"] by simp
qed

end
