(* ===== verification/Policy.thy ===== *)
theory Policy
  imports Gostrings "HOL-Library.Product_Lexorder"
begin

text \<open>
  \<open>internal/policy\<close>: the allow-only firewall language (\<open>policy.go\<close>), its compiler to the per-host Nebula
  firewall sections with the mandatory baseline, and the analyses the console shows (\<open>analysis.go\<close>).
  A Nebula rule is the record \<open>fw_rule\<close> of \<open>internal/nebulaconfig\<close>.  Go maps used as sets are lists
  without duplicates; their order is fixed by the sorts the code applies.
\<close>

definition GroupControlPlane :: string where "GroupControlPlane = ''control-plane''"
definition GroupLighthouse :: string where "GroupLighthouse = ''lighthouse''"

definition IsReservedGroup :: "string \<Rightarrow> bool" where
  "IsReservedGroup g \<longleftrightarrow> g = GroupControlPlane \<or> g = GroupLighthouse"

definition GrantsReservedGroup :: "string list \<Rightarrow> bool" where
  "GrantsReservedGroup groups = list_ex IsReservedGroup groups"

record policy_rule =
  pr_from :: string
  pr_to :: string
  pr_proto :: string
  pr_port :: string

record policy =
  pol_version :: int
  pol_rules :: "policy_rule list"

definition ContainsReservedRef :: "policy \<Rightarrow> bool" where
  "ContainsReservedRef p = list_ex (\<lambda>r. IsReservedGroup (pr_from r) \<or> IsReservedGroup (pr_to r)) (pol_rules p)"

text \<open>One rule of a Nebula firewall section (\<open>nebulaconfig.Rule\<close>).\<close>

record fw_rule =
  fw_port :: string
  fw_proto :: string
  fw_host :: string
  fw_group :: string
  fw_groups :: "string list"
  fw_cidr :: string

record compiled =
  inbound :: "fw_rule list"
  outbound :: "fw_rule list"

datatype policy_err = BadLine nat string | EmptyGroup nat | BadProto nat string | BadPort nat string
  | ReservedRef nat string

subsection \<open>Parsing and validation\<close>

definition stripGroup :: "string \<Rightarrow> string" where
  "stripGroup s = TrimPrefix s ''group:''"

text \<open>The check that the two ends of a port range share.\<close>

definition check_port :: "string \<Rightarrow> bool" where
  "check_port s = (case Atoi s of None \<Rightarrow> False | Some n \<Rightarrow> \<not> (n < 1 \<or> n > 65535))"

definition validatePort :: "string \<Rightarrow> bool" where
  "validatePort p =
     (if p = ''any'' then True
      else case Cut p CHR ''-'' of
        None \<Rightarrow> check_port p
      | Some (lo, hi) \<Rightarrow> if \<not> check_port lo then False else check_port hi)"

definition protos :: "string list" where
  "protos = [''tcp'', ''udp'', ''icmp'', ''any'']"

fun validate_rules :: "nat \<Rightarrow> policy_rule list \<Rightarrow> policy_err option" where
  "validate_rules i [] = None"
| "validate_rules i (r # rs) =
     (if pr_from r = [] \<or> pr_to r = [] then Some (EmptyGroup i)
      else if pr_proto r \<notin> set protos then Some (BadProto i (pr_proto r))
      else if \<not> validatePort (pr_port r) then Some (BadPort i (pr_port r))
      else validate_rules (i + 1) rs)"

definition Validate :: "policy \<Rightarrow> policy_err option" where
  "Validate p = validate_rules 0 (pol_rules p)"

text \<open>One line of the language, and the loop over the lines (numbered from one in errors).\<close>

definition parse_rule :: "nat \<Rightarrow> string \<Rightarrow> policy_err + policy_rule" where
  "parse_rule i line =
     (let f = Fields line in
      if length f \<noteq> 6 \<or> f ! 0 \<noteq> ''allow'' \<or> f ! 2 \<noteq> ''->'' then Inl (BadLine (i + 1) line)
      else Inr \<lparr>pr_from = stripGroup (f ! 1), pr_to = stripGroup (f ! 3), pr_proto = ToLower (f ! 4), pr_port = f ! 5\<rparr>)"

fun parse_lines :: "nat \<Rightarrow> string list \<Rightarrow> policy_rule list \<Rightarrow> policy_err + policy_rule list" where
  "parse_lines i [] acc = Inr acc"
| "parse_lines i (raw # rest) acc =
     (let line = TrimSpace raw in
      if line = [] \<or> HasPrefix line ''#'' then parse_lines (i + 1) rest acc
      else case parse_rule i line of
        Inl e \<Rightarrow> Inl e
      | Inr r \<Rightarrow> parse_lines (i + 1) rest (acc @ [r]))"

definition Parse :: "string \<Rightarrow> policy_err + policy" where
  "Parse text =
     (case parse_lines 0 (Split text CHR 0x0A) [] of
        Inl e \<Rightarrow> Inl e
      | Inr rs \<Rightarrow>
          let p = \<lparr>pol_version = 0, pol_rules = rs\<rparr> in
          (case Validate p of Some e \<Rightarrow> Inl e | None \<Rightarrow> Inr p))"

fun invariant_rules :: "nat \<Rightarrow> policy_rule list \<Rightarrow> policy_err option" where
  "invariant_rules i [] = None"
| "invariant_rules i (r # rs) =
     (if IsReservedGroup (pr_from r) then Some (ReservedRef i (pr_from r))
      else if IsReservedGroup (pr_to r) then Some (ReservedRef i (pr_to r))
      else invariant_rules (i + 1) rs)"

definition CheckInvariants :: "policy \<Rightarrow> policy_err option" where
  "CheckInvariants p = invariant_rules 0 (pol_rules p)"

text \<open>What \<open>harbor policy active\<close> prints (\<open>policyActive\<close> of \<open>cmd/harbor/policy.go\<close>).\<close>

definition print_rule :: "policy_rule \<Rightarrow> string" where
  "print_rule r = ''allow '' @ pr_from r @ '' -> '' @ pr_to r @ '' '' @ pr_proto r @ '' '' @ pr_port r @ [CHR 0x0A]"

definition policyActive :: "policy \<Rightarrow> string" where
  "policyActive p = ''# active policy: '' @ show_int (int (length (pol_rules p))) @ '' rule(s)'' @ [CHR 0x0A] @
     concat (map print_rule (pol_rules p))"

subsection \<open>The compiler\<close>

definition fw :: "string \<Rightarrow> string \<Rightarrow> string \<Rightarrow> string \<Rightarrow> fw_rule" where
  "fw proto port host grp = \<lparr>fw_port = port, fw_proto = proto, fw_host = host, fw_group = grp, fw_groups = [], fw_cidr = []\<rparr>"

definition selector :: "string \<Rightarrow> string \<Rightarrow> string \<Rightarrow> fw_rule" where
  "selector proto port grp = (if grp = ''any'' then fw proto port ''any'' [] else fw proto port [] grp)"

definition dedup_key :: "fw_rule \<Rightarrow> string" where
  "dedup_key r = fw_proto r @ ''|'' @ fw_port r @ ''|'' @ fw_host r @ ''|'' @ fw_group r"

definition dedup :: "fw_rule list \<Rightarrow> fw_rule list" where
  "dedup rules = keep_new dedup_key [] rules"

definition inbound_rules :: "policy_rule list \<Rightarrow> string list \<Rightarrow> fw_rule list" where
  "inbound_rules rs hg =
     map (\<lambda>r. selector (pr_proto r) (pr_port r) (pr_from r)) (filter (\<lambda>r. pr_to r = ''any'' \<or> pr_to r \<in> set hg) rs)"

definition outbound_rules :: "policy_rule list \<Rightarrow> string list \<Rightarrow> fw_rule list" where
  "outbound_rules rs hg =
     map (\<lambda>r. selector (pr_proto r) (pr_port r) (pr_to r)) (filter (\<lambda>r. pr_from r = ''any'' \<or> pr_from r \<in> set hg) rs)"

definition CompileHost :: "policy \<Rightarrow> string list \<Rightarrow> compiled" where
  "CompileHost p hostGroups =
     (let cp = (GroupControlPlane \<in> set hostGroups);
          inb = inbound_rules (pol_rules p) hostGroups @ (if cp then [fw ''any'' ''any'' ''any'' []] else []);
          outb = outbound_rules (pol_rules p) hostGroups @
                 (if cp then [fw ''any'' ''any'' ''any'' []] else [fw ''any'' ''any'' [] GroupControlPlane]);
          icmp = [fw ''icmp'' ''any'' ''any'' []]
      in \<lparr>inbound = dedup (inb @ icmp), outbound = dedup (outb @ icmp)\<rparr>)"

subsection \<open>Reachability\<close>

definition matchGroup :: "string \<Rightarrow> string \<Rightarrow> bool" where
  "matchGroup ruleGroup q \<longleftrightarrow> ruleGroup = ''any'' \<or> ruleGroup = q"

definition matchProto :: "string \<Rightarrow> string \<Rightarrow> bool" where
  "matchProto ruleProto q \<longleftrightarrow> (if q = ''any'' then True else ruleProto = ''any'' \<or> ruleProto = q)"

definition matchPort :: "string \<Rightarrow> string \<Rightarrow> bool" where
  "matchPort rulePort q =
     (if q = ''any'' \<or> rulePort = ''any'' then True
      else case Atoi q of
        None \<Rightarrow> False
      | Some qn \<Rightarrow>
          (case Cut rulePort CHR ''-'' of
             None \<Rightarrow> (case Atoi rulePort of None \<Rightarrow> False | Some rn \<Rightarrow> rn = qn)
           | Some (lo, hi) \<Rightarrow>
               (case (Atoi lo, Atoi hi) of (Some lon, Some hin) \<Rightarrow> lon \<le> qn \<and> qn \<le> hin | _ \<Rightarrow> False)))"

record decision =
  dec_allowed :: bool
  dec_reason :: string
  dec_rule :: "policy_rule option"
  dec_nearest :: "policy_rule option"

text \<open>The loop over the rules: the granting rule, or the nearest miss.\<close>

fun reach_scan :: "policy_rule list \<Rightarrow> string \<Rightarrow> string \<Rightarrow> string \<Rightarrow> string \<Rightarrow> policy_rule option \<Rightarrow>
  policy_rule option \<times> policy_rule option" where
  "reach_scan [] src dst proto port nearest = (None, nearest)"
| "reach_scan (r # rs) src dst proto port nearest =
     (if \<not> matchGroup (pr_from r) src \<or> \<not> matchGroup (pr_to r) dst then reach_scan rs src dst proto port nearest
      else if matchProto (pr_proto r) proto \<and> matchPort (pr_port r) port then (Some r, nearest)
      else reach_scan rs src dst proto port (case nearest of None \<Rightarrow> Some r | Some n \<Rightarrow> Some n))"

definition Reachable :: "policy \<Rightarrow> string \<Rightarrow> string \<Rightarrow> string \<Rightarrow> string \<Rightarrow> decision" where
  "Reachable p src dst proto0 port =
     (let proto = ToLower proto0 in
      if proto = ''icmp'' then \<lparr>dec_allowed = True, dec_reason = ''baseline-icmp'', dec_rule = None, dec_nearest = None\<rparr>
      else if dst = GroupControlPlane \<and> src \<noteq> GroupControlPlane
      then \<lparr>dec_allowed = True, dec_reason = ''baseline-control-plane'', dec_rule = None, dec_nearest = None\<rparr>
      else case reach_scan (pol_rules p) src dst proto port None of
        (Some r, _) \<Rightarrow> \<lparr>dec_allowed = True, dec_reason = ''rule'', dec_rule = Some r, dec_nearest = None\<rparr>
      | (None, nearest) \<Rightarrow>
          if proto = ''any'' \<and> port = ''any''
          then \<lparr>dec_allowed = True, dec_reason = ''baseline-icmp'', dec_rule = None, dec_nearest = None\<rparr>
          else \<lparr>dec_allowed = False, dec_reason = ''default-deny'', dec_rule = None, dec_nearest = nearest\<rparr>)"

subsection \<open>Matrix, difference and blast radius\<close>

type_synonym flow = "string \<times> string"

definition Groups :: "policy \<Rightarrow> string list" where
  "Groups p = sort_strings (remdups (filter (\<lambda>g. g \<noteq> [] \<and> g \<noteq> ''any'') (concat (map (\<lambda>r. [pr_from r, pr_to r]) (pol_rules p)))))"

definition flow_key :: "flow \<Rightarrow> string" where
  "flow_key f = fst f @ ''|'' @ snd f"

definition ruleFlows :: "policy \<Rightarrow> string \<Rightarrow> string \<Rightarrow> flow list" where
  "ruleFlows p src dst =
     keep_new flow_key [] (map (\<lambda>r. (pr_proto r, pr_port r))
       (filter (\<lambda>r. matchGroup (pr_from r) src \<and> matchGroup (pr_to r) dst) (pol_rules p)))"

record matrix_cell =
  mc_from :: string
  mc_to :: string
  mc_flows :: "flow list"
  mc_baseline :: bool

definition Matrix :: "policy \<Rightarrow> string list \<Rightarrow> string list \<times> matrix_cell list" where
  "Matrix p groups0 =
     (let groups = (if groups0 = [] then Groups p else groups0) in
      (groups, concat (map (\<lambda>src. map (\<lambda>dst.
         \<lparr>mc_from = src, mc_to = dst, mc_flows = ruleFlows p src dst, mc_baseline = (dst = GroupControlPlane)\<rparr>) groups) groups)))"

definition canonPort :: "string \<Rightarrow> string" where
  "canonPort port = (case Cut port CHR ''-'' of Some (lo, hi) \<Rightarrow> if lo = hi then lo else port | None \<Rightarrow> port)"

definition literalFlows :: "policy \<Rightarrow> string \<Rightarrow> string \<Rightarrow> flow list" where
  "literalFlows p src dst =
     keep_new flow_key [] (map (\<lambda>r. (pr_proto r, canonPort (pr_port r)))
       (filter (\<lambda>r. pr_from r = src \<and> pr_to r = dst) (pol_rules p)))"

definition flowsMinus :: "flow list \<Rightarrow> flow list \<Rightarrow> flow list" where
  "flowsMinus a b = filter (\<lambda>f. flow_key f \<notin> flow_key ` set b) a"

definition unionLiteralPairs :: "policy \<Rightarrow> policy \<Rightarrow> (string \<times> string) list" where
  "unionLiteralPairs active draft = sort (remdups (map (\<lambda>r. (pr_from r, pr_to r)) (pol_rules active @ pol_rules draft)))"

type_synonym flow_delta = "string \<times> string \<times> flow"

record diff_result =
  df_added :: "flow_delta list"
  df_removed :: "flow_delta list"

definition FlowDiff :: "policy \<Rightarrow> policy \<Rightarrow> diff_result" where
  "FlowDiff active draft =
     (let prs = unionLiteralPairs active draft in
      \<lparr>df_added = concat (map (\<lambda>(src, dst). map (\<lambda>f. (src, dst, f))
           (flowsMinus (literalFlows draft src dst) (literalFlows active src dst))) prs),
       df_removed = concat (map (\<lambda>(src, dst). map (\<lambda>f. (src, dst, f))
           (flowsMinus (literalFlows active src dst) (literalFlows draft src dst))) prs)\<rparr>)"

definition touch :: "(string \<Rightarrow> string list) \<Rightarrow> string list \<Rightarrow> string \<Rightarrow> string list" where
  "touch groupHosts allHosts grp = (if grp = ''any'' then allHosts else groupHosts grp)"

record blast_result =
  bl_hosts :: "string list"
  bl_count :: nat
  bl_total :: nat

definition BlastRadius :: "diff_result \<Rightarrow> (string \<Rightarrow> string list) \<Rightarrow> string list \<Rightarrow> blast_result" where
  "BlastRadius df groupHosts allHosts =
     (let hosts = sort_strings (remdups (concat (map (\<lambda>(src, dst, f). touch groupHosts allHosts src @ touch groupHosts allHosts dst)
                    (df_added df @ df_removed df))))
      in \<lparr>bl_hosts = hosts, bl_count = length hosts, bl_total = length allHosts\<rparr>)"

subsection \<open>Policy tests\<close>

record policy_assertion =
  as_expect :: bool
  as_from :: string
  as_to :: string
  as_proto :: string
  as_port :: string
  as_line :: nat

record test_result =
  tr_assertion :: policy_assertion
  tr_got :: bool
  tr_pass :: bool
  tr_reason :: string

definition ValidateQuery :: "string \<Rightarrow> string \<Rightarrow> bool" where
  "ValidateQuery proto port =
     (if ToLower proto \<notin> set protos then False else if port = ''any'' then True else validatePort port)"

definition parse_assertion :: "nat \<Rightarrow> string \<Rightarrow> policy_err + policy_assertion" where
  "parse_assertion i line =
     (let f = Fields line in
      if length f \<noteq> 7 \<or> f ! 0 \<noteq> ''assert'' \<or> (f ! 1 \<noteq> ''allow'' \<and> f ! 1 \<noteq> ''deny'') \<or> f ! 3 \<noteq> ''->''
      then Inl (BadLine (i + 1) line)
      else let a = \<lparr>as_expect = (f ! 1 = ''allow''), as_from = stripGroup (f ! 2), as_to = stripGroup (f ! 4),
                    as_proto = ToLower (f ! 5), as_port = f ! 6, as_line = i + 1\<rparr> in
           if ValidateQuery (as_proto a) (as_port a) then Inr a else Inl (BadLine (i + 1) line))"

fun parse_tests_lines :: "nat \<Rightarrow> string list \<Rightarrow> policy_assertion list \<Rightarrow> policy_err + policy_assertion list" where
  "parse_tests_lines i [] acc = Inr acc"
| "parse_tests_lines i (raw # rest) acc =
     (let line = TrimSpace raw in
      if line = [] \<or> HasPrefix line ''#'' then parse_tests_lines (i + 1) rest acc
      else case parse_assertion i line of
        Inl e \<Rightarrow> Inl e
      | Inr a \<Rightarrow> parse_tests_lines (i + 1) rest (acc @ [a]))"

definition ParseTests :: "string \<Rightarrow> policy_err + policy_assertion list" where
  "ParseTests text = parse_tests_lines 0 (Split text CHR 0x0A) []"

definition RunTests :: "policy \<Rightarrow> policy_assertion list \<Rightarrow> test_result list" where
  "RunTests p asserts =
     map (\<lambda>a. let d = Reachable p (as_from a) (as_to a) (as_proto a) (as_port a) in
            \<lparr>tr_assertion = a, tr_got = dec_allowed d, tr_pass = (dec_allowed d = as_expect a), tr_reason = dec_reason d\<rparr>) asserts"

subsection \<open>What a compiled section permits\<close>

text \<open>
  The sections are enforced by Nebula, which is not part of this repository: its evaluation of one rule against a packet is a
  parameter \<open>neb\<close> of the definitions below (the rule, the groups of the peer, the protocol and the port of the packet).  What Nebula
  documents of it is the hypothesis \<open>nebula_documented\<close>.  \<open>port_set\<close> is the documented notation of ports: any, a number, or an upward range.
\<close>

type_synonym nebula = "fw_rule \<Rightarrow> string list \<Rightarrow> string \<Rightarrow> int \<Rightarrow> bool"

definition port_set :: "string \<Rightarrow> int set option" where
  "port_set s =
     (if s = ''any'' then Some UNIV
      else case Cut s CHR ''-'' of
        None \<Rightarrow> (case Atoi s of Some n \<Rightarrow> if n \<in> {1..65535} then Some {n} else None | None \<Rightarrow> None)
      | Some (lo, hi) \<Rightarrow> (case (Atoi lo, Atoi hi) of
            (Some a, Some b) \<Rightarrow> if 1 \<le> a \<and> a \<le> b \<and> b \<le> 65535 then Some {a..b} else None
          | _ \<Rightarrow> None))"

text \<open>
  A rule that names any host, or one group, covers a packet exactly when the peer is in the group (if one is named), the protocol is any or
  that of the packet, and the port is in the set the rule writes.  Nothing is said of ports for ICMP, which has none, nor of the
  other forms a rule may have.
\<close>

definition nebula_documented :: "nebula \<Rightarrow> bool" where
  "nebula_documented neb \<longleftrightarrow> (\<forall>r peer proto n P. fw_groups r = [] \<longrightarrow> fw_cidr r = [] \<longrightarrow>
     (fw_host r = ''any'' \<and> fw_group r = [] \<or> fw_host r = [] \<and> fw_group r \<noteq> [] \<and> fw_group r \<noteq> ''any'') \<longrightarrow>
     port_set (fw_port r) = Some P \<longrightarrow> P = UNIV \<or> proto \<noteq> ''icmp'' \<longrightarrow>
     (neb r peer proto n \<longleftrightarrow> (fw_host r = ''any'' \<or> fw_group r \<in> set peer) \<and> (fw_proto r = ''any'' \<or> fw_proto r = proto) \<and> n \<in> P))"

text \<open>A packet passes when the sender's outbound and the receiver's inbound section each have a rule that covers it.\<close>

definition sends :: "nebula \<Rightarrow> policy \<Rightarrow> string list \<Rightarrow> string list \<Rightarrow> string \<Rightarrow> int \<Rightarrow> bool" where
  "sends neb p own peer proto n = list_ex (\<lambda>r. neb r peer proto n) (outbound (CompileHost p own))"

definition accepts :: "nebula \<Rightarrow> policy \<Rightarrow> string list \<Rightarrow> string list \<Rightarrow> string \<Rightarrow> int \<Rightarrow> bool" where
  "accepts neb p own peer proto n = list_ex (\<lambda>r. neb r peer proto n) (inbound (CompileHost p own))"

definition enforced :: "nebula \<Rightarrow> policy \<Rightarrow> string list \<Rightarrow> string list \<Rightarrow> string \<Rightarrow> int \<Rightarrow> bool" where
  "enforced neb p src dst proto n \<longleftrightarrow> sends neb p src dst proto n \<and> accepts neb p dst src proto n"

text \<open>Every port a policy writes is one that Nebula documents; \<open>Validate\<close> does not exclude a range that runs downwards.\<close>

definition documented_ports :: "policy \<Rightarrow> bool" where
  "documented_ports p \<longleftrightarrow> (\<forall>r\<in>set (pol_rules p). port_set (pr_port r) \<noteq> None)"

definition rule_ok :: "policy_rule \<Rightarrow> bool" where
  "rule_ok r \<longleftrightarrow> pr_from r \<noteq> [] \<and> pr_to r \<noteq> [] \<and> pr_proto r \<in> set protos \<and> validatePort (pr_port r)"

lemma Validate_iff: "Validate p = None \<longleftrightarrow> (\<forall>r\<in>set (pol_rules p). rule_ok r)"
proof -
  have "validate_rules i rs = None \<longleftrightarrow> (\<forall>r\<in>set rs. rule_ok r)" for i rs
    by (induction rs arbitrary: i) (auto simp: rule_ok_def)
  then show ?thesis by (simp add: Validate_def)
qed

lemma CheckInvariants_iff: "CheckInvariants p = None \<longleftrightarrow> \<not> ContainsReservedRef p"
proof -
  have "invariant_rules i rs = None \<longleftrightarrow> \<not> list_ex (\<lambda>r. IsReservedGroup (pr_from r) \<or> IsReservedGroup (pr_to r)) rs" for i rs
    by (induction rs arbitrary: i) auto
  then show ?thesis by (simp add: CheckInvariants_def ContainsReservedRef_def)
qed

lemma check_port_chars: "check_port s \<Longrightarrow> c \<in> set s \<Longrightarrow> is_digit c \<or> c = CHR ''-'' \<or> c = CHR ''+''"
  by (auto simp: check_port_def split: option.splits dest: Atoi_chars)

lemma validatePort_chars:
  assumes "validatePort p" "c \<in> set p"
  shows "is_digit c \<or> c = CHR ''-'' \<or> c = CHR ''+'' \<or> c \<in> set ''any''"
proof (cases "p = ''any''")
  case False
  show ?thesis
  proof (cases "Cut p CHR ''-''")
    case None
    then show ?thesis using assms False check_port_chars by (auto simp: validatePort_def)
  next
    case (Some ab)
    obtain lo hi where ab: "ab = (lo, hi)" by (cases ab)
    have "check_port lo" "check_port hi" using assms(1) False Some ab by (auto simp: validatePort_def split: if_splits)
    moreover have "p = lo @ CHR ''-'' # hi" using Some ab Cut_Some by blast
    ultimately show ?thesis using assms(2) check_port_chars by auto
  qed
qed (use assms in auto)

lemma validatePort_plain:
  assumes "validatePort p"
  shows "CHR ''|'' \<notin> set p" "list_all (\<lambda>c. \<not> is_space c) p" "p \<noteq> []"
proof -
  show "CHR ''|'' \<notin> set p" using validatePort_chars [OF assms, of "CHR ''|''"] by (auto simp: is_digit_def)
  show "list_all (\<lambda>c. \<not> is_space c) p"
    using validatePort_chars [OF assms] by (fastforce simp: list_all_iff is_space_def is_digit_def)
  show "p \<noteq> []" using assms by (auto simp: validatePort_def Cut_def check_port_def Atoi_nonempty)
qed

lemma protos_plain:
  assumes "q \<in> set protos"
  shows "CHR ''|'' \<notin> set q" "list_all (\<lambda>c. \<not> is_space c) q" "q \<noteq> []" "ToLower q = q"
  using assms by (auto simp: protos_def is_space_def ToLower_def lower_char_def)

subsection \<open>Deduplication loses nothing\<close>

lemma sep_unique:
  fixes a :: string
  assumes "a @ sep # b = a' @ sep # b'" "sep \<notin> set a" "sep \<notin> set a'"
  shows "a = a' \<and> b = b'"
  using assms Cut_Some [of "a @ sep # b" sep] by (metis option.inject prod.inject)

definition fw_plain :: "fw_rule \<Rightarrow> bool" where
  "fw_plain r \<longleftrightarrow> CHR ''|'' \<notin> set (fw_proto r) \<and> CHR ''|'' \<notin> set (fw_port r) \<and> CHR ''|'' \<notin> set (fw_host r) \<and>
     fw_groups r = [] \<and> fw_cidr r = []"

lemma dedup_key_inj: "inj_on dedup_key (Collect fw_plain)"
proof (rule inj_onI)
  fix r q assume r: "r \<in> Collect fw_plain" and q: "q \<in> Collect fw_plain" and k: "dedup_key r = dedup_key q"
  note n = r [unfolded mem_Collect_eq fw_plain_def] q [unfolded mem_Collect_eq fw_plain_def]
  have k': "fw_proto r @ CHR ''|'' # fw_port r @ CHR ''|'' # fw_host r @ CHR ''|'' # fw_group r =
      fw_proto q @ CHR ''|'' # fw_port q @ CHR ''|'' # fw_host q @ CHR ''|'' # fw_group q"
    using k by (simp add: dedup_key_def)
  note s1 = sep_unique [OF k' conjunct1 [OF n(1)] conjunct1 [OF n(2)]]
  note s2 = sep_unique [OF conjunct2 [OF s1]]
  have "fw_port r = fw_port q \<and> fw_host r @ CHR ''|'' # fw_group r = fw_host q @ CHR ''|'' # fw_group q"
    using s2 n by blast
  moreover from this have "fw_host r = fw_host q \<and> fw_group r = fw_group q" using sep_unique n by blast
  ultimately show "r = q" using s1 n by (cases r, cases q) auto
qed

lemma set_dedup:
  assumes "\<And>r. r \<in> set rs \<Longrightarrow> fw_plain r"
  shows "set (dedup rs) = set rs"
  unfolding dedup_def by (rule set_keep_new, rule inj_on_subset [OF dedup_key_inj]) (use assms in auto)

lemma selector_plain: "rule_ok r \<Longrightarrow> fw_plain (selector (pr_proto r) (pr_port r) g)"
  using protos_plain(1) validatePort_plain(1) by (auto simp: rule_ok_def selector_def fw_def fw_plain_def)

lemma fw_plain_any [simp]: "fw_plain (fw ''any'' ''any'' ''any'' g)" "fw_plain (fw ''icmp'' ''any'' ''any'' g)" "fw_plain (fw ''any'' ''any'' [] g)"
  by (simp_all add: fw_def fw_plain_def)

lemma set_inbound:
  assumes "Validate p = None"
  shows "set (inbound (CompileHost p own)) =
    set (inbound_rules (pol_rules p) own) \<union> (if GroupControlPlane \<in> set own then {fw ''any'' ''any'' ''any'' []} else {}) \<union>
    {fw ''icmp'' ''any'' ''any'' []}"
proof -
  have ok: "fw_plain r" if "r \<in> set (inbound_rules (pol_rules p) own)" for r
    using that assms selector_plain by (auto simp: Validate_iff inbound_rules_def)
  show ?thesis unfolding CompileHost_def Let_def compiled.simps by (subst set_dedup) (auto dest: ok split: if_splits)
qed

lemma set_outbound:
  assumes "Validate p = None"
  shows "set (outbound (CompileHost p own)) =
    set (outbound_rules (pol_rules p) own) \<union>
    {if GroupControlPlane \<in> set own then fw ''any'' ''any'' ''any'' [] else fw ''any'' ''any'' [] GroupControlPlane} \<union>
    {fw ''icmp'' ''any'' ''any'' []}"
proof -
  have ok: "fw_plain r" if "r \<in> set (outbound_rules (pol_rules p) own)" for r
    using that assms selector_plain by (auto simp: Validate_iff outbound_rules_def)
  show ?thesis unfolding CompileHost_def Let_def compiled.simps by (subst set_dedup) (auto dest: ok split: if_splits)
qed

subsection \<open>Sections in terms of the rules\<close>

definition grants :: "policy \<Rightarrow> string list \<Rightarrow> string list \<Rightarrow> string \<Rightarrow> string \<Rightarrow> bool" where
  "grants p src dst proto port \<longleftrightarrow>
     list_ex (\<lambda>r. (pr_from r = ''any'' \<or> pr_from r \<in> set src) \<and> (pr_to r = ''any'' \<or> pr_to r \<in> set dst) \<and>
       matchProto (pr_proto r) proto \<and> matchPort (pr_port r) port) (pol_rules p)"

text \<open>The same of a packet, with the documented meaning of ports.\<close>

definition permits :: "policy \<Rightarrow> string list \<Rightarrow> string list \<Rightarrow> string \<Rightarrow> int \<Rightarrow> bool" where
  "permits p src dst proto n \<longleftrightarrow>
     (\<exists>r\<in>set (pol_rules p). (pr_from r = ''any'' \<or> pr_from r \<in> set src) \<and> (pr_to r = ''any'' \<or> pr_to r \<in> set dst) \<and>
       (pr_proto r = ''any'' \<or> pr_proto r = proto) \<and> n \<in> the (port_set (pr_port r)))"

lemma neb_selector:
  assumes "nebula_documented neb" "g \<noteq> []" "port_set po = Some P" "P = UNIV \<or> proto \<noteq> ''icmp''"
  shows "neb (selector pr po g) peer proto n \<longleftrightarrow> (g = ''any'' \<or> g \<in> set peer) \<and> (pr = ''any'' \<or> pr = proto) \<and> n \<in> P"
proof -
  have *: "neb r peer proto n \<longleftrightarrow> (fw_host r = ''any'' \<or> fw_group r \<in> set peer) \<and> (fw_proto r = ''any'' \<or> fw_proto r = proto) \<and> n \<in> P"
    if "r = selector pr po g" for r
    using assms(1) [unfolded nebula_documented_def, rule_format, of r P proto peer n] assms(2-4) that
    by (auto simp: selector_def fw_def split: if_splits)
  show ?thesis unfolding * [OF refl] by (auto simp: selector_def fw_def)
qed

lemma port_set_any [simp]: "port_set ''any'' = Some UNIV"
  by (simp add: port_set_def)

lemma neb_base:
  assumes "nebula_documented neb"
  shows "neb (fw ''any'' ''any'' ''any'' []) peer proto n" "neb (fw ''any'' ''any'' [] GroupControlPlane) peer proto n \<longleftrightarrow> GroupControlPlane \<in> set peer"
    "neb (fw ''icmp'' ''any'' ''any'' []) peer proto n \<longleftrightarrow> proto = ''icmp''"
  using neb_selector [OF assms, of "''any''" "''any''" UNIV proto "''any''" peer n]
    neb_selector [OF assms, of GroupControlPlane "''any''" UNIV proto "''any''" peer n]
    neb_selector [OF assms, of "''any''" "''any''" UNIV proto "''icmp''" peer n]
  by (auto simp: selector_def GroupControlPlane_def)

text \<open>The sections of a host: what the rules of the policy contribute, and the baseline.\<close>

lemma sends_rules:
  assumes "nebula_documented neb" "Validate p = None"
  shows "sends neb p own peer proto n \<longleftrightarrow>
    (\<exists>r\<in>set (pol_rules p). (pr_from r = ''any'' \<or> pr_from r \<in> set own) \<and> neb (selector (pr_proto r) (pr_port r) (pr_to r)) peer proto n) \<or>
    GroupControlPlane \<in> set own \<or> GroupControlPlane \<in> set peer \<or> proto = ''icmp''"
  unfolding sends_def list_ex_iff set_outbound [OF assms(2)] by (auto simp: outbound_rules_def neb_base [OF assms(1)])

lemma accepts_rules:
  assumes "nebula_documented neb" "Validate p = None"
  shows "accepts neb p own peer proto n \<longleftrightarrow>
    (\<exists>r\<in>set (pol_rules p). (pr_to r = ''any'' \<or> pr_to r \<in> set own) \<and> neb (selector (pr_proto r) (pr_port r) (pr_from r)) peer proto n) \<or>
    GroupControlPlane \<in> set own \<or> proto = ''icmp''"
  unfolding accepts_def list_ex_iff set_inbound [OF assms(2)] by (auto simp: inbound_rules_def neb_base [OF assms(1)] split: if_splits)

lemma neb_rule:
  assumes "nebula_documented neb" "Validate p = None" "documented_ports p" "r \<in> set (pol_rules p)" "g \<in> {pr_from r, pr_to r}" "proto \<noteq> ''icmp''"
  shows "neb (selector (pr_proto r) (pr_port r) g) peer proto n \<longleftrightarrow>
    (g = ''any'' \<or> g \<in> set peer) \<and> (pr_proto r = ''any'' \<or> pr_proto r = proto) \<and> n \<in> the (port_set (pr_port r))"
proof -
  obtain P where "port_set (pr_port r) = Some P" using assms(3,4) by (auto simp: documented_ports_def)
  moreover have "g \<noteq> []" using assms(2,4,5) by (auto simp: Validate_iff rule_ok_def)
  ultimately show ?thesis using neb_selector [OF assms(1)] assms(6) by simp
qed

lemma enforced_iff:
  assumes "nebula_documented neb" "Validate p = None" "documented_ports p"
  shows "enforced neb p src dst proto n \<longleftrightarrow> permits p src dst proto n \<or> GroupControlPlane \<in> set dst \<or> proto = ''icmp''"
proof (cases "proto = ''icmp''")
  case False
  note r = neb_rule [OF assms _ _ False]
  have "sends neb p src dst proto n \<longleftrightarrow> permits p src dst proto n \<or> GroupControlPlane \<in> set src \<or> GroupControlPlane \<in> set dst"
    "accepts neb p dst src proto n \<longleftrightarrow> permits p src dst proto n \<or> GroupControlPlane \<in> set dst"
    using False r by (auto simp: sends_rules [OF assms(1,2)] accepts_rules [OF assms(1,2)] permits_def)
  then show ?thesis using False by (auto simp: enforced_def)
qed (simp add: enforced_def sends_rules [OF assms(1,2)] accepts_rules [OF assms(1,2)])

text \<open>The port test of the analysis agrees with the documented meaning on every port that can be asked for.\<close>

lemma matchPort_port_set:
  assumes "port_set s = Some P" "Atoi q = Some n"
  shows "matchPort s q \<longleftrightarrow> n \<in> P"
proof -
  have "q \<noteq> ''any''" using assms(2) by (auto simp: Atoi_def is_digit_def)
  then show ?thesis using assms by (auto simp: matchPort_def port_set_def split: option.splits if_splits prod.splits)
qed

lemma grants_permits:
  assumes "documented_ports p" "proto \<noteq> ''any''" "Atoi port = Some n"
  shows "grants p src dst proto port \<longleftrightarrow> permits p src dst proto n"
proof -
  have "matchPort (pr_port r) port \<longleftrightarrow> n \<in> the (port_set (pr_port r))" if "r \<in> set (pol_rules p)" for r
    using that assms(1) matchPort_port_set [OF _ assms(3)] by (auto simp: documented_ports_def)
  then show ?thesis unfolding grants_def permits_def list_ex_iff using assms(2) by (auto simp: matchProto_def)
qed

lemma reach_scan_iff:
  "(\<exists>r. fst (reach_scan rs src dst proto port n) = Some r) \<longleftrightarrow>
     (\<exists>r\<in>set rs. matchGroup (pr_from r) src \<and> matchGroup (pr_to r) dst \<and> matchProto (pr_proto r) proto \<and> matchPort (pr_port r) port)"
  by (induction rs src dst proto port n rule: reach_scan.induct) auto

lemma Reachable_iff:
  "dec_allowed (Reachable p src dst proto port) \<longleftrightarrow>
     ToLower proto = ''icmp'' \<or> (dst = GroupControlPlane \<and> src \<noteq> GroupControlPlane) \<or> grants p [src] [dst] (ToLower proto) port \<or>
     (ToLower proto = ''any'' \<and> port = ''any'')"
proof -
  have "grants p [src] [dst] (ToLower proto) port \<longleftrightarrow> (\<exists>r. fst (reach_scan (pol_rules p) src dst (ToLower proto) port None) = Some r)"
    unfolding reach_scan_iff grants_def list_ex_iff matchGroup_def by auto
  then show ?thesis
    by (cases "reach_scan (pol_rules p) src dst (ToLower proto) port None") (auto simp: Reachable_def Let_def split: option.splits)
qed

lemma grants_pairs:
  assumes "src \<noteq> []" "dst \<noteq> []"
  shows "grants p src dst proto port \<longleftrightarrow> (\<exists>f\<in>set src. \<exists>t\<in>set dst. grants p [f] [t] proto port)"
proof -
  have "\<exists>f. f \<in> set src" "\<exists>t. t \<in> set dst" using assms by (metis list.set_intros(1) neq_Nil_conv)+
  then show ?thesis unfolding grants_def list_ex_iff by auto
qed

text \<open>
  C8: The console's reachability answer is the enforced one, for every rule evaluation \<open>neb\<close> that behaves as Nebula documents.  For a
  valid policy whose port ranges run upwards, a protocol, a port number and two hosts with their groups, the compiled sections of sender and
  receiver let the packet pass exactly when \<open>Reachable\<close> allows it for some pair of their groups, unless the sender has no group but
  the control plane's and the receiver is a control-plane host.
\<close>

theorem Reachable_matches_enforcement:
  assumes "nebula_documented neb" and "Validate p = None" "documented_ports p" and "proto \<in> {''tcp'', ''udp'', ''icmp''}" and "Atoi port = Some n"
    and "src \<noteq> []" "dst \<noteq> []"
    and "\<not> (set src = {GroupControlPlane} \<and> GroupControlPlane \<in> set dst)"
  shows "enforced neb p src dst proto n \<longleftrightarrow>
    (\<exists>f\<in>set src. \<exists>t\<in>set dst. dec_allowed (Reachable p f t proto port))"
proof -
  have low: "ToLower proto = proto" "proto \<noteq> ''any''" using assms(4) by (auto simp: ToLower_def lower_char_def)
  have ne: "\<exists>f. f \<in> set src" "\<exists>t. t \<in> set dst" using assms(6,7) by (metis list.set_intros(1) neq_Nil_conv)+
  have cp: "\<exists>f\<in>set src. f \<noteq> GroupControlPlane" if "GroupControlPlane \<in> set dst"
  proof (rule ccontr)
    assume "\<not> ?thesis"
    then have "set src = {GroupControlPlane}" using ne(1) by auto
    then show False using that assms(8) by simp
  qed
  have one: "dec_allowed (Reachable p f t proto port) \<longleftrightarrow>
      proto = ''icmp'' \<or> (t = GroupControlPlane \<and> f \<noteq> GroupControlPlane) \<or> grants p [f] [t] proto port" for f t
    using low by (simp add: Reachable_iff)
  have all: "enforced neb p src dst proto n \<longleftrightarrow>
      (\<exists>f\<in>set src. \<exists>t\<in>set dst. grants p [f] [t] proto port) \<or> GroupControlPlane \<in> set dst \<or> proto = ''icmp''"
    by (simp only: enforced_iff [OF assms(1-3)] grants_permits [OF assms(3) low(2) assms(5), symmetric] grants_pairs [OF assms(6,7)])
  show ?thesis unfolding one all using ne cp by auto
qed

text \<open>An evaluation that is as documented.\<close>

definition demo_nebula :: nebula where
  "demo_nebula r peer proto n \<longleftrightarrow> (fw_host r = ''any'' \<or> fw_group r \<in> set peer) \<and> (fw_proto r = ''any'' \<or> fw_proto r = proto) \<and>
     (case port_set (fw_port r) of None \<Rightarrow> False | Some P \<Rightarrow> n \<in> P)"

lemma demo_nebula_documented: "nebula_documented demo_nebula"
  by (auto simp: nebula_documented_def demo_nebula_def)

definition demo_policy :: policy where
  "demo_policy = \<lparr>pol_version = 0, pol_rules =
     [\<lparr>pr_from = ''web'', pr_to = ''db'', pr_proto = ''tcp'', pr_port = ''5432-5440''\<rparr>,
      \<lparr>pr_from = ''any'', pr_to = ''web'', pr_proto = ''any'', pr_port = ''443''\<rparr>]\<rparr>"

lemma demo_policy_ok: "Validate demo_policy = None" "documented_ports demo_policy"
proof -
  show "Validate demo_policy = None" by code_simp
  have "Cut ''5432-5440'' CHR ''-'' = Some (''5432'', ''5440'')" "Cut ''443'' CHR ''-'' = None"
    "Atoi ''5432'' = Some 5432" "Atoi ''5440'' = Some 5440" "Atoi ''443'' = Some 443" by code_simp+
  then show "documented_ports demo_policy" by (simp add: documented_ports_def demo_policy_def port_set_def)
qed

theorem Reachable_matches_enforcement_witness:
  "enforced demo_nebula demo_policy [''web'', ''eu''] [''db''] ''tcp'' 5440 \<and> \<not> enforced demo_nebula demo_policy [''db''] [''eu''] ''tcp'' 5433"
proof -
  have a: "dec_allowed (Reachable demo_policy ''web'' ''db'' ''tcp'' ''5440'')" "Atoi ''5440'' = Some 5440"
    "\<not> dec_allowed (Reachable demo_policy ''db'' ''eu'' ''tcp'' ''5433'')" "Atoi ''5433'' = Some 5433" by code_simp+
  have "enforced demo_nebula demo_policy [''web'', ''eu''] [''db''] ''tcp'' 5440"
    using a by (subst Reachable_matches_enforcement [OF demo_nebula_documented demo_policy_ok _ a(2)]) (auto simp: GroupControlPlane_def)
  moreover have "\<not> enforced demo_nebula demo_policy [''db''] [''eu''] ''tcp'' 5433"
    using a by (subst Reachable_matches_enforcement [OF demo_nebula_documented demo_policy_ok _ a(4)]) (auto simp: GroupControlPlane_def)
  ultimately show ?thesis by simp
qed

text \<open>The excluded pair: between two control-plane hosts the sections are open while the answer is a denial.\<close>

lemma control_plane_pair_misreported:
  assumes "nebula_documented neb"
  shows "enforced neb \<lparr>pol_version = 0, pol_rules = []\<rparr> [GroupControlPlane] [GroupControlPlane] ''tcp'' 22 \<and>
   \<not> dec_allowed (Reachable \<lparr>pol_version = 0, pol_rules = []\<rparr> GroupControlPlane GroupControlPlane ''tcp'' ''22'')"
  by (simp add: enforced_iff [OF assms] documented_ports_def Validate_def Reachable_iff ToLower_def lower_char_def grants_def)

text \<open>
  C27: No published policy can sever the control plane: under every policy that validates, whatever its rules, and every rule
  evaluation as Nebula documents it, each host may send to every control-plane host and is accepted there, on any protocol and
  port, and ICMP passes between any two hosts.
\<close>

theorem baseline_survives_every_policy:
  assumes "nebula_documented neb" "Validate p = None"
  shows "enforced neb p src (GroupControlPlane # dst) proto n \<and> enforced neb p src dst ''icmp'' n"
  by (simp add: enforced_def sends_rules [OF assms] accepts_rules [OF assms])

theorem baseline_survives_every_policy_witness:
  "enforced demo_nebula demo_policy [''db''] [GroupControlPlane] ''udp'' 9 \<and> enforced demo_nebula demo_policy [''db''] [] ''icmp'' 0"
  using baseline_survives_every_policy [OF demo_nebula_documented demo_policy_ok(1)] by blast

subsection \<open>Printing and parsing\<close>

lemma digits_chars: "c \<in> set (digits n) \<Longrightarrow> is_digit c"
proof (induction n rule: digits.induct)
  case (1 n)
  have d: "is_digit (char_of (48 + k mod 10))" for k :: nat
    by (simp add: is_digit_def)
  show ?case
  proof (cases "n < 10")
    case True
    then show ?thesis using 1(2) d [of n] by (simp add: digits.simps)
  next
    case False
    then show ?thesis using 1 d [of n] by (subst (asm) digits.simps) auto
  qed
qed

lemma stripGroup_id: "\<not> HasPrefix g ''group:'' \<Longrightarrow> stripGroup g = g"
  by (simp add: stripGroup_def TrimPrefix_def)

lemma spaces_suffix: "list_all (\<lambda>c. \<not> is_space c) w \<Longrightarrow> list_all (\<lambda>c. \<not> is_space c) (drop n w)"
  by (auto simp: list_all_iff dest: in_set_dropD)

lemma stripGroup_words: "list_all (\<lambda>c. \<not> is_space c) w \<Longrightarrow> list_all (\<lambda>c. \<not> is_space c) (stripGroup w)"
  by (simp add: stripGroup_def TrimPrefix_def spaces_suffix)

definition spaceless :: "policy_rule \<Rightarrow> bool" where
  "spaceless r \<longleftrightarrow> list_all (\<lambda>c. \<not> is_space c) (pr_from r) \<and> list_all (\<lambda>c. \<not> is_space c) (pr_to r)"

definition printable :: "policy_rule \<Rightarrow> bool" where
  "printable r \<longleftrightarrow> rule_ok r \<and> spaceless r \<and> \<not> HasPrefix (pr_from r) ''group:'' \<and> \<not> HasPrefix (pr_to r) ''group:''"

lemma parse_rule_words:
  assumes "parse_rule i line = Inr r"
  shows "spaceless r"
proof -
  have len: "length (Fields line) = 6" and r: "pr_from r = stripGroup (Fields line ! 1)" "pr_to r = stripGroup (Fields line ! 3)"
    using assms by (auto simp: parse_rule_def Let_def split: if_splits)
  have "list_all (\<lambda>c. \<not> is_space c) (Fields line ! k)" if "k < 6" for k
    using that len Fields_words [of "Fields line ! k" line] by simp
  then show ?thesis by (simp add: spaceless_def r stripGroup_words)
qed

lemma parse_lines_words:
  "parse_lines i ls acc = Inr rs \<Longrightarrow> \<forall>r\<in>set acc. spaceless r \<Longrightarrow> \<forall>r\<in>set rs. spaceless r"
proof (induction ls arbitrary: i acc)
  case (Cons raw rest)
  show ?case
  proof (cases "TrimSpace raw = [] \<or> HasPrefix (TrimSpace raw) ''#''")
    case True
    then show ?thesis using Cons.prems Cons.IH [of "i + 1" acc] by (simp add: Let_def)
  next
    case False
    then obtain r where r: "parse_rule i (TrimSpace raw) = Inr r" "parse_lines (i + 1) rest (acc @ [r]) = Inr rs"
      using Cons.prems(1) by (auto simp: Let_def split: sum.splits)
    then show ?thesis using Cons.IH [OF r(2)] Cons.prems(2) parse_rule_words [OF r(1)] by simp
  qed
qed simp

lemma Parse_sound:
  assumes "Parse text = Inr p"
  shows "pol_version p = 0" "Validate p = None" "\<forall>r\<in>set (pol_rules p). spaceless r"
proof -
  obtain rs where rs: "parse_lines 0 (Split text CHR 0x0A) [] = Inr rs" "p = \<lparr>pol_version = 0, pol_rules = rs\<rparr>"
    "Validate p = None"
    using assms by (auto simp: Parse_def Let_def split: sum.splits option.splits)
  then show "pol_version p = 0" "Validate p = None" "\<forall>r\<in>set (pol_rules p). spaceless r"
    using parse_lines_words [OF rs(1)] by simp_all
qed

text \<open>The printed line of a rule without its line end.\<close>

definition rule_line :: "policy_rule \<Rightarrow> string" where
  "rule_line r = ''allow'' @ CHR '' '' # pr_from r @ CHR '' '' # ''->'' @ CHR '' '' # pr_to r @ CHR '' '' # pr_proto r @ CHR '' '' # pr_port r"

lemma print_rule_line: "print_rule r = rule_line r @ [CHR 0x0A]"
  by (simp add: print_rule_def rule_line_def)

lemma Fields_rule_line:
  assumes "printable r"
  shows "Fields (rule_line r) = [''allow'', pr_from r, ''->'', pr_to r, pr_proto r, pr_port r]"
proof -
  have w: "list_all (\<lambda>c. \<not> is_space c) ''allow''" "list_all (\<lambda>c. \<not> is_space c) ''->''" by (simp_all add: is_space_def)
  have ok: "rule_ok r" "list_all (\<lambda>c. \<not> is_space c) (pr_from r)" "list_all (\<lambda>c. \<not> is_space c) (pr_to r)"
    using assms by (simp_all add: printable_def spaceless_def)
  have pp: "list_all (\<lambda>c. \<not> is_space c) (pr_proto r)" "pr_proto r \<noteq> []" "list_all (\<lambda>c. \<not> is_space c) (pr_port r)" "pr_port r \<noteq> []"
    and gg: "pr_from r \<noteq> []" "pr_to r \<noteq> []"
    using ok(1) protos_plain validatePort_plain by (auto simp: rule_ok_def)
  have "Fields (''allow'' @ CHR '' '' # s) = ''allow'' # Fields s" "Fields (''->'' @ CHR '' '' # s) = ''->'' # Fields s" for s
    by (rule Fields_cons(1) [OF _ w(1)], simp) (rule Fields_cons(1) [OF _ w(2)], simp)
  then show ?thesis unfolding rule_line_def
    by (simp only: Fields_cons(1) [OF gg(1) ok(2)] Fields_cons(1) [OF gg(2) ok(3)] Fields_cons(1) [OF pp(2,1)] Fields_cons(2) [OF pp(4,3)])
qed

lemma parse_rule_line: "printable r \<Longrightarrow> parse_rule i (rule_line r) = Inr r"
  using protos_plain(4) [of "pr_proto r"] stripGroup_id
  by (simp add: parse_rule_def Fields_rule_line printable_def rule_ok_def)

lemma newline_space: "is_space CHR 0x0A"
  by (simp add: is_space_def)

lemma rule_line_shape:
  assumes "printable r"
  shows "TrimSpace (rule_line r) = rule_line r" "\<not> HasPrefix (rule_line r) ''#''" "rule_line r \<noteq> []"
    "list_all (\<lambda>c. c \<noteq> CHR 0x0A) (rule_line r)"
proof -
  have ok: "rule_ok r" "list_all (\<lambda>c. \<not> is_space c) (pr_from r)" "list_all (\<lambda>c. \<not> is_space c) (pr_to r)"
    using assms by (simp_all add: printable_def spaceless_def)
  have pp: "list_all (\<lambda>c. \<not> is_space c) (pr_proto r)" "list_all (\<lambda>c. \<not> is_space c) (pr_port r)" "pr_port r \<noteq> []"
    using ok(1) protos_plain validatePort_plain by (auto simp: rule_ok_def)
  have "\<not> is_space (last (pr_port r))" using pp(2,3) by (simp add: list_all_iff)
  then show "TrimSpace (rule_line r) = rule_line r"
    using pp(3) by (intro TrimSpace_id) (auto simp: rule_line_def is_space_def)
  show "\<not> HasPrefix (rule_line r) ''#''" "rule_line r \<noteq> []" by (simp_all add: rule_line_def HasPrefix_def)
  show "list_all (\<lambda>c. c \<noteq> CHR 0x0A) (rule_line r)"
    using ok pp newline_space by (auto simp: rule_line_def list_all_iff)
qed

lemma Split_lines:
  assumes "\<forall>l\<in>set ls. list_all (\<lambda>c. c \<noteq> CHR 0x0A) l"
  shows "Split (concat (map (\<lambda>l. l @ [CHR 0x0A]) ls)) CHR 0x0A = ls @ [[]]"
  using assms
proof (induction ls)
  case (Cons l ls)
  then show ?case unfolding Split_def
    using split_by_cons [of "\<lambda>c. c = CHR 0x0A" l "CHR 0x0A" "concat (map (\<lambda>l. l @ [CHR 0x0A]) ls)"] by simp
qed (simp add: Split_def)

lemma parse_printed:
  assumes "\<forall>r\<in>set rs. printable r"
  shows "parse_lines i (map rule_line rs @ [[]]) acc = Inr (acc @ rs)"
  using assms
proof (induction rs arbitrary: i acc)
  case Nil
  then show ?case by (simp add: TrimSpace_def)
next
  case (Cons r rs)
  then show ?case using rule_line_shape [of r] parse_rule_line [of r] by (simp add: Let_def)
qed

text \<open>
  C37: What \<open>harbor policy active\<close> prints of a parsed policy parses back to the same policy, provided no group
  name still starts with \<open>group:\<close> (a doubled prefix is stripped once by each parse).
\<close>

theorem printed_policy_parses_back:
  assumes "Parse text = Inr p"
    and "\<forall>r\<in>set (pol_rules p). \<not> HasPrefix (pr_from r) ''group:'' \<and> \<not> HasPrefix (pr_to r) ''group:''"
  shows "Parse (policyActive p) = Inr p"
proof -
  have pr: "\<forall>r\<in>set (pol_rules p). printable r"
    using assms(2) Parse_sound [OF assms(1)] by (auto simp: printable_def Validate_iff)
  define head where "head = ''# active policy: '' @ show_int (int (length (pol_rules p))) @ '' rule(s)''"
  have hd: "list_all (\<lambda>c. c \<noteq> CHR 0x0A) head" "TrimSpace head = head" "HasPrefix head ''#''"
    using digits_chars [of "CHR 0x0A" "length (pol_rules p)"]
    by (auto simp: head_def show_int_def list_all_iff is_digit_def is_space_def HasPrefix_def intro!: TrimSpace_id)
  have "policyActive p = concat (map (\<lambda>l. l @ [CHR 0x0A]) (head # map rule_line (pol_rules p)))"
    by (simp add: policyActive_def head_def comp_def print_rule_line [abs_def] cong: map_cong)
  then have "Split (policyActive p) CHR 0x0A = (head # map rule_line (pol_rules p)) @ [[]]"
    using Split_lines [of "head # map rule_line (pol_rules p)"] hd(1) pr rule_line_shape(4) by simp
  then have "parse_lines 0 (Split (policyActive p) CHR 0x0A) [] = Inr (pol_rules p)"
    using hd(2,3) parse_printed [OF pr, of 1 "[]"] by simp
  moreover have "\<lparr>pol_version = 0, pol_rules = pol_rules p\<rparr> = p" using Parse_sound(1) [OF assms(1)] by simp
  ultimately show ?thesis using Parse_sound(2) [OF assms(1)] by (simp add: Parse_def Let_def)
qed

definition demo_text :: string where
  "demo_text = ''allow group:web -> db TCP 5432-5440'' @ [CHR 0x0A] @ ''# note'' @ [CHR 0x0A] @ ''  allow any ->  web any 443''"

theorem printed_policy_parses_back_witness:
  "Parse demo_text = Inr demo_policy \<and> Parse (policyActive demo_policy) = Inr demo_policy"
proof -
  have "Parse demo_text = Inr demo_policy" by code_simp
  moreover have "\<forall>r\<in>set (pol_rules demo_policy). \<not> HasPrefix (pr_from r) ''group:'' \<and> \<not> HasPrefix (pr_to r) ''group:''"
    by code_simp
  ultimately show ?thesis using printed_policy_parses_back by blast
qed

subsection \<open>Differences\<close>

lemma flow_key_inj: "inj_on flow_key {f. CHR ''|'' \<notin> set (fst f)}"
proof (rule inj_onI)
  fix f g assume h: "f \<in> {f. CHR ''|'' \<notin> set (fst f)}" "g \<in> {f. CHR ''|'' \<notin> set (fst f)}" "flow_key f = flow_key g"
  then have k: "fst f @ CHR ''|'' # snd f = fst g @ CHR ''|'' # snd g" by (simp add: flow_key_def)
  show "f = g" using sep_unique [OF k] h(1,2) by (simp add: prod_eq_iff)
qed

text \<open>The flow of a rule as the difference compares it.\<close>

definition canon_flow :: "policy_rule \<Rightarrow> flow" where
  "canon_flow r = (pr_proto r, canonPort (pr_port r))"

lemma rule_ok_flow: "rule_ok r \<Longrightarrow> CHR ''|'' \<notin> set (fst (canon_flow r))"
  using protos_plain(1) by (simp add: canon_flow_def rule_ok_def)

lemma set_literalFlows:
  assumes "Validate p = None"
  shows "set (literalFlows p src dst) = canon_flow ` {r \<in> set (pol_rules p). pr_from r = src \<and> pr_to r = dst}"
proof -
  have "set (literalFlows p src dst) = set (map canon_flow (filter (\<lambda>r. pr_from r = src \<and> pr_to r = dst) (pol_rules p)))"
    unfolding literalFlows_def canon_flow_def
    by (rule set_keep_new, rule inj_on_subset [OF flow_key_inj])
       (use assms rule_ok_flow in \<open>auto simp: Validate_iff canon_flow_def\<close>)
  then show ?thesis by simp
qed

lemma set_flowsMinus:
  assumes "\<And>f. f \<in> set a \<union> set b \<Longrightarrow> CHR ''|'' \<notin> set (fst f)"
  shows "set (flowsMinus a b) = set a - set b"
proof -
  have "inj_on flow_key (set a \<union> set b)" using flow_key_inj by (rule inj_on_subset) (use assms in auto)
  then have "flow_key f \<in> flow_key ` set b \<longleftrightarrow> f \<in> set b" if "f \<in> set a" for f
    using that by (simp add: inj_on_image_mem_iff)
  then show ?thesis by (auto simp: flowsMinus_def)
qed

lemma set_FlowDiff:
  assumes "Validate active = None" "Validate draft = None"
  defines "flows p \<equiv> (\<lambda>r. (pr_from r, pr_to r, canon_flow r)) ` set (pol_rules p)"
  shows "set (df_added (FlowDiff active draft)) = flows draft - flows active"
    "set (df_removed (FlowDiff active draft)) = flows active - flows draft"
proof -
  have ok: "CHR ''|'' \<notin> set (fst f)" if "f \<in> set (literalFlows active s d) \<union> set (literalFlows draft s d)" for f s d
    using that assms(1,2) rule_ok_flow by (auto simp: set_literalFlows Validate_iff)
  have m: "set (flowsMinus (literalFlows draft s d) (literalFlows active s d)) = set (literalFlows draft s d) - set (literalFlows active s d)"
    "set (flowsMinus (literalFlows active s d) (literalFlows draft s d)) = set (literalFlows active s d) - set (literalFlows draft s d)" for s d
    using ok by (intro set_flowsMinus; auto)+
  show "set (df_added (FlowDiff active draft)) = flows draft - flows active"
    unfolding FlowDiff_def Let_def flows_def
    by (auto simp: m set_literalFlows assms(1,2) unionLiteralPairs_def image_iff) (metis)+
  show "set (df_removed (FlowDiff active draft)) = flows active - flows draft"
    unfolding FlowDiff_def Let_def flows_def
    by (auto simp: m set_literalFlows assms(1,2) unionLiteralPairs_def image_iff) (metis)+
qed

lemma matchPort_canon:
  assumes "validatePort p"
  shows "matchPort (canonPort p) q = matchPort p q"
proof (cases "Cut p CHR ''-''")
  case (Some ab)
  obtain lo hi where ab: "ab = (lo, hi)" by (cases ab)
  show ?thesis
  proof (cases "lo = hi")
    case True
    have "p \<noteq> ''any''" using Some Cut_None_iff [of p "CHR ''-''"] by auto
    then have "check_port lo" using assms Some ab True by (simp add: validatePort_def split: if_splits)
    then have "lo \<noteq> ''any''" by (auto simp: check_port_def Atoi_def is_digit_def)
    moreover have "Cut lo CHR ''-'' = None" using Some ab Cut_Some Cut_None_iff by blast
    ultimately show ?thesis using Some ab True \<open>p \<noteq> ''any''\<close>
      by (auto simp: matchPort_def canonPort_def split: option.splits)
  qed (use Some ab in \<open>simp add: canonPort_def\<close>)
qed (simp add: canonPort_def)

lemma grants_flows:
  assumes "Validate p = None"
  shows "grants p src dst proto port \<longleftrightarrow>
    (\<exists>x\<in>(\<lambda>r. (pr_from r, pr_to r, canon_flow r)) ` set (pol_rules p).
       (fst x = ''any'' \<or> fst x \<in> set src) \<and> (fst (snd x) = ''any'' \<or> fst (snd x) \<in> set dst) \<and>
       matchProto (fst (snd (snd x))) proto \<and> matchPort (snd (snd (snd x))) port)"
  using assms by (auto simp: grants_def list_ex_iff Validate_iff rule_ok_def canon_flow_def matchPort_canon)

lemma bex_transfer: "(\<And>x. P x \<Longrightarrow> x \<in> A \<longleftrightarrow> x \<in> B) \<Longrightarrow> (\<exists>x\<in>A. P x) \<longleftrightarrow> (\<exists>x\<in>B. P x)"
  by blast

text \<open>A range of one port and the port itself are the same to Nebula, so the sections depend on the canonical flows only.\<close>

lemma neb_canon:
  assumes "nebula_documented neb" "validatePort po" "g \<noteq> []" "proto \<noteq> ''icmp''"
  shows "neb (selector pr (canonPort po) g) peer proto n = neb (selector pr po g) peer proto n"
proof (cases "canonPort po = po")
  case False
  then obtain lo where lo: "Cut po CHR ''-'' = Some (lo, lo)" "canonPort po = lo" by (auto simp: canonPort_def split: option.splits if_splits)
  have "po \<noteq> ''any''" using lo(1) Cut_None_iff [of po "CHR ''-''"] by auto
  then have "check_port lo" using assms(2) lo(1) by (simp add: validatePort_def split: if_splits)
  then obtain a where a: "Atoi lo = Some a" "1 \<le> a" "a \<le> 65535" by (auto simp: check_port_def split: option.splits)
  have "lo \<noteq> ''any''" using a(1) by (auto simp: Atoi_def is_digit_def)
  moreover have "Cut lo CHR ''-'' = None" using lo(1) Cut_Some Cut_None_iff by blast
  ultimately have "port_set lo = Some {a}" "port_set po = Some {a}" using a lo(1) \<open>po \<noteq> ''any''\<close> by (simp_all add: port_set_def)
  then show ?thesis unfolding lo(2) using neb_selector [OF assms(1,3)] assms(4) by simp
qed simp

lemma sections_flows:
  assumes "nebula_documented neb" "Validate p = None" "proto \<noteq> ''icmp''"
  defines "flows \<equiv> (\<lambda>r. (pr_from r, pr_to r, canon_flow r)) ` set (pol_rules p)"
  shows "sends neb p own peer proto n \<longleftrightarrow>
      (\<exists>x\<in>flows. (fst x = ''any'' \<or> fst x \<in> set own) \<and> neb (selector (fst (snd (snd x))) (snd (snd (snd x))) (fst (snd x))) peer proto n) \<or>
      GroupControlPlane \<in> set own \<or> GroupControlPlane \<in> set peer"
    "accepts neb p own peer proto n \<longleftrightarrow>
      (\<exists>x\<in>flows. (fst (snd x) = ''any'' \<or> fst (snd x) \<in> set own) \<and> neb (selector (fst (snd (snd x))) (snd (snd (snd x))) (fst x)) peer proto n) \<or>
      GroupControlPlane \<in> set own"
proof -
  have c: "neb (selector (pr_proto r) (canonPort (pr_port r)) g) peer proto n = neb (selector (pr_proto r) (pr_port r) g) peer proto n"
    if "r \<in> set (pol_rules p)" "g = pr_from r \<or> g = pr_to r" for r g
    using neb_canon [OF assms(1) _ _ assms(3)] that assms(2) by (auto simp: Validate_iff rule_ok_def)
  show "sends neb p own peer proto n \<longleftrightarrow>
      (\<exists>x\<in>flows. (fst x = ''any'' \<or> fst x \<in> set own) \<and> neb (selector (fst (snd (snd x))) (snd (snd (snd x))) (fst (snd x))) peer proto n) \<or>
      GroupControlPlane \<in> set own \<or> GroupControlPlane \<in> set peer"
    using assms(3) by (simp add: sends_rules [OF assms(1,2)] flows_def canon_flow_def c cong: rev_conj_cong bex_cong)
  show "accepts neb p own peer proto n \<longleftrightarrow>
      (\<exists>x\<in>flows. (fst (snd x) = ''any'' \<or> fst (snd x) \<in> set own) \<and> neb (selector (fst (snd (snd x))) (snd (snd (snd x))) (fst x)) peer proto n) \<or>
      GroupControlPlane \<in> set own"
    using assms(3) by (simp add: accepts_rules [OF assms(1,2)] flows_def canon_flow_def c cong: rev_conj_cong bex_cong)
qed

text \<open>
  An empty difference means an unchanged policy: when \<open>FlowDiff\<close> of two valid policies reports nothing added
  and nothing removed, every reachability query has the same answer under both, and so has every flow
  between hosts.
\<close>

theorem empty_diff_changes_nothing:
  assumes "Validate active = None" "Validate draft = None"
    and "df_added (FlowDiff active draft) = []" "df_removed (FlowDiff active draft) = []"
  shows "dec_allowed (Reachable active src dst proto port) = dec_allowed (Reachable draft src dst proto port)"
proof -
  have "(\<lambda>r. (pr_from r, pr_to r, canon_flow r)) ` set (pol_rules active) =
      (\<lambda>r. (pr_from r, pr_to r, canon_flow r)) ` set (pol_rules draft)"
    using set_FlowDiff [OF assms(1,2)] assms(3,4) by auto
  then have "grants active s d q n = grants draft s d q n" for s d q n
    by (simp only: grants_flows [OF assms(1)] grants_flows [OF assms(2)])
  then show ?thesis by (simp add: Reachable_iff assms(1,2))
qed

definition demo_respelled :: policy where
  "demo_respelled = \<lparr>pol_version = 0, pol_rules =
     [\<lparr>pr_from = ''any'', pr_to = ''web'', pr_proto = ''any'', pr_port = ''443-443''\<rparr>,
      \<lparr>pr_from = ''web'', pr_to = ''db'', pr_proto = ''tcp'', pr_port = ''5432-5440''\<rparr>]\<rparr>"

theorem empty_diff_changes_nothing_witness:
  "dec_allowed (Reachable demo_policy ''lan'' ''web'' ''tcp'' ''443'') = dec_allowed (Reachable demo_respelled ''lan'' ''web'' ''tcp'' ''443'')"
proof -
  have "Validate demo_policy = None" "Validate demo_respelled = None"
    "df_added (FlowDiff demo_policy demo_respelled) = []" "df_removed (FlowDiff demo_policy demo_respelled) = []" by code_simp+
  then show ?thesis using empty_diff_changes_nothing by blast
qed

text \<open>
  C36: The blast radius is a superset of the hosts a change touches: a host that \<open>BlastRadius\<close> does not list,
  given the membership of its groups, sends and accepts exactly the same traffic under the draft as under
  the active policy, for every rule evaluation as Nebula documents it.
\<close>

theorem BlastRadius_covers_changed_hosts:
  assumes "nebula_documented neb" "Validate active = None" "Validate draft = None"
    and "\<forall>g\<in>set own. h \<in> set (groupHosts g)" "h \<in> set allHosts"
    and "h \<notin> set (bl_hosts (BlastRadius (FlowDiff active draft) groupHosts allHosts))"
  shows "sends neb active own peer proto n = sends neb draft own peer proto n \<and>
    accepts neb active own peer proto n = accepts neb draft own peer proto n"
proof (cases "proto = ''icmp''")
  case False
  let ?fl = "\<lambda>p. (\<lambda>r. (pr_from r, pr_to r, canon_flow r)) ` set (pol_rules p)"
  note D = set_FlowDiff [OF assms(2,3)]
  have mem: "h \<in> set (touch groupHosts allHosts g)" if "g = ''any'' \<or> g \<in> set own" for g
    using that assms(4,5) by (auto simp: touch_def)
  have same: "x \<in> ?fl active \<longleftrightarrow> x \<in> ?fl draft"
    if "(fst x = ''any'' \<or> fst x \<in> set own) \<or> (fst (snd x) = ''any'' \<or> fst (snd x) \<in> set own)" for x
  proof (rule ccontr)
    assume "\<not> ?thesis"
    then have "x \<in> set (df_added (FlowDiff active draft)) \<union> set (df_removed (FlowDiff active draft))" using D by auto
    moreover have "h \<in> set (touch groupHosts allHosts (fst x)) \<union> set (touch groupHosts allHosts (fst (snd x)))"
      using that mem by auto
    ultimately have "h \<in> set (bl_hosts (BlastRadius (FlowDiff active draft) groupHosts allHosts))"
      unfolding BlastRadius_def Let_def by (cases x) force
    then show False using assms(6) by simp
  qed
  have t: "(\<exists>x\<in>?fl active. Q x \<and> R x) = (\<exists>x\<in>?fl draft. Q x \<and> R x)"
    if "\<And>x. Q x \<Longrightarrow> (fst x = ''any'' \<or> fst x \<in> set own) \<or> (fst (snd x) = ''any'' \<or> fst (snd x) \<in> set own)" for Q R
    by (rule bex_transfer, rule same) (use that in blast)
  show ?thesis unfolding sections_flows [OF assms(1,2) False] sections_flows [OF assms(1,3) False]
    by (intro conjI arg_cong2 [where f = "(\<or>)"] t refl) simp_all
qed (simp add: sends_rules [OF assms(1,2)] sends_rules [OF assms(1,3)] accepts_rules [OF assms(1,2)] accepts_rules [OF assms(1,3)])

definition demo_draft :: policy where
  "demo_draft = \<lparr>pol_version = 0, pol_rules = pol_rules demo_policy @
     [\<lparr>pr_from = ''ops'', pr_to = ''db'', pr_proto = ''tcp'', pr_port = ''22''\<rparr>]\<rparr>"

definition demo_members :: "string \<Rightarrow> string list" where
  "demo_members g = (if g = ''db'' then [''10.0.0.1''] else if g = ''ops'' then [''10.0.0.2''] else if g = ''web'' then [''10.0.0.3''] else [])"

theorem BlastRadius_covers_changed_hosts_witness:
  "bl_hosts (BlastRadius (FlowDiff demo_policy demo_draft) demo_members [''10.0.0.1'', ''10.0.0.2'', ''10.0.0.3'']) = [''10.0.0.1'', ''10.0.0.2''] \<and>
   sends demo_nebula demo_policy [''web''] [''db''] ''tcp'' 22 = sends demo_nebula demo_draft [''web''] [''db''] ''tcp'' 22"
proof -
  have h: "bl_hosts (BlastRadius (FlowDiff demo_policy demo_draft) demo_members [''10.0.0.1'', ''10.0.0.2'', ''10.0.0.3'']) = [''10.0.0.1'', ''10.0.0.2'']"
    "Validate demo_policy = None" "Validate demo_draft = None" by code_simp+
  have "\<forall>g\<in>set [''web'']. ''10.0.0.3'' \<in> set (demo_members g)" by (simp add: demo_members_def)
  then show ?thesis
    using BlastRadius_covers_changed_hosts [OF demo_nebula_documented, of demo_policy demo_draft "[''web'']" "''10.0.0.3''" demo_members
        "[''10.0.0.1'', ''10.0.0.2'', ''10.0.0.3'']" "[''db'']" "''tcp''" 22] h by simp
qed

end
