(* ===== verification/Trust.thy ===== *)
theory Trust
  imports Policy
begin

text \<open>
  Who may enrol without a join key: the AWS caller allowlist with its ARN globs (the policy half of
  internal/awsattest), the cloud-trust configuration (internal/cloudtrust) and the user-trust configuration
  of the identity provider's groups (internal/usertrust).  Decoding the JSON payloads is not modelled:
  a configuration is the decoded value, and \<open>*_Parse\<close> takes the decoder as a parameter.
\<close>

section \<open>AWS allowlist\<close>

text \<open>\<open>strings.Index\<close>: the position of the first occurrence.\<close>

fun Index :: "string \<Rightarrow> string \<Rightarrow> nat option" where
  "Index s p = (if HasPrefix s p then Some 0 else case s of [] \<Rightarrow> None | _ # t \<Rightarrow> map_option Suc (Index t p))"

declare Index.simps [simp del]

definition HasSuffix :: "string \<Rightarrow> string \<Rightarrow> bool" where
  "HasSuffix s p \<longleftrightarrow> length p \<le> length s \<and> drop (length s - length p) s = p"

fun glob_middle :: "string list \<Rightarrow> string \<Rightarrow> string option" where
  "glob_middle [] s = Some s"
| "glob_middle (p # ps) s = (case Index s p of None \<Rightarrow> None | Some i \<Rightarrow> glob_middle ps (drop (i + length p) s))"

definition matchGlob :: "string \<Rightarrow> string \<Rightarrow> bool" where
  "matchGlob pat s =
     (let parts = Split pat (CHR ''*'') in
      if length parts = 1 then pat = s
      else if \<not> HasPrefix s (hd parts) then False
      else case glob_middle (butlast (tl parts)) (drop (length (hd parts)) s) of
        None \<Rightarrow> False
      | Some r \<Rightarrow> HasSuffix r (last parts))"

record aws_identity =
  aid_account :: string
  aid_arn :: string
  aid_user :: string

record aws_policy =
  awp_accounts :: "string list"
  awp_arns :: "string list"

datatype aws_err = ErrNotAllowed string

definition aws_Check :: "aws_policy \<Rightarrow> aws_identity \<Rightarrow> aws_err option" where
  "aws_Check p i =
     (if awp_accounts p \<noteq> [] \<and> \<not> aid_account i \<in> set (awp_accounts p) then Some (ErrNotAllowed (aid_account i))
      else if awp_arns p \<noteq> [] \<and> \<not> list_ex (\<lambda>pat. matchGlob pat (aid_arn i)) (awp_arns p) then Some (ErrNotAllowed (aid_arn i))
      else None)"

section \<open>Cloud trust\<close>

definition cloud_PublishKind :: string where "cloud_PublishKind = ''cloudtrust.publish''"

record aws_account =
  aa_account :: string
  aa_arns :: "string list"
  aa_groups :: "string list"
  aa_auto :: bool
  aa_netblock :: string

record cloud_config =
  cc_defaults :: "string list"
  cc_aws :: "aws_account list"

datatype trust_err =
    CtEmpty | CtNoAccount | CtDupAccount string
  | UtEmpty | UtNoRealm | UtNoGroup | UtDuplicate string string | UtGrantsNothing string string
  | UtAutoPrivileged string string string | TrParse

fun cloud_entries_ok :: "string list \<Rightarrow> aws_account list \<Rightarrow> trust_err option" where
  "cloud_entries_ok seen [] = None"
| "cloud_entries_ok seen (a # as) =
     (if aa_account a = '''' then Some CtNoAccount
      else if aa_account a \<in> set seen then Some (CtDupAccount (aa_account a))
      else cloud_entries_ok (aa_account a # seen) as)"

definition cloud_Validate :: "cloud_config \<Rightarrow> trust_err option" where
  "cloud_Validate c = (if cc_aws c = [] then Some CtEmpty else cloud_entries_ok [] (cc_aws c))"

definition cloud_Parse :: "(string \<Rightarrow> cloud_config option) \<Rightarrow> string \<Rightarrow> trust_err + cloud_config" where
  "cloud_Parse decode b = (case decode b of None \<Rightarrow> Inl TrParse
     | Some c \<Rightarrow> (case cloud_Validate c of Some e \<Rightarrow> Inl e | None \<Rightarrow> Inr c))"

definition cloud_ContainsPrivileged :: "cloud_config \<Rightarrow> bool" where
  "cloud_ContainsPrivileged c \<longleftrightarrow> list_ex IsReservedGroup (cc_defaults c) \<or>
     list_ex (\<lambda>a. aa_auto a \<or> list_ex IsReservedGroup (aa_groups a)) (cc_aws c)"

definition resolveGroups :: "string list \<Rightarrow> string list \<Rightarrow> string list" where
  "resolveGroups defaults groups = sort_strings (remdups (defaults @ groups))"

record grant =
  gr_groups :: "string list"
  gr_netblock :: string
  gr_auto :: bool

definition MatchAWS :: "cloud_config \<Rightarrow> aws_identity \<Rightarrow> grant option" where
  "MatchAWS c i = map_option (\<lambda>a. \<lparr>gr_groups = resolveGroups (cc_defaults c) (aa_groups a), gr_netblock = aa_netblock a, gr_auto = aa_auto a\<rparr>)
     (first_where (\<lambda>a. aws_Check \<lparr>awp_accounts = [aa_account a], awp_arns = aa_arns a\<rparr> i = None) (cc_aws c))"

section \<open>User trust\<close>

definition user_PublishKind :: string where "user_PublishKind = ''usertrust.publish''"

record idp_entry =
  ie_realm :: string
  ie_group :: string
  ie_mesh :: "string list"
  ie_auto :: bool
  ie_netblock :: string

record user_config =
  uc_defaults :: "string list"
  uc_entries :: "idp_entry list"

fun user_entries_ok :: "string list \<Rightarrow> (string \<times> string) list \<Rightarrow> idp_entry list \<Rightarrow> trust_err option" where
  "user_entries_ok defaults seen [] = None"
| "user_entries_ok defaults seen (e # es) =
     (if ie_realm e = '''' then Some UtNoRealm
      else if ie_group e = '''' then Some UtNoGroup
      else if (ie_realm e, ie_group e) \<in> set seen then Some (UtDuplicate (ie_realm e) (ie_group e))
      else if ie_mesh e = [] \<and> defaults = [] then Some (UtGrantsNothing (ie_realm e) (ie_group e))
      else case (if ie_auto e then first_where IsReservedGroup (ie_mesh e @ defaults) else None) of
        Some g \<Rightarrow> Some (UtAutoPrivileged (ie_realm e) (ie_group e) g)
      | None \<Rightarrow> user_entries_ok defaults ((ie_realm e, ie_group e) # seen) es)"

definition user_Validate :: "user_config \<Rightarrow> trust_err option" where
  "user_Validate c = (if uc_entries c = [] then Some UtEmpty else user_entries_ok (uc_defaults c) [] (uc_entries c))"

definition user_Parse :: "(string \<Rightarrow> user_config option) \<Rightarrow> string \<Rightarrow> trust_err + user_config" where
  "user_Parse decode b = (case decode b of None \<Rightarrow> Inl TrParse
     | Some c \<Rightarrow> (case user_Validate c of Some e \<Rightarrow> Inl e | None \<Rightarrow> Inr c))"

definition user_ContainsPrivileged :: "user_config \<Rightarrow> bool" where
  "user_ContainsPrivileged c \<longleftrightarrow> list_ex IsReservedGroup (uc_defaults c) \<or>
     list_ex (\<lambda>e. ie_auto e \<or> list_ex IsReservedGroup (ie_mesh e)) (uc_entries c)"

definition user_Match :: "user_config \<Rightarrow> string \<Rightarrow> string list \<Rightarrow> grant option" where
  "user_Match c realm groups = map_option (\<lambda>e. \<lparr>gr_groups = resolveGroups (uc_defaults c) (ie_mesh e), gr_netblock = ie_netblock e, gr_auto = ie_auto e\<rparr>)
     (first_where (\<lambda>e. ie_realm e = realm \<and> ie_group e \<in> set groups) (uc_entries c))"

section \<open>Globs\<close>

text \<open>The meaning of a pattern: a star stands for any text, every other character for itself.\<close>

fun glob :: "string \<Rightarrow> string \<Rightarrow> bool" where
  "glob [] s \<longleftrightarrow> s = []"
| "glob (c # p) s \<longleftrightarrow> (if c = CHR ''*'' then list_ex (\<lambda>k. glob p (drop k s)) [0..<length s + 1]
     else s \<noteq> [] \<and> hd s = c \<and> glob p (tl s))"

text \<open>The text after the first star: each part, at some distance from the one before, and the last at the end.\<close>

fun fits :: "string list \<Rightarrow> string \<Rightarrow> bool" where
  "fits [] s \<longleftrightarrow> False"
| "fits [p] s \<longleftrightarrow> (\<exists>g. s = g @ p)"
| "fits (p # ps) s \<longleftrightarrow> (\<exists>g r. s = g @ p @ r \<and> fits ps r)"

lemma fits_extend: "fits ps r \<Longrightarrow> fits ps (g @ r)"
proof (induction ps r rule: fits.induct)
  case (2 p s)
  then obtain h where "s = h @ p" by auto
  then have "g @ s = (g @ h) @ p" by simp
  then show ?case unfolding fits.simps by blast
next
  case (3 p v va s)
  then obtain h r where "s = h @ p @ r" "fits (v # va) r" by auto
  then have "g @ s = (g @ h) @ p @ r \<and> fits (v # va) r" by simp
  then show ?case unfolding fits.simps by blast
qed simp

lemma HasPrefix_iff: "HasPrefix s p \<longleftrightarrow> (\<exists>r. s = p @ r)"
  by (auto simp: HasPrefix_def) (metis append_take_drop_id)

lemma HasSuffix_iff: "HasSuffix s p \<longleftrightarrow> (\<exists>g. s = g @ p)"
  by (auto simp: HasSuffix_def) (metis append_take_drop_id)

lemma Index_Nil: "Index [] p = (if p = [] then Some 0 else None)"
  by (subst Index.simps) (auto simp: HasPrefix_def)

lemma Index_Cons: "Index (c # s) p = (if HasPrefix (c # s) p then Some 0 else map_option Suc (Index s p))"
  by (subst Index.simps) simp

text \<open>The first occurrence leaves the longest rest.\<close>

lemma Index_None: "Index s p = None \<longleftrightarrow> (\<nexists>g r. s = g @ p @ r)"
proof (induction s)
  case Nil
  then show ?case by (simp add: Index_Nil)
next
  case (Cons c s)
  have "(\<exists>g r. c # s = g @ p @ r) \<longleftrightarrow> HasPrefix (c # s) p \<or> (\<exists>g r. s = g @ p @ r)"
    unfolding HasPrefix_iff by (metis append_Cons append_Nil list.inject neq_Nil_conv)
  then show ?case using Cons by (simp add: Index_Cons)
qed

lemma Index_Some:
  assumes "Index s p = Some i"
  shows "s = take i s @ p @ drop (i + length p) s" "s = g @ p @ r \<Longrightarrow> \<exists>h. drop (i + length p) s = h @ r"
proof -
  have "s = take i s @ p @ drop (i + length p) s \<and> (\<forall>g r. s = g @ p @ r \<longrightarrow> i \<le> length g)" using assms
  proof (induction s arbitrary: i)
    case Nil
    then show ?case by (simp add: Index_Nil split: if_splits)
  next
    case (Cons c s)
    show ?case
    proof (cases "HasPrefix (c # s) p")
      case True
      then show ?thesis using Cons.prems by (auto simp: Index_Cons HasPrefix_iff)
    next
      case False
      then obtain j where j: "Index s p = Some j" "i = Suc j" using Cons.prems by (auto simp: Index_Cons)
      have "i \<le> length g" if "c # s = g @ p @ r" for g r
        using that Cons.IH [OF j(1), THEN conjunct2] False j(2) by (cases g) (auto simp: HasPrefix_iff)
      moreover have "c # s = c # (take j s @ p @ drop (j + length p) s)"
        by (rule arg_cong [OF Cons.IH [OF j(1), THEN conjunct1]])
      ultimately show ?thesis using j(2) by simp
    qed
  qed
  then show "s = take i s @ p @ drop (i + length p) s" "s = g @ p @ r \<Longrightarrow> \<exists>h. drop (i + length p) s = h @ r"
  proof -
    assume *: "s = take i s @ p @ drop (i + length p) s \<and> (\<forall>g r. s = g @ p @ r \<longrightarrow> i \<le> length g)"
    then show "s = take i s @ p @ drop (i + length p) s" by blast
    assume s: "s = g @ p @ r"
    then have "i \<le> length g" using * by blast
    then have "drop (i + length p) s = drop (i + length p) (g @ p) @ r" by (simp add: s)
    then show "\<exists>h. drop (i + length p) s = h @ r" by blast
  qed
qed

text \<open>Taking the first occurrence of each part loses no match.\<close>

lemma glob_middle_fits:
  "(case glob_middle ps s of None \<Rightarrow> False | Some r \<Rightarrow> HasSuffix r q) \<longleftrightarrow> fits (ps @ [q]) s"
proof (induction ps arbitrary: s)
  case (Cons p ps)
  have f: "fits (p # ps @ [q]) s \<longleftrightarrow> (\<exists>g r. s = g @ p @ r \<and> fits (ps @ [q]) r)" by (cases "ps @ [q]") auto
  show ?case
  proof (cases "Index s p")
    case None
    then have "\<not> fits (p # ps @ [q]) s" using f Index_None by auto
    then show ?thesis using None by simp
  next
    case (Some i)
    have "fits (ps @ [q]) (drop (i + length p) s) \<longleftrightarrow> fits (p # ps @ [q]) s"
      using Index_Some [OF Some] f by (metis fits_extend)
    then show ?thesis using Cons.IH by (simp add: Some)
  qed
qed (simp add: HasSuffix_iff)

lemma glob_Cons_star: "glob (CHR ''*'' # p) s \<longleftrightarrow> (\<exists>g r. s = g @ r \<and> glob p r)"
proof -
  have "(\<exists>k\<in>{0..<length s + 1}. glob p (drop k s)) \<longleftrightarrow> (\<exists>g r. s = g @ r \<and> glob p r)" (is "?l \<longleftrightarrow> ?r")
  proof
    assume ?r
    then obtain g r where "s = g @ r" "glob p r" by blast
    then show ?l by (intro bexI [of _ "length g"]) auto
  qed (metis append_take_drop_id)
  then show ?thesis by (simp only: glob.simps list_ex_iff set_upt if_True simp_thms)
qed

lemma glob_Cons_char: "c \<noteq> CHR ''*'' \<Longrightarrow> glob (c # p) s \<longleftrightarrow> (\<exists>r. s = c # r \<and> glob p r)"
  by (cases s) auto

lemma glob_parts:
  "glob pat s \<longleftrightarrow> (case split_by (\<lambda>c. c = CHR ''*'') pat of
     [] \<Rightarrow> False | x # xs \<Rightarrow> if xs = [] then s = x else \<exists>r. s = x @ r \<and> fits xs r)"
proof (induction pat arbitrary: s)
  case (Cons c p)
  obtain y ys where y: "split_by (\<lambda>c. c = CHR ''*'') p = y # ys" by (meson split_by_nonempty list.exhaust)
  show ?case
  proof (cases "c = CHR ''*''")
    case True
    have "(\<exists>g r. s = g @ r \<and> (if ys = [] then r = y else \<exists>t. r = y @ t \<and> fits ys t)) \<longleftrightarrow> fits (y # ys) s"
      by (cases ys) auto
    then show ?thesis using True y Cons.IH by (simp add: glob_Cons_star del: glob.simps)
  next
    case False
    then show ?thesis using y Cons.IH by (auto simp: glob_Cons_char simp del: glob.simps)
  qed
qed simp

section \<open>Properties\<close>

text \<open>
  C35: The ARN allowlist matcher decides exactly the glob language: taking the leftmost occurrence of every part and
  checking the last part at the end accepts a text if and only if the text can be obtained from the pattern by
  replacing each star with some text.
\<close>

theorem matchGlob_correct: "matchGlob pat s = glob pat s"
proof -
  obtain x xs where x: "split_by (\<lambda>c. c = CHR ''*'') pat = x # xs" by (meson split_by_nonempty list.exhaust)
  show ?thesis
  proof (cases "xs = []")
    case True
    have "y = q" if "split_by P q = [y]" for P q y using that
      by (induction q arbitrary: y) (auto split: if_splits list.splits)
    then have "x = pat" using x True by blast
    then show ?thesis using True x by (auto simp: matchGlob_def Split_def glob_parts)
  next
    case False
    then have "fits xs r = (case glob_middle (butlast xs) r of None \<Rightarrow> False | Some t \<Rightarrow> HasSuffix t (last xs))" for r
      by (simp add: glob_middle_fits)
    moreover have "last (x # xs) = last xs" "length (x # xs) \<noteq> 1" using False by simp_all
    ultimately show ?thesis using False x by (auto simp: matchGlob_def Split_def glob_parts HasPrefix_iff Let_def split: option.splits)
  qed
qed

section \<open>Grants\<close>

lemma set_resolveGroups: "set (resolveGroups d g) = set d \<union> set g"
  by (simp add: resolveGroups_def)

lemma cloud_entries_distinct:
  "cloud_entries_ok seen as = None \<Longrightarrow> distinct (map aa_account as) \<and> aa_account ` set as \<inter> set seen = {} \<and> '''' \<notin> aa_account ` set as"
proof (induction as arbitrary: seen)
  case (Cons a as)
  have ok: "aa_account a \<noteq> ''''" "aa_account a \<notin> set seen" "cloud_entries_ok (aa_account a # seen) as = None"
    using Cons.prems by (simp_all split: if_splits)
  show ?case using Cons.IH [OF ok(3)] ok(1,2) by auto
qed simp

lemma cloud_match_account: "aws_Check \<lparr>awp_accounts = [a], awp_arns = arns\<rparr> i = None \<Longrightarrow> aid_account i = a"
  by (auto simp: aws_Check_def split: if_splits)

lemma first_where_same_set:
  assumes "set xs = set ys" "\<And>a b. a \<in> set xs \<Longrightarrow> b \<in> set xs \<Longrightarrow> P a \<Longrightarrow> P b \<Longrightarrow> a = b"
  shows "first_where P xs = first_where P ys"
proof (cases "first_where P xs")
  case None
  then show ?thesis using assms(1) by (metis first_where_None_iff)
next
  case (Some a)
  then obtain b where "first_where P ys = Some b" using assms(1) by (metis first_where_None_iff first_where_SomeD option.exhaust)
  then show ?thesis using Some assms by (metis first_where_SomeD)
qed

text \<open>An account has one entry, so the order of a valid cloud-trust list decides nothing.\<close>

lemma cloud_order_irrelevant:
  assumes "cloud_Validate c = None" "set (cc_aws c) = set as"
  shows "MatchAWS (c\<lparr>cc_aws := as\<rparr>) i = MatchAWS c i"
proof -
  have d: "distinct (map aa_account (cc_aws c))"
    using assms(1) cloud_entries_distinct by (auto simp: cloud_Validate_def split: if_splits)
  have "first_where (\<lambda>a. aws_Check \<lparr>awp_accounts = [aa_account a], awp_arns = aa_arns a\<rparr> i = None) (cc_aws c) =
    first_where (\<lambda>a. aws_Check \<lparr>awp_accounts = [aa_account a], awp_arns = aa_arns a\<rparr> i = None) as"
    by (rule first_where_same_set [OF assms(2)]) (metis d cloud_match_account distinct_map_inj)
  then show ?thesis by (simp add: MatchAWS_def)
qed

lemma user_entries_auto:
  "user_entries_ok d seen es = None \<Longrightarrow> e \<in> set es \<Longrightarrow> ie_auto e \<Longrightarrow> g \<in> set (ie_mesh e) \<union> set d \<Longrightarrow> \<not> IsReservedGroup g"
  by (induction es arbitrary: seen) (auto simp: first_where_None_iff split: if_splits option.splits)

text \<open>
  C34: Nothing privileged is granted unattended: a user-trust configuration that passes validation never matches an
  identity to an auto-issued grant with a reserved group, and a cloud-trust configuration that the two-person rule
  classifies as unprivileged grants no reserved group and auto-issues nothing, for every identity.
\<close>

theorem auto_issue_never_privileged:
  "(user_Validate uc = None \<and> user_Match uc realm gs = Some g \<and> gr_auto g \<longrightarrow> \<not> GrantsReservedGroup (gr_groups g)) \<and>
   (\<not> cloud_ContainsPrivileged cc \<and> MatchAWS cc i = Some h \<longrightarrow> \<not> GrantsReservedGroup (gr_groups h) \<and> \<not> gr_auto h)"
proof (intro conjI impI; elim conjE)
  assume v: "user_Validate uc = None" "user_Match uc realm gs = Some g" "gr_auto g"
  then obtain e where e: "e \<in> set (uc_entries uc)" "ie_auto e" "set (gr_groups g) = set (uc_defaults uc) \<union> set (ie_mesh e)"
    by (auto simp: user_Match_def set_resolveGroups dest!: first_where_SomeD)
  show "\<not> GrantsReservedGroup (gr_groups g)"
    using user_entries_auto [OF _ e(1,2)] v(1) e(3) by (auto simp: user_Validate_def GrantsReservedGroup_def list_ex_iff split: if_splits)
next
  assume "\<not> cloud_ContainsPrivileged cc" "MatchAWS cc i = Some h"
  then show "\<not> GrantsReservedGroup (gr_groups h)" "\<not> gr_auto h"
    by (auto simp: MatchAWS_def cloud_ContainsPrivileged_def GrantsReservedGroup_def list_ex_iff set_resolveGroups dest!: first_where_SomeD)
qed

definition demo_users :: user_config where
  "demo_users = \<lparr>uc_defaults = [''all''], uc_entries = [\<lparr>ie_realm = ''corp'', ie_group = ''eng'', ie_mesh = [''web''], ie_auto = True, ie_netblock = ''''\<rparr>,
     \<lparr>ie_realm = ''corp'', ie_group = ''admins'', ie_mesh = [''control-plane''], ie_auto = False, ie_netblock = ''''\<rparr>]\<rparr>"

definition demo_cloud :: cloud_config where
  "demo_cloud = \<lparr>cc_defaults = [], cc_aws = [\<lparr>aa_account = ''1'', aa_arns = [''arn:*/web-*''], aa_groups = [''web''], aa_auto = False, aa_netblock = ''b''\<rparr>]\<rparr>"

definition demo_identity :: aws_identity where
  "demo_identity = \<lparr>aid_account = ''1'', aid_arn = ''arn:role/web-7'', aid_user = ''u''\<rparr>"

theorem auto_issue_never_privileged_witness:
  "user_Match demo_users ''corp'' [''x'', ''eng''] = Some \<lparr>gr_groups = [''all'', ''web''], gr_netblock = '''', gr_auto = True\<rparr> \<and>
   \<not> GrantsReservedGroup [''all'', ''web''] \<and>
   MatchAWS demo_cloud demo_identity = Some \<lparr>gr_groups = [''web''], gr_netblock = ''b'', gr_auto = False\<rparr> \<and> \<not> GrantsReservedGroup [''web'']"
proof -
  have "user_Validate demo_users = None" "\<not> cloud_ContainsPrivileged demo_cloud"
    "user_Match demo_users ''corp'' [''x'', ''eng''] = Some \<lparr>gr_groups = [''all'', ''web''], gr_netblock = '''', gr_auto = True\<rparr>"
    "MatchAWS demo_cloud demo_identity = Some \<lparr>gr_groups = [''web''], gr_netblock = ''b'', gr_auto = False\<rparr>" by code_simp+
  then show ?thesis using auto_issue_never_privileged
    [of demo_users "''corp''" "[''x'', ''eng'']" "\<lparr>gr_groups = [''all'', ''web''], gr_netblock = '''', gr_auto = True\<rparr>"
      demo_cloud demo_identity "\<lparr>gr_groups = [''web''], gr_netblock = ''b'', gr_auto = False\<rparr>"] by simp
qed

end
