(* ===== verification/Attest.thy ===== *)
theory Attest
  imports Encoding Trust
begin

text \<open>
  Signed tokens and attestations: the flattened ES256 JWS (internal/jws), the gateway's single-sign-on
  assertion (internal/ssoassert), the wire types that carry them (internal/wire) and the AWS caller
  attestation that Core checks before it forwards it to STS (internal/awsattest).

  ECDSA, SHA-256, the JSON and DER codecs, URL parsing and the STS service are parameters.
\<close>

section \<open>JWS\<close>

definition Alg :: string where "Alg = ''ES256''"

datatype jws_err = JwsMalformed | JwsAlg | JwsSignature

record header =
  hd_alg :: string
  hd_typ :: string
  hd_ver :: int
  hd_kid :: string

record flattened =
  fl_protected :: string
  fl_payload :: string
  fl_signature :: string

definition signing_input :: "string \<Rightarrow> string \<Rightarrow> bytes" where
  "signing_input protected payload = str_bytes (protected @ ''.'' @ payload)"

text \<open>\<open>sign\<close> returns the 64 bytes R and S of the signature of a digest.\<close>

definition SignES256 ::
  "(header \<Rightarrow> bytes) \<Rightarrow> (bytes \<Rightarrow> bytes) \<Rightarrow> (bytes \<Rightarrow> bytes option) \<Rightarrow> header \<Rightarrow> bytes \<Rightarrow> flattened option" where
  "SignES256 enc sha sign h payload =
     (let protected = EncodeToString (enc (h\<lparr>hd_alg := Alg\<rparr>)); pl = EncodeToString payload in
      map_option (\<lambda>sig. \<lparr>fl_protected = protected, fl_payload = pl, fl_signature = EncodeToString sig\<rparr>)
        (sign (sha (signing_input protected pl))))"

text \<open>A key behind an HSM or KMS answers in DER, which \<open>der\<close> converts to the 64 bytes.\<close>

definition SignBackendES256 ::
  "(header \<Rightarrow> bytes) \<Rightarrow> (bytes \<Rightarrow> bytes) \<Rightarrow> (bytes \<Rightarrow> bytes option) \<Rightarrow> (bytes \<Rightarrow> bytes option) \<Rightarrow> header \<Rightarrow> bytes \<Rightarrow> flattened option" where
  "SignBackendES256 enc sha der sign_der h payload =
     (let protected = EncodeToString (enc (h\<lparr>hd_alg := Alg\<rparr>)); pl = EncodeToString payload in
      case sign_der (sha (signing_input protected pl)) of
        None \<Rightarrow> None
      | Some d \<Rightarrow> (case der d of
          None \<Rightarrow> None
        | Some sig \<Rightarrow> Some \<lparr>fl_protected = protected, fl_payload = pl, fl_signature = EncodeToString sig\<rparr>))"

definition VerifyAny ::
  "(bytes \<Rightarrow> header option) \<Rightarrow> (bytes \<Rightarrow> bytes) \<Rightarrow> ('p \<Rightarrow> bytes \<Rightarrow> bytes \<Rightarrow> bool) \<Rightarrow> flattened \<Rightarrow> 'p option list \<Rightarrow> jws_err + header \<times> bytes" where
  "VerifyAny dec sha ecdsa env pubs = (case DecodeString (fl_protected env) of
     None \<Rightarrow> Inl JwsMalformed
   | Some hb \<Rightarrow> (case dec hb of
       None \<Rightarrow> Inl JwsMalformed
     | Some h \<Rightarrow>
         if hd_alg h \<noteq> Alg then Inl JwsAlg
         else (case DecodeString (fl_signature env) of
             None \<Rightarrow> Inl JwsMalformed
           | Some sig \<Rightarrow>
               if length sig \<noteq> 64 then Inl JwsMalformed
               else (case DecodeString (fl_payload env) of
                   None \<Rightarrow> Inl JwsMalformed
                 | Some payload \<Rightarrow>
                     let digest = sha (signing_input (fl_protected env) (fl_payload env)) in
                     if list_ex (\<lambda>p. case p of None \<Rightarrow> False | Some k \<Rightarrow> ecdsa k digest sig) pubs
                     then Inr (h, payload) else Inl JwsSignature))))"

definition jws_Verify ::
  "(bytes \<Rightarrow> header option) \<Rightarrow> (bytes \<Rightarrow> bytes) \<Rightarrow> ('p \<Rightarrow> bytes \<Rightarrow> bytes \<Rightarrow> bool) \<Rightarrow> flattened \<Rightarrow> 'p option \<Rightarrow> jws_err + header \<times> bytes" where
  "jws_Verify dec sha ecdsa env pub = VerifyAny dec sha ecdsa env [pub]"

lemma VerifyAny_ok:
  assumes "VerifyAny dec sha ecdsa env pubs = Inr (h, payload)"
  shows "hd_alg h = Alg" "DecodeString (fl_payload env) = Some payload"
    "\<exists>k sig. Some k \<in> set pubs \<and> DecodeString (fl_signature env) = Some sig \<and> ecdsa k (sha (signing_input (fl_protected env) (fl_payload env))) sig"
    "\<exists>hb. DecodeString (fl_protected env) = Some hb \<and> dec hb = Some h"
  using assms by (auto simp: VerifyAny_def Let_def list_ex_iff split: option.splits if_splits)

text \<open>What was signed verifies under any key set that holds the signer's key, with the header and payload that were signed.\<close>

lemma sign_verify:
  assumes "SignES256 enc sha sign h payload = Some env" "Some k \<in> set pubs"
    and codec: "\<And>h. dec (enc h) = Some h"
    and ecdsa: "\<And>d sig. sign d = Some sig \<Longrightarrow> length sig = 64 \<and> ecdsa k d sig"
  shows "VerifyAny dec sha ecdsa env pubs = Inr (h\<lparr>hd_alg := Alg\<rparr>, payload)"
proof -
  obtain sig where s: "sign (sha (signing_input (fl_protected env) (fl_payload env))) = Some sig"
    and env: "fl_protected env = EncodeToString (enc (h\<lparr>hd_alg := Alg\<rparr>))" "fl_payload env = EncodeToString payload"
      "fl_signature env = EncodeToString sig"
    using assms(1) by (auto simp: SignES256_def Let_def)
  have "list_ex (\<lambda>p. case p of None \<Rightarrow> False | Some k \<Rightarrow> ecdsa k (sha (signing_input (fl_protected env) (fl_payload env))) sig) pubs"
    using ecdsa [OF s] assms(2) by (auto simp: list_ex_iff intro!: bexI [of _ "Some k"])
  moreover have "DecodeString (fl_protected env) = Some (enc (h\<lparr>hd_alg := Alg\<rparr>))" "DecodeString (fl_payload env) = Some payload"
    "DecodeString (fl_signature env) = Some sig" by (simp_all add: env)
  ultimately show ?thesis using codec ecdsa [OF s] by (simp add: VerifyAny_def)
qed

section \<open>The wire types\<close>

definition TypEnrollRequest :: string where "TypEnrollRequest = ''ncp-request+jws''"
definition TypRenewRequest :: string where "TypRenewRequest = ''ncp-renew+jws''"
definition TypBundle :: string where "TypBundle = ''ncp-bundle+jws''"
definition MethodToken :: string where "MethodToken = ''token''"
definition MethodAWSSigV4 :: string where "MethodAWSSigV4 = ''aws-sigv4''"
definition MethodOIDC :: string where "MethodOIDC = ''oidc''"

definition PubkeyHash :: "(bytes \<Rightarrow> bytes) \<Rightarrow> bytes \<Rightarrow> string" where
  "PubkeyHash sha pub = EncodeToString (sha pub)"

record csr =
  cs_pubkey :: string
  cs_name :: string

record enroll_request =
  er_type :: string
  er_nonce :: string
  er_csr :: csr
  er_method :: string
  er_credential :: string
  er_os :: string
  er_arch :: string

definition error_codes :: "(string \<times> nat \<times> bool) list" where
  "error_codes = [(''invalid_request'', 400, False), (''unsupported_version'', 400, False), (''invalid_signature'', 401, False),
     (''invalid_nonce'', 401, False), (''nonce_expired'', 401, True), (''invalid_token'', 401, False), (''token_used'', 409, False),
     (''attestation_failed'', 401, False), (''account_not_allowed'', 403, False), (''quota_exceeded'', 429, True),
     (''rate_limited'', 429, True), (''signing_unavailable'', 503, True), (''conflict'', 409, False), (''not_found'', 404, False),
     (''gone'', 410, False), (''internal'', 500, True)]"

record wire_error =
  we_status :: nat
  we_code :: string
  we_message :: string
  we_retryable :: bool

definition WriteError :: "string \<Rightarrow> string \<Rightarrow> wire_error" where
  "WriteError code message =
     (let (code, status, retryable) = (case map_of error_codes code of Some (st, r) \<Rightarrow> (code, st, r) | None \<Rightarrow> (''internal'', 500, True)) in
      \<lparr>we_status = status, we_code = code, we_message = (if message = '''' then code else message), we_retryable = retryable\<rparr>)"

section \<open>Single-sign-on assertions\<close>

definition sso_typ :: string where "sso_typ = ''ncp-sso-assertion-v1''"
definition maxLifetime_secs :: int where "maxLifetime_secs = 3600"

datatype sso_err = SsoSignature | SsoExpired | SsoMalformed

record assertion =
  as_subject :: string
  as_email :: string
  as_issuer :: string
  as_groups :: "string list"
  as_pubkey_hash :: string
  as_nonce :: string
  as_iat :: int
  as_exp :: int

definition sso_Sign ::
  "(header \<Rightarrow> bytes) \<Rightarrow> (bytes \<Rightarrow> bytes) \<Rightarrow> (bytes \<Rightarrow> bytes option) \<Rightarrow> (assertion \<Rightarrow> bytes option) \<Rightarrow> assertion \<Rightarrow> string option" where
  "sso_Sign enc sha sign marshal a = (case marshal a of
     None \<Rightarrow> None
   | Some payload \<Rightarrow> (case SignES256 enc sha sign \<lparr>hd_alg = '''', hd_typ = sso_typ, hd_ver = 1, hd_kid = ''''\<rparr> payload of
       None \<Rightarrow> None
     | Some env \<Rightarrow> Some (fl_protected env @ ''.'' @ fl_payload env @ ''.'' @ fl_signature env)))"

text \<open>The positions of the first two dots; a third one is refused.\<close>

fun dot_scan :: "nat \<Rightarrow> nat option \<Rightarrow> nat option \<Rightarrow> string \<Rightarrow> (nat option \<times> nat option) option" where
  "dot_scan i fst2 snd2 [] = Some (fst2, snd2)"
| "dot_scan i fst2 snd2 (c # cs) =
     (if c \<noteq> CHR ''.'' then dot_scan (i + 1) fst2 snd2 cs
      else case fst2 of None \<Rightarrow> dot_scan (i + 1) (Some i) snd2 cs
      | Some _ \<Rightarrow> (case snd2 of None \<Rightarrow> dot_scan (i + 1) fst2 (Some i) cs | Some _ \<Rightarrow> None))"

definition splitCompact :: "string \<Rightarrow> (string \<times> string \<times> string) option" where
  "splitCompact s = (case dot_scan 0 None None s of
     Some (Some i, Some j) \<Rightarrow>
       (let protected = take i s; payload = drop (i + 1) (take j s); sig = drop (j + 1) s in
        if protected = '''' \<or> payload = '''' \<or> sig = '''' then None else Some (protected, payload, sig))
   | _ \<Rightarrow> None)"

text \<open>The difference of two \<open>int64\<close>s, which wraps around.\<close>

definition sub64 :: "int \<Rightarrow> int \<Rightarrow> int" where
  "sub64 x y = sint (word_of_int (x - y) :: 64 word)"

definition sso_Verify ::
  "(bytes \<Rightarrow> header option) \<Rightarrow> (bytes \<Rightarrow> bytes) \<Rightarrow> ('p \<Rightarrow> bytes \<Rightarrow> bytes \<Rightarrow> bool) \<Rightarrow> (bytes \<Rightarrow> assertion option) \<Rightarrow>
   'p \<Rightarrow> string \<Rightarrow> time_ns \<Rightarrow> sso_err + assertion" where
  "sso_Verify dec sha ecdsa unmarshal pub token now = (case splitCompact token of
     None \<Rightarrow> Inl SsoMalformed
   | Some (p, pl, sig) \<Rightarrow>
       (case jws_Verify dec sha ecdsa \<lparr>fl_protected = p, fl_payload = pl, fl_signature = sig\<rparr> (Some pub) of
          Inl JwsSignature \<Rightarrow> Inl SsoSignature
        | Inl _ \<Rightarrow> Inl SsoMalformed
        | Inr (h, payload) \<Rightarrow>
            if hd_typ h \<noteq> sso_typ then Inl SsoMalformed
            else (case unmarshal payload of
                None \<Rightarrow> Inl SsoMalformed
              | Some a \<Rightarrow>
                  let nowUnix = now div 10 ^ 9 in
                  if as_exp a = 0 \<or> as_iat a \<le> 0 then Inl SsoExpired
                  else if nowUnix > as_exp a then Inl SsoExpired
                  else if nowUnix < as_iat a then Inl SsoExpired
                  else if sub64 (as_exp a) (as_iat a) > maxLifetime_secs then Inl SsoExpired
                  else Inr a)))"

lemma dot_scan_free: "CHR ''.'' \<notin> set w \<Longrightarrow> dot_scan i a b (w @ s) = dot_scan (i + length w) a b s"
  by (induction w arbitrary: i) auto

lemma splitCompact_join:
  assumes "CHR ''.'' \<notin> set a" "CHR ''.'' \<notin> set b" "CHR ''.'' \<notin> set c" "a \<noteq> []" "b \<noteq> []" "c \<noteq> []"
  shows "splitCompact (a @ ''.'' @ b @ ''.'' @ c) = Some (a, b, c)"
proof -
  have "dot_scan 0 None None (a @ ''.'' @ b @ ''.'' @ c) = Some (Some (length a), Some (length a + 1 + length b))"
    using assms(1-3) dot_scan_free [of c _ _ _ "[]"] by (simp add: dot_scan_free)
  then show ?thesis using assms(4-6) by (simp add: splitCompact_def)
qed

text \<open>An accepted assertion was signed with the pinned key, and its window is real, current and at most an hour.\<close>

lemma sso_Verify_ok:
  assumes "sso_Verify dec sha ecdsa unmarshal pub token now = Inr a" "as_exp a < 2 ^ 63"
  shows "as_iat a > 0" "as_iat a \<le> now div 10 ^ 9" "now div 10 ^ 9 \<le> as_exp a" "as_exp a - as_iat a \<le> 3600"
    "\<exists>p pl sig s64. splitCompact token = Some (p, pl, sig) \<and> DecodeString sig = Some s64 \<and> ecdsa pub (sha (signing_input p pl)) s64"
proof -
  obtain p pl sig where sp: "splitCompact token = Some (p, pl, sig)"
    using assms(1) by (auto simp: sso_Verify_def split: option.splits)
  obtain h payload where v: "VerifyAny dec sha ecdsa \<lparr>fl_protected = p, fl_payload = pl, fl_signature = sig\<rparr> [Some pub] = Inr (h, payload)"
    using assms(1) sp by (auto simp: sso_Verify_def jws_Verify_def split: sum.splits jws_err.splits)
  have w: "as_iat a > 0" "as_iat a \<le> now div 10 ^ 9" "now div 10 ^ 9 \<le> as_exp a" "sub64 (as_exp a) (as_iat a) \<le> 3600"
    using assms(1) sp v by (auto simp: sso_Verify_def jws_Verify_def Let_def maxLifetime_secs_def split: option.splits if_splits)
  show "as_iat a > 0" "as_iat a \<le> now div 10 ^ 9" "now div 10 ^ 9 \<le> as_exp a" using w by simp_all
  have "sub64 (as_exp a) (as_iat a) = as_exp a - as_iat a"
    unfolding sub64_def by (rule sint_of_int64) (use w assms(2) in auto)
  then show "as_exp a - as_iat a \<le> 3600" using w(4) by simp
  show "\<exists>p pl sig s64. splitCompact token = Some (p, pl, sig) \<and> DecodeString sig = Some s64 \<and> ecdsa pub (sha (signing_input p pl)) s64"
    using VerifyAny_ok(3) [OF v] sp by auto
qed

section \<open>AWS attestation\<close>

definition stsBody :: string where "stsBody = ''Action=GetCallerIdentity&Version=2011-06-15''"

datatype att_err = AttBinding | AttUnsignedBinding | AttBadRequest | AttBadEndpoint | AttAttestation | AttUnavailable | AttOther

record presigned =
  ps_method :: string
  ps_url :: string
  ps_headers :: "(string \<times> string) list"
  ps_body :: string

text \<open>A Go map read with a missing key gives the empty string; a later pair of the list is the later assignment.\<close>

definition lowerHeaders :: "(string \<times> string) list \<Rightarrow> (string \<times> string) list" where
  "lowerHeaders h = rev (map (\<lambda>(k, v). (ToLower k, v)) h)"

definition hget :: "(string \<times> string) list \<Rightarrow> string \<Rightarrow> string" where
  "hget h k = (case map_of h k of Some v \<Rightarrow> v | None \<Rightarrow> '''')"

definition signedHeaderSet :: "string \<Rightarrow> string list option" where
  "signedHeaderSet authz = (case Index authz ''SignedHeaders='' of
     None \<Rightarrow> None
   | Some i \<Rightarrow>
       let rest = drop (i + 14) authz; rest = takeWhile (\<lambda>c. c \<noteq> CHR '','') rest in
       Some (map ToLower (Split (TrimSpace rest) (CHR '';''))))"

text \<open>The host pattern: \<open>sts\<close>, an optional region label, \<open>amazonaws.com\<close>.\<close>

definition region_char :: "char \<Rightarrow> bool" where
  "region_char c \<longleftrightarrow> is_digit c \<or> c = CHR ''-'' \<or> (97 \<le> (of_char c :: nat) \<and> (of_char c :: nat) \<le> 122)"

definition stsHost :: "string \<Rightarrow> bool" where
  "stsHost h = (case Split h (CHR ''.'') of
     [a, b, c] \<Rightarrow> a = ''sts'' \<and> b = ''amazonaws'' \<and> c = ''com''
   | [a, r, b, c] \<Rightarrow> a = ''sts'' \<and> r \<noteq> '''' \<and> list_all region_char r \<and> b = ''amazonaws'' \<and> c = ''com''
   | _ \<Rightarrow> False)"

record url =
  u_scheme :: string
  u_host :: string
  u_hostname :: string

text \<open>The STS call: the request that is sent, and the status and body that come back (\<open>None\<close>: no answer).\<close>

record sts_request =
  sr_target :: string
  sr_host :: string
  sr_headers :: "(string \<times> string) list"
  sr_body :: string

record aws_env =
  av_parse_url :: "string \<Rightarrow> url option"
  av_endpoint :: string
  av_sts :: "sts_request \<Rightarrow> (nat \<times> string) option"
  av_xml :: "string \<Rightarrow> aws_identity option"

definition EqualFold :: "string \<Rightarrow> string \<Rightarrow> bool" where
  "EqualFold s t \<longleftrightarrow> ToLower s = ToLower t"

definition aws_Verify :: "aws_env \<Rightarrow> presigned \<Rightarrow> string \<Rightarrow> string \<Rightarrow> att_err + aws_identity" where
  "aws_Verify env pres nc pkh =
     (if \<not> EqualFold (ps_method pres) ''POST'' \<or> ps_body pres \<noteq> stsBody then Inl AttBadRequest
      else let h = lowerHeaders (ps_headers pres) in
      if hget h ''x-harbor-nonce'' \<noteq> nc \<or> hget h ''x-harbor-pubkey-hash'' \<noteq> pkh then Inl AttBinding
      else case signedHeaderSet (hget h ''authorization'') of
        None \<Rightarrow> Inl AttBadRequest
      | Some signed_hs \<Rightarrow>
          if \<not> (''x-harbor-nonce'' \<in> set signed_hs \<and> ''x-harbor-pubkey-hash'' \<in> set signed_hs \<and> ''host'' \<in> set signed_hs) then Inl AttUnsignedBinding
          else case av_parse_url env (ps_url pres) of
            None \<Rightarrow> Inl AttBadEndpoint
          | Some u \<Rightarrow>
              if u_scheme u \<noteq> ''https'' \<or> \<not> stsHost (u_hostname u) then Inl AttBadEndpoint
              else let target = (if av_endpoint env \<noteq> '''' then av_endpoint env else ps_url pres) in
              case av_sts env \<lparr>sr_target = target, sr_host = u_host u, sr_headers = ps_headers pres, sr_body = ps_body pres\<rparr> of
                None \<Rightarrow> Inl AttUnavailable
              | Some (status, body) \<Rightarrow>
                  if status = 429 \<or> status \<ge> 500 then Inl AttUnavailable
                  else if status \<noteq> 200 then Inl AttAttestation
                  else (case av_xml env body of
                      None \<Rightarrow> Inl AttAttestation
                    | Some i \<Rightarrow> if aid_account i = '''' then Inl AttAttestation else Inr i))"

text \<open>
  An attested identity is one STS returned for a request that carries this enrolment's nonce and key in headers that
  the signature covers, sent to an AWS STS host over https.
\<close>

lemma aws_Verify_ok:
  assumes "aws_Verify env pres nc pkh = Inr i" "av_endpoint env = ''''"
  shows "\<exists>u body signed_hs. av_parse_url env (ps_url pres) = Some u \<and> u_scheme u = ''https'' \<and> stsHost (u_hostname u) \<and>
    av_sts env \<lparr>sr_target = ps_url pres, sr_host = u_host u, sr_headers = ps_headers pres, sr_body = stsBody\<rparr> = Some (200, body) \<and>
    av_xml env body = Some i \<and> aid_account i \<noteq> '''' \<and>
    hget (lowerHeaders (ps_headers pres)) ''x-harbor-nonce'' = nc \<and> hget (lowerHeaders (ps_headers pres)) ''x-harbor-pubkey-hash'' = pkh \<and>
    signedHeaderSet (hget (lowerHeaders (ps_headers pres)) ''authorization'') = Some signed_hs \<and>
    {''x-harbor-nonce'', ''x-harbor-pubkey-hash'', ''host''} \<subseteq> set signed_hs"
  using assms by (auto simp: aws_Verify_def Let_def split: if_splits option.splits prod.splits)

end
