(* ===== verification/Bundle.thy ===== *)
theory Bundle
  imports Signer Attest
begin

text \<open>
  The signed config bundle: its assembly, signature and verification (internal/bundle/bundle.go), the config-signing
  keys a pilot learns from bundles (internal/bundle/trust.go), the hot-swappable config signer (internal/configsign)
  and the rendering of a bundle into nebula's config.yml (internal/nebulaconfig).

  JSON, PEM and DER codecs and ECDSA are parameters; the trust file is the text of the file, \<open>None\<close> when it
  is missing.
\<close>

section \<open>The bundle\<close>

definition bundle_Type :: string where "bundle_Type = ''config-bundle''"

record lighthouse_ref =
  lr_overlay :: string
  lr_addrs :: "string list"

record release_ref =
  rr_version :: string
  rr_sha256 :: string
  rr_url :: string

record cfg_bundle =
  bu_protocol :: int
  bu_type :: string
  bu_version :: int
  bu_blocklist_version :: int
  bu_issued_at :: time_ns
  bu_name :: string
  bu_ip :: string
  bu_groups :: "string list"
  bu_certificate :: string
  bu_ca_bundle :: "string list"
  bu_config_keys :: "string list"
  bu_config_key_version :: int
  bu_firewall :: "compiled option"
  bu_lighthouses :: "lighthouse_ref list"
  bu_blocklist :: "string list"
  bu_tun_dev :: string
  bu_listen_port :: int
  bu_nebula :: release_ref
  bu_pilot :: release_ref
  bu_not_after :: time_ns

definition hasControlPlane :: "string list \<Rightarrow> bool" where
  "hasControlPlane groups = list_ex (\<lambda>g. g = GroupControlPlane) groups"

definition CompileFirewall :: "policy option \<Rightarrow> string list \<Rightarrow> compiled option" where
  "CompileFirewall p groups = (case p of
     None \<Rightarrow> if \<not> hasControlPlane groups then None else Some (CompileHost \<lparr>pol_version = 0, pol_rules = []\<rparr> groups)
   | Some p \<Rightarrow> Some (CompileHost p groups))"

record 'p bundle_codec =
  bc_header :: "header \<Rightarrow> bytes"
  bc_unheader :: "bytes \<Rightarrow> header option"
  bc_bundle :: "cfg_bundle \<Rightarrow> bytes option"
  bc_unbundle :: "bytes \<Rightarrow> cfg_bundle option"
  bc_env :: "flattened \<Rightarrow> string"
  bc_unenv :: "string \<Rightarrow> flattened option"
  bc_sha :: "bytes \<Rightarrow> bytes"
  bc_der :: "bytes \<Rightarrow> bytes option"
  bc_ecdsa :: "'p \<Rightarrow> bytes \<Rightarrow> bytes \<Rightarrow> bool"

definition bundle_Sign :: "'p bundle_codec \<Rightarrow> backend \<Rightarrow> string \<Rightarrow> cfg_bundle \<Rightarrow> string option" where
  "bundle_Sign cd b kid bu = (case bc_bundle cd (bu\<lparr>bu_protocol := 1, bu_type := bundle_Type\<rparr>) of
     None \<Rightarrow> None
   | Some payload \<Rightarrow>
       map_option (bc_env cd) (SignBackendES256 (bc_header cd) (bc_sha cd) (bc_der cd) (bk_sign b)
         \<lparr>hd_alg = '''', hd_typ = TypBundle, hd_ver = 1, hd_kid = kid\<rparr> payload))"

datatype bundle_err = BuNotJws | BuSignature jws_err | BuWrongTyp string | BuPayload | BuWrongType string

definition bundle_Verify :: "'p bundle_codec \<Rightarrow> string \<Rightarrow> 'p option list \<Rightarrow> bundle_err + cfg_bundle" where
  "bundle_Verify cd jws trusted = (case bc_unenv cd jws of
     None \<Rightarrow> Inl BuNotJws
   | Some env \<Rightarrow> (case VerifyAny (bc_unheader cd) (bc_sha cd) (bc_ecdsa cd) env trusted of
       Inl e \<Rightarrow> Inl (BuSignature e)
     | Inr (h, payload) \<Rightarrow>
         if hd_typ h \<noteq> TypBundle then Inl (BuWrongTyp (hd_typ h))
         else (case bc_unbundle cd payload of
             None \<Rightarrow> Inl BuPayload
           | Some b \<Rightarrow> if bu_type b \<noteq> bundle_Type then Inl (BuWrongType (bu_type b)) else Inr b)))"

section \<open>Learned config-signing keys\<close>

record trust_file =
  tf_version :: int
  tf_keys :: "string list"

record 'p trust_codec =
  tc_enc :: "trust_file \<Rightarrow> string"
  tc_dec :: "string \<Rightarrow> trust_file option"
  tc_pub :: "string \<Rightarrow> 'p option"

definition ParsePubPEMs :: "'p trust_codec \<Rightarrow> string list \<Rightarrow> 'p list" where
  "ParsePubPEMs tc pems = List.map_filter (tc_pub tc) pems"

definition LoadTrustFile :: "'p trust_codec \<Rightarrow> string option \<Rightarrow> int \<times> 'p list" where
  "LoadTrustFile tc file = (case file of
     None \<Rightarrow> (0, [])
   | Some raw \<Rightarrow> (case tc_dec tc raw of
       None \<Rightarrow> (0, [])
     | Some tf \<Rightarrow> (tf_version tf, ParsePubPEMs tc (tf_keys tf))))"

text \<open>The write goes to a temporary file that is then renamed: it replaces the whole file or fails.\<close>

definition PersistTrustFile :: "'p trust_codec \<Rightarrow> bool \<Rightarrow> int \<Rightarrow> string list \<Rightarrow> string option \<Rightarrow> bool \<times> string option" where
  "PersistTrustFile tc fails version pems file =
     (if pems = [] then (True, file)
      else if version < fst (LoadTrustFile tc file) then (True, file)
      else if fails then (False, file)
      else (True, Some (tc_enc tc \<lparr>tf_version = version, tf_keys = pems\<rparr>)))"

definition TrustedSet :: "'p trust_codec \<Rightarrow> 'p option list \<Rightarrow> string option \<Rightarrow> 'p option list" where
  "TrustedSet tc pins file = foldl (\<lambda>out k. if Some k \<in> set out then out else out @ [Some k]) pins (snd (LoadTrustFile tc file))"

section \<open>The config signer\<close>

record config_identity =
  ci_backend :: backend
  ci_key_id :: string
  ci_fingerprint :: string

datatype cs_err = CsNilBackend | CsBackendKey | CsNotPoint | CsActive | CsParse | CsFactory | CsWrongKey string

definition newConfigIdentity :: "(bytes \<Rightarrow> bytes) \<Rightarrow> (bytes \<Rightarrow> bool) \<Rightarrow> backend option \<Rightarrow> cs_err + config_identity" where
  "newConfigIdentity sha is_point b = (case b of
     None \<Rightarrow> Inl CsNilBackend
   | Some b \<Rightarrow> (case bk_pub b of
       None \<Rightarrow> Inl CsBackendKey
     | Some pub \<Rightarrow>
         if \<not> is_point pub then Inl CsNotPoint
         else Inr \<lparr>ci_backend = b, ci_key_id = PubkeyHash sha pub, ci_fingerprint = PubkeyHash sha pub\<rparr>))"

record config_signer =
  cs_identity :: config_identity
  cs_log :: "(string \<times> string \<times> string \<times> string) list"
  cs_cutovers :: nat

definition cs_New :: "(bytes \<Rightarrow> bytes) \<Rightarrow> (bytes \<Rightarrow> bool) \<Rightarrow> backend option \<Rightarrow> cs_err + config_signer" where
  "cs_New sha is_point b = (case newConfigIdentity sha is_point b of
     Inl e \<Rightarrow> Inl e
   | Inr i \<Rightarrow> Inr \<lparr>cs_identity = i, cs_log = [], cs_cutovers = 0\<rparr>)"

definition cs_Sign :: "'p bundle_codec \<Rightarrow> config_signer \<Rightarrow> cfg_bundle \<Rightarrow> string option" where
  "cs_Sign cd s b = bundle_Sign cd (ci_backend (cs_identity s)) (ci_key_id (cs_identity s)) b"

definition cs_CurrentFingerprint :: "config_signer \<Rightarrow> string" where
  "cs_CurrentFingerprint s = ci_fingerprint (cs_identity s)"

definition cs_Swap :: "(bytes \<Rightarrow> bytes) \<Rightarrow> (bytes \<Rightarrow> bool) \<Rightarrow> backend option \<Rightarrow> config_signer \<Rightarrow> cs_err option \<times> config_signer" where
  "cs_Swap sha is_point b s = (case newConfigIdentity sha is_point b of
     Inl e \<Rightarrow> (Some e, s)
   | Inr i \<Rightarrow> if ci_fingerprint (cs_identity s) = ci_fingerprint i then (None, s) else (None, s\<lparr>cs_identity := i\<rparr>))"

record key_ref =
  kf_fingerprint :: string
  kf_pem :: string
  kf_kms :: string

text \<open>\<open>parse\<close> reads a P256 public key PEM; the audit row is written when an audit function is configured and works.\<close>

definition ReconcileActiveConfigKey ::
  "(bytes \<Rightarrow> bytes) \<Rightarrow> (bytes \<Rightarrow> bool) \<Rightarrow> (string \<Rightarrow> bytes option) \<Rightarrow> bool \<Rightarrow> key_ref option \<Rightarrow> (string \<Rightarrow> bytes \<Rightarrow> backend option option) \<Rightarrow>
   config_signer \<Rightarrow> (cs_err + bool) \<times> config_signer" where
  "ReconcileActiveConfigKey sha is_point parse audits active factory s = (case active of
     None \<Rightarrow> (Inl CsActive, s)
   | Some ref \<Rightarrow>
       if TrimSpace (kf_fingerprint ref) = '''' then (Inr False, s)
       else if kf_fingerprint ref = cs_CurrentFingerprint s then (Inr False, s)
       else (case parse (kf_pem ref) of
           None \<Rightarrow> (Inl CsParse, s)
         | Some pub \<Rightarrow> (case factory (kf_kms ref) pub of
             None \<Rightarrow> (Inl CsFactory, s)
           | Some b \<Rightarrow> (case newConfigIdentity sha is_point b of
               Inl e \<Rightarrow> (Inl e, s)
             | Inr i \<Rightarrow>
                 if ci_fingerprint i \<noteq> kf_fingerprint ref then (Inl (CsWrongKey (ci_fingerprint i)), s)
                 else (Inr True, s\<lparr>cs_identity := i, cs_cutovers := cs_cutovers s + 1,
                    cs_log := cs_log s @ (if audits then [(''system'', ''config-key-signing-cutover'', kf_fingerprint ref, kf_kms ref)] else [])\<rparr>)))))"

record key_tick =
  kt_audits :: bool
  kt_active :: "key_ref option"
  kt_factory :: "string \<Rightarrow> bytes \<Rightarrow> backend option option"

definition cs_tick :: "(bytes \<Rightarrow> bytes) \<Rightarrow> (bytes \<Rightarrow> bool) \<Rightarrow> (string \<Rightarrow> bytes option) \<Rightarrow> key_tick \<Rightarrow> config_signer \<Rightarrow> config_signer" where
  "cs_tick sha is_point parse t s = snd (ReconcileActiveConfigKey sha is_point parse (kt_audits t) (kt_active t) (kt_factory t) s)"

definition RunReconciler :: "(bytes \<Rightarrow> bytes) \<Rightarrow> (bytes \<Rightarrow> bool) \<Rightarrow> (string \<Rightarrow> bytes option) \<Rightarrow> key_tick list \<Rightarrow> config_signer \<Rightarrow> config_signer" where
  "RunReconciler sha is_point parse ticks s = foldl (\<lambda>s t. cs_tick sha is_point parse t s) s ticks"

section \<open>Rendering\<close>

record cfg_values =
  cv_ca_path :: string
  cv_cert_path :: string
  cv_key_path :: string
  cv_am_lighthouse :: bool
  cv_interval :: int
  cv_lighthouses :: "lighthouse_ref list"
  cv_listen_host :: string
  cv_listen_port :: int
  cv_tun_dev :: string
  cv_mtu :: int
  cv_stats_port :: int
  cv_stats_subsystem :: string
  cv_log_level :: string
  cv_log_format :: string
  cv_blocklist :: "string list"
  cv_inbound :: "fw_rule list"
  cv_outbound :: "fw_rule list"

definition quoted :: "string \<Rightarrow> string" where
  "quoted s = CHR 0x22 # s @ [CHR 0x22]"

fun join_with :: "string \<Rightarrow> string list \<Rightarrow> string" where
  "join_with sep [] = []"
| "join_with sep [x] = x"
| "join_with sep (x # y # ys) = x @ sep @ join_with sep (y # ys)"

definition quoteAll :: "string list \<Rightarrow> string list" where
  "quoteAll ss = map quoted ss"

definition SelectorYAML :: "fw_rule \<Rightarrow> string" where
  "SelectorYAML r =
     (if fw_groups r \<noteq> [] then ''groups: ['' @ join_with '', '' (quoteAll (fw_groups r)) @ '']''
      else if fw_group r \<noteq> '''' then ''group: '' @ fw_group r
      else if fw_cidr r \<noteq> '''' then ''cidr: '' @ fw_cidr r
      else ''host: '' @ (if fw_host r = '''' then ''any'' else fw_host r))"

definition Hosts :: "cfg_values \<Rightarrow> string list" where
  "Hosts v = (if cv_am_lighthouse v then [] else map lr_overlay (cv_lighthouses v))"

definition AmRelay :: "cfg_values \<Rightarrow> bool" where "AmRelay v = cv_am_lighthouse v"

definition UseRelays :: "cfg_values \<Rightarrow> bool" where "UseRelays v = (\<not> cv_am_lighthouse v)"

definition RelayHosts :: "cfg_values \<Rightarrow> string list" where
  "RelayHosts v = (if cv_am_lighthouse v then [] else map lr_overlay (cv_lighthouses v))"

definition Defaults :: "cfg_values \<Rightarrow> cfg_values" where
  "Defaults v = v\<lparr>cv_interval := (if cv_interval v = 0 then 60 else cv_interval v),
     cv_listen_host := (if cv_listen_host v = '''' then ''0.0.0.0'' else cv_listen_host v),
     cv_listen_port := (if cv_listen_port v = 0 then 4242 else cv_listen_port v),
     cv_tun_dev := (if cv_tun_dev v = '''' then ''nebula1'' else cv_tun_dev v),
     cv_mtu := (if cv_mtu v = 0 then 1300 else cv_mtu v),
     cv_stats_port := (if cv_stats_port v = 0 then 4280 else cv_stats_port v),
     cv_stats_subsystem := (if cv_stats_subsystem v = '''' then ''node'' else cv_stats_subsystem v),
     cv_log_level := (if cv_log_level v = '''' then ''info'' else cv_log_level v),
     cv_log_format := (if cv_log_format v = '''' then ''text'' else cv_log_format v),
     cv_outbound := (if cv_outbound v = [] then [fw ''any'' ''any'' ''any'' ''''] else cv_outbound v),
     cv_inbound := (if cv_inbound v = [] then [fw ''icmp'' ''any'' ''any'' ''''] else cv_inbound v)\<rparr>"

text \<open>The template, section by section; each line ends in a newline.\<close>

definition line :: "string \<Rightarrow> string" where
  "line s = s @ [CHR 0x0A]"

definition show_bool :: "bool \<Rightarrow> string" where
  "show_bool b = (if b then ''true'' else ''false'')"

definition yaml_list :: "string \<Rightarrow> string list \<Rightarrow> string" where
  "yaml_list key xs = line (''  '' @ key @ '':'' @ (if xs = [] then '' []'' else '''')) @ concat (map (\<lambda>x. line (''    - '' @ quoted x)) xs)"

definition yaml_rule :: "fw_rule \<Rightarrow> string" where
  "yaml_rule r = line (''    - port: '' @ fw_port r) @ line (''      proto: '' @ fw_proto r) @ line (''      '' @ SelectorYAML r)"

definition template_header :: string where
  "template_header =
     line (''# Rendered by pilot (nebula-control-plane M1.7) '' @ [CHR 0xE2, CHR 0x80, CHR 0x94] @ '' do not edit by hand; changes'') @
     line ''# are overwritten on the next render. Firewall and lighthouse policy here are a'' @
     line (''# local placeholder for control-plane (Harbor) supplied policy (design '' @ [CHR 0xC2, CHR 0xA7] @ ''6, M6).'')"

definition execute_template :: "cfg_values \<Rightarrow> string" where
  "execute_template v =
     template_header @
     line ''pki:'' @ line (''  ca: '' @ cv_ca_path v) @ line (''  cert: '' @ cv_cert_path v) @ line (''  key: '' @ cv_key_path v) @
     (if cv_blocklist v = [] then '''' else line ''  blocklist:'' @ concat (map (\<lambda>f. line (''    - '' @ f)) (cv_blocklist v))) @
     line ''static_host_map:'' @
     concat (map (\<lambda>l. line (''  '' @ quoted (lr_overlay l) @ '': ['' @ join_with '', '' (quoteAll (lr_addrs l)) @ '']'')) (cv_lighthouses v)) @
     line ''lighthouse:'' @ line (''  am_lighthouse: '' @ show_bool (cv_am_lighthouse v)) @
     line (''  interval: '' @ show_int (cv_interval v)) @ yaml_list ''hosts'' (Hosts v) @
     line ''relay:'' @ line (''  am_relay: '' @ show_bool (AmRelay v)) @ line (''  use_relays: '' @ show_bool (UseRelays v)) @
     yaml_list ''relays'' (RelayHosts v) @
     line ''listen:'' @ line (''  host: '' @ cv_listen_host v) @ line (''  port: '' @ show_int (cv_listen_port v)) @
     line ''punchy:'' @ line ''  punch: true'' @ line ''  respond: true'' @
     line ''tun:'' @ line ''  disabled: false'' @ line (''  dev: '' @ cv_tun_dev v) @ line (''  mtu: '' @ show_int (cv_mtu v)) @
     (if cv_stats_port v = 0 then '''' else
        line ''stats:'' @ line ''  type: prometheus'' @ line (''  listen: 0.0.0.0:'' @ show_int (cv_stats_port v)) @
        line ''  path: /metrics'' @ line ''  namespace: nebula'' @ line (''  subsystem: '' @ cv_stats_subsystem v) @ line ''  interval: 10s'') @
     line ''logging:'' @ line (''  level: '' @ cv_log_level v) @ line (''  format: '' @ cv_log_format v) @
     line ''firewall:'' @ line ''  conntrack:'' @ line ''    tcp_timeout: 12m'' @ line ''    udp_timeout: 3m'' @ line ''    default_timeout: 10m'' @
     line ''  outbound:'' @ concat (map yaml_rule (cv_outbound v)) @
     line ''  inbound:'' @ concat (map yaml_rule (cv_inbound v)) @
     (if cv_stats_port v = 0 then '''' else
        line (''    - port: '' @ show_int (cv_stats_port v)) @ line ''      proto: tcp'' @ line ''      host: any'')"

definition Render :: "cfg_values \<Rightarrow> string option" where
  "Render v = (if cv_ca_path v = '''' \<or> cv_cert_path v = '''' \<or> cv_key_path v = '''' then None else Some (execute_template v))"

definition RenderNebulaConfig :: "cfg_bundle \<Rightarrow> string \<Rightarrow> string \<Rightarrow> string \<Rightarrow> string option" where
  "RenderNebulaConfig b ca crt key =
     (let v = Defaults \<lparr>cv_ca_path = ca, cv_cert_path = crt, cv_key_path = key, cv_am_lighthouse = False, cv_interval = 0,
            cv_lighthouses = bu_lighthouses b, cv_listen_host = '''', cv_listen_port = bu_listen_port b, cv_tun_dev = bu_tun_dev b,
            cv_mtu = 0, cv_stats_port = 0, cv_stats_subsystem = '''', cv_log_level = '''', cv_log_format = '''', cv_blocklist = [],
            cv_inbound = [], cv_outbound = []\<rparr>;
          v = (case bu_firewall b of None \<Rightarrow> v | Some f \<Rightarrow> v\<lparr>cv_inbound := inbound f, cv_outbound := outbound f\<rparr>) in
      Render (v\<lparr>cv_blocklist := bu_blocklist b\<rparr>))"

section \<open>Signing and verifying\<close>

text \<open>The codecs invert, and \<open>signs cd b k\<close> says that what backend b signs verifies under k.\<close>

definition codec_ok :: "'p bundle_codec \<Rightarrow> bool" where
  "codec_ok cd \<longleftrightarrow> (\<forall>h. bc_unheader cd (bc_header cd h) = Some h) \<and> (\<forall>e. bc_unenv cd (bc_env cd e) = Some e) \<and>
     (\<forall>b p. bc_bundle cd b = Some p \<longrightarrow> bc_unbundle cd p = Some b)"

definition signs :: "'p bundle_codec \<Rightarrow> backend \<Rightarrow> 'p \<Rightarrow> bool" where
  "signs cd b k \<longleftrightarrow> (\<forall>d x sig. bk_sign b d = Some x \<longrightarrow> bc_der cd x = Some sig \<longrightarrow> length sig = 64 \<and> bc_ecdsa cd k d sig)"

definition stamped :: "cfg_bundle \<Rightarrow> cfg_bundle" where
  "stamped b = b\<lparr>bu_protocol := 1, bu_type := bundle_Type\<rparr>"

lemma SignBackend_as_SignES256:
  "SignBackendES256 enc sha der keysign h payload = SignES256 enc sha (\<lambda>d. case keysign d of None \<Rightarrow> None | Some x \<Rightarrow> der x) h payload"
  by (auto simp: SignBackendES256_def SignES256_def Let_def split: option.splits)

lemma bundle_round_trip:
  assumes "codec_ok cd" "signs cd b k" "bundle_Sign cd b kid bu = Some j" "Some k \<in> set trusted"
  shows "bundle_Verify cd j trusted = Inr (stamped bu)"
proof -
  obtain payload env where p: "bc_bundle cd (stamped bu) = Some payload" "j = bc_env cd env"
    and e: "SignES256 (bc_header cd) (bc_sha cd) (\<lambda>d. case bk_sign b d of None \<Rightarrow> None | Some x \<Rightarrow> bc_der cd x)
      \<lparr>hd_alg = '''', hd_typ = TypBundle, hd_ver = 1, hd_kid = kid\<rparr> payload = Some env"
    using assms(3) by (auto simp: bundle_Sign_def stamped_def SignBackend_as_SignES256 split: option.splits)
  have "VerifyAny (bc_unheader cd) (bc_sha cd) (bc_ecdsa cd) env trusted =
    Inr (\<lparr>hd_alg = '''', hd_typ = TypBundle, hd_ver = 1, hd_kid = kid\<rparr>\<lparr>hd_alg := Alg\<rparr>, payload)"
    by (rule sign_verify [OF e assms(4)]) (use assms(1,2) in \<open>auto simp: codec_ok_def signs_def split: option.splits\<close>)
  moreover have "bc_unbundle cd payload = Some (stamped bu)" "bc_unenv cd j = Some env" using assms(1) p by (auto simp: codec_ok_def)
  ultimately show ?thesis by (simp add: bundle_Verify_def stamped_def)
qed

text \<open>A verified bundle stays verified under every larger key set.\<close>

lemma bundle_Verify_signer:
  assumes "bundle_Verify cd j trusted = Inr b"
  shows "\<exists>k. Some k \<in> set trusted \<and> (\<forall>more. Some k \<in> set more \<longrightarrow> bundle_Verify cd j more = Inr b)"
proof -
  obtain env where env: "bc_unenv cd j = Some env" using assms by (auto simp: bundle_Verify_def split: option.splits)
  obtain h payload where v: "VerifyAny (bc_unheader cd) (bc_sha cd) (bc_ecdsa cd) env trusted = Inr (h, payload)"
    using assms env by (auto simp: bundle_Verify_def split: sum.splits)
  obtain k where k: "Some k \<in> set trusted" and any: "\<And>more. Some k \<in> set more \<Longrightarrow>
      VerifyAny (bc_unheader cd) (bc_sha cd) (bc_ecdsa cd) env more = Inr (h, payload)"
  proof -
    obtain k sig where ks: "Some k \<in> set trusted" "DecodeString (fl_signature env) = Some sig"
      "bc_ecdsa cd k (bc_sha cd (signing_input (fl_protected env) (fl_payload env))) sig" using VerifyAny_ok(3) [OF v] by blast
    have "VerifyAny (bc_unheader cd) (bc_sha cd) (bc_ecdsa cd) env more = Inr (h, payload)" if "Some k \<in> set more" for more
    proof -
      have "list_ex (\<lambda>p. case p of None \<Rightarrow> False | Some k \<Rightarrow> bc_ecdsa cd k (bc_sha cd (signing_input (fl_protected env) (fl_payload env))) sig) more"
        using that ks(3) by (auto simp: list_ex_iff intro!: bexI [of _ "Some k"])
      then show ?thesis using v ks(2) by (auto simp: VerifyAny_def Let_def split: option.splits if_splits)
    qed
    then show ?thesis using that ks(1) by blast
  qed
  have "bundle_Verify cd j more = Inr b" if "Some k \<in> set more" for more
    using assms env v any [OF that] by (simp add: bundle_Verify_def)
  then show ?thesis using k by blast
qed

section \<open>The trust file\<close>

lemma set_TrustedSet: "set (TrustedSet tc pins file) = set pins \<union> Some ` set (snd (LoadTrustFile tc file))"
proof -
  have "set (foldl (\<lambda>out k. if Some k \<in> set out then out else out @ [Some k]) out ks) = set out \<union> Some ` set ks" for out ks
    by (induction ks arbitrary: out) auto
  then show ?thesis by (simp add: TrustedSet_def)
qed

definition trust_codec_ok :: "'p trust_codec \<Rightarrow> bool" where
  "trust_codec_ok tc \<longleftrightarrow> (\<forall>t. tc_dec tc (tc_enc tc t) = Some t)"

lemma set_ParsePubPEMs: "set (ParsePubPEMs tc pems) = {k. \<exists>p\<in>set pems. tc_pub tc p = Some k}"
  by (force simp: ParsePubPEMs_def List.map_filter_def)

lemma PersistTrustFile_cases:
  assumes "trust_codec_ok tc" "PersistTrustFile tc fails version pems file = (ok, file')"
  obtains (kept) "file' = file" "pems = [] \<or> version < fst (LoadTrustFile tc file) \<or> fails"
  | (written) "ok" "fst (LoadTrustFile tc file) \<le> version" "LoadTrustFile tc file' = (version, ParsePubPEMs tc pems)"
proof (cases "pems = [] \<or> version < fst (LoadTrustFile tc file) \<or> fails")
  case True
  then show ?thesis using assms(2) kept by (auto simp: PersistTrustFile_def split: if_splits)
next
  case False
  then have "file' = Some (tc_enc tc \<lparr>tf_version = version, tf_keys = pems\<rparr>)" "ok"
    using assms(2) by (auto simp: PersistTrustFile_def)
  then show ?thesis using written assms(1) False by (auto simp: LoadTrustFile_def trust_codec_ok_def)
qed

text \<open>The learned version never goes back.\<close>

lemma trust_version_monotone:
  assumes "trust_codec_ok tc" "PersistTrustFile tc fails version pems file = (ok, file')"
  shows "fst (LoadTrustFile tc file) \<le> fst (LoadTrustFile tc file')"
  using assms by (rule PersistTrustFile_cases) auto

section \<open>Hot swaps\<close>

text \<open>
  What the two pollers (for the CA and for the config key) have in common: a tick keeps a good state good, leaves the
  rest of the state alone, moves to the registry's active key when it can, and does nothing once there.
\<close>

locale hot_swap =
  fixes tick :: "'t \<Rightarrow> 's \<Rightarrow> 's"
    and ok :: "'s \<Rightarrow> bool"
    and goal :: "'t \<Rightarrow> string option"
    and current :: "'s \<Rightarrow> string"
    and rest :: "'s \<Rightarrow> 'r"
  assumes tick_ok: "ok s \<Longrightarrow> ok (tick t s)"
    and tick_rest: "rest (tick t s) = rest s"
    and tick_goal: "ok s \<Longrightarrow> goal t = Some f \<Longrightarrow> current (tick t s) = f"
    and tick_settled: "ok s \<Longrightarrow> goal t = Some (current s) \<Longrightarrow> tick t s = s"
begin

definition run :: "'t list \<Rightarrow> 's \<Rightarrow> 's" where
  "run ts s = foldl (\<lambda>s t. tick t s) s ts"

lemma run_ok: "ok s \<Longrightarrow> ok (run ts s)"
  unfolding run_def by (induction ts arbitrary: s) (simp_all add: tick_ok)

lemma run_rest: "rest (run ts s) = rest s"
  unfolding run_def by (induction ts arbitrary: s) (simp_all add: tick_rest)

lemma run_goal: "ok s \<Longrightarrow> goal t = Some f \<Longrightarrow> current (run (ts @ [t]) s) = f"
  using tick_goal run_ok unfolding run_def by simp

lemma run_settled: "ok s \<Longrightarrow> (\<And>t. t \<in> set ts \<Longrightarrow> goal t = Some (current s)) \<Longrightarrow> run ts s = s"
  unfolding run_def by (induction ts) (simp_all add: tick_settled)

end

definition sg_goal :: "nebula_lib \<Rightarrow> tick \<Rightarrow> string option" where
  "sg_goal lib t = (case tk_active t of None \<Rightarrow> None
     | Some ref \<Rightarrow> if usable lib t ref then Some (ToLower (TrimSpace (ar_fingerprint ref))) else None)"

interpretation sgswap: hot_swap
  "\<lambda>t s. snd (ReconcileActiveCA lib (tk_fails t) (tk_now t) (tk_active t) (tk_factory t) s)"
  "\<lambda>s. identity_ok lib (sg_identity s)" "sg_goal lib" CurrentFingerprint "\<lambda>s. (sg_policy s, sg_breaker s, sg_signings s)"
proof unfold_locales
  fix s :: "'a signer" and t
  assume ok: "identity_ok lib (sg_identity s)" and g: "sg_goal lib t = Some (CurrentFingerprint s)"
  then obtain ref where "tk_active t = Some ref" "ToLower (TrimSpace (ar_fingerprint ref)) = CurrentFingerprint s"
    by (auto simp: sg_goal_def split: option.splits if_splits)
  moreover have "ToLower (CurrentFingerprint s) = CurrentFingerprint s" using ok by (simp add: identity_ok_def CurrentFingerprint_def)
  ultimately show "snd (ReconcileActiveCA lib (tk_fails t) (tk_now t) (tk_active t) (tk_factory t) s) = s"
    by (auto simp: ReconcileActiveCA_def)
next
  fix s :: "'a signer" and t f
  assume ok: "identity_ok lib (sg_identity s)" and g: "sg_goal lib t = Some f"
  then obtain ref where "usable lib t ref" "f = ToLower (TrimSpace (ar_fingerprint ref))"
    by (auto simp: sg_goal_def split: option.splits if_splits)
  then show "CurrentFingerprint (snd (ReconcileActiveCA lib (tk_fails t) (tk_now t) (tk_active t) (tk_factory t) s)) = f"
    using reconcile_converges [OF ok] by simp
qed (simp_all add: reconcile_identity_ok reconcile_keeps)

definition cs_ok :: "(bytes \<Rightarrow> bytes) \<Rightarrow> (bytes \<Rightarrow> bool) \<Rightarrow> config_signer \<Rightarrow> bool" where
  "cs_ok sha is_point s \<longleftrightarrow> newConfigIdentity sha is_point (Some (ci_backend (cs_identity s))) = Inr (cs_identity s)"

lemma newConfigIdentity_ok: "newConfigIdentity sha is_point b = Inr i \<Longrightarrow> newConfigIdentity sha is_point (Some (ci_backend i)) = Inr i"
  by (auto simp: newConfigIdentity_def split: option.splits if_splits)

definition cs_goal :: "(bytes \<Rightarrow> bytes) \<Rightarrow> (bytes \<Rightarrow> bool) \<Rightarrow> (string \<Rightarrow> bytes option) \<Rightarrow> key_tick \<Rightarrow> string option" where
  "cs_goal sha is_point parse t = (case kt_active t of None \<Rightarrow> None
     | Some ref \<Rightarrow> (case parse (kf_pem ref) of None \<Rightarrow> None
         | Some pub \<Rightarrow> (case kt_factory t (kf_kms ref) pub of None \<Rightarrow> None
             | Some b \<Rightarrow> (case newConfigIdentity sha is_point b of Inl _ \<Rightarrow> None
                 | Inr i \<Rightarrow> if ci_fingerprint i = kf_fingerprint ref \<and> TrimSpace (kf_fingerprint ref) \<noteq> '''' then Some (kf_fingerprint ref) else None))))"

interpretation csswap: hot_swap "cs_tick sha is_point parse" "cs_ok sha is_point" "cs_goal sha is_point parse" cs_CurrentFingerprint "\<lambda>_. ()"
  by unfold_locales
     (auto simp: cs_tick_def cs_ok_def cs_goal_def ReconcileActiveConfigKey_def newConfigIdentity_ok cs_CurrentFingerprint_def
       split: option.splits sum.splits if_splits)

text \<open>Once the registry's active config key is reachable, every later bundle is signed under it, and one failed poll changes nothing.\<close>

lemma config_signer_follows:
  assumes "cs_ok sha is_point s" "cs_goal sha is_point parse t = Some f"
  shows "cs_CurrentFingerprint (RunReconciler sha is_point parse (ts @ [t]) s) = f" "cs_ok sha is_point (RunReconciler sha is_point parse ts s)"
  using csswap.run_goal [OF assms, of ts] csswap.run_ok [OF assms(1), of parse ts] by (simp_all add: RunReconciler_def csswap.run_def)

end
