(* ===== verification/Pilot.thy ===== *)
theory Pilot
  imports Bundle
begin

text \<open>
  The pilot's side of enrolment, renewal and config refresh (internal/enrollclient): polling for the result, verifying a
  delivered bundle against the trusted config keys, binding it to this host, and writing it to disk.

  A disk write either succeeds or fails and leaves some content behind (a plain write truncates the file first); the
  trust file and the private key are replaced atomically.  HTTP exchanges are their answers.
\<close>

record pilot_disk =
  pd_ca :: "string option"
  pd_cert :: "string option"
  pd_bundle :: "string option"
  pd_trust :: "string option"
  pd_config :: "string option"
  pd_key :: "bytes option"
  pd_pub :: "bytes option"
  pd_ticket :: "(string \<times> string \<times> int) option"

text \<open>\<open>None\<close>: the write succeeded; \<open>Some c\<close>: it failed and the file is now c.\<close>

type_synonym wfaults = "nat \<Rightarrow> string option option"

record 'p pilot_env =
  pe_codec :: "'p bundle_codec"
  pe_trust :: "'p trust_codec"
  pe_lib :: nebula_lib
  pe_pool :: "string \<Rightarrow> (cert \<Rightarrow> bool) option"
  pe_unresp :: "string \<Rightarrow> string option"
  pe_ca_path :: string
  pe_cert_path :: string
  pe_key_path :: string
  pe_pins :: "'p option list"

datatype pilot_err =
    PiNoPin | PiTransport | PiStatus nat | PiBody | PiBundle bundle_err | PiCAPool | PiLeafParse | PiLeafVerify | PiLeafKey
  | PiHostCert | PiNoNetworks | PiOtherHost string string | PiRollback int int | PiWrite | PiRender | PiGone | PiPollStatus nat | PiCancelled

definition verifyCert :: "'p pilot_env \<Rightarrow> cfg_bundle \<Rightarrow> bytes \<Rightarrow> pilot_err option" where
  "verifyCert e b pub = (case pe_pool e (join_with [CHR 0x0A] (bu_ca_bundle b)) of
     None \<Rightarrow> Some PiCAPool
   | Some ok \<Rightarrow> (case nl_parse (pe_lib e) (bu_certificate b) of
       None \<Rightarrow> Some PiLeafParse
     | Some leaf \<Rightarrow> if \<not> ok leaf then Some PiLeafVerify else if ct_pub leaf \<noteq> pub then Some PiLeafKey else None))"

definition overlayIPFromCert :: "'p pilot_env \<Rightarrow> pilot_disk \<Rightarrow> pilot_err + string" where
  "overlayIPFromCert e d = (case pd_cert d of
     None \<Rightarrow> Inl PiHostCert
   | Some pem \<Rightarrow> (case nl_parse (pe_lib e) pem of
       None \<Rightarrow> Inl PiHostCert
     | Some leaf \<Rightarrow> (case ct_networks leaf of [] \<Rightarrow> Inl PiNoNetworks | n # _ \<Rightarrow> Inr (addr_String (pfx_addr n)))))"

definition trusted_now :: "'p pilot_env \<Rightarrow> pilot_disk \<Rightarrow> 'p option list" where
  "trusted_now e d = TrustedSet (pe_trust e) (pe_pins e) (pd_trust d)"

definition appliedBlocklistVersion :: "'p pilot_env \<Rightarrow> pilot_disk \<Rightarrow> int option" where
  "appliedBlocklistVersion e d = (case pd_bundle d of
     None \<Rightarrow> None
   | Some raw \<Rightarrow> (case bundle_Verify (pe_codec e) raw (trusted_now e d) of Inl _ \<Rightarrow> None | Inr b \<Rightarrow> Some (bu_blocklist_version b)))"

text \<open>The last two writes that both apply paths share: the learned keys and the rendered configuration.\<close>

definition write_trust_config :: "'p pilot_env \<Rightarrow> bool \<Rightarrow> string option option \<Rightarrow> cfg_bundle \<Rightarrow> pilot_disk \<Rightarrow> pilot_err option \<times> pilot_disk" where
  "write_trust_config e trust_fails cfg_fault b d =
     (let (ok, file) = PersistTrustFile (pe_trust e) trust_fails (bu_config_key_version b) (bu_config_keys b) (pd_trust d);
          d = d\<lparr>pd_trust := file\<rparr> in
      if \<not> ok then (Some PiWrite, d)
      else case RenderNebulaConfig b (pe_ca_path e) (pe_cert_path e) (pe_key_path e) of
        None \<Rightarrow> (Some PiRender, d)
      | Some cfg \<Rightarrow> (case cfg_fault of
          Some c \<Rightarrow> (Some PiWrite, d\<lparr>pd_config := c\<rparr>)
        | None \<Rightarrow> (None, d\<lparr>pd_config := Some cfg\<rparr>)))"

definition writeArtifacts :: "'p pilot_env \<Rightarrow> wfaults \<Rightarrow> cfg_bundle \<Rightarrow> string \<Rightarrow> pilot_disk \<Rightarrow> pilot_err option \<times> pilot_disk" where
  "writeArtifacts e flt b raw d = (case flt 0 of
     Some c \<Rightarrow> (Some PiWrite, d\<lparr>pd_ca := c\<rparr>)
   | None \<Rightarrow> let d = d\<lparr>pd_ca := Some (join_with [CHR 0x0A] (bu_ca_bundle b))\<rparr> in
     (case flt 1 of
        Some c \<Rightarrow> (Some PiWrite, d\<lparr>pd_cert := c\<rparr>)
      | None \<Rightarrow> let d = d\<lparr>pd_cert := Some (bu_certificate b)\<rparr> in
        (case flt 2 of
           Some c \<Rightarrow> (Some PiWrite, d\<lparr>pd_bundle := c\<rparr>)
         | None \<Rightarrow> write_trust_config e (flt 3 \<noteq> None) (flt 4) b (d\<lparr>pd_bundle := Some raw\<rparr>))))"

definition writeConfigArtifacts :: "'p pilot_env \<Rightarrow> wfaults \<Rightarrow> cfg_bundle \<Rightarrow> string \<Rightarrow> pilot_disk \<Rightarrow> pilot_err option \<times> pilot_disk" where
  "writeConfigArtifacts e flt b raw d = (case flt 0 of
     Some c \<Rightarrow> (Some PiWrite, d\<lparr>pd_ca := c\<rparr>)
   | None \<Rightarrow> let d = d\<lparr>pd_ca := Some (join_with [CHR 0x0A] (bu_ca_bundle b))\<rparr> in
     (case flt 1 of
        Some c \<Rightarrow> (Some PiWrite, d\<lparr>pd_bundle := c\<rparr>)
      | None \<Rightarrow> write_trust_config e (flt 2 \<noteq> None) (flt 3) b (d\<lparr>pd_bundle := Some raw\<rparr>)))"

text \<open>The body of a successful answer, or why there is none.\<close>

definition body_of :: "'p pilot_env \<Rightarrow> (nat \<times> string) option \<Rightarrow> pilot_err + string" where
  "body_of e resp = (case resp of
     None \<Rightarrow> Inl PiTransport
   | Some (code, body) \<Rightarrow> if code \<noteq> 200 then Inl (PiStatus code)
       else (case pe_unresp e body of None \<Rightarrow> Inl PiBody | Some raw \<Rightarrow> Inr raw))"

definition FetchConfig :: "'p pilot_env \<Rightarrow> wfaults \<Rightarrow> (nat \<times> string) option \<Rightarrow> pilot_disk \<Rightarrow> (pilot_err + string) \<times> pilot_disk" where
  "FetchConfig e flt resp d =
     (if pe_pins e = [] then (Inl PiNoPin, d)
      else case body_of e resp of
        Inl x \<Rightarrow> (Inl x, d)
      | Inr raw \<Rightarrow> (case bundle_Verify (pe_codec e) raw (trusted_now e d) of
          Inl x \<Rightarrow> (Inl (PiBundle x), d)
        | Inr b \<Rightarrow> (case overlayIPFromCert e d of
            Inl x \<Rightarrow> (Inl x, d)
          | Inr myIP \<Rightarrow>
              if bu_ip b \<noteq> myIP then (Inl (PiOtherHost (bu_ip b) myIP), d)
              else case (case appliedBlocklistVersion e d of Some v \<Rightarrow> if bu_blocklist_version b < v then Some v else None | None \<Rightarrow> None) of
                Some v \<Rightarrow> (Inl (PiRollback (bu_blocklist_version b) v), d)
              | None \<Rightarrow> (case writeConfigArtifacts e flt b raw d of
                  (Some x, d') \<Rightarrow> (Inl x, d')
                | (None, d') \<Rightarrow> (Inr (bu_ip b), d')))))"

text \<open>A renewal: the new key is written (atomically) and its public half, then the artifacts.\<close>

definition pilot_Renew :: "'p pilot_env \<Rightarrow> bool \<Rightarrow> bool \<Rightarrow> wfaults \<Rightarrow> bytes \<times> bytes \<Rightarrow> (nat \<times> string) option \<Rightarrow> pilot_disk \<Rightarrow> (pilot_err + string) \<times> pilot_disk" where
  "pilot_Renew e key_fails pub_fails flt kp resp d =
     (if pe_pins e = [] then (Inl PiNoPin, d)
      else case body_of e resp of
        Inl x \<Rightarrow> (Inl x, d)
      | Inr raw \<Rightarrow> (case bundle_Verify (pe_codec e) raw (trusted_now e d) of
          Inl x \<Rightarrow> (Inl (PiBundle x), d)
        | Inr b \<Rightarrow> (case verifyCert e b (snd kp) of
            Some x \<Rightarrow> (Inl x, d)
          | None \<Rightarrow>
              if key_fails then (Inl PiWrite, d)
              else let d = d\<lparr>pd_key := Some (fst kp)\<rparr> in
              if pub_fails then (Inl PiWrite, d)
              else (case writeArtifacts e flt b raw (d\<lparr>pd_pub := Some (snd kp)\<rparr>) of
                  (Some x, d') \<Rightarrow> (Inl x, d')
                | (None, d') \<Rightarrow> (Inr (bu_ip b), d')))))"

text \<open>
  Polling for the enrolment result.  One observation of the loop is the time read by its guard and the answer of the
  gateway; the list ends when the context is cancelled.
\<close>

datatype poll_out = PollIssued string | PollOther string string | PollErr pilot_err

record poll_body =
  pb_status :: string
  pb_bundle :: string
  pb_reason :: string

fun poll :: "(string \<Rightarrow> poll_body option) \<Rightarrow> time_ns \<Rightarrow> (time_ns \<times> (nat \<times> string) option) list \<Rightarrow> poll_out" where
  "poll dec deadline [] = PollErr PiCancelled"
| "poll dec deadline ((now, resp) # obs) =
     (if \<not> now < deadline then PollOther ''pending'' ''''
      else case resp of
        None \<Rightarrow> PollErr PiTransport
      | Some (code, body) \<Rightarrow>
          if code = 200 then (case dec body of
              None \<Rightarrow> PollErr PiBody
            | Some pr \<Rightarrow> if pb_status pr = ''issued'' then PollIssued (pb_bundle pr) else PollOther (pb_status pr) (pb_reason pr))
          else if code = 404 then poll dec deadline obs
          else if code = 202 then PollOther ''pending'' ''''
          else if code = 410 then PollErr PiGone
          else PollErr (PiPollStatus code))"

datatype finish_out = FinIssued string | FinStatus string string | FinErr pilot_err

definition finishEnroll :: "'p pilot_env \<Rightarrow> wfaults \<Rightarrow> bytes \<Rightarrow> poll_out \<Rightarrow> pilot_disk \<Rightarrow> finish_out \<times> pilot_disk" where
  "finishEnroll e flt pub out d = (case out of
     PollErr x \<Rightarrow> (FinErr x, d)
   | PollOther st rsn \<Rightarrow> (FinStatus st rsn, if st = ''denied'' then d\<lparr>pd_ticket := None\<rparr> else d)
   | PollIssued raw \<Rightarrow> (case bundle_Verify (pe_codec e) raw (trusted_now e d) of
       Inl x \<Rightarrow> (FinErr (PiBundle x), d)
     | Inr b \<Rightarrow> (case verifyCert e b pub of
         Some x \<Rightarrow> (FinErr x, d)
       | None \<Rightarrow> (case writeArtifacts e flt b raw d of
           (Some x, d') \<Rightarrow> (FinErr x, d')
         | (None, d') \<Rightarrow> (FinIssued (bu_ip b), d'\<lparr>pd_ticket := None\<rparr>)))))"

section \<open>What a refresh does\<close>

lemma write_trust_config_keeps:
  "pd_bundle (snd (write_trust_config e tf cf b d)) = pd_bundle d" "pd_cert (snd (write_trust_config e tf cf b d)) = pd_cert d"
  "pd_trust (snd (write_trust_config e tf cf b d)) = snd (PersistTrustFile (pe_trust e) tf (bu_config_key_version b) (bu_config_keys b) (pd_trust d))"
  by (auto simp: write_trust_config_def Let_def split: prod.splits option.splits)

text \<open>A refresh leaves the disk's bundle and trust file alone, or installs a verified, host-bound bundle that is no older.\<close>

lemma FetchConfig_cases:
  assumes "FetchConfig e flt resp d = (r, d')" "flt 1 = None"
  obtains (kept) "pd_bundle d' = pd_bundle d" "pd_trust d' = pd_trust d" "pd_cert d' = pd_cert d"
  | (installed) raw b where "body_of e resp = Inr raw" "bundle_Verify (pe_codec e) raw (trusted_now e d) = Inr b"
      "overlayIPFromCert e d = Inr (bu_ip b)" "\<And>v. appliedBlocklistVersion e d = Some v \<Longrightarrow> v \<le> bu_blocklist_version b"
      "pd_bundle d' = Some raw" "pd_cert d' = pd_cert d"
      "pd_trust d' = snd (PersistTrustFile (pe_trust e) (flt 2 \<noteq> None) (bu_config_key_version b) (bu_config_keys b) (pd_trust d))"
proof (cases "\<exists>raw b. body_of e resp = Inr raw \<and> bundle_Verify (pe_codec e) raw (trusted_now e d) = Inr b \<and> overlayIPFromCert e d = Inr (bu_ip b) \<and>
    (\<forall>v. appliedBlocklistVersion e d = Some v \<longrightarrow> v \<le> bu_blocklist_version b) \<and> pe_pins e \<noteq> [] \<and> flt 0 = None")
  case True
  then obtain raw b where h: "body_of e resp = Inr raw" "bundle_Verify (pe_codec e) raw (trusted_now e d) = Inr b"
    "overlayIPFromCert e d = Inr (bu_ip b)" "\<And>v. appliedBlocklistVersion e d = Some v \<Longrightarrow> v \<le> bu_blocklist_version b"
    "pe_pins e \<noteq> []" "flt 0 = None" by blast
  let ?d = "d\<lparr>pd_ca := Some (join_with [CHR 0x0A] (bu_ca_bundle b)), pd_bundle := Some raw\<rparr>"
  have "d' = snd (write_trust_config e (flt 2 \<noteq> None) (flt 3) b ?d)"
    using assms h by (auto simp: FetchConfig_def writeConfigArtifacts_def not_less split: option.splits prod.splits if_splits dest: h(4))
  then show ?thesis using installed [OF h(1-4)] by (simp add: write_trust_config_keeps)
next
  case False
  then show ?thesis using assms kept
    by (auto simp: FetchConfig_def writeConfigArtifacts_def split: option.splits prod.splits if_splits sum.splits)
qed

record fetch_call =
  fc_flt :: wfaults
  fc_resp :: "(nat \<times> string) option"

definition fetches :: "'p pilot_env \<Rightarrow> fetch_call list \<Rightarrow> pilot_disk \<Rightarrow> pilot_disk" where
  "fetches e calls d = foldl (\<lambda>d c. snd (FetchConfig e (fc_flt c) (fc_resp c) d)) d calls"

text \<open>
  What the control plane, the holder of the keys \<open>K\<close>, signs: a bundle that advertises config keys advertises only keys of \<open>K\<close>, and among them
  or among the pins the one that signed it (the registry never retires the signing key).  Nothing is said of texts signed by other keys.
\<close>

definition own_bundles :: "'p pilot_env \<Rightarrow> 'p set \<Rightarrow> (nat \<times> string) option \<Rightarrow> bool" where
  "own_bundles e K resp \<longleftrightarrow> (\<forall>raw b. \<forall>k\<in>K. body_of e resp = Inr raw \<longrightarrow> bundle_Verify (pe_codec e) raw [Some k] = Inr b \<longrightarrow>
     set (ParsePubPEMs (pe_trust e) (bu_config_keys b)) \<subseteq> K \<and>
     (bu_config_keys b = [] \<or> bundle_Verify (pe_codec e) raw (pe_pins e @ map Some (ParsePubPEMs (pe_trust e) (bu_config_keys b))) = Inr b))"

definition trusts_only :: "'p pilot_env \<Rightarrow> 'p set \<Rightarrow> pilot_disk \<Rightarrow> bool" where
  "trusts_only e K d \<longleftrightarrow> (\<forall>k. Some k \<in> set (trusted_now e d) \<longrightarrow> k \<in> K)"

lemma bundle_Verify_subset:
  assumes "bundle_Verify cd j ks = Inr b" "set ks \<subseteq> set ks2"
  shows "bundle_Verify cd j ks2 = Inr b"
  using bundle_Verify_signer [OF assms(1)] assms(2) by blast

lemma accepted_own:
  assumes "trusts_only e K d" "own_bundles e K resp" "body_of e resp = Inr raw" "bundle_Verify (pe_codec e) raw (trusted_now e d) = Inr b"
  shows "set (ParsePubPEMs (pe_trust e) (bu_config_keys b)) \<subseteq> K"
    "bu_config_keys b = [] \<or> bundle_Verify (pe_codec e) raw (pe_pins e @ map Some (ParsePubPEMs (pe_trust e) (bu_config_keys b))) = Inr b"
proof -
  obtain k where "Some k \<in> set (trusted_now e d)" "bundle_Verify (pe_codec e) raw [Some k] = Inr b"
    using bundle_Verify_signer [OF assms(4)] by auto
  then show "set (ParsePubPEMs (pe_trust e) (bu_config_keys b)) \<subseteq> K"
    "bu_config_keys b = [] \<or> bundle_Verify (pe_codec e) raw (pe_pins e @ map Some (ParsePubPEMs (pe_trust e) (bu_config_keys b))) = Inr b"
    using assms(1-3) by (auto simp: own_bundles_def trusts_only_def)
qed

text \<open>The bundle on disk keeps verifying under the keys on disk after a refresh, so the rollback guard stays armed, and no foreign key is learned.\<close>

lemma installed_verifies:
  assumes "trust_codec_ok (pe_trust e)" "trusts_only e K d" "own_bundles e K resp" "body_of e resp = Inr raw"
    and v: "bundle_Verify (pe_codec e) raw (trusted_now e d) = Inr b"
    and t: "pd_trust d' = snd (PersistTrustFile (pe_trust e) fails (bu_config_key_version b) (bu_config_keys b) (pd_trust d))"
  shows "bundle_Verify (pe_codec e) raw (trusted_now e d') = Inr b \<and> trusts_only e K d'"
proof -
  obtain ok where p: "PersistTrustFile (pe_trust e) fails (bu_config_key_version b) (bu_config_keys b) (pd_trust d) = (ok, pd_trust d')"
    using t by (metis prod.collapse)
  from assms(1) p show ?thesis
  proof (rule PersistTrustFile_cases)
    assume "pd_trust d' = pd_trust d"
    then show ?thesis using v assms(2) by (simp add: trusted_now_def trusts_only_def)
  next
    assume l: "LoadTrustFile (pe_trust e) (pd_trust d') = (bu_config_key_version b, ParsePubPEMs (pe_trust e) (bu_config_keys b))"
    show ?thesis
    proof (cases "bu_config_keys b = []")
      case True
      then have "pd_trust d' = pd_trust d" using t by (simp add: PersistTrustFile_def)
      then show ?thesis using v assms(2) by (simp add: trusted_now_def trusts_only_def)
    next
      case False
      note own = accepted_own [OF assms(2-4) v]
      have "trusts_only e K d'" using own(1) assms(2) by (auto simp: trusts_only_def trusted_now_def set_TrustedSet l)
      moreover have "bundle_Verify (pe_codec e) raw (trusted_now e d') = Inr b"
      proof (rule bundle_Verify_subset)
        show "bundle_Verify (pe_codec e) raw (pe_pins e @ map Some (ParsePubPEMs (pe_trust e) (bu_config_keys b))) = Inr b" using own(2) False by simp
      qed (auto simp: trusted_now_def set_TrustedSet l)
      ultimately show ?thesis by blast
    qed
  qed
qed

lemma FetchConfig_no_rollback:
  assumes "trust_codec_ok (pe_trust e)" "trusts_only e K d" "own_bundles e K resp" "flt 1 = None" "appliedBlocklistVersion e d = Some v"
  shows "trusts_only e K (snd (FetchConfig e flt resp d)) \<and>
    (\<exists>v'. appliedBlocklistVersion e (snd (FetchConfig e flt resp d)) = Some v' \<and> v \<le> v')"
proof -
  obtain r d' where f: "FetchConfig e flt resp d = (r, d')" by fastforce
  from f assms(4) show ?thesis
  proof (cases rule: FetchConfig_cases)
    case kept
    then have t: "trusted_now e d' = trusted_now e d" by (simp add: trusted_now_def)
    then have "appliedBlocklistVersion e d' = Some v" using kept(1) assms(5)
      by (simp add: appliedBlocklistVersion_def split: option.splits sum.splits)
    then show ?thesis using f t assms(2) by (simp add: trusts_only_def)
  next
    case (installed raw b)
    have i: "bundle_Verify (pe_codec e) raw (trusted_now e d') = Inr b \<and> trusts_only e K d'"
      by (rule installed_verifies [OF assms(1-3) installed(1,2,7)])
    then have "appliedBlocklistVersion e d' = Some (bu_blocklist_version b)" using installed(5) by (simp add: appliedBlocklistVersion_def)
    then show ?thesis using installed(4) [OF assms(5)] f i by simp
  qed
qed

section \<open>Properties\<close>

text \<open>
  C16: Revocations cannot be replayed away.  Let K be the keys of the control plane, and let a pilot that trusts no others have applied a
  bundle.  Then no sequence of config refreshes lowers the blocklist version it has applied or makes it trust a key outside of K,
  whatever the answers are: no answer, an error, a stale or foreign bundle of the control plane, anything signed by other keys.  Writes of
  any file may fail except those of bundle.json, and what K signs is assumed to advertise only keys of K, the signing one included.
\<close>

theorem blocklist_never_rolls_back:
  assumes "trust_codec_ok (pe_trust e)" "trusts_only e K d" "\<forall>c\<in>set calls. own_bundles e K (fc_resp c)" "\<forall>c\<in>set calls. fc_flt c 1 = None"
    and "appliedBlocklistVersion e d = Some v"
  shows "trusts_only e K (fetches e calls d) \<and> (\<exists>v'. appliedBlocklistVersion e (fetches e calls d) = Some v' \<and> v \<le> v')"
  using assms(2-5)
proof (induction calls arbitrary: d v)
  case (Cons c cs)
  let ?d = "snd (FetchConfig e (fc_flt c) (fc_resp c) d)"
  have "own_bundles e K (fc_resp c)" "fc_flt c 1 = None" using Cons.prems(2,3) by simp_all
  then obtain v1 where v1: "trusts_only e K ?d" "appliedBlocklistVersion e ?d = Some v1" "v \<le> v1"
    using FetchConfig_no_rollback [OF assms(1) Cons.prems(1) _ _ Cons.prems(4)] by blast
  show ?case using Cons.IH [OF v1(1) _ _ v1(2)] Cons.prems(2,3) v1(3) by (fastforce simp: fetches_def)
qed (simp add: fetches_def)

text \<open>
  A small instance: keys are numbers, a signature by key k is 64 bytes k, and four texts are bundles: b3 (blocklist version 3)
  and b5 (version 5, announcing key 2) are signed by key 1, b6 (version 6) by key 2, and b2 (version 2, announcing key 3) by the foreign key 3.
\<close>

definition demo_bundle :: "int \<Rightarrow> int \<Rightarrow> string list \<Rightarrow> cfg_bundle" where
  "demo_bundle bv kv keys = \<lparr>bu_protocol = 1, bu_type = bundle_Type, bu_version = 1, bu_blocklist_version = bv, bu_issued_at = 0, bu_name = ''h'',
     bu_ip = ''0.0.0.9'', bu_groups = [], bu_certificate = ''c'', bu_ca_bundle = [''ca''], bu_config_keys = keys, bu_config_key_version = kv,
     bu_firewall = None, bu_lighthouses = [], bu_blocklist = [], bu_tun_dev = '''', bu_listen_port = 0,
     bu_nebula = \<lparr>rr_version = '''', rr_sha256 = '''', rr_url = ''''\<rparr>, bu_pilot = \<lparr>rr_version = '''', rr_sha256 = '''', rr_url = ''''\<rparr>, bu_not_after = 0\<rparr>"

definition demo_payload :: "bytes \<Rightarrow> cfg_bundle option" where
  "demo_payload p = (if p = [3] then Some (demo_bundle 3 0 []) else if p = [5] then Some (demo_bundle 5 1 [''k1'', ''k2''])
     else if p = [6] then Some (demo_bundle 6 1 [''k2'']) else if p = [2] then Some (demo_bundle 2 9 [''k3'']) else None)"

definition demo_env :: "8 word \<Rightarrow> 8 word \<Rightarrow> flattened" where
  "demo_env p k = \<lparr>fl_protected = '''', fl_payload = EncodeToString [p], fl_signature = EncodeToString (replicate 64 k)\<rparr>"

definition demo_text :: "string \<Rightarrow> flattened option" where
  "demo_text s = (if s = ''b3'' then Some (demo_env 3 1) else if s = ''b5'' then Some (demo_env 5 1) else if s = ''b6'' then Some (demo_env 6 2)
     else if s = ''b2'' then Some (demo_env 2 3) else None)"

definition demo_codec :: "nat bundle_codec" where
  "demo_codec = \<lparr>bc_header = (\<lambda>_. []), bc_unheader = (\<lambda>_. Some \<lparr>hd_alg = Alg, hd_typ = TypBundle, hd_ver = 1, hd_kid = ''''\<rparr>),
     bc_bundle = (\<lambda>_. None), bc_unbundle = demo_payload, bc_env = fl_payload, bc_unenv = demo_text, bc_sha = id, bc_der = Some,
     bc_ecdsa = (\<lambda>k d sig. k = 1 \<and> sig = replicate 64 1 \<or> k = 2 \<and> sig = replicate 64 2 \<or> k = 3 \<and> sig = replicate 64 3)\<rparr>"

fun keys_dec :: "string \<Rightarrow> string list" where
  "keys_dec [] = []"
| "keys_dec [c] = [[]]"
| "keys_dec (c # x # s) = (if c = CHR '','' then [] # keys_dec (x # s) else (case keys_dec s of [] \<Rightarrow> [[x]] | k # ks \<Rightarrow> (x # k) # ks))"

definition keys_enc :: "string list \<Rightarrow> string" where
  "keys_enc ks = concat (map (\<lambda>k. concat (map (\<lambda>c. [CHR ''x'', c]) k) @ '','') ks)"

lemma keys_dec_enc: "keys_dec (keys_enc ks) = ks"
proof (induction ks)
  case (Cons k ks)
  have "keys_dec (concat (map (\<lambda>c. [CHR ''x'', c]) k) @ '','' @ s) = k # keys_dec s" for s
    by (induction k) (cases s; simp)+
  then show ?case using Cons by (simp add: keys_enc_def)
qed (simp add: keys_enc_def)

definition demo_trust :: "nat trust_codec" where
  "demo_trust = \<lparr>tc_enc = (\<lambda>t. (if tf_version t < 0 then CHR ''-'' else CHR ''+'') # replicate (nat \<bar>tf_version t\<bar>) CHR ''1'' @ CHR '';'' # keys_enc (tf_keys t)),
     tc_dec = (\<lambda>s. let n = int (length (takeWhile (\<lambda>c. c = CHR ''1'') (tl s))) in
        Some \<lparr>tf_version = (if hd s = CHR ''-'' then - n else n), tf_keys = keys_dec (drop (nat n + 1) (tl s))\<rparr>),
     tc_pub = (\<lambda>s. if s = ''k1'' then Some 1 else if s = ''k2'' then Some 2 else if s = ''k3'' then Some 3 else None)\<rparr>"

definition demo_pilot :: "nat pilot_env" where
  "demo_pilot = \<lparr>pe_codec = demo_codec, pe_trust = demo_trust,
     pe_lib = demo_lib\<lparr>nl_parse := (\<lambda>_. Some (demo_ca\<lparr>ct_networks := [Prefix (Addr4 9) 24]\<rparr>))\<rparr>, pe_pool = (\<lambda>_. Some (\<lambda>_. True)), pe_unresp = Some,
     pe_ca_path = ''a'', pe_cert_path = ''b'', pe_key_path = ''c'', pe_pins = [Some 1]\<rparr>"

definition demo_disk :: pilot_disk where
  "demo_disk = \<lparr>pd_ca = None, pd_cert = Some ''c'', pd_bundle = Some ''b3'', pd_trust = None, pd_config = None, pd_key = None, pd_pub = None, pd_ticket = None\<rparr>"

definition demo_fetch :: "string \<Rightarrow> fetch_call" where
  "demo_fetch raw = \<lparr>fc_flt = (\<lambda>_. None), fc_resp = Some (200, raw)\<rparr>"

lemma demo_ip: "string4 9 = ''0.0.0.9''" by code_simp

lemma demo_trust_ok: "trust_codec_ok demo_trust"
proof -
  have "takeWhile (\<lambda>c. c = CHR ''1'') (replicate n CHR ''1'' @ CHR '';'' # s) = replicate n CHR ''1''" for n s
    by (induction n) auto
  then show ?thesis by (auto simp: trust_codec_ok_def demo_trust_def keys_dec_enc)
qed

lemma demo_verify:
  "bundle_Verify demo_codec s ks = (if s = ''b3'' then (if Some 1 \<in> set ks then Inr (demo_bundle 3 0 []) else Inl (BuSignature JwsSignature))
     else if s = ''b5'' then (if Some 1 \<in> set ks then Inr (demo_bundle 5 1 [''k1'', ''k2'']) else Inl (BuSignature JwsSignature))
     else if s = ''b6'' then (if Some 2 \<in> set ks then Inr (demo_bundle 6 1 [''k2'']) else Inl (BuSignature JwsSignature))
     else if s = ''b2'' then (if Some 3 \<in> set ks then Inr (demo_bundle 2 9 [''k3'']) else Inl (BuSignature JwsSignature)) else Inl BuNotJws)"
proof -
  have ex: "list_ex (\<lambda>p. case p of None \<Rightarrow> False | Some k \<Rightarrow> k = n) ks \<longleftrightarrow> Some n \<in> set ks" for n :: nat
    by (auto simp: list_ex_iff split: option.splits intro!: bexI [of _ "Some n"])
  have v: "VerifyAny (bc_unheader demo_codec) (bc_sha demo_codec) (bc_ecdsa demo_codec) (demo_env p (of_nat n)) ks =
      (if Some n \<in> set ks then Inr (\<lparr>hd_alg = Alg, hd_typ = TypBundle, hd_ver = 1, hd_kid = ''''\<rparr>, [p]) else Inl JwsSignature)"
    if "n = 1 \<or> n = 2 \<or> n = 3" for n p
  proof -
    have dec: "DecodeString '''' = Some []" by (simp add: DecodeString_def)
    have one: "bc_ecdsa demo_codec k dg (replicate 64 (of_nat n)) \<longleftrightarrow> k = n" for k dg
      using that by (elim disjE) (auto simp: demo_codec_def)
    have "bc_unheader demo_codec = (\<lambda>_. Some \<lparr>hd_alg = Alg, hd_typ = TypBundle, hd_ver = 1, hd_kid = ''''\<rparr>)" by (simp add: demo_codec_def)
    then show ?thesis using ex [of n] dec by (simp add: VerifyAny_def demo_env_def one)
  qed
  show ?thesis using v [of 1] v [of 2] v [of 3] by (auto simp: bundle_Verify_def demo_codec_def demo_text_def demo_payload_def demo_bundle_def)
qed

lemma demo_accepts:
  assumes "bundle_Verify demo_codec s ks = Inr b"
  shows "s = ''b3'' \<and> b = demo_bundle 3 0 [] \<or> s = ''b5'' \<and> b = demo_bundle 5 1 [''k1'', ''k2''] \<or> s = ''b6'' \<and> b = demo_bundle 6 1 [''k2''] \<or>
    s = ''b2'' \<and> b = demo_bundle 2 9 [''k3''] \<and> Some 3 \<in> set ks"
proof -
  consider "s = ''b3''" | "s = ''b5''" | "s = ''b6''" | "s = ''b2''" | "s \<noteq> ''b3''" "s \<noteq> ''b5''" "s \<noteq> ''b6''" "s \<noteq> ''b2''" by blast
  then show ?thesis using assms by cases (simp_all add: demo_verify split: if_splits)
qed

lemma demo_pilot_fields:
  "pe_codec demo_pilot = demo_codec" "pe_trust demo_pilot = demo_trust" "pe_pins demo_pilot = [Some 1]"
  "pe_unresp demo_pilot = Some" "bu_config_keys (demo_bundle bv kv keys) = keys"
  "ParsePubPEMs demo_trust [] = []" "ParsePubPEMs demo_trust [''k1'', ''k2''] = [1, 2]" "ParsePubPEMs demo_trust [''k2''] = [2]"
  by (simp_all add: demo_pilot_def demo_bundle_def ParsePubPEMs_def demo_trust_def List.map_filter_def)

lemma demo_own_bundles: "own_bundles demo_pilot {1, 2} (Some (200, raw))"
  unfolding own_bundles_def
proof (intro allI ballI impI)
  fix raw' b and k :: nat
  assume b: "k \<in> {1, 2}" "bundle_Verify (pe_codec demo_pilot) raw' [Some k] = Inr b"
  then have "bundle_Verify demo_codec raw' [Some k] = Inr b" by (simp add: demo_pilot_fields)
  from demo_accepts [OF this] b(1)
  show "set (ParsePubPEMs (pe_trust demo_pilot) (bu_config_keys b)) \<subseteq> {1, 2} \<and> (bu_config_keys b = [] \<or>
      bundle_Verify (pe_codec demo_pilot) raw' (pe_pins demo_pilot @ map Some (ParsePubPEMs (pe_trust demo_pilot) (bu_config_keys b))) = Inr b)"
    by (elim disjE conjE) (auto simp: demo_pilot_fields demo_verify)
qed

lemma demo_trusted:
  "trusted_now demo_pilot (d\<lparr>pd_trust := None\<rparr>) = [Some 1]"
  by (simp add: trusted_now_def demo_pilot_def TrustedSet_def LoadTrustFile_def)

theorem blocklist_never_rolls_back_witness:
  "appliedBlocklistVersion demo_pilot demo_disk = Some 3 \<and>
   (\<exists>v. appliedBlocklistVersion demo_pilot (fetches demo_pilot (map demo_fetch [''b5'', ''b3'', ''b2'', ''b6'']) demo_disk) = Some v \<and> 3 \<le> v) \<and>
   Some 3 \<notin> set (trusted_now demo_pilot (fetches demo_pilot (map demo_fetch [''b5'', ''b3'', ''b2'', ''b6'']) demo_disk))"
proof -
  have "demo_disk = demo_disk\<lparr>pd_trust := None\<rparr>" by (simp add: demo_disk_def)
  then have tr: "trusted_now demo_pilot demo_disk = [Some 1]" by (metis demo_trusted)
  have "pe_codec demo_pilot = demo_codec" "pd_bundle demo_disk = Some ''b3''" by (simp_all add: demo_pilot_def demo_disk_def)
  then have a: "appliedBlocklistVersion demo_pilot demo_disk = Some 3"
    by (simp add: appliedBlocklistVersion_def tr demo_verify demo_bundle_def)
  have "trusts_only demo_pilot {1, 2} demo_disk" by (simp add: trusts_only_def tr)
  moreover have "trust_codec_ok (pe_trust demo_pilot)" using demo_trust_ok by (simp add: demo_pilot_def)
  ultimately have "trusts_only demo_pilot {1, 2} (fetches demo_pilot (map demo_fetch [''b5'', ''b3'', ''b2'', ''b6'']) demo_disk) \<and>
      (\<exists>v. appliedBlocklistVersion demo_pilot (fetches demo_pilot (map demo_fetch [''b5'', ''b3'', ''b2'', ''b6'']) demo_disk) = Some v \<and> 3 \<le> v)"
    by (intro blocklist_never_rolls_back [OF _ _ _ _ a]) (simp_all add: demo_fetch_def demo_own_bundles [simplified])
  then show ?thesis using a by (auto simp: trusts_only_def)
qed

text \<open>
  A config-key rotation strands no host that keeps up: once a pilot has applied a bundle that announces the next config-signing
  key (with a registry generation at least as new as the one it has recorded), it accepts every bundle signed by that
  key, and it goes on trusting its pins.
\<close>

theorem announced_key_accepted:
  assumes "trust_codec_ok (pe_trust e)" "FetchConfig e flt resp d = (Inr ip, d')" "body_of e resp = Inr j1"
    and "bundle_Verify (pe_codec e) j1 (trusted_now e d) = Inr b1"
    and "pem \<in> set (bu_config_keys b1)" "tc_pub (pe_trust e) pem = Some k"
    and "fst (LoadTrustFile (pe_trust e) (pd_trust d)) \<le> bu_config_key_version b1"
    and "bundle_Verify (pe_codec e) j2 [Some k] = Inr b2"
  shows "bundle_Verify (pe_codec e) j2 (trusted_now e d') = Inr b2 \<and> set (pe_pins e) \<subseteq> set (trusted_now e d')"
proof -
  have "write_trust_config e (flt 2 \<noteq> None) (flt 3) b1 (d\<lparr>pd_ca := Some (join_with [CHR 0x0A] (bu_ca_bundle b1)), pd_bundle := Some j1\<rparr>) = (None, d')"
    using assms(2-4) by (auto simp: FetchConfig_def writeConfigArtifacts_def Let_def split: if_splits option.splits prod.splits sum.splits)
  then obtain tf where p: "PersistTrustFile (pe_trust e) tf (bu_config_key_version b1) (bu_config_keys b1) (pd_trust d) = (True, pd_trust d')"
    by (auto simp: write_trust_config_def Let_def split: prod.splits if_splits option.splits)
  have "\<not> tf" using p assms(5,7) by (auto simp: PersistTrustFile_def split: if_splits)
  have mem: "k \<in> set (ParsePubPEMs (pe_trust e) (bu_config_keys b1))" using assms(5,6) by (auto simp: set_ParsePubPEMs)
  from assms(1) p have "k \<in> set (snd (LoadTrustFile (pe_trust e) (pd_trust d')))"
  proof (cases rule: PersistTrustFile_cases)
    case kept
    then show ?thesis using \<open>\<not> tf\<close> assms(5,7) by auto
  next
    case written
    then show ?thesis using mem by simp
  qed
  then have "set [Some k] \<subseteq> set (trusted_now e d')" by (simp add: trusted_now_def set_TrustedSet)
  then show ?thesis using bundle_Verify_subset [OF assms(8)] by (simp add: trusted_now_def set_TrustedSet)
qed

theorem announced_key_accepted_witness:
  "bundle_Verify demo_codec ''b6'' (trusted_now demo_pilot demo_disk) = Inl (BuSignature JwsSignature) \<and>
   bundle_Verify demo_codec ''b6'' (trusted_now demo_pilot (snd (FetchConfig demo_pilot (\<lambda>_. None) (Some (200, ''b5'')) demo_disk))) = Inr (demo_bundle 6 1 [''k2''])"
proof -
  have "demo_disk = demo_disk\<lparr>pd_trust := None\<rparr>" by (simp add: demo_disk_def)
  then have tr: "trusted_now demo_pilot demo_disk = [Some 1]" by (metis demo_trusted)
  have e: "pe_codec demo_pilot = demo_codec" "pe_trust demo_pilot = demo_trust" "pe_pins demo_pilot = [Some 1]"
    "pd_bundle demo_disk = Some ''b3''" "body_of demo_pilot (Some (200, ''b5'')) = Inr ''b5''" "overlayIPFromCert demo_pilot demo_disk = Inr ''0.0.0.9''"
    "pd_trust demo_disk = None"
    by (simp_all add: demo_pilot_def demo_disk_def body_of_def overlayIPFromCert_def demo_ip)
  let ?b = "demo_bundle 5 1 [''k1'', ''k2'']"
  have v: "bundle_Verify demo_codec ''b5'' (trusted_now demo_pilot demo_disk) = Inr ?b" by (simp add: demo_verify tr)
  have b: "bu_ip ?b = ''0.0.0.9''" "bu_blocklist_version ?b = 5" "bu_config_keys ?b = [''k1'', ''k2'']" "bu_config_key_version ?b = 1" by (simp_all add: demo_bundle_def)
  have "appliedBlocklistVersion demo_pilot demo_disk = Some 3"
    by (simp add: appliedBlocklistVersion_def tr demo_verify demo_bundle_def e)
  moreover have "\<exists>cfg. RenderNebulaConfig ?b (pe_ca_path demo_pilot) (pe_cert_path demo_pilot) (pe_key_path demo_pilot) = Some cfg"
    by (simp add: RenderNebulaConfig_def Render_def demo_pilot_def Let_def Defaults_def demo_bundle_def)
  ultimately obtain d' where f: "FetchConfig demo_pilot (\<lambda>_. None) (Some (200, ''b5'')) demo_disk = (Inr ''0.0.0.9'', d')"
    by (auto simp: FetchConfig_def e v b writeConfigArtifacts_def write_trust_config_def PersistTrustFile_def LoadTrustFile_def split: prod.splits)
  have v6: "bundle_Verify demo_codec ''b6'' [Some 2] = Inr (demo_bundle 6 1 [''k2''])" "tc_pub demo_trust ''k2'' = Some 2"
    by (simp_all add: demo_verify demo_trust_def)
  have "bundle_Verify demo_codec ''b6'' (trusted_now demo_pilot d') = Inr (demo_bundle 6 1 [''k2''])"
    using announced_key_accepted [of demo_pilot "\<lambda>_. None" "Some (200, ''b5'')" demo_disk "''0.0.0.9''" d' "''b5''" ?b "''k2''" 2 "''b6''"] f
    by (simp add: e v v6 b demo_trust_ok LoadTrustFile_def)
  then show ?thesis using f by (simp add: tr) (simp add: demo_verify)
qed

text \<open>
  The proviso on bundle.json is needed: a plain write truncates the file first, and after a write that fails half way the guard
  has nothing to compare with, so the next refresh applies an older blocklist.
\<close>

lemma torn_bundle_reopens_rollback:
  assumes "pd_bundle d = Some ''''" "pd_trust d = None" "pd_cert d = Some ''c''"
  shows "fst (FetchConfig demo_pilot (\<lambda>_. None) (Some (200, ''b3'')) d) = Inr ''0.0.0.9''"
proof -
  have "d\<lparr>pd_trust := None\<rparr> = d" using assms(2) by (cases d) simp
  then have tr: "trusted_now demo_pilot d = [Some 1]" using demo_trusted [of d] by simp
  have e: "body_of demo_pilot (Some (200, ''b3'')) = Inr ''b3''" "overlayIPFromCert demo_pilot d = Inr ''0.0.0.9''"
    using assms(3) by (simp_all add: demo_pilot_def body_of_def overlayIPFromCert_def demo_ip)
  have b: "bu_ip (demo_bundle 3 0 []) = ''0.0.0.9''" by (simp add: demo_bundle_def)
  have "appliedBlocklistVersion demo_pilot d = None"
    by (simp add: appliedBlocklistVersion_def assms(1) demo_pilot_fields demo_verify)
  moreover have "\<exists>cfg. RenderNebulaConfig (demo_bundle 3 0 []) (pe_ca_path demo_pilot) (pe_cert_path demo_pilot) (pe_key_path demo_pilot) = Some cfg"
    by (simp add: RenderNebulaConfig_def Render_def demo_pilot_def Let_def Defaults_def demo_bundle_def)
  ultimately show ?thesis
    by (auto simp: FetchConfig_def e b tr demo_pilot_fields demo_verify writeConfigArtifacts_def write_trust_config_def PersistTrustFile_def split: prod.splits)
qed

end
