(* ===== verification/Enrollment.thy ===== *)
theory Enrollment
  imports Ipam Nonce Joinkey Queue Bundle
begin

text \<open>
  Core's enrolment consumer (internal/enrollment/enrollment.go): a queued candidate is re-verified, its join key,
  cloud attestation or single-sign-on assertion is checked, and the enrolment is denied, held for approval or
  issued: an overlay address, a certificate, a signed bundle, the enrolment row and the poll result.

  \<open>core\<close> holds the tables and the signer, \<open>en_config\<close> the consumer's configuration, and \<open>en_call\<close> what one call meets:
  the clock, the statements that fail and what other processes do to the address tables meanwhile.  A live source
  of the configuration is \<open>None\<close> when unset and \<open>Some None\<close> when its read fails.  JSON columns of group lists are the lists;
  texts of errors, JSON codecs and curve arithmetic are parameters.
\<close>

definition StatusPending :: string where "StatusPending = ''pending''"
definition StatusIssued :: string where "StatusIssued = ''issued''"
definition StatusDenied :: string where "StatusDenied = ''denied''"
definition defaultEphemeralCertTTL :: int where "defaultEphemeralCertTTL = 24 * 3600 * 10 ^ 9"
definition providerSSO :: string where "providerSSO = ''sso''"
definition ProviderAWS :: string where "ProviderAWS = ''aws''"

lemmas status_defs = StatusPending_def StatusIssued_def StatusDenied_def

datatype en_err =
    EnBadRequest | EnSignature | EnNonce | EnReplay | EnMethod string | EnNotPending | EnQuota | EnReservedGroup "string list"
  | EnSSONotConfigured | EnSSOAssertion "sso_err option" | EnSSOBinding | EnSSONotAllowed string
  | EnJoinKey jk_err | EnAttest att_err | EnNotAllowed string
  | EnReplayStore | EnAlloc ipam_err | EnSign sg_err | EnBundle | EnCert | EnDb

record enrollment =
  en_id :: int
  en_eid :: string
  en_device :: string
  en_pubkey_hash :: string
  en_pubkey :: bytes
  en_method :: string
  en_jk :: int
  en_groups :: "string list"
  en_desired :: "string list"
  en_gen :: int
  en_issued_gen :: int
  en_reduction :: bool
  en_reduction_until :: int
  en_subrange :: string
  en_status :: string
  en_cert :: string
  en_ip :: string
  en_fingerprint :: string
  en_ca_fingerprint :: string
  en_created :: time_ns
  en_decided :: time_ns
  en_approver :: string
  en_ephemeral :: bool
  en_provider :: string
  en_account :: string
  en_principal :: string
  en_region :: string
  en_verified :: time_ns
  en_goos :: string
  en_goarch :: string

record evidence =
  ev_provider :: string
  ev_account :: string
  ev_principal :: string
  ev_region :: string
  ev_verified :: time_ns

definition no_evidence :: evidence where
  "no_evidence = \<lparr>ev_provider = '''', ev_account = '''', ev_principal = '''', ev_region = '''', ev_verified = 0\<rparr>"

record en_result =
  res_eid :: string
  res_status :: string
  res_ip :: string
  res_cert :: string

record ('p, 'b, 'n) en_config =
  ec_codec :: "'p bundle_codec"
  ec_hmac :: "bytes \<Rightarrow> bytes \<Rightarrow> bytes"
  ec_point :: "bytes \<Rightarrow> 'p option"
  ec_unreq :: "bytes \<Rightarrow> enroll_request option"
  ec_untoken :: "string \<Rightarrow> string"
  ec_unpresigned :: "string \<Rightarrow> presigned option"
  ec_unsso :: "string \<Rightarrow> string option"
  ec_unassertion :: "bytes \<Rightarrow> assertion option"
  ec_groups_json :: "string list \<Rightarrow> string"
  ec_groups_unjson :: "string \<Rightarrow> string list option"
  ec_err_text :: "en_err \<Rightarrow> string"
  ec_lib :: nebula_lib
  ec_acquire :: "'b \<Rightarrow> br_out \<times> 'b"
  ec_limit :: int
  ec_keyring :: keyring
  ec_replay :: bool
  ec_alloc :: "'n allocator"
  ec_pool :: prefix
  ec_lifetime :: int
  ec_ephemeral_ttl :: int
  ec_window :: int
  ec_backend :: "(backend \<times> string) option"
  ec_config_signer :: "config_signer option"
  ec_ca_pem :: string
  ec_ca_source :: "string list option option"
  ec_key_pem :: string
  ec_key_source :: "string list option option"
  ec_key_version :: "int option option"
  ec_lighthouses :: "lighthouse_ref list"
  ec_lh_source :: "lighthouse_ref list option option"
  ec_policy :: "policy option"
  ec_blocklist_source :: "string list option option"
  ec_tun :: string
  ec_port :: int
  ec_nebula :: release_ref
  ec_nebula_for :: "(string \<Rightarrow> string \<Rightarrow> release_ref) option"
  ec_pilot :: release_ref
  ec_pilot_for :: "(string \<Rightarrow> string \<Rightarrow> release_ref) option"
  ec_results :: bool
  ec_result_ttl :: int
  ec_aws :: bool
  ec_aws_env :: aws_env
  ec_cloud :: "cloud_config option"
  ec_assertion_key :: "'p option"
  ec_user_trust :: "user_config option option"

record ('b, 'n) core =
  co_rows :: "enrollment list"
  co_seq :: int
  co_keys :: jk_table
  co_ipam :: ipam_db
  co_nb :: 'n
  co_signer :: "'b signer"
  co_replay :: sql_store
  co_queue :: q_store
  co_audit :: "audit_note list"

record en_call =
  k_now :: time_ns
  k_proc :: nat
  k_read :: bool
  k_replay :: faults
  k_lookup :: bool
  k_quota :: bool
  k_consume :: bool
  k_rederive :: faults
  k_alloc :: faults
  k_others :: "nat \<Rightarrow> ipam_db \<Rightarrow> ipam_db"
  k_sign :: faults
  k_release :: bool
  k_record :: bool
  k_claim :: bool
  k_result :: bool
  k_audit :: faults
  k_ack :: faults

section \<open>Reading a candidate\<close>

definition by_eid :: "string \<Rightarrow> enrollment \<Rightarrow> bool" where
  "by_eid eid e \<longleftrightarrow> en_eid e = eid"

definition existing :: "en_call \<Rightarrow> string \<Rightarrow> ('b, 'n) core \<Rightarrow> en_result option" where
  "existing k eid w =
     (if k_read k then None
      else map_option (\<lambda>e. \<lparr>res_eid = eid, res_status = en_status e, res_ip = en_ip e, res_cert = en_cert e\<rparr>) (first_where (by_eid eid) (co_rows w)))"

definition jwsPayload :: "flattened \<Rightarrow> bytes option" where
  "jwsPayload env = (if fl_payload env = '''' then None else DecodeString (fl_payload env))"

text \<open>The checks of \<open>verify\<close> up to the nonce; the replay store comes after them.\<close>

definition authenticate :: "('p, 'b, 'n) en_config \<Rightarrow> time_ns \<Rightarrow> candidate \<Rightarrow> en_err + enroll_request \<times> bytes" where
  "authenticate cfg now cand = (case bc_unenv (ec_codec cfg) (cd_jws cand) of
     None \<Rightarrow> Inl EnBadRequest
   | Some env \<Rightarrow> (case jwsPayload env of
       None \<Rightarrow> Inl EnBadRequest
     | Some pl \<Rightarrow> (case ec_unreq cfg pl of
         None \<Rightarrow> Inl EnBadRequest
       | Some req \<Rightarrow>
           if er_type req \<noteq> ''enroll'' \<or> er_nonce req = '''' then Inl EnBadRequest
           else (case DecodeString (cs_pubkey (er_csr req)) of
               None \<Rightarrow> Inl EnBadRequest
             | Some pub \<Rightarrow>
                 if length pub \<noteq> 65 then Inl EnBadRequest
                 else (case ec_point cfg pub of
                     None \<Rightarrow> Inl EnBadRequest
                   | Some key \<Rightarrow>
                       let pkh = PubkeyHash (bc_sha (ec_codec cfg)) pub in
                       (case jws_Verify (bc_unheader (ec_codec cfg)) (bc_sha (ec_codec cfg)) (bc_ecdsa (ec_codec cfg)) env (Some key) of
                          Inl _ \<Rightarrow> Inl EnSignature
                        | Inr (h, _) \<Rightarrow>
                            if hd_typ h \<noteq> TypEnrollRequest \<or> hd_kid h \<noteq> pkh \<or> pkh \<noteq> cd_pubkey cand then Inl EnSignature
                            else if nonce_Verify (ec_hmac cfg) (ec_keyring cfg) now (er_nonce req) (str_bytes pkh) \<noteq> None then Inl EnNonce
                            else Inr (req, pub)))))))"

definition en_verify :: "('p, 'b, 'n) en_config \<Rightarrow> en_call \<Rightarrow> candidate \<Rightarrow> ('b, 'n) core \<Rightarrow> (en_err + enroll_request \<times> bytes) \<times> ('b, 'n) core" where
  "en_verify cfg k cand w = (case authenticate cfg (k_now k) cand of
     Inl e \<Rightarrow> (Inl e, w)
   | Inr (req, pub) \<Rightarrow>
       if \<not> ec_replay cfg then (Inr (req, pub), w)
       else (case sql_Observe (k_replay k) (k_proc k) (k_now k) (co_replay w) (er_nonce req) of
           (Inl _, r) \<Rightarrow> (Inl EnReplayStore, w\<lparr>co_replay := r\<rparr>)
         | (Inr first, r) \<Rightarrow> (if first then Inr (req, pub) else Inl EnReplay, w\<lparr>co_replay := r\<rparr>)))"

definition deviceName :: "enroll_request \<Rightarrow> string \<Rightarrow> string" where
  "deviceName req pkh = (if cs_name (er_csr req) \<noteq> '''' then cs_name (er_csr req) else ''dev-'' @ take 10 pkh)"

definition recentEnrollments :: "('p, 'b, 'n) en_config \<Rightarrow> en_call \<Rightarrow> int \<Rightarrow> ('b, 'n) core \<Rightarrow> int option" where
  "recentEnrollments cfg k jkid w =
     (let window = (if ec_window cfg \<le> 0 then 3600 * 10 ^ 9 else ec_window cfg); cutoff = k_now k - window in
      if k_quota k then None
      else Some (int (count_where (\<lambda>e. en_jk e = jkid \<and> (en_status e = StatusPending \<or> en_status e = StatusIssued) \<and> en_created e > cutoff) (co_rows w))))"

section \<open>Writing\<close>

definition en_audit :: "bool \<Rightarrow> audit_note \<Rightarrow> ('b, 'n) core \<Rightarrow> ('b, 'n) core" where
  "en_audit fails r w = (if fails then w else w\<lparr>co_audit := co_audit w @ [r]\<rparr>)"

definition en_record ::
  "('p, 'b, 'n) en_config \<Rightarrow> en_call \<Rightarrow> string \<Rightarrow> enroll_request \<Rightarrow> bytes \<Rightarrow> int \<Rightarrow> string list \<Rightarrow> string \<Rightarrow> string \<Rightarrow>
   string \<Rightarrow> string \<Rightarrow> string \<Rightarrow> string \<Rightarrow> evidence \<Rightarrow> bool \<Rightarrow> ('b, 'n) core \<Rightarrow> bool \<times> ('b, 'n) core" where
  "en_record cfg k eid req pub jkid groups subrange status cert ip fp cafp ev ephemeral w =
     (let pkh = PubkeyHash (bc_sha (ec_codec cfg)) pub;
          e = \<lparr>en_id = co_seq w, en_eid = eid, en_device = deviceName req pkh, en_pubkey_hash = pkh, en_pubkey = pub, en_method = er_method req,
               en_jk = jkid, en_groups = groups, en_desired = groups, en_gen = 0, en_issued_gen = 0, en_reduction = False, en_reduction_until = 0,
               en_subrange = subrange, en_status = status, en_cert = cert, en_ip = ip, en_fingerprint = fp, en_ca_fingerprint = cafp,
               en_created = k_now k, en_decided = (if status \<noteq> StatusPending then k_now k else 0), en_approver = '''', en_ephemeral = ephemeral,
               en_provider = ev_provider ev, en_account = ev_account ev, en_principal = ev_principal ev, en_region = ev_region ev,
               en_verified = ev_verified ev, en_goos = er_os req, en_goarch = er_arch req\<rparr> in
      if k_record k \<or> list_ex (by_eid eid) (co_rows w) then (False, w)
      else (True, w\<lparr>co_rows := co_rows w @ [e], co_seq := co_seq w + 1\<rparr>))"

text \<open>What remains to be written once a decision is in the table: the poll result, then the audit row.\<close>

record delivery =
  dl_eid :: string
  dl_secret :: bytes
  dl_bundle :: string
  dl_status :: string
  dl_reason :: string
  dl_note :: "audit_note option"

definition writeResult :: "('p, 'b, 'n) en_config \<Rightarrow> en_call \<Rightarrow> delivery \<Rightarrow> ('b, 'n) core \<Rightarrow> ('b, 'n) core" where
  "writeResult cfg k d w =
     (if \<not> ec_results cfg then w
      else let ttl = (if ec_result_ttl cfg \<le> 0 then 3600 * 10 ^ 9 else ec_result_ttl cfg);
               expires = (if dl_status d \<noteq> StatusPending then k_now k + ttl else 0) in
           w\<lparr>co_queue := snd (PutResult (k_result k) (dl_eid d) (dl_status d) (dl_secret d) (dl_bundle d) (dl_reason d) expires (co_queue w))\<rparr>)"

definition deliver :: "('p, 'b, 'n) en_config \<Rightarrow> en_call \<Rightarrow> delivery option \<Rightarrow> ('b, 'n) core \<Rightarrow> ('b, 'n) core" where
  "deliver cfg k d w = (case d of
     None \<Rightarrow> w
   | Some d \<Rightarrow> (case dl_note d of
       None \<Rightarrow> writeResult cfg k d w
     | Some r \<Rightarrow> en_audit (k_audit k 1) r (writeResult cfg k d w)))"

section \<open>Issuing\<close>

definition certTTL :: "('p, 'b, 'n) en_config \<Rightarrow> bool \<Rightarrow> int" where
  "certTTL cfg ephemeral =
     (if \<not> ephemeral then ec_lifetime cfg
      else if ec_ephemeral_ttl cfg > 0 then ec_ephemeral_ttl cfg else defaultEphemeralCertTTL)"

record issued =
  is_ip :: addr
  is_pem :: string
  is_fingerprint :: string
  is_ca_fingerprint :: string
  is_not_after :: time_ns

definition release_ip :: "('p, 'b, 'n) en_config \<Rightarrow> en_call \<Rightarrow> addr \<Rightarrow> ('b, 'n) core \<Rightarrow> ('b, 'n) core" where
  "release_ip cfg k ip w = w\<lparr>co_ipam := snd (Release (k_release k) (a_pool (ec_alloc cfg)) (k_now k) (co_ipam w) ip)\<rparr>"

definition leaf_template :: "('p, 'b, 'n) en_config \<Rightarrow> en_call \<Rightarrow> string \<Rightarrow> bytes \<Rightarrow> string list \<Rightarrow> bool \<Rightarrow> addr \<Rightarrow> template" where
  "leaf_template cfg k name pub groups ephemeral ip =
     (let nb = k_now k - 5 * 60 * 10 ^ 9 in
      \<lparr>tm_name = name, tm_networks = [prefix_from ip (pfx_bits (ec_pool cfg))], tm_groups = groups,
       tm_not_before = nb, tm_not_after = nb + certTTL cfg ephemeral, tm_pub = pub\<rparr>)"

definition issue ::
  "('p, 'b, 'n) en_config \<Rightarrow> en_call \<Rightarrow> string \<Rightarrow> string \<Rightarrow> bytes \<Rightarrow> string list \<Rightarrow> string \<Rightarrow> string \<Rightarrow> bool \<Rightarrow> ('b, 'n) core \<Rightarrow>
   (en_err + issued) \<times> ('b, 'n) core" where
  "issue cfg k actor name pub groups netblock via ephemeral w =
     (if GrantsReservedGroup groups
      then (Inl (EnReservedGroup groups), en_audit (k_audit k 0) (''system'', ''enroll-reserved-group-refused'', name) w)
      else case Allocate (k_alloc k) (k_others k) (ec_alloc cfg) (k_now k) (co_ipam w) (co_nb w) name netblock via of
        (Inl e, db, n) \<Rightarrow>
          (let w = w\<lparr>co_ipam := db, co_nb := n\<rparr> in
           (Inl (EnAlloc e), if e = ErrPoolExhausted then en_audit (k_audit k 0) (''system'', ''enroll-exhausted'', name) w else w))
      | (Inr ip, db, n) \<Rightarrow>
          (let w = w\<lparr>co_ipam := db, co_nb := n\<rparr>; t = leaf_template cfg k name pub groups ephemeral ip in
           case Issue (ec_lib cfg) (bc_sha (ec_codec cfg)) (ec_acquire cfg) (ec_limit cfg) (k_sign k) actor t (co_signer w) of
             (Inl e, s) \<Rightarrow> (Inl (EnSign e), release_ip cfg k ip (w\<lparr>co_signer := s\<rparr>))
           | (Inr (c, pem), s) \<Rightarrow>
               (Inr \<lparr>is_ip = ip, is_pem = pem, is_fingerprint = nl_fingerprint (ec_lib cfg) c,
                     is_ca_fingerprint = ToLower (TrimSpace (ct_issuer c)), is_not_after = tm_not_after t\<rparr>,
                w\<lparr>co_signer := s\<rparr>)))"

section \<open>The bundle\<close>

definition caBundle :: "('p, 'b, 'n) en_config \<Rightarrow> string list" where
  "caBundle cfg = (case ec_ca_source cfg of Some (Some cas) \<Rightarrow> if cas \<noteq> [] then cas else [ec_ca_pem cfg] | _ \<Rightarrow> [ec_ca_pem cfg])"

definition configKeys :: "('p, 'b, 'n) en_config \<Rightarrow> string list" where
  "configKeys cfg =
     (let static = (if ec_key_pem cfg \<noteq> '''' then [ec_key_pem cfg] else []) in
      case ec_key_source cfg of Some (Some ks) \<Rightarrow> if ks \<noteq> [] then ks else static | _ \<Rightarrow> static)"

definition configKeyVersion :: "('p, 'b, 'n) en_config \<Rightarrow> int" where
  "configKeyVersion cfg = (case ec_key_version cfg of Some (Some v) \<Rightarrow> v | _ \<Rightarrow> 0)"

definition en_blocklist :: "('p, 'b, 'n) en_config \<Rightarrow> string list" where
  "en_blocklist cfg = (case ec_blocklist_source cfg of Some (Some fps) \<Rightarrow> fps | _ \<Rightarrow> [])"

definition en_lighthouses :: "('p, 'b, 'n) en_config \<Rightarrow> lighthouse_ref list" where
  "en_lighthouses cfg = (case ec_lh_source cfg of Some (Some lhs) \<Rightarrow> if lhs \<noteq> [] then lhs else ec_lighthouses cfg | _ \<Rightarrow> ec_lighthouses cfg)"

definition signBundle :: "('p, 'b, 'n) en_config \<Rightarrow> backend \<times> string \<Rightarrow> cfg_bundle \<Rightarrow> string option" where
  "signBundle cfg bk b = (case ec_config_signer cfg of
     Some s \<Rightarrow> cs_Sign (ec_codec cfg) s b
   | None \<Rightarrow> bundle_Sign (ec_codec cfg) (fst bk) (snd bk) b)"

definition enroll_bundle :: "('p, 'b, 'n) en_config \<Rightarrow> en_call \<Rightarrow> string \<Rightarrow> string \<Rightarrow> string list \<Rightarrow> string \<Rightarrow> time_ns \<Rightarrow> string \<Rightarrow> string \<Rightarrow> cfg_bundle" where
  "enroll_bundle cfg k name ip groups pem notAfter goos goarch =
     \<lparr>bu_protocol = 0, bu_type = '''', bu_version = 1, bu_blocklist_version = 0, bu_issued_at = k_now k, bu_name = name, bu_ip = ip,
      bu_groups = groups, bu_certificate = pem, bu_ca_bundle = caBundle cfg, bu_config_keys = configKeys cfg,
      bu_config_key_version = configKeyVersion cfg, bu_firewall = CompileFirewall (ec_policy cfg) groups, bu_lighthouses = en_lighthouses cfg,
      bu_blocklist = en_blocklist cfg, bu_tun_dev = ec_tun cfg, bu_listen_port = ec_port cfg,
      bu_nebula = (case ec_nebula_for cfg of None \<Rightarrow> ec_nebula cfg | Some f \<Rightarrow> f goos goarch),
      bu_pilot = (case ec_pilot_for cfg of None \<Rightarrow> ec_pilot cfg | Some f \<Rightarrow> f goos goarch), bu_not_after = notAfter\<rparr>"

definition buildBundle :: "('p, 'b, 'n) en_config \<Rightarrow> en_call \<Rightarrow> string \<Rightarrow> string \<Rightarrow> string list \<Rightarrow> string \<Rightarrow> time_ns \<Rightarrow> string \<Rightarrow> string \<Rightarrow> string option" where
  "buildBundle cfg k name ip groups pem notAfter goos goarch = (case ec_backend cfg of
     None \<Rightarrow> Some ''''
   | Some bk \<Rightarrow> signBundle cfg bk (enroll_bundle cfg k name ip groups pem notAfter goos goarch))"

section \<open>Decisions\<close>

text \<open>A rejection: the row is best-effort, the result and the audit row follow.\<close>

definition denied ::
  "('p, 'b, 'n) en_config \<Rightarrow> en_call \<Rightarrow> candidate \<Rightarrow> enroll_request \<Rightarrow> bytes \<Rightarrow> string \<Rightarrow> string \<Rightarrow> en_err \<Rightarrow> ('b, 'n) core \<Rightarrow>
   (en_err + en_result) \<times> delivery option \<times> ('b, 'n) core" where
  "denied cfg k cand req pub action reason err w =
     (Inl err,
      Some \<lparr>dl_eid = cd_id cand, dl_secret = cd_secret_hash cand, dl_bundle = '''', dl_status = StatusDenied, dl_reason = reason,
            dl_note = Some (''system'', action, cs_name (er_csr req))\<rparr>,
      snd (en_record cfg k (cd_id cand) req pub 0 [] '''' StatusDenied '''' '''' '''' '''' no_evidence False w))"

text \<open>
  The end that the three methods share: hold the enrolment for approval, or issue, build the bundle, record and deliver.
  A method that notes an issuance does so under its actor's name.
\<close>

definition admit ::
  "('p, 'b, 'n) en_config \<Rightarrow> en_call \<Rightarrow> candidate \<Rightarrow> enroll_request \<Rightarrow> bytes \<Rightarrow> int \<Rightarrow> string list \<Rightarrow> string \<Rightarrow> evidence \<Rightarrow> bool \<Rightarrow>
   bool \<Rightarrow> string \<Rightarrow> string \<Rightarrow> bool \<Rightarrow> ('b, 'n) core \<Rightarrow> (en_err + en_result) \<times> delivery option \<times> ('b, 'n) core" where
  "admit cfg k cand req pub jkid groups netblock ev ephemeral auto actor via noted w =
     (let name = deviceName req (cd_pubkey cand); eid = cd_id cand in
      if \<not> auto then
        (case en_record cfg k eid req pub jkid groups netblock StatusPending '''' '''' '''' '''' ev ephemeral w of
           (False, w) \<Rightarrow> (Inl EnDb, None, w)
         | (True, w) \<Rightarrow>
             (Inr \<lparr>res_eid = eid, res_status = StatusPending, res_ip = '''', res_cert = ''''\<rparr>,
              Some \<lparr>dl_eid = eid, dl_secret = cd_secret_hash cand, dl_bundle = '''', dl_status = StatusPending, dl_reason = '''',
                    dl_note = Some (''system'', ''enroll-pending'', name)\<rparr>, w))
      else case issue cfg k actor name pub groups netblock via ephemeral w of
        (Inl e, w) \<Rightarrow> (Inl e, None, w)
      | (Inr i, w) \<Rightarrow> (case buildBundle cfg k name (addr_String (is_ip i)) groups (is_pem i) (is_not_after i) (er_os req) (er_arch req) of
          None \<Rightarrow> (Inl EnBundle, None, w)
        | Some jws \<Rightarrow>
            (case en_record cfg k eid req pub jkid groups netblock StatusIssued (is_pem i) (addr_String (is_ip i)) (is_fingerprint i)
                    (is_ca_fingerprint i) ev ephemeral w of
               (False, w) \<Rightarrow> (Inl EnDb, None, w)
             | (True, w) \<Rightarrow>
                 (Inr \<lparr>res_eid = eid, res_status = StatusIssued, res_ip = addr_String (is_ip i), res_cert = is_pem i\<rparr>,
                  Some \<lparr>dl_eid = eid, dl_secret = cd_secret_hash cand, dl_bundle = jws, dl_status = StatusIssued, dl_reason = '''',
                        dl_note = (if noted then Some (''system'', actor, name) else None)\<rparr>, w))))"

definition processToken ::
  "('p, 'b, 'n) en_config \<Rightarrow> en_call \<Rightarrow> candidate \<Rightarrow> enroll_request \<Rightarrow> bytes \<Rightarrow> ('b, 'n) core \<Rightarrow> (en_err + en_result) \<times> delivery option \<times> ('b, 'n) core" where
  "processToken cfg k cand req pub w =
     (case Lookup (bc_sha (ec_codec cfg)) (k_lookup k) (k_now k) (co_keys w) (ec_untoken cfg (er_credential req)) of
        Inl e \<Rightarrow> denied cfg k cand req pub ''enroll-denied'' (ec_err_text cfg (EnJoinKey e)) (EnJoinKey e) w
      | Inr jk \<Rightarrow>
          let quota = (if jk_quota jk > 0 then map_option (\<lambda>n. n \<ge> jk_quota jk) (recentEnrollments cfg k (jk_id jk) w) else Some False) in
          (case quota of
             None \<Rightarrow> (Inl EnDb, None, w)
           | Some True \<Rightarrow> denied cfg k cand req pub ''enroll-quota-exceeded'' (ec_err_text cfg EnQuota) EnQuota w
           | Some False \<Rightarrow>
               (case Consume (k_consume k) (co_keys w) jk of
                  (Some e, tb) \<Rightarrow> denied cfg k cand req pub ''enroll-denied'' (ec_err_text cfg (EnJoinKey e)) (EnJoinKey e) (w\<lparr>co_keys := tb\<rparr>)
                | (None, tb) \<Rightarrow>
                    admit cfg k cand req pub (jk_id jk) (jk_groups jk) (jk_subrange jk) no_evidence (jk_ephemeral jk) (jk_auto jk)
                      ''enroll-auto'' ''token'' False (w\<lparr>co_keys := tb\<rparr>))))"

definition TrimSuffix :: "string \<Rightarrow> string \<Rightarrow> string" where
  "TrimSuffix s p = (if HasSuffix s p then take (length s - length p) s else s)"

definition regionFromSTSURL :: "aws_env \<Rightarrow> string \<Rightarrow> string" where
  "regionFromSTSURL env raw = (case av_parse_url env raw of
     None \<Rightarrow> ''''
   | Some u \<Rightarrow>
       let h = TrimPrefix (TrimPrefix (TrimSuffix (u_hostname u) ''.amazonaws.com'') ''sts'') ''.'' in
       if h = '''' then ''global'' else h)"

definition processAttested ::
  "('p, 'b, 'n) en_config \<Rightarrow> en_call \<Rightarrow> candidate \<Rightarrow> enroll_request \<Rightarrow> bytes \<Rightarrow> ('b, 'n) core \<Rightarrow> (en_err + en_result) \<times> delivery option \<times> ('b, 'n) core" where
  "processAttested cfg k cand req pub w =
     (let refuse = (\<lambda>reason err. denied cfg k cand req pub ''enroll-denied'' reason err w) in
      case (if ec_aws cfg then ec_cloud cfg else None) of
        None \<Rightarrow> refuse ''aws-sigv4 attestation is not enabled on this control plane'' (EnMethod MethodAWSSigV4)
      | Some cloud \<Rightarrow> (case ec_unpresigned cfg (er_credential req) of
          None \<Rightarrow> refuse ''malformed attestation credential'' (EnAttest AttBadRequest)
        | Some pres \<Rightarrow> (case aws_Verify (ec_aws_env cfg) pres (er_nonce req) (PubkeyHash (bc_sha (ec_codec cfg)) pub) of
            Inl e \<Rightarrow> refuse (if e = AttUnavailable then ''cloud attestation verifier (AWS STS) is unavailable; re-enroll to retry''
                            else ''attestation rejected: '' @ ec_err_text cfg (EnAttest e)) (EnAttest e)
          | Inr i \<Rightarrow> (case MatchAWS cloud i of
              None \<Rightarrow> refuse (ec_err_text cfg (EnNotAllowed (aid_account i))) (EnNotAllowed (aid_account i))
            | Some g \<Rightarrow>
                admit cfg k cand req pub 0 (gr_groups g) (gr_netblock g)
                  \<lparr>ev_provider = ProviderAWS, ev_account = aid_account i, ev_principal = aid_arn i,
                   ev_region = regionFromSTSURL (ec_aws_env cfg) (ps_url pres), ev_verified = k_now k\<rparr>
                  False (gr_auto g) ''enroll-attested'' ''aws-sigv4'' True w))))"

definition processSSO ::
  "('p, 'b, 'n) en_config \<Rightarrow> en_call \<Rightarrow> candidate \<Rightarrow> enroll_request \<Rightarrow> bytes \<Rightarrow> ('b, 'n) core \<Rightarrow> (en_err + en_result) \<times> delivery option \<times> ('b, 'n) core" where
  "processSSO cfg k cand req pub w =
     (let refuse = (\<lambda>reason err. denied cfg k cand req pub ''enroll-denied'' reason err w); pkh = PubkeyHash (bc_sha (ec_codec cfg)) pub in
      case (ec_assertion_key cfg, ec_user_trust cfg) of
        (Some key, Some active) \<Rightarrow> (case active of
          None \<Rightarrow> refuse ''no user-trust config has been published'' EnSSONotConfigured
        | Some active \<Rightarrow> (case ec_unsso cfg (er_credential req) of
            None \<Rightarrow> refuse ''malformed SSO credential envelope'' (EnSSOAssertion None)
          | Some token \<Rightarrow>
              if token = '''' then refuse ''malformed SSO credential envelope'' (EnSSOAssertion None)
              else (case sso_Verify (bc_unheader (ec_codec cfg)) (bc_sha (ec_codec cfg)) (bc_ecdsa (ec_codec cfg)) (ec_unassertion cfg) key token (k_now k) of
                  Inl e \<Rightarrow> refuse (''SSO assertion rejected: '' @ ec_err_text cfg (EnSSOAssertion (Some e))) (EnSSOAssertion (Some e))
                | Inr a \<Rightarrow>
                    if as_pubkey_hash a \<noteq> pkh then refuse ''SSO assertion is bound to a different device key'' EnSSOBinding
                    else if as_nonce a \<noteq> er_nonce req then refuse ''SSO assertion is bound to a different enrollment nonce'' EnSSOBinding
                    else if nonce_Verify (ec_hmac cfg) (ec_keyring cfg) (k_now k) (as_nonce a) (str_bytes pkh) \<noteq> None
                      then refuse ''SSO assertion nonce is not authentic for this device'' EnSSOBinding
                    else (case user_Match active (as_issuer a) (as_groups a) of
                        None \<Rightarrow> refuse (ec_err_text cfg (EnSSONotAllowed (as_issuer a))) (EnSSONotAllowed (as_issuer a))
                      | Some g \<Rightarrow>
                          admit cfg k cand req pub 0 (gr_groups g) (gr_netblock g)
                            \<lparr>ev_provider = providerSSO, ev_account = as_issuer a, ev_principal = (if as_email a = '''' then as_subject a else as_email a),
                             ev_region = ec_groups_json cfg (as_groups a), ev_verified = k_now k\<rparr>
                            False (gr_auto g \<and> \<not> GrantsReservedGroup (gr_groups g)) ''enroll-sso'' providerSSO True w))))
      | _ \<Rightarrow> refuse ''SSO enrollment is not configured on this control plane'' EnSSONotConfigured)"

text \<open>\<open>Process\<close> decides on the tables and then delivers.\<close>

definition decide ::
  "('p, 'b, 'n) en_config \<Rightarrow> en_call \<Rightarrow> candidate \<Rightarrow> ('b, 'n) core \<Rightarrow> (en_err + en_result) \<times> delivery option \<times> ('b, 'n) core" where
  "decide cfg k cand w = (case existing k (cd_id cand) w of
     Some r \<Rightarrow> (Inr r, None, w)
   | None \<Rightarrow> (case en_verify cfg k cand w of
       (Inl e, w) \<Rightarrow> (Inl e, None, w)
     | (Inr (req, pub), w) \<Rightarrow>
         if er_method req = MethodAWSSigV4 then processAttested cfg k cand req pub w
         else if er_method req = MethodOIDC then processSSO cfg k cand req pub w
         else if er_method req \<noteq> MethodToken then (Inl (EnMethod (er_method req)), None, w)
         else processToken cfg k cand req pub w))"

definition Process :: "('p, 'b, 'n) en_config \<Rightarrow> en_call \<Rightarrow> candidate \<Rightarrow> ('b, 'n) core \<Rightarrow> (en_err + en_result) \<times> ('b, 'n) core" where
  "Process cfg k cand w = (let (out, d, w') = decide cfg k cand w in (out, deliver cfg k d w'))"

fun terminal :: "en_err \<Rightarrow> bool" where
  "terminal EnBadRequest = True"
| "terminal EnSignature = True"
| "terminal EnNonce = True"
| "terminal EnReplay = True"
| "terminal (EnMethod _) = True"
| "terminal EnQuota = True"
| "terminal (EnReservedGroup _) = True"
| "terminal (EnJoinKey e) = (e \<noteq> JkDb)"
| "terminal (EnAttest e) = (e \<noteq> AttOther)"
| "terminal (EnNotAllowed _) = True"
| "terminal EnSSONotConfigured = True"
| "terminal (EnSSOAssertion _) = True"
| "terminal EnSSOBinding = True"
| "terminal (EnSSONotAllowed _) = True"
| "terminal _ = False"

fun drain_loop :: "('p, 'b, 'n) en_config \<Rightarrow> durable \<Rightarrow> en_call list \<Rightarrow> leased list \<Rightarrow> ('b, 'n) core \<Rightarrow> ('b, 'n) core" where
  "drain_loop cfg du (k # ks) (l # ls) w =
     (let (out, w) = Process cfg k (ls_cand l) w;
          done_with = (case out of Inr _ \<Rightarrow> True | Inl e \<Rightarrow> terminal e);
          q = (if done_with then snd (Ack (k_ack k 0) (ls_id l) (co_queue w)) else snd (Nack du (k_ack k) (ls_id l) (co_queue w))) in
      drain_loop cfg du ks ls (w\<lparr>co_queue := q\<rparr>))"
| "drain_loop cfg du _ _ w = w"

definition Drain ::
  "('p, 'b, 'n) en_config \<Rightarrow> durable \<Rightarrow> faults \<Rightarrow> time_ns \<Rightarrow> nat \<Rightarrow> int \<Rightarrow> en_call list \<Rightarrow> ('b, 'n) core \<Rightarrow> (q_err + nat) \<times> ('b, 'n) core" where
  "Drain cfg du flt now batch lease ks w = (case Claim (ec_hmac cfg) du flt now batch lease (co_queue w) of
     (Inl e, q) \<Rightarrow> (Inl e, w\<lparr>co_queue := q\<rparr>)
   | (Inr ls, q) \<Rightarrow> (Inr (length ls), drain_loop cfg du ks ls (w\<lparr>co_queue := q\<rparr>)))"

section \<open>Approval\<close>

definition decodeGroups :: "('p, 'b, 'n) en_config \<Rightarrow> string \<Rightarrow> string list" where
  "decodeGroups cfg s = (if s = '''' then [] else case ec_groups_unjson cfg s of None \<Rightarrow> [] | Some gs \<Rightarrow> gs)"

definition provenanceMethod :: "string \<Rightarrow> string" where
  "provenanceMethod wm = (if wm = MethodOIDC then providerSSO else wm)"

definition approveNetblock :: "('p, 'b, 'n) en_config \<Rightarrow> en_call \<Rightarrow> enrollment \<Rightarrow> ('b, 'n) core \<Rightarrow> string" where
  "approveNetblock cfg k e w =
     (if en_jk e \<noteq> 0 then
        (if k_rederive k 0 then '''' else case first_where (\<lambda>r. jk_id r = en_jk e) (jk_rows (co_keys w)) of None \<Rightarrow> '''' | Some r \<Rightarrow> jk_subrange r)
      else if en_method e = MethodAWSSigV4 \<and> en_provider e = ProviderAWS \<and> ec_cloud cfg \<noteq> None \<and>
              MatchAWS (the (ec_cloud cfg)) \<lparr>aid_account = en_account e, aid_arn = en_principal e, aid_user = ''''\<rparr> \<noteq> None
        then gr_netblock (the (MatchAWS (the (ec_cloud cfg)) \<lparr>aid_account = en_account e, aid_arn = en_principal e, aid_user = ''''\<rparr>))
      else if en_method e = MethodOIDC \<and> en_provider e = providerSSO then
        (case ec_user_trust cfg of
           Some (Some active) \<Rightarrow> (case user_Match active (en_account e) (decodeGroups cfg (en_region e)) of Some g \<Rightarrow> gr_netblock g | None \<Rightarrow> '''')
         | _ \<Rightarrow> '''')
      else '''')"

definition approveEphemeral :: "en_call \<Rightarrow> enrollment \<Rightarrow> ('b, 'n) core \<Rightarrow> bool" where
  "approveEphemeral k e w =
     (if en_jk e \<noteq> 0 then
        (if k_rederive k 1 then en_ephemeral e
         else case first_where (\<lambda>r. jk_id r = en_jk e) (jk_rows (co_keys w)) of None \<Rightarrow> en_ephemeral e | Some r \<Rightarrow> jk_ephemeral r)
      else False)"

definition pending_row :: "en_call \<Rightarrow> string \<Rightarrow> ('b, 'n) core \<Rightarrow> en_err + enrollment" where
  "pending_row k eid w =
     (if k_read k then Inl EnDb
      else case first_where (by_eid eid) (co_rows w) of
        None \<Rightarrow> Inl EnNotPending
      | Some e \<Rightarrow> if en_status e \<noteq> StatusPending then Inl EnNotPending else Inr e)"

text \<open>What an approval holds when it has issued and is about to claim the row.\<close>

record prepared =
  pr_row :: enrollment
  pr_approver :: string
  pr_issued :: issued
  pr_ephemeral :: bool

definition approve_prepare :: "('p, 'b, 'n) en_config \<Rightarrow> en_call \<Rightarrow> string \<Rightarrow> string \<Rightarrow> ('b, 'n) core \<Rightarrow> (en_err + prepared) \<times> ('b, 'n) core" where
  "approve_prepare cfg k eid approver w = (case pending_row k eid w of
     Inl e \<Rightarrow> (Inl e, w)
   | Inr e \<Rightarrow>
       let netblock = (if en_subrange e = '''' then approveNetblock cfg k e w else en_subrange e); ephemeral = approveEphemeral k e w in
       (case issue cfg k approver (en_device e) (en_pubkey e) (en_groups e) netblock (provenanceMethod (en_method e)) ephemeral w of
          (Inl x, w) \<Rightarrow> (Inl x, w)
        | (Inr i, w) \<Rightarrow> (Inr \<lparr>pr_row = e, pr_approver = approver, pr_issued = i, pr_ephemeral = ephemeral\<rparr>, w)))"

definition claimable_row :: "string \<Rightarrow> enrollment \<Rightarrow> bool" where
  "claimable_row eid e \<longleftrightarrow> en_eid e = eid \<and> en_status e = StatusPending"

definition approve_claim :: "('p, 'b, 'n) en_config \<Rightarrow> en_call \<Rightarrow> string \<Rightarrow> prepared \<Rightarrow> ('b, 'n) core \<Rightarrow> en_err option \<times> ('b, 'n) core" where
  "approve_claim cfg k eid p w =
     (let i = pr_issued p in
      if k_claim k then (Some EnDb, release_ip cfg k (is_ip i) w)
      else if count_where (claimable_row eid) (co_rows w) = 0 then (Some EnNotPending, release_ip cfg k (is_ip i) w)
      else (None, w\<lparr>co_rows := update_where (claimable_row eid)
              (\<lambda>e. e\<lparr>en_status := StatusIssued, en_cert := is_pem i, en_ip := addr_String (is_ip i), en_fingerprint := is_fingerprint i,
                     en_ca_fingerprint := is_ca_fingerprint i, en_decided := k_now k, en_approver := pr_approver p, en_ephemeral := pr_ephemeral p\<rparr>)
              (co_rows w)\<rparr>))"

definition approve_delivery :: "('p, 'b, 'n) en_config \<Rightarrow> en_call \<Rightarrow> string \<Rightarrow> prepared \<Rightarrow> delivery option" where
  "approve_delivery cfg k eid p =
     (let e = pr_row p; i = pr_issued p in
      map_option (\<lambda>jws. \<lparr>dl_eid = eid, dl_secret = [], dl_bundle = jws, dl_status = StatusIssued, dl_reason = '''',
          dl_note = Some (pr_approver p, ''enroll-approved'', en_device e)\<rparr>)
        (buildBundle cfg k (en_device e) (addr_String (is_ip i)) (en_groups e) (is_pem i) (is_not_after i) (en_goos e) (en_goarch e)))"

definition Approve :: "('p, 'b, 'n) en_config \<Rightarrow> en_call \<Rightarrow> string \<Rightarrow> string \<Rightarrow> ('b, 'n) core \<Rightarrow> (en_err + en_result) \<times> ('b, 'n) core" where
  "Approve cfg k eid approver w = (case approve_prepare cfg k eid approver w of
     (Inl x, w) \<Rightarrow> (Inl x, w)
   | (Inr p, w) \<Rightarrow> (case approve_claim cfg k eid p w of
       (Some x, w) \<Rightarrow> (Inl x, w)
     | (None, w) \<Rightarrow> (case approve_delivery cfg k eid p of
         None \<Rightarrow> (Inl EnBundle, w)
       | Some d \<Rightarrow>
           (Inr \<lparr>res_eid = eid, res_status = StatusIssued, res_ip = addr_String (is_ip (pr_issued p)), res_cert = is_pem (pr_issued p)\<rparr>,
            deliver cfg k (Some d) w))))"

definition deny_claim :: "en_call \<Rightarrow> string \<Rightarrow> string \<Rightarrow> ('b, 'n) core \<Rightarrow> en_err option \<times> ('b, 'n) core" where
  "deny_claim k eid approver w =
     (if k_claim k then (Some EnDb, w)
      else if count_where (claimable_row eid) (co_rows w) = 0 then (Some EnNotPending, w)
      else (None, w\<lparr>co_rows := update_where (claimable_row eid)
              (\<lambda>e. e\<lparr>en_status := StatusDenied, en_decided := k_now k, en_approver := approver\<rparr>) (co_rows w)\<rparr>))"

definition deny_delivery :: "enrollment \<Rightarrow> string \<Rightarrow> string \<Rightarrow> string \<Rightarrow> delivery" where
  "deny_delivery e eid approver reason =
     \<lparr>dl_eid = eid, dl_secret = [], dl_bundle = '''', dl_status = StatusDenied, dl_reason = reason,
      dl_note = Some (approver, ''enroll-denied'', en_device e)\<rparr>"

definition Deny :: "('p, 'b, 'n) en_config \<Rightarrow> en_call \<Rightarrow> string \<Rightarrow> string \<Rightarrow> string \<Rightarrow> ('b, 'n) core \<Rightarrow> (en_err + en_result) \<times> ('b, 'n) core" where
  "Deny cfg k eid approver reason w = (case pending_row k eid w of
     Inl x \<Rightarrow> (Inl x, w)
   | Inr e \<Rightarrow> (case deny_claim k eid approver w of
       (Some x, w) \<Rightarrow> (Inl x, w)
     | (None, w) \<Rightarrow>
         (Inr \<lparr>res_eid = eid, res_status = StatusDenied, res_ip = '''', res_cert = ''''\<rparr>,
          deliver cfg k (Some (deny_delivery e eid approver reason)) w)))"

text \<open>The result a collector ships for a decided enrolment; \<open>Inr None\<close>: nothing to deliver yet.\<close>

definition BuildDeliverable :: "('p, 'b, 'n) en_config \<Rightarrow> en_call \<Rightarrow> string \<Rightarrow> ('b, 'n) core \<Rightarrow> en_err + (string \<times> string \<times> string) option" where
  "BuildDeliverable cfg k eid w =
     (if k_read k then Inl EnDb
      else case first_where (by_eid eid) (co_rows w) of
        None \<Rightarrow> Inr None
      | Some e \<Rightarrow>
          if en_status e = StatusIssued then (case nl_parse (ec_lib cfg) (en_cert e) of
              None \<Rightarrow> Inl EnCert
            | Some c \<Rightarrow> (case buildBundle cfg k (en_device e) (en_ip e) (en_groups e) (en_cert e) (ct_not_after c) (en_goos e) (en_goarch e) of
                None \<Rightarrow> Inl EnBundle
              | Some jws \<Rightarrow> Inr (Some (StatusIssued, jws, ''''))))
          else if en_status e = StatusDenied then Inr (Some (StatusDenied, '''', ''enrollment denied by an administrator''))
          else Inr None)"

definition Pending :: "bool \<Rightarrow> ('b, 'n) core \<Rightarrow> en_err + enrollment list" where
  "Pending fails w = (if fails then Inl EnDb else Inr (filter (\<lambda>e. en_status e = StatusPending) (co_rows w)))"

end
