(* ===== verification/Enroll_Proofs.thy ===== *)
theory Enroll_Proofs
  imports Enrollment
begin

text \<open>
  What Enrollment.thy's consumer guarantees: invariants of every history of Process, Approve and Deny calls (through the
  locale \<open>consumer_invariant\<close>), the race between approvals and denials, and what a redelivered candidate meets.
\<close>

named_theorems core_frame \<open>what each write leaves alone\<close>

lemma en_audit_frame [core_frame]:
  "co_rows (en_audit f r w) = co_rows w" "co_signer (en_audit f r w) = co_signer w" "co_ipam (en_audit f r w) = co_ipam w"
  "co_replay (en_audit f r w) = co_replay w" "co_queue (en_audit f r w) = co_queue w"
  by (simp_all add: en_audit_def)

lemma release_ip_frame [core_frame]:
  "co_rows (release_ip cfg k ip w) = co_rows w" "co_signer (release_ip cfg k ip w) = co_signer w"
  "co_replay (release_ip cfg k ip w) = co_replay w" "co_queue (release_ip cfg k ip w) = co_queue w"
  by (simp_all add: release_ip_def)

lemma deliver_frame [core_frame]:
  "co_rows (deliver cfg k d w) = co_rows w" "co_signer (deliver cfg k d w) = co_signer w"
  "co_ipam (deliver cfg k d w) = co_ipam w" "co_replay (deliver cfg k d w) = co_replay w"
  by (simp_all add: deliver_def writeResult_def en_audit_def Let_def split: option.splits)

lemma en_record_frame [core_frame]:
  "co_signer (snd (en_record cfg k eid req pub jkid gs nb st cert ip fp cafp ev eph w)) = co_signer w"
  "co_replay (snd (en_record cfg k eid req pub jkid gs nb st cert ip fp cafp ev eph w)) = co_replay w"
  "co_queue (snd (en_record cfg k eid req pub jkid gs nb st cert ip fp cafp ev eph w)) = co_queue w"
  by (simp_all add: en_record_def Let_def)

lemma issue_frame [core_frame]:
  "co_rows (snd (issue cfg k actor name pub gs nb via eph w)) = co_rows w"
  "co_replay (snd (issue cfg k actor name pub gs nb via eph w)) = co_replay w"
  "co_queue (snd (issue cfg k actor name pub gs nb via eph w)) = co_queue w"
  by (auto simp: issue_def Let_def core_frame split: if_splits prod.splits sum.splits)

lemma en_verify_frame [core_frame]:
  "co_rows (snd (en_verify cfg k cand w)) = co_rows w" "co_signer (snd (en_verify cfg k cand w)) = co_signer w"
  "co_queue (snd (en_verify cfg k cand w)) = co_queue w"
  by (auto simp: en_verify_def split: sum.splits prod.splits)

lemma authenticate_pubkey:
  "authenticate cfg now cand = Inr (req, pub) \<Longrightarrow> cd_pubkey cand = PubkeyHash (bc_sha (ec_codec cfg)) pub"
  by (auto simp: authenticate_def Let_def split: option.splits if_splits sum.splits prod.splits)

lemma en_verify_pubkey:
  "en_verify cfg k cand w = (Inr (req, pub), w') \<Longrightarrow> cd_pubkey cand = PubkeyHash (bc_sha (ec_codec cfg)) pub"
  by (auto simp: en_verify_def authenticate_pubkey split: sum.splits prod.splits if_splits)

section \<open>A small instance\<close>

text \<open>
  One parsed request, any of whose signatures verify, a join key with manual approval, a pool of eight addresses and
  the certificate library of Signer.thy.
\<close>

definition demo_pub :: bytes where "demo_pub = replicate 65 1"

definition demo_codec :: "nat bundle_codec" where
  "demo_codec = \<lparr>bc_header = (\<lambda>_. []), bc_unheader = (\<lambda>_. Some \<lparr>hd_alg = Alg, hd_typ = TypEnrollRequest, hd_ver = 1, hd_kid = PubkeyHash (\<lambda>_. [1]) demo_pub\<rparr>),
     bc_bundle = (\<lambda>_. None), bc_unbundle = (\<lambda>_. None), bc_env = (\<lambda>_. ''''),
     bc_unenv = (\<lambda>_. Some \<lparr>fl_protected = EncodeToString [1], fl_payload = EncodeToString [1], fl_signature = EncodeToString (replicate 64 1)\<rparr>),
     bc_sha = (\<lambda>_. [1]), bc_der = (\<lambda>_. None), bc_ecdsa = (\<lambda>_ _ _. True)\<rparr>"

definition demo_request :: enroll_request where
  "demo_request = \<lparr>er_type = ''enroll'', er_nonce = EncodeToString (replicate 24 0), er_csr = \<lparr>cs_pubkey = EncodeToString demo_pub, cs_name = ''web-2''\<rparr>,
     er_method = MethodToken, er_credential = '''', er_os = ''linux'', er_arch = ''amd64''\<rparr>"

definition no_release :: release_ref where "no_release = \<lparr>rr_version = '''', rr_sha256 = '''', rr_url = ''''\<rparr>"

definition demo_config :: "(nat, breaker, unit) en_config" where
  "demo_config = \<lparr>ec_codec = demo_codec, ec_hmac = (\<lambda>_ _. replicate 32 0), ec_point = (\<lambda>_. Some 1), ec_unreq = (\<lambda>_. Some demo_request),
     ec_untoken = (\<lambda>_. ''t''), ec_unpresigned = (\<lambda>_. None), ec_unsso = (\<lambda>_. None), ec_unassertion = (\<lambda>_. None), ec_groups_json = (\<lambda>_. ''''),
     ec_groups_unjson = (\<lambda>_. None), ec_err_text = (\<lambda>_. ''''), ec_lib = demo_lib, ec_acquire = br_acquire 5, ec_limit = 1,
     ec_keyring = \<lparr>kr_keys = [replicate 16 7], kr_ttl = 60 * 10 ^ 9, kr_maxSkew = 30 * 10 ^ 9\<rparr>, ec_replay = True,
     ec_alloc = demo_allocator, ec_pool = Prefix (Addr4 0x0A2C0000) 29, ec_lifetime = 50, ec_ephemeral_ttl = 0, ec_window = 0,
     ec_backend = None, ec_config_signer = None, ec_ca_pem = '''', ec_ca_source = None, ec_key_pem = '''', ec_key_source = None,
     ec_key_version = None, ec_lighthouses = [], ec_lh_source = None, ec_policy = None, ec_blocklist_source = None, ec_tun = '''', ec_port = 0,
     ec_nebula = no_release, ec_nebula_for = None, ec_pilot = no_release, ec_pilot_for = None, ec_results = True, ec_result_ttl = 0,
     ec_aws = False, ec_aws_env = \<lparr>av_parse_url = (\<lambda>_. None), av_endpoint = '''', av_sts = (\<lambda>_. None), av_xml = (\<lambda>_. None)\<rparr>,
     ec_cloud = None, ec_assertion_key = None, ec_user_trust = None\<rparr>"

definition demo_call :: "time_ns \<Rightarrow> en_call" where
  "demo_call now = \<lparr>k_now = now, k_proc = 0, k_read = False, k_replay = no_faults, k_lookup = False, k_quota = False, k_consume = False,
     k_rederive = no_faults, k_alloc = no_faults, k_others = (\<lambda>_ d. d), k_sign = no_faults, k_release = False, k_record = False, k_claim = False,
     k_result = False, k_audit = no_faults, k_ack = no_faults\<rparr>"

definition demo_key :: joinkey where
  "demo_key = \<lparr>jk_id = 1, jk_name = ''k'', jk_hash = [1], jk_groups = [''web''], jk_subrange = '''', jk_max_uses = 0, jk_used = 0, jk_expires = 0,
     jk_auto = False, jk_ephemeral = False, jk_quota = 0, jk_state = ''active'', jk_created = 0\<rparr>"

definition demo_core :: "(breaker, unit) core" where
  "demo_core = \<lparr>co_rows = [], co_seq = 1, co_keys = \<lparr>jk_rows = [demo_key], jk_seq = 2\<rparr>, co_ipam = Ipam.demo_tables, co_nb = (),
     co_signer = demo_signer\<lparr>sg_policy := \<lparr>ip_network = Prefix (Addr4 0x0A000000) 8, ip_groups = [], ip_max_lifetime = 100\<rparr>\<rparr>,
     co_replay = NewSQLStore [] (120 * 10 ^ 9), co_queue = \<lparr>qs_items = [], qs_item_seq = 1, qs_results = [], qs_result_seq = 1\<rparr>, co_audit = []\<rparr>"

definition demo_cand :: candidate where
  "demo_cand = \<lparr>cd_id = ''e1'', cd_pubkey = PubkeyHash (\<lambda>_. [1]) demo_pub, cd_jws = ''j'', cd_secret_hash = [9], cd_received = 0\<rparr>"

definition demo_pending :: enrollment where
  "demo_pending = last (co_rows (snd (en_record demo_config (demo_call 10) ''e1'' demo_request demo_pub 1 [''web''] '''' StatusPending '''' '''' '''' '''' no_evidence False demo_core)))"

lemma EncodeToString_Nil: "EncodeToString x = '''' \<Longrightarrow> x = []"
proof -
  assume "EncodeToString x = ''''"
  then have "DecodeString '''' = Some x" using DecodeString_EncodeToString [of x] by simp
  moreover have "DecodeString '''' = Some []" by code_simp
  ultimately show ?thesis by simp
qed

lemma demo_authenticate: "authenticate demo_config 10 demo_cand = Inr (demo_request, demo_pub)"
proof -
  have "EncodeToString [1] \<noteq> ''''" "EncodeToString (replicate 24 0) \<noteq> ''''" using EncodeToString_Nil by force+
  moreover have "Uint64 (replicate 8 0) = 0" by code_simp
  ultimately show ?thesis
    by (simp add: authenticate_def demo_config_def demo_codec_def jwsPayload_def demo_request_def demo_cand_def demo_pub_def Let_def jws_Verify_def VerifyAny_def
      nonce_Verify_def nonce_consts nonce_mac_def unix_secs_def)
qed

definition demo_waiting :: "(breaker, unit) core" where
  "demo_waiting = demo_core\<lparr>co_rows := [demo_pending], co_seq := 2\<rparr>"

section \<open>Invariants of the consumer\<close>

text \<open>
  An invariant of the rows and the signer that survives an issuance, a row of each kind, an approval's claim and a denial's
  claim survives every call of the consumer.
\<close>

locale consumer_invariant =
  fixes cfg :: "('p, 'b, 'n) en_config" and I :: "('b, 'n) core \<Rightarrow> bool"
  assumes inv_frame: "I w \<Longrightarrow> co_rows w' = co_rows w \<Longrightarrow> co_signer w' = co_signer w \<Longrightarrow> I w'"
    and inv_issue: "I w \<Longrightarrow> I (snd (issue cfg k actor name pub gs nb via eph w))"
    and inv_record: "I w \<Longrightarrow> st \<noteq> StatusIssued \<Longrightarrow> I (snd (en_record cfg k eid req pub jkid gs nb st cert ip fp cafp ev eph w))"
    and inv_issued: "I w \<Longrightarrow> issue cfg k actor (deviceName req (PubkeyHash (bc_sha (ec_codec cfg)) pub)) pub gs nb via eph w = (Inr i, w1) \<Longrightarrow>
      I (snd (en_record cfg k eid req pub jkid gs nb StatusIssued (is_pem i) (addr_String (is_ip i)) (is_fingerprint i) (is_ca_fingerprint i) ev eph w1))"
    and inv_claim: "I w \<Longrightarrow> approve_prepare cfg k eid approver w = (Inr p, w1) \<Longrightarrow> I (snd (approve_claim cfg k eid p w1))"
    and inv_deny: "I w \<Longrightarrow> I (snd (deny_claim k eid approver w))"
begin

lemma inv_denied: "I w \<Longrightarrow> I (snd (snd (denied cfg k cand req pub action reason err w)))"
  using inv_record [of w StatusDenied] by (simp add: denied_def status_defs)

lemma inv_admit:
  assumes "I w" "cd_pubkey cand = PubkeyHash (bc_sha (ec_codec cfg)) pub"
  shows "I (snd (snd (admit cfg k cand req pub jkid gs nb ev eph auto actor via noted w)))"
proof (cases auto)
  case False
  let ?r = "en_record cfg k (cd_id cand) req pub jkid gs nb StatusPending '''' '''' '''' '''' ev eph w"
  have "I (snd ?r)" using assms(1) by (rule inv_record) (simp add: status_defs)
  moreover have "snd (snd (admit cfg k cand req pub jkid gs nb ev eph auto actor via noted w)) = snd ?r"
    using False by (auto simp: admit_def Let_def split: prod.splits bool.splits)
  ultimately show ?thesis by simp
next
  case True
  let ?n = "deviceName req (cd_pubkey cand)"
  obtain r w1 where i: "issue cfg k actor ?n pub gs nb via eph w = (r, w1)" by fastforce
  have w1: "I w1" using inv_issue [OF assms(1), of k actor ?n pub gs nb via eph] i by simp
  show ?thesis
  proof (cases r)
    case (Inl e)
    then show ?thesis using True i w1 by (simp add: admit_def Let_def)
  next
    case (Inr i')
    let ?r = "en_record cfg k (cd_id cand) req pub jkid gs nb StatusIssued (is_pem i') (addr_String (is_ip i')) (is_fingerprint i') (is_ca_fingerprint i') ev eph w1"
    have "I (snd ?r)" using inv_issued [OF assms(1)] i Inr assms(2) by simp
    moreover have "snd (snd (admit cfg k cand req pub jkid gs nb ev eph auto actor via noted w)) \<in> {w1, snd ?r}"
      using True i Inr by (auto simp: admit_def Let_def split: prod.splits bool.splits option.splits)
    ultimately show ?thesis using w1 by auto
  qed
qed

lemmas inv_ends = inv_admit inv_denied inv_frame

lemma inv_processToken:
  assumes "I w" "cd_pubkey cand = PubkeyHash (bc_sha (ec_codec cfg)) pub"
  shows "I (snd (snd (processToken cfg k cand req pub w)))"
proof -
  have "\<And>tb. I (w\<lparr>co_keys := tb\<rparr>)" using assms(1) by (rule inv_frame) simp_all
  then show ?thesis using assms
    by (auto simp: processToken_def Let_def inv_admit inv_denied split: sum.splits option.splits bool.splits prod.splits)
qed

lemma inv_decide: "I w \<Longrightarrow> I (snd (snd (decide cfg k cand w)))"
proof -
  assume w: "I w"
  obtain r w1 where v: "en_verify cfg k cand w = (r, w1)" by fastforce
  have w1: "I w1" using w by (rule inv_frame) (use en_verify_frame [of cfg k cand w] v in simp_all)
  show ?thesis
  proof (cases r)
    case (Inr rp)
    obtain req pub where rp: "rp = (req, pub)" by fastforce
    have pk: "cd_pubkey cand = PubkeyHash (bc_sha (ec_codec cfg)) pub" using en_verify_pubkey v Inr rp by blast
    have "I (snd (snd (processAttested cfg k cand req pub w1)))" "I (snd (snd (processSSO cfg k cand req pub w1)))"
      by (auto simp: processAttested_def processSSO_def Let_def inv_denied [OF w1] inv_admit [OF w1 pk] split: option.splits sum.splits)
    then show ?thesis using w w1 v Inr rp inv_processToken [OF w1 pk]
      by (auto simp: decide_def split: option.splits)
  qed (use w w1 v in \<open>auto simp: decide_def split: option.splits\<close>)
qed

lemma inv_Process: "I w \<Longrightarrow> I (snd (Process cfg k cand w))"
  using inv_decide [of w k cand] by (auto simp: Process_def core_frame intro: inv_frame split: prod.splits)

lemma inv_prepare: "I w \<Longrightarrow> I (snd (approve_prepare cfg k eid approver w))"
proof -
  assume w: "I w"
  show ?thesis
  proof (cases "pending_row k eid w")
    case (Inr e)
    define nb where "nb = (if en_subrange e = '''' then approveNetblock cfg k e w else en_subrange e)"
    have "snd (approve_prepare cfg k eid approver w) =
      snd (issue cfg k approver (en_device e) (en_pubkey e) (en_groups e) nb (provenanceMethod (en_method e)) (approveEphemeral k e w) w)"
      using Inr by (auto simp: approve_prepare_def Let_def nb_def split: prod.splits sum.splits)
    then show ?thesis using inv_issue [OF w] by simp
  qed (use w in \<open>simp add: approve_prepare_def\<close>)
qed

lemma inv_Approve: "I w \<Longrightarrow> I (snd (Approve cfg k eid approver w))"
proof -
  assume w: "I w"
  obtain r w1 where p: "approve_prepare cfg k eid approver w = (r, w1)" by fastforce
  have w1: "I w1" using inv_prepare [OF w, of k eid approver] p by simp
  show ?thesis
  proof (cases r)
    case (Inr pr)
    have "I (snd (approve_claim cfg k eid pr w1))" using inv_claim [OF w] p Inr by blast
    then show ?thesis using p Inr
      by (auto simp: Approve_def core_frame intro: inv_frame split: prod.splits option.splits)
  qed (use p w1 in \<open>simp add: Approve_def\<close>)
qed

lemma inv_Deny: "I w \<Longrightarrow> I (snd (Deny cfg k eid approver reason w))"
  using inv_deny [of w k eid approver]
  by (auto simp: Deny_def core_frame intro: inv_frame split: prod.splits option.splits sum.splits)

lemma inv_drain_loop: "I w \<Longrightarrow> I (drain_loop cfg du ks ls w)"
proof (induction ls arbitrary: ks w)
  case (Cons l ls)
  show ?case
  proof (cases ks)
    case (Cons k ks')
    obtain out w1 where p: "Process cfg k (ls_cand l) w = (out, w1)" by fastforce
    have "I w1" using inv_Process [OF Cons.prems, of k "ls_cand l"] p by simp
    then have "\<And>q. I (w1\<lparr>co_queue := q\<rparr>)" by (rule inv_frame) simp_all
    then show ?thesis using Cons.IH p Cons by (simp add: Let_def)
  qed (use Cons.prems in simp)
qed simp

lemma inv_Drain: "I w \<Longrightarrow> I (snd (Drain cfg du flt now batch lease ks w))"
  by (auto simp: Drain_def intro!: inv_drain_loop intro: inv_frame split: prod.splits sum.splits)

end

section \<open>Histories\<close>

datatype ('p, 'b, 'n) en_op =
    OpProcess "('p, 'b, 'n) en_config" en_call candidate
  | OpApprove "('p, 'b, 'n) en_config" en_call string string
  | OpDeny "('p, 'b, 'n) en_config" en_call string string string
  | OpDrain "('p, 'b, 'n) en_config" durable faults time_ns nat int "en_call list"

fun op_config :: "('p, 'b, 'n) en_op \<Rightarrow> ('p, 'b, 'n) en_config" where
  "op_config (OpProcess cfg k cand) = cfg"
| "op_config (OpApprove cfg k eid approver) = cfg"
| "op_config (OpDeny cfg k eid approver reason) = cfg"
| "op_config (OpDrain cfg du flt now batch lease ks) = cfg"

fun en_op_step :: "('p, 'b, 'n) en_op \<Rightarrow> ('b, 'n) core \<Rightarrow> ('b, 'n) core" where
  "en_op_step (OpProcess cfg k cand) w = snd (Process cfg k cand w)"
| "en_op_step (OpApprove cfg k eid approver) w = snd (Approve cfg k eid approver w)"
| "en_op_step (OpDeny cfg k eid approver reason) w = snd (Deny cfg k eid approver reason w)"
| "en_op_step (OpDrain cfg du flt now batch lease ks) w = snd (Drain cfg du flt now batch lease ks w)"

definition en_run :: "('p, 'b, 'n) en_op list \<Rightarrow> ('b, 'n) core \<Rightarrow> ('b, 'n) core" where
  "en_run ops w = foldl (\<lambda>w op. en_op_step op w) w ops"

lemma run_invariant:
  assumes "\<And>op. op \<in> set ops \<Longrightarrow> consumer_invariant (op_config op) I" "I w"
  shows "I (en_run ops w)"
  using assms
proof (induction ops arbitrary: w)
  case (Cons op ops)
  have "consumer_invariant (op_config op) I" using Cons.prems(1) by simp
  then have "I (en_op_step op w)" using Cons.prems(2)
    by (cases op) (simp_all add: consumer_invariant.inv_Process consumer_invariant.inv_Approve consumer_invariant.inv_Deny consumer_invariant.inv_Drain)
  then show ?case using Cons by (simp add: en_run_def)
qed (simp add: en_run_def)

section \<open>Reserved groups\<close>

definition privileged :: "sg_note \<Rightarrow> bool" where
  "privileged r = (case snd (snd (snd r)) of DIssued _ _ gs _ \<Rightarrow> GrantsReservedGroup gs | _ \<Rightarrow> False)"

definition privileged_mints :: "('b, 'n) core \<Rightarrow> sg_note list" where
  "privileged_mints w = filter privileged (sg_log (co_signer w))"

lemma sg_audit_log: "\<not> privileged r \<Longrightarrow> filter privileged (sg_log (sg_audit f r s)) = filter privileged (sg_log s)"
  by (simp add: sg_audit_def)

lemma Issue_mints:
  assumes "\<not> GrantsReservedGroup (tm_groups t)"
  shows "filter privileged (sg_log (snd (Issue lib sha acq limit flt actor t s))) = filter privileged (sg_log s)"
proof -
  have p: "\<not> privileged (a, b, c, DErr e)" "\<not> privileged (a, b, c, DLimit l)"
    "\<not> privileged (a, b, c, DIssued fp ns (tm_groups t) na)" for a b c e l fp ns na
    using assms by (simp_all add: privileged_def)
  show ?thesis unfolding Issue_def Let_def
    by (simp add: sg_audit_log p split: option.split prod.split br_out.split)
qed

lemma issue_mints: "privileged_mints (snd (issue cfg k actor name pub gs nb via eph w)) = privileged_mints w"
proof (cases "GrantsReservedGroup gs")
  case True
  then show ?thesis by (simp add: issue_def privileged_mints_def core_frame)
next
  case False
  then have t: "\<not> GrantsReservedGroup (tm_groups (leaf_template cfg k name pub gs eph ip))" for ip
    by (simp add: leaf_template_def Let_def)
  obtain r db n where a: "Allocate (k_alloc k) (k_others k) (ec_alloc cfg) (k_now k) (co_ipam w) (co_nb w) name nb via = (r, db, n)"
    by (metis prod_cases3)
  show ?thesis
  proof (cases r)
    case (Inl e)
    then show ?thesis using False a by (simp add: issue_def privileged_mints_def core_frame Let_def)
  next
    case (Inr ip)
    let ?I = "Issue (ec_lib cfg) (bc_sha (ec_codec cfg)) (ec_acquire cfg) (ec_limit cfg) (k_sign k) actor (leaf_template cfg k name pub gs eph ip) (co_signer w)"
    have "co_signer (snd (issue cfg k actor name pub gs nb via eph w)) = snd ?I"
      using False a Inr by (simp add: issue_def Let_def core_frame split: prod.split sum.split)
    then show ?thesis using Issue_mints [OF t] by (simp add: privileged_mints_def)
  qed
qed

lemma mints_eq: "co_signer w' = co_signer w \<Longrightarrow> privileged_mints w' = privileged_mints w"
  by (simp add: privileged_mints_def)

lemma issue_mintsD: "issue cfg k actor name pub gs nb via eph w = (r, w') \<Longrightarrow> privileged_mints w' = privileged_mints w"
  using issue_mints [of cfg k actor name pub gs nb via eph w] by simp

lemma prepare_issue:
  assumes "approve_prepare cfg k eid approver w = (Inr p, w')"
  obtains nb where "pending_row k eid w = Inr (pr_row p)" "pr_approver p = approver"
    "issue cfg k approver (en_device (pr_row p)) (en_pubkey (pr_row p)) (en_groups (pr_row p)) nb (provenanceMethod (en_method (pr_row p))) (pr_ephemeral p) w = (Inr (pr_issued p), w')"
  using assms by (auto simp: approve_prepare_def Let_def split: sum.splits prod.splits)

lemma claim_frame [core_frame]:
  "co_signer (snd (approve_claim cfg k eid p w)) = co_signer w" "co_signer (snd (deny_claim k eid approver w)) = co_signer w"
  by (simp_all add: approve_claim_def deny_claim_def Let_def core_frame)

interpretation mints: consumer_invariant cfg "\<lambda>w. privileged_mints w = P" for cfg P
  apply unfold_locales
  subgoal by (simp add: privileged_mints_def)
  subgoal by (simp add: issue_mints)
  subgoal by (simp add: privileged_mints_def core_frame)
  subgoal by (drule issue_mintsD) (simp add: privileged_mints_def core_frame)
  subgoal by (erule prepare_issue, drule issue_mintsD) (simp add: privileged_mints_def core_frame)
  subgoal by (simp add: privileged_mints_def core_frame)
  done

text \<open>
  C1: No route through enrolment mints a privileged identity: over any history of Process, Approve, Deny and Drain calls, under any
  configurations, failures and interference with the address tables, the signer's log gains no issued certificate
  with a reserved group (control-plane, lighthouse).
\<close>

theorem enrollment_never_mints_reserved: "privileged_mints (en_run ops w) = privileged_mints w"
  by (rule run_invariant [where I = "\<lambda>w'. privileged_mints w' = privileged_mints w"]) (simp_all add: mints.consumer_invariant_axioms)

section \<open>Recorded identities\<close>

text \<open>The certificate of an issued row is one the library encodes, and carries the row's own key, name, groups and address.\<close>

definition bound_to :: "nebula_lib \<Rightarrow> int \<Rightarrow> string \<Rightarrow> bytes \<Rightarrow> string \<Rightarrow> string list \<Rightarrow> string \<Rightarrow> string \<Rightarrow> bool" where
  "bound_to lib bits pem pub name gs ip fp \<longleftrightarrow> (\<exists>c a. nl_pem lib c = Some pem \<and> ct_pub c = pub \<and> ct_name c = name \<and> ct_groups c = gs \<and>
     \<not> GrantsReservedGroup gs \<and> \<not> ct_is_ca c \<and> set (ct_networks c) = {prefix_from a bits} \<and> ip = addr_String a \<and> fp = nl_fingerprint lib c)"

definition row_bound :: "nebula_lib \<Rightarrow> int \<Rightarrow> enrollment \<Rightarrow> bool" where
  "row_bound lib bits e = bound_to lib bits (en_cert e) (en_pubkey e) (en_device e) (en_groups e) (en_ip e) (en_fingerprint e)"

definition rows_bound :: "nebula_lib \<Rightarrow> int \<Rightarrow> enrollment list \<Rightarrow> bool" where
  "rows_bound lib bits rows \<longleftrightarrow> distinct (map en_eid rows) \<and> (\<forall>e\<in>set rows. en_status e = StatusIssued \<longrightarrow> row_bound lib bits e)"

lemma issue_okD:
  assumes "issue cfg k actor name pub gs nb via eph w = (Inr i, w')" "sign_with_ok (ec_lib cfg) sb"
  shows "bound_to (ec_lib cfg) (pfx_bits (ec_pool cfg)) (is_pem i) pub name gs (addr_String (is_ip i)) (is_fingerprint i)"
proof -
  obtain ip c pem s s' where g: "\<not> GrantsReservedGroup gs" and
    x: "Issue (ec_lib cfg) (bc_sha (ec_codec cfg)) (ec_acquire cfg) (ec_limit cfg) (k_sign k) actor (leaf_template cfg k name pub gs eph ip) s = (Inr (c, pem), s')"
      "is_ip i = ip" "is_pem i = pem" "is_fingerprint i = nl_fingerprint (ec_lib cfg) c"
    using assms(1) by (auto simp: issue_def Let_def split: if_splits prod.splits sum.splits)
  have c: "SignTBS (ec_lib cfg) (bc_sha (ec_codec cfg)) (si_backend (sg_identity s)) (leaf_tbs (leaf_template cfg k name pub gs eph ip))
      (Some (si_cert (sg_identity s))) = Some c" "nl_pem (ec_lib cfg) c = Some pem"
    using Issue_okD [OF x(1)] by simp_all
  show ?thesis unfolding bound_to_def using sign_with_fields [OF assms(2) c(1)] c(2) x(2-4) g
    by (intro exI [of _ c]) (auto simp: leaf_tbs_def leaf_template_def Let_def)
qed

lemma bound_append:
  assumes "rows_bound lib bits (co_rows w)"
    and "st = StatusIssued \<Longrightarrow> bound_to lib bits cert pub (deviceName req (PubkeyHash (bc_sha (ec_codec cfg)) pub)) gs ip fp"
  shows "rows_bound lib bits (co_rows (snd (en_record cfg k eid req pub jkid gs nb st cert ip fp cafp ev eph w)))"
  using assms by (auto simp: en_record_def Let_def rows_bound_def row_bound_def by_eid_def list_ex_iff)

lemma bound_update:
  assumes "rows_bound lib bits rows" "\<And>e. en_eid (f e) = en_eid e"
    and "\<And>e. e \<in> set rows \<Longrightarrow> P e \<Longrightarrow> en_status (f e) = StatusIssued \<Longrightarrow> row_bound lib bits (f e)"
  shows "rows_bound lib bits (update_where P f rows)"
proof -
  have "map en_eid (update_where P f rows) = map en_eid rows" by (rule map_key_update_where) (simp add: assms(2))
  then show ?thesis using assms(1,3) by (auto simp: rows_bound_def set_update_where)
qed

lemma bound_claim:
  assumes "rows_bound (ec_lib cfg) (pfx_bits (ec_pool cfg)) (co_rows w)" "sign_with_ok (ec_lib cfg) sb"
    and "approve_prepare cfg k eid approver w = (Inr p, w1)"
  shows "rows_bound (ec_lib cfg) (pfx_bits (ec_pool cfg)) (co_rows (snd (approve_claim cfg k eid p w1)))"
  using assms(3)
proof (rule prepare_issue)
  fix nb
  assume p: "pending_row k eid w = Inr (pr_row p)" and
    i: "issue cfg k approver (en_device (pr_row p)) (en_pubkey (pr_row p)) (en_groups (pr_row p)) nb (provenanceMethod (en_method (pr_row p))) (pr_ephemeral p) w = (Inr (pr_issued p), w1)"
  have rows: "co_rows w1 = co_rows w"
    using issue_frame(1) [of cfg k approver "en_device (pr_row p)" "en_pubkey (pr_row p)" "en_groups (pr_row p)" nb "provenanceMethod (en_method (pr_row p))" "pr_ephemeral p" w] i by simp
  have inj: "inj_on en_eid (set (co_rows w))" using assms(1) by (simp add: rows_bound_def distinct_map)
  have "pr_row p \<in> set (co_rows w)" "en_eid (pr_row p) = eid"
    using p by (auto simp: pending_row_def by_eid_def split: if_splits option.splits)
  then have "e = pr_row p" if "e \<in> set (co_rows w)" "claimable_row eid e" for e
    using that inj by (auto simp: claimable_row_def dest: inj_onD)
  then show ?thesis using assms(1) issue_okD [OF i assms(2)] rows
    by (auto simp: approve_claim_def Let_def core_frame row_bound_def intro!: bound_update)
qed

lemma bound_invariant:
  assumes "ec_lib cfg = lib" "pfx_bits (ec_pool cfg) = bits" "sign_with_ok lib sb"
  shows "consumer_invariant cfg (\<lambda>w. rows_bound lib bits (co_rows w))"
  apply unfold_locales
  subgoal by simp
  subgoal by (simp add: core_frame)
  subgoal by (rule bound_append) auto
  subgoal for w k actor req pub gs nb via eph i w1 eid jkid ev
    by (rule bound_append, use issue_frame(1) [of cfg k actor "deviceName req (PubkeyHash (bc_sha (ec_codec cfg)) pub)" pub gs nb via eph w] in simp)
      (use issue_okD [of cfg k actor _ pub gs nb via eph w i w1 sb] assms in simp)
  subgoal using bound_claim [of cfg] assms by metis
  subgoal by (auto simp: deny_claim_def status_defs intro!: bound_update)
  done

text \<open>
  C9: Every identity Core records is the one it signed: in any history of the consumer, each enrolment id has one row, and the
  certificate of an issued row carries that row's public key, name, groups and overlay address, is not a CA, has no reserved
  group, and its fingerprint is the one recorded for the blocklist; whichever of auto-issue and approval produced it.
\<close>

theorem issued_rows_bound:
  assumes "sign_with_ok lib sb" "\<And>op. op \<in> set ops \<Longrightarrow> ec_lib (op_config op) = lib \<and> pfx_bits (ec_pool (op_config op)) = bits"
    and "rows_bound lib bits (co_rows w)"
  shows "rows_bound lib bits (co_rows (en_run ops w))"
  using assms(3) by (rule run_invariant [rotated]) (use assms(1,2) in \<open>auto intro: bound_invariant\<close>)

theorem issued_rows_bound_witness:
  "rows_bound demo_lib 29 (co_rows (en_run [OpApprove demo_config (demo_call 20) ''e1'' ''alice''] demo_waiting)) \<and>
   map en_status (co_rows (en_run [OpApprove demo_config (demo_call 20) ''e1'' ''alice''] demo_waiting)) = [''issued'']"
proof
  have "en_status demo_pending = ''pending''" by code_simp
  then have "rows_bound demo_lib 29 (co_rows demo_waiting)" by (simp add: rows_bound_def demo_waiting_def demo_core_def status_defs)
  then show "rows_bound demo_lib 29 (co_rows (en_run [OpApprove demo_config (demo_call 20) ''e1'' ''alice''] demo_waiting))"
    by (rule issued_rows_bound [OF demo_lib_ok, rotated]) (simp add: demo_config_def)
  show "map en_status (co_rows (en_run [OpApprove demo_config (demo_call 20) ''e1'' ''alice''] demo_waiting)) = [''issued'']"
    by code_simp
qed

section \<open>Approvals racing denials\<close>

text \<open>
  Several Core and admin processes on one store, interleaved between the statements that matter for a row: a candidate's
  decision, an approval's issuance, the claims, and the writing of a result, which may come at any later time.
  \<open>rw_prepared\<close> are approvals that have issued but not yet claimed, \<open>rw_deliveries\<close> results still to be written.
\<close>

record ('b, 'n) race =
  rw_core :: "('b, 'n) core"
  rw_prepared :: "(string \<times> prepared) list"
  rw_deliveries :: "delivery list"

inductive race_step :: "('p, 'b, 'n) en_config set \<Rightarrow> ('b, 'n) race \<Rightarrow> ('b, 'n) race \<Rightarrow> bool" for cfgs where
  rs_decide: "cfg \<in> cfgs \<Longrightarrow> decide cfg k cand (rw_core r) = (out, d, w) \<Longrightarrow>
    race_step cfgs r (r\<lparr>rw_core := w, rw_deliveries := (case d of None \<Rightarrow> [] | Some d \<Rightarrow> [d]) @ rw_deliveries r\<rparr>)"
| rs_prepare: "cfg \<in> cfgs \<Longrightarrow> approve_prepare cfg k eid approver (rw_core r) = (Inr p, w) \<Longrightarrow>
    race_step cfgs r (r\<lparr>rw_core := w, rw_prepared := (eid, p) # rw_prepared r\<rparr>)"
| rs_prepare_fails: "cfg \<in> cfgs \<Longrightarrow> approve_prepare cfg k eid approver (rw_core r) = (Inl x, w) \<Longrightarrow> race_step cfgs r (r\<lparr>rw_core := w\<rparr>)"
| rs_approve: "cfg \<in> cfgs \<Longrightarrow> (eid, p) \<in> set (rw_prepared r) \<Longrightarrow> approve_claim cfg k eid p (rw_core r) = (None, w) \<Longrightarrow>
    race_step cfgs r (r\<lparr>rw_core := w, rw_deliveries := (case approve_delivery cfg k eid p of None \<Rightarrow> [] | Some d \<Rightarrow> [d]) @ rw_deliveries r\<rparr>)"
| rs_approve_lost: "cfg \<in> cfgs \<Longrightarrow> (eid, p) \<in> set (rw_prepared r) \<Longrightarrow> approve_claim cfg k eid p (rw_core r) = (Some x, w) \<Longrightarrow>
    race_step cfgs r (r\<lparr>rw_core := w\<rparr>)"
| rs_deny: "deny_claim k eid approver (rw_core r) = (None, w) \<Longrightarrow>
    race_step cfgs r (r\<lparr>rw_core := w, rw_deliveries := deny_delivery e eid approver reason # rw_deliveries r\<rparr>)"
| rs_deliver: "cfg \<in> cfgs \<Longrightarrow> d \<in> set (rw_deliveries r) \<Longrightarrow>
    race_step cfgs r (r\<lparr>rw_core := deliver cfg k (Some d) (rw_core r)\<rparr>)"

text \<open>A result or a pending delivery says issued only for an enrolment whose row is issued.\<close>

definition row_issued :: "enrollment list \<Rightarrow> string \<Rightarrow> bool" where
  "row_issued rows eid \<longleftrightarrow> (\<exists>e\<in>set rows. en_eid e = eid \<and> en_status e = StatusIssued)"

definition race_inv :: "('b, 'n) race \<Rightarrow> bool" where
  "race_inv r \<longleftrightarrow> distinct (map en_eid (co_rows (rw_core r))) \<and>
     (\<forall>q\<in>set (qs_results (co_queue (rw_core r))). qr_status q = StatusIssued \<longrightarrow> row_issued (co_rows (rw_core r)) (qr_eid q)) \<and>
     (\<forall>d\<in>set (rw_deliveries r). dl_status d = StatusIssued \<longrightarrow> row_issued (co_rows (rw_core r)) (dl_eid d))"

lemma record_rows:
  "co_rows (snd (en_record cfg k eid req pub jkid gs nb st cert ip fp cafp ev eph w)) = co_rows w \<or>
   (\<exists>e. co_rows (snd (en_record cfg k eid req pub jkid gs nb st cert ip fp cafp ev eph w)) = co_rows w @ [e] \<and>
        en_eid e = eid \<and> en_status e = st \<and> eid \<notin> en_eid ` set (co_rows w))"
  by (auto simp: en_record_def Let_def by_eid_def list_ex_iff)

lemma record_distinct:
  "distinct (map en_eid (co_rows w)) \<Longrightarrow> distinct (map en_eid (co_rows (snd (en_record cfg k eid req pub jkid gs nb st cert ip fp cafp ev eph w))))"
  using record_rows [of cfg k eid req pub jkid gs nb st cert ip fp cafp ev eph w] by auto

lemma record_keeps:
  "row_issued (co_rows w) x \<Longrightarrow> row_issued (co_rows (snd (en_record cfg k eid req pub jkid gs nb st cert ip fp cafp ev eph w))) x"
  using record_rows [of cfg k eid req pub jkid gs nb st cert ip fp cafp ev eph w] by (auto simp: row_issued_def)

lemma update_keeps:
  assumes "row_issued rows x" "\<And>e. P e \<Longrightarrow> en_status e \<noteq> StatusIssued"
  shows "row_issued (update_where P f rows) x"
  using assms by (auto simp: row_issued_def set_update_where)

lemma claim_keeps:
  "row_issued (co_rows w) x \<Longrightarrow> row_issued (co_rows (snd (approve_claim cfg k eid p w))) x"
  "row_issued (co_rows w) x \<Longrightarrow> row_issued (co_rows (snd (deny_claim k eid approver w))) x"
  by (auto simp: approve_claim_def deny_claim_def Let_def core_frame claimable_row_def status_defs intro!: update_keeps)

lemma claim_distinct:
  "map en_eid (co_rows (snd (approve_claim cfg k eid p w))) = map en_eid (co_rows w)"
  "map en_eid (co_rows (snd (deny_claim k eid approver w))) = map en_eid (co_rows w)"
  by (auto simp: approve_claim_def deny_claim_def Let_def core_frame map_key_update_where)

lemma issueD_rows: "issue cfg k actor name pub gs nb via eph w = (r, w') \<Longrightarrow> co_rows w' = co_rows w \<and> co_queue w' = co_queue w \<and> co_replay w' = co_replay w"
  using issue_frame [of cfg k actor name pub gs nb via eph w] by simp

interpretation uniq: consumer_invariant cfg "\<lambda>w. distinct (map en_eid (co_rows w))" for cfg
  apply unfold_locales
  subgoal by simp
  subgoal by (simp add: core_frame)
  subgoal by (rule record_distinct)
  subgoal by (rule record_distinct) (simp add: issueD_rows)
  subgoal by (erule prepare_issue) (simp add: claim_distinct issueD_rows)
  subgoal by (simp add: claim_distinct)
  done

interpretation kept: consumer_invariant cfg "\<lambda>w. row_issued (co_rows w) x" for cfg x
  apply unfold_locales
  subgoal by simp
  subgoal by (simp add: core_frame)
  subgoal by (rule record_keeps)
  subgoal by (rule record_keeps) (simp add: issueD_rows)
  subgoal by (erule prepare_issue, rule claim_keeps) (simp add: issueD_rows)
  subgoal by (rule claim_keeps)
  done

text \<open>A decision writes no result itself, and announces an issuance only with the issued row in the table.\<close>

definition announces :: "('b, 'n) core \<Rightarrow> delivery option \<Rightarrow> bool" where
  "announces w d \<longleftrightarrow> (\<forall>dl. d = Some dl \<and> dl_status dl = StatusIssued \<longrightarrow> row_issued (co_rows w) (dl_eid dl))"

definition clean :: "('b, 'n) core \<Rightarrow> (en_err + en_result) \<times> delivery option \<times> ('b, 'n) core \<Rightarrow> bool" where
  "clean w r \<longleftrightarrow> (case r of (out, d, w') \<Rightarrow> co_queue w' = co_queue w \<and> co_replay w' = co_replay w \<and> announces w' d)"

lemma clean_denied: "clean w (denied cfg k cand req pub action reason err w)"
  by (simp add: clean_def announces_def denied_def core_frame status_defs)

lemma clean_admit: "clean w (admit cfg k cand req pub jkid gs nb ev eph auto actor via noted w)"
proof -
  have rec: "row_issued (co_rows w1) eid"
    if "en_record cfg k eid req pub jkid gs nb StatusIssued cert ip fp cafp ev eph w0 = (True, w1)" for eid cert ip fp cafp w0 w1
    using that by (auto simp: en_record_def Let_def row_issued_def split: if_splits)
  have q: "co_queue w1 = co_queue w0 \<and> co_replay w1 = co_replay w0"
    if "en_record cfg k eid req pub jkid gs nb st cert ip fp cafp ev eph w0 = (b, w1)" for eid st cert ip fp cafp w0 b w1
    using that en_record_frame [of cfg k eid req pub jkid gs nb st cert ip fp cafp ev eph w0] by simp
  show ?thesis
    by (auto simp: clean_def announces_def admit_def Let_def status_defs dest!: issueD_rows dest: q rec [unfolded status_defs]
      split: prod.splits bool.splits sum.splits option.splits)
qed

lemma clean_methods:
  "clean w (processToken cfg k cand req pub w)" "clean w (processAttested cfg k cand req pub w)" "clean w (processSSO cfg k cand req pub w)"
proof -
  have k: "clean w r" if "clean (w\<lparr>co_keys := tb\<rparr>) r" for tb r using that by (auto simp: clean_def)
  show "clean w (processToken cfg k cand req pub w)"
    by (auto simp: processToken_def Let_def clean_denied clean_admit intro: k clean_denied clean_admit split: sum.splits option.splits bool.splits prod.splits)
      (auto simp: clean_def announces_def)
  show "clean w (processAttested cfg k cand req pub w)" "clean w (processSSO cfg k cand req pub w)"
    by (auto simp: processAttested_def processSSO_def Let_def clean_denied clean_admit split: option.splits sum.splits)
qed

lemma decide_cases:
  assumes "decide cfg k cand w = (out, d, w')"
  obtains (known) r where "existing k (cd_id cand) w = Some r" "out = Inr r" "d = None" "w' = w"
  | (refused) e where "existing k (cd_id cand) w = None" "en_verify cfg k cand w = (Inl e, w')" "out = Inl e" "d = None"
  | (handled) req pub w1 where "existing k (cd_id cand) w = None" "en_verify cfg k cand w = (Inr (req, pub), w1)"
      "(out, d, w') \<in> {processAttested cfg k cand req pub w1, processSSO cfg k cand req pub w1, processToken cfg k cand req pub w1,
         (Inl (EnMethod (er_method req)), None, w1)}"
  using assms by (auto simp: decide_def split: option.splits prod.splits sum.splits if_splits)

lemma handled_clean:
  assumes "(out, d, w') \<in> {processAttested cfg k cand req pub w1, processSSO cfg k cand req pub w1, processToken cfg k cand req pub w1,
      (Inl (EnMethod m), None, w1)}"
  shows "clean w1 (out, d, w')"
  using assms clean_methods [of w1 cfg k cand req pub] by (auto simp: clean_def announces_def)

lemma decide_clean:
  assumes "decide cfg k cand w = (out, d, w')"
  shows "co_queue w' = co_queue w" "announces w' d"
proof -
  have v: "en_verify cfg k cand w = (r, w1) \<Longrightarrow> co_queue w1 = co_queue w" for r w1 using en_verify_frame(3) [of cfg k cand w] by simp
  from assms have "co_queue w' = co_queue w \<and> announces w' d"
  proof (cases rule: decide_cases)
    case (handled req pub w1)
    then show ?thesis using handled_clean [OF handled(3)] v by (simp add: clean_def)
  qed (use v in \<open>auto simp: announces_def\<close>)
  then show "co_queue w' = co_queue w" "announces w' d" by simp_all
qed

lemma put_issued:
  assumes "q \<in> set (qs_results (snd (PutResult f eid st sh b rsn ex s)))" "qr_status q = StatusIssued"
  shows "(\<exists>q'\<in>set (qs_results s). qr_status q' = StatusIssued \<and> qr_eid q' = qr_eid q) \<or> (qr_eid q = eid \<and> st = StatusIssued)"
  using assms by (auto simp: PutResult_def set_update_where split: if_splits)

lemma update_issues:
  assumes "e \<in> set rows" "P e" "en_eid (f e) = eid" "en_status (f e) = StatusIssued"
  shows "row_issued (update_where P f rows) eid"
  using assms by (auto simp: row_issued_def set_update_where)

lemma claim_wins:
  assumes "approve_claim cfg k eid p w = (None, w')"
  shows "co_queue w' = co_queue w" "row_issued (co_rows w') eid"
proof -
  have n: "count_where (claimable_row eid) (co_rows w) \<noteq> 0" using assms by (auto simp: approve_claim_def Let_def split: if_splits)
  then obtain e where e: "e \<in> set (co_rows w)" "claimable_row eid e" by (auto simp: count_where_0_iff)
  then show "row_issued (co_rows w') eid" "co_queue w' = co_queue w" using assms
    by (auto simp: approve_claim_def Let_def claimable_row_def split: if_splits intro!: update_issues [of e])
qed

lemma race_step_inv:
  assumes "race_step cfgs r r'" "race_inv r"
  shows "race_inv r'"
  using assms
proof (cases rule: race_step.cases)
  case (rs_decide cfg k cand out d w)
  have c: "co_queue w = co_queue (rw_core r)" "announces w d" using decide_clean rs_decide by blast+
  have u: "distinct (map en_eid (co_rows w))" using uniq.inv_decide [of "rw_core r" cfg k cand] rs_decide assms(2) by (simp add: race_inv_def)
  have m: "row_issued (co_rows w) x" if "row_issued (co_rows (rw_core r)) x" for x
    using kept.inv_decide [OF that, of cfg k cand] rs_decide by simp
  show ?thesis using assms(2) c u m rs_decide(1)
    by (auto simp: race_inv_def announces_def split: option.splits)
next
  case (rs_prepare cfg k eid approver p w)
  then have "co_rows w = co_rows (rw_core r) \<and> co_queue w = co_queue (rw_core r)"
    by (auto elim!: prepare_issue dest: issueD_rows)
  then show ?thesis using assms(2) rs_prepare by (simp add: race_inv_def)
next
  case (rs_prepare_fails cfg k eid approver x w)
  then have "co_rows w = co_rows (rw_core r) \<and> co_queue w = co_queue (rw_core r)"
    by (auto simp: approve_prepare_def Let_def dest!: issueD_rows split: sum.splits prod.splits)
  then show ?thesis using assms(2) rs_prepare_fails by (simp add: race_inv_def)
next
  case (rs_approve cfg eid p k w)
  then have w: "co_queue w = co_queue (rw_core r)" "row_issued (co_rows w) eid" using claim_wins by blast+
  have m: "row_issued (co_rows w) x" if "row_issued (co_rows (rw_core r)) x" for x
    using claim_keeps(1) [OF that, of cfg k eid p] rs_approve by simp
  have u: "map en_eid (co_rows w) = map en_eid (co_rows (rw_core r))" using claim_distinct(1) [of cfg k eid p "rw_core r"] rs_approve by simp
  have d: "dl_eid d = eid" if "approve_delivery cfg k eid p = Some d" for d using that by (auto simp: approve_delivery_def Let_def)
  show ?thesis using assms(2) w m u rs_approve(1) by (auto simp: race_inv_def dest: d split: option.splits)
next
  case (rs_approve_lost cfg eid p k x w)
  then have "co_rows w = co_rows (rw_core r)" "co_queue w = co_queue (rw_core r)"
    by (auto simp: approve_claim_def Let_def core_frame split: if_splits)
  then show ?thesis using assms(2) rs_approve_lost(1) by (simp add: race_inv_def)
next
  case (rs_deny k eid approver w e reason)
  then have w: "w = snd (deny_claim k eid approver (rw_core r))" "co_queue w = co_queue (rw_core r)"
    by (auto simp: deny_claim_def split: if_splits)
  show ?thesis using assms(2) w claim_keeps(2) [of "rw_core r" _ k eid approver] claim_distinct(2) [of k eid approver "rw_core r"] rs_deny(1)
    by (auto simp: race_inv_def deny_delivery_def status_defs)
next
  case (rs_deliver cfg d k)
  let ?w = "deliver cfg k (Some d) (rw_core r)"
  have "row_issued (co_rows (rw_core r)) (qr_eid q)" if "q \<in> set (qs_results (co_queue ?w))" "qr_status q = StatusIssued" for q
    using that assms(2) rs_deliver(3)
    by (auto simp: race_inv_def deliver_def writeResult_def Let_def core_frame dest!: put_issued split: option.splits if_splits)
  then show ?thesis using assms(2) rs_deliver by (auto simp: race_inv_def core_frame)
qed

text \<open>
  C5: A host recorded as denied is never handed a certificate: however candidates, approvals, denials and the delivery of their
  results interleave, every poll result that says issued belongs to an enrolment whose only row is issued; so an approval that
  loses the race to a denial delivers nothing, and a decision once made as issued stays.
\<close>

theorem denied_never_delivered:
  assumes "(race_step cfgs)\<^sup>*\<^sup>* r r'" "race_inv r" "q \<in> set (qs_results (co_queue (rw_core r')))" "qr_status q = StatusIssued"
    and "e \<in> set (co_rows (rw_core r'))" "en_eid e = qr_eid q"
  shows "en_status e = StatusIssued"
proof -
  have "race_inv r'" using assms(1,2) by (induction) (auto intro: race_step_inv)
  then obtain e' where "e' \<in> set (co_rows (rw_core r'))" "en_eid e' = qr_eid q" "en_status e' = StatusIssued" and
    "inj_on en_eid (set (co_rows (rw_core r')))"
    using assms(3,4) by (auto simp: race_inv_def row_issued_def distinct_map)
  then show ?thesis using assms(5,6) by (metis inj_onD)
qed

definition demo_race :: "(breaker, unit) race" where
  "demo_race = \<lparr>rw_core = demo_core\<lparr>co_rows := [demo_pending\<lparr>en_status := StatusIssued\<rparr>]\<rparr>, rw_prepared = [],
     rw_deliveries = [\<lparr>dl_eid = ''e1'', dl_secret = [9], dl_bundle = ''b'', dl_status = StatusIssued, dl_reason = '''', dl_note = None\<rparr>]\<rparr>"

theorem denied_never_delivered_witness:
  "\<exists>r'. (race_step {demo_config})\<^sup>*\<^sup>* demo_race r' \<and> map qr_status (qs_results (co_queue (rw_core r'))) = [''issued''] \<and>
     en_status (hd (co_rows (rw_core r'))) = ''issued''"
proof -
  let ?d = "hd (rw_deliveries demo_race)"
  let ?r = "demo_race\<lparr>rw_core := deliver demo_config (demo_call 20) (Some ?d) (rw_core demo_race)\<rparr>"
  have e: "en_eid demo_pending = ''e1''" by code_simp
  have "race_step {demo_config} demo_race ?r" by (rule rs_deliver) (simp_all add: demo_race_def)
  then have s: "(race_step {demo_config})\<^sup>*\<^sup>* demo_race ?r" by simp
  have i: "race_inv demo_race" by (simp add: race_inv_def demo_race_def demo_core_def row_issued_def e)
  have q: "qs_results (co_queue (rw_core ?r)) = [\<lparr>qr_id = 1, qr_eid = ''e1'', qr_status = ''issued'', qr_bundle = ''b'', qr_secret_hash = [9],
      qr_reason = '''', qr_expires = 20 + 3600 * 10 ^ 9, qr_reads = 0\<rparr>]" (is "_ = [?q]")
    by (simp add: demo_race_def deliver_def writeResult_def demo_config_def PutResult_def demo_core_def demo_call_def status_defs)
  have rows: "co_rows (rw_core ?r) = [demo_pending\<lparr>en_status := StatusIssued\<rparr>]" by (simp add: core_frame) (simp add: demo_race_def)
  have "en_status (hd (co_rows (rw_core ?r))) = StatusIssued"
    by (rule denied_never_delivered [OF s i, of ?q]) (unfold q rows, simp_all add: e status_defs)
  then show ?thesis using s q by (intro exI [of _ ?r]) (simp add: status_defs)
qed

section \<open>Redelivery\<close>

lemma recorded_exists:
  assumes "en_record cfg k eid req pub jkid gs nb st cert ip fp cafp ev eph w = (True, w')" "\<not> k_read k'"
  shows "existing k' eid w' = Some \<lparr>res_eid = eid, res_status = st, res_ip = ip, res_cert = cert\<rparr>"
proof -
  have "first_where (by_eid eid) (co_rows w) = None" using assms(1)
    by (auto simp: en_record_def Let_def first_where_None_iff list_ex_iff split: if_splits)
  then show ?thesis using assms
    by (auto simp: en_record_def Let_def existing_def first_where_append by_eid_def split: if_splits)
qed

lemma admit_recorded:
  assumes "admit cfg k cand req pub jkid gs nb ev eph auto actor via noted w = (Inr r, d, w')" "\<not> k_read k'"
  shows "existing k' (cd_id cand) w' = Some r"
  using assms(1) recorded_exists [OF _ assms(2)]
  by (auto simp: admit_def Let_def split: if_splits prod.splits bool.splits sum.splits option.splits)

lemma existing_deliver: "existing k' eid (deliver cfg k d w) = existing k' eid w"
  by (simp add: existing_def core_frame)

definition recorded :: "en_call \<Rightarrow> string \<Rightarrow> (en_err + en_result) \<times> delivery option \<times> ('b, 'n) core \<Rightarrow> bool" where
  "recorded k' eid x \<longleftrightarrow> (\<forall>r. fst x = Inr r \<longrightarrow> existing k' eid (snd (snd x)) = Some r)"

lemma recorded_ends:
  "recorded k' eid (denied cfg k cand req pub action reason err w)"
  "\<not> k_read k' \<Longrightarrow> recorded k' (cd_id cand) (admit cfg k cand req pub jkid gs nb ev eph auto actor via noted w)"
  "recorded k' eid (Inl e, d, w)"
  using admit_recorded [of cfg k cand req pub jkid gs nb ev eph auto actor via noted w] by (auto simp: recorded_def denied_def) (metis prod.collapse)

lemma recorded_methods:
  assumes "\<not> k_read k'"
  shows "recorded k' (cd_id cand) (processToken cfg k cand req pub w)" "recorded k' (cd_id cand) (processAttested cfg k cand req pub w)"
    "recorded k' (cd_id cand) (processSSO cfg k cand req pub w)"
  using assms
  by (auto simp: processAttested_def processSSO_def processToken_def Let_def recorded_ends split: option.splits sum.splits prod.splits bool.splits)

text \<open>
  C20: Process is idempotent: a candidate that was decided and is delivered again, by the queue or by any other process with any
  configuration, gets the recorded answer, and the second run changes nothing: no second certificate, address, row or result.
\<close>

theorem process_idempotent:
  assumes "Process cfg k cand w = (Inr r, w')" "\<not> k_read k'"
  shows "Process cfg' k' cand w' = (Inr r, w')"
proof -
  obtain d w1 where d: "decide cfg k cand w = (Inr r, d, w1)" "w' = deliver cfg k d w1"
    using assms(1) by (auto simp: Process_def split: prod.splits)
  from d(1) have "existing k' (cd_id cand) w1 = Some r"
  proof (cases rule: decide_cases)
    case (known r)
    then show ?thesis using assms(2) by (auto simp: existing_def split: if_splits)
  next
    case (handled req pub w0)
    then have "recorded k' (cd_id cand) (Inr r, d, w1)" using recorded_methods [OF assms(2), of cand cfg k req pub w0] by auto
    then show ?thesis by (simp add: recorded_def)
  qed auto
  then have "existing k' (cd_id cand) w' = Some r" using d(2) by (simp add: existing_deliver)
  then show ?thesis by (simp add: Process_def decide_def deliver_def)
qed

lemma authenticate_time: "authenticate cfg t cand = Inr x \<Longrightarrow> authenticate cfg t' cand \<in> {Inr x, Inl EnNonce}"
  by (auto simp: authenticate_def Let_def split: option.splits if_splits sum.splits prod.splits)

text \<open>The nonce of a candidate that passed verification is remembered, so the candidate does not pass again while the nonce is fresh.\<close>

lemma verified_once:
  assumes "en_verify cfg k cand w = (Inr rp, w1)" "ec_replay cfg" "co_replay w2 = co_replay w1"
    and "k_now k' < k_now k + sq_ttl (co_replay w)"
  shows "\<exists>e. fst (en_verify cfg k' cand w2) = Inl e \<and> (e = EnReplayStore \<and> (\<exists>n. k_replay k' n) \<or> e = EnReplay \<or> e = EnNonce)"
proof -
  obtain req pub where rp: "rp = (req, pub)" by fastforce
  have a: "authenticate cfg (k_now k) cand = Inr (req, pub)" and
    o: "fst (sql_Observe (k_replay k) (k_proc k) (k_now k) (co_replay w) (er_nonce req)) = Inr True"
    "co_replay w1 = snd (sql_Observe (k_replay k) (k_proc k) (k_now k) (co_replay w) (er_nonce req))"
    using assms(1,2) rp by (auto simp: en_verify_def split: sum.splits prod.splits if_splits)
  have m: "sql_remembers (co_replay w2) (k_now k') (er_nonce req)"
    using rsql.observe_records [OF refl o(1), of "k_now k'"] assms(3,4) o(2) by simp
  have "fst (sql_Observe (k_replay k') (k_proc k') (k_now k') (co_replay w2) (er_nonce req)) \<noteq> Inr True"
    using rsql.observe_refuses [OF refl m] by simp
  moreover have "\<exists>n. k_replay k' n" if "fst (sql_Observe (k_replay k') (k_proc k') (k_now k') (co_replay w2) (er_nonce req)) = Inl x" for x
    using that by (auto simp: sql_Observe_def Let_def split: if_splits)
  ultimately show ?thesis using authenticate_time [OF a, of "k_now k'"] assms(2)
    by (auto simp: en_verify_def split: prod.splits sum.splits if_splits)
qed

text \<open>
  C38: A nonce is spent by the first verification, also when the enrolment then fails.  Let Process, with the replay store
  configured, fail with an error that is to be retried, other than a failure of the replay store itself, and leave no row.  A redelivery
  to any process while the store still remembers the nonce (its TTL) is refused whatever statements fail: it records no row, writes no
  result and issues nothing.  Unless the replay store fails again the refusal is terminal, so the queue drops the candidate and the
  host's poll is never answered, where the comments of the code promise a retry.
\<close>

theorem transient_failure_is_final:
  assumes "Process cfg k cand w = (Inl e, w')" "\<not> terminal e" "e \<noteq> EnReplayStore" "ec_replay cfg"
    and "existing k' (cd_id cand) w' = None" "k_now k' < k_now k + sq_ttl (co_replay w)"
  shows "\<exists>e' w''. Process cfg k' cand w' = (Inl e', w'') \<and> (terminal e' \<or> e' = EnReplayStore \<and> (\<exists>n. k_replay k' n)) \<and>
    co_rows w'' = co_rows w' \<and> co_queue w'' = co_queue w' \<and> co_signer w'' = co_signer w'"
proof -
  obtain d w2 where d: "decide cfg k cand w = (Inl e, d, w2)" "w' = deliver cfg k d w2"
    using assms(1) by (auto simp: Process_def split: prod.splits)
  from d(1) obtain rp w1 where v: "en_verify cfg k cand w = (Inr rp, w1)" "co_replay w2 = co_replay w1"
  proof (cases rule: decide_cases)
    case (refused x)
    then show ?thesis using assms(2,3) by (auto simp: en_verify_def authenticate_def Let_def split: sum.splits prod.splits option.splits if_splits)
  next
    case (handled req pub w1)
    then show ?thesis using handled_clean [OF handled(3)] that by (auto simp: clean_def)
  qed auto
  have "co_replay w' = co_replay w1" using d(2) v(2) by (simp add: core_frame)
  then obtain e' where f: "fst (en_verify cfg k' cand w') = Inl e'" "e' = EnReplayStore \<and> (\<exists>n. k_replay k' n) \<or> e' = EnReplay \<or> e' = EnNonce"
    using verified_once [OF v(1) assms(4) _ assms(6)] by blast
  then obtain w'' where v': "en_verify cfg k' cand w' = (Inl e', w'')" by (metis prod.collapse)
  have t: "terminal e' \<or> e' = EnReplayStore \<and> (\<exists>n. k_replay k' n)" using f(2) by auto
  have "Process cfg k' cand w' = (Inl e', w'')" using v' assms(5) by (simp add: Process_def decide_def deliver_def)
  then show ?thesis using t en_verify_frame [of cfg k' cand w'] v' by simp
qed

lemma demo_decide:
  "fst (Process demo_config (demo_call 10\<lparr>k_record := b\<rparr>) demo_cand demo_core) =
     (if b then Inl EnDb else Inr \<lparr>res_eid = ''e1'', res_status = ''pending'', res_ip = '''', res_cert = ''''\<rparr>) \<and>
   (b \<longrightarrow> co_rows (snd (Process demo_config (demo_call 10\<lparr>k_record := b\<rparr>) demo_cand demo_core)) = [])"
proof -
  let ?k = "demo_call 10\<lparr>k_record := b\<rparr>"
  obtain R where v: "en_verify demo_config ?k demo_cand demo_core = (Inr (demo_request, demo_pub), demo_core\<lparr>co_replay := R\<rparr>)"
  proof -
    have "\<exists>R. sql_Observe no_faults 0 10 (co_replay demo_core) (er_nonce demo_request) = (Inr True, R)"
      by (simp add: demo_core_def sql_Observe_def NewSQLStore_def maybeGC_def sql_GC_def Let_def)
    moreover have "ec_replay demo_config" "k_now ?k = 10" "k_replay ?k = no_faults" "k_proc ?k = 0" by (simp_all add: demo_config_def demo_call_def)
    ultimately show thesis using that by (auto simp: en_verify_def demo_authenticate)
  qed
  have "Lookup (bc_sha (ec_codec demo_config)) False 10 (co_keys demo_core) x = Inr demo_key" for x
    by (simp add: Lookup_def demo_config_def demo_codec_def demo_core_def demo_key_def)
  moreover have "\<exists>tb. Consume False (co_keys demo_core) demo_key = (None, tb)"
    by (simp add: Consume_def demo_core_def consumable_def) (simp add: demo_key_def)
  moreover have "jk_quota demo_key = 0" "jk_auto demo_key = False" "er_method demo_request = MethodToken" "co_rows demo_core = []" "cd_id demo_cand = ''e1''"
    by (simp_all add: demo_key_def demo_request_def demo_core_def demo_cand_def)
  ultimately show ?thesis using v
    by (auto simp: Process_def decide_def existing_def demo_call_def processToken_def admit_def Let_def en_record_def status_defs
      MethodToken_def MethodOIDC_def MethodAWSSigV4_def core_frame split: prod.splits)
qed

theorem process_idempotent_witness:
  "\<exists>r w'. Process demo_config (demo_call 10) demo_cand demo_core = (Inr r, w') \<and> res_status r = ''pending'' \<and>
     Process demo_config (demo_call 30) demo_cand w' = (Inr r, w')"
proof -
  have k: "demo_call 10 = demo_call 10\<lparr>k_record := False\<rparr>" by (simp add: demo_call_def)
  obtain r w' where p: "Process demo_config (demo_call 10) demo_cand demo_core = (Inr r, w')" "res_status r = ''pending''"
    using demo_decide [of False] k by (cases "Process demo_config (demo_call 10) demo_cand demo_core") auto
  then show ?thesis using process_idempotent [OF p(1), of "demo_call 30" demo_config] by (auto simp: demo_call_def)
qed

theorem transient_failure_is_final_witness:
  "\<exists>e w' e' w''. Process demo_config (demo_call 10\<lparr>k_record := True\<rparr>) demo_cand demo_core = (Inl e, w') \<and> \<not> terminal e \<and>
     Process demo_config (demo_call 30) demo_cand w' = (Inl e', w'') \<and> terminal e' \<and> co_rows w'' = []"
proof -
  obtain w' where p: "Process demo_config (demo_call 10\<lparr>k_record := True\<rparr>) demo_cand demo_core = (Inl EnDb, w')"
    using demo_decide [of True] by (cases "Process demo_config (demo_call 10\<lparr>k_record := True\<rparr>) demo_cand demo_core") auto
  then have rows: "co_rows w' = []" using demo_decide [of True] by simp
  have "\<exists>e' w''. Process demo_config (demo_call 30) demo_cand w' = (Inl e', w'') \<and>
      (terminal e' \<or> e' = EnReplayStore \<and> (\<exists>n. k_replay (demo_call 30) n)) \<and> co_rows w'' = co_rows w' \<and>
      co_queue w'' = co_queue w' \<and> co_signer w'' = co_signer w'"
    by (rule transient_failure_is_final [OF p])
      (simp_all add: existing_def rows, simp_all add: demo_call_def demo_config_def demo_core_def NewSQLStore_def)
  moreover have "\<not> k_replay (demo_call 30) n" for n by (simp add: demo_call_def)
  ultimately show ?thesis using p rows by auto
qed

section \<open>Consequences worth knowing\<close>

text \<open>
  An approval that overtakes the result of the decision it approves creates the result row, without a secret hash; the late
  pending result then overwrites it, and no poll of the host matches the row.
\<close>

lemma overtaken_result_unreachable:
  assumes "\<not> list_ex (\<lambda>r. qr_eid r = eid) (qs_results s)" "sha (str_bytes secret) \<noteq> []"
  shows "read_result sha False now eid secret
    (snd (PutResult False eid StatusPending h '''' '''' 0 (snd (PutResult False eid StatusIssued [] b '''' ex s)))) = Inl ErrResultNotFound"
proof -
  have "first_where (\<lambda>r. qr_eid r = eid) (qs_results s) = None" "update_where (\<lambda>r. qr_eid r = eid) f (qs_results s) = qs_results s" for f
    using assms(1) by (auto simp: first_where_None_iff list_ex_iff intro: update_where_none)
  then show ?thesis using assms by (simp add: PutResult_def read_result_def first_where_append)
qed

text \<open>When the row cannot be written after an issuance, the address stays leased although no row and no host has it.\<close>

lemma failed_record_keeps_lease:
  "fst (admit demo_config (demo_call 10\<lparr>k_record := True\<rparr>) demo_cand demo_request demo_pub 1 [''web''] '''' no_evidence False True ''enroll-auto'' ''token'' False demo_core) = Inl EnDb \<and>
   map al_state (allocs (co_ipam (snd (snd (admit demo_config (demo_call 10\<lparr>k_record := True\<rparr>) demo_cand demo_request demo_pub 1 [''web''] '''' no_evidence False True
     ''enroll-auto'' ''token'' False demo_core))))) = [stateAllocated, stateAllocated]"
  by code_simp

end
