(* ===== verification/Lifecycle.thy ===== *)
theory Lifecycle
  imports Prelude
begin

text \<open>
  The key lifecycle that the CA registry (internal/ca) and the config-key registry (internal/configkey) both
  promise: staged, then active, then draining when another key is activated, then retired; a staged key may be
  abandoned.  \<open>lc_step\<close> is the abstract machine over the list of (id, state) pairs; the locale \<open>lifecycle_impl\<close> is the
  contract of a registry that implements it, and its lemmas are the guarantees a registry inherits.
\<close>

definition StateStaged :: string where "StateStaged = ''staged''"
definition StateActive :: string where "StateActive = ''active''"
definition StateDraining :: string where "StateDraining = ''draining''"
definition StateRetired :: string where "StateRetired = ''retired''"

lemmas lc_states = StateStaged_def StateActive_def StateDraining_def StateRetired_def

lemma lc_states_distinct [simp]:
  "StateStaged \<noteq> StateActive" "StateStaged \<noteq> StateDraining" "StateStaged \<noteq> StateRetired"
  "StateActive \<noteq> StateStaged" "StateActive \<noteq> StateDraining" "StateActive \<noteq> StateRetired"
  "StateDraining \<noteq> StateStaged" "StateDraining \<noteq> StateActive" "StateDraining \<noteq> StateRetired"
  "StateRetired \<noteq> StateStaged" "StateRetired \<noteq> StateActive" "StateRetired \<noteq> StateDraining"
  by (simp_all add: lc_states)

type_synonym lifecycle = "(int \<times> string) list"

text \<open>The position of a state in the lifecycle; unknown states rank above every legal one.\<close>

definition lc_rank :: "string \<Rightarrow> nat" where
  "lc_rank s = (if s = StateStaged then 0 else if s = StateActive then 1 else if s = StateDraining then 2
     else if s = StateRetired then 3 else 4)"

definition lc_promote :: "int \<Rightarrow> lifecycle \<Rightarrow> lifecycle" where
  "lc_promote i m = map (\<lambda>(j, s). (j, if j = i then StateActive else if s = StateActive then StateDraining else s)) m"

definition lc_move :: "int \<Rightarrow> string \<Rightarrow> string \<Rightarrow> lifecycle \<Rightarrow> lifecycle" where
  "lc_move i src dst m = map (\<lambda>(j, s). (j, if j = i \<and> s = src then dst else s)) m"

inductive lc_step :: "lifecycle \<Rightarrow> lifecycle \<Rightarrow> bool" where
  lc_stage: "i \<notin> fst ` set m \<Longrightarrow> lc_step m (m @ [(i, StateStaged)])"
| lc_seed: "i \<notin> fst ` set m \<Longrightarrow> StateActive \<notin> snd ` set m \<Longrightarrow> lc_step m (m @ [(i, StateActive)])"
| lc_activate: "(i, StateStaged) \<in> set m \<Longrightarrow> lc_step m (lc_promote i m)"
| lc_retire: "lc_step m (lc_move i StateDraining StateRetired m)"
| lc_abandon: "lc_step m (lc_move i StateStaged StateRetired m)"

definition lc_ok :: "lifecycle \<Rightarrow> bool" where
  "lc_ok m \<longleftrightarrow> distinct (map fst m) \<and> (\<forall>s\<in>snd ` set m. lc_rank s < 4) \<and> count_where (\<lambda>(i, s). s = StateActive) m \<le> 1"

definition has_active :: "lifecycle \<Rightarrow> bool" where
  "has_active m \<longleftrightarrow> StateActive \<in> snd ` set m"

text \<open>Every key of the earlier table is in the later one, at the same or a later state.\<close>

definition lc_forward :: "lifecycle \<Rightarrow> lifecycle \<Rightarrow> bool" where
  "lc_forward m m' \<longleftrightarrow> (\<forall>(i, s)\<in>set m. \<exists>s'. (i, s') \<in> set m' \<and> lc_rank s \<le> lc_rank s')"

section \<open>The machine keeps its shape\<close>

lemma lc_rank_simps [simp]:
  "lc_rank StateStaged = 0" "lc_rank StateActive = 1" "lc_rank StateDraining = 2" "lc_rank StateRetired = 3"
  by (simp_all add: lc_rank_def)

lemma lc_rank_3: "lc_rank s = 3 \<longleftrightarrow> s = StateRetired"
  by (simp add: lc_rank_def)

lemma lc_ids [simp]: "map fst (lc_promote i m) = map fst m" "map fst (lc_move i a b m) = map fst m"
  by (induction m) (auto simp: lc_promote_def lc_move_def)

lemma promote_unique:
  assumes "distinct (map fst m)"
  shows "count_where (\<lambda>(i, s). s = StateActive) (lc_promote i m) \<le> 1"
proof -
  have "filter (\<lambda>(i, s). s = StateActive) (lc_promote i m) = map (\<lambda>(j, s). (j, StateActive)) (filter (\<lambda>(j, s). j = i) m)"
    unfolding lc_promote_def by (induction m) (auto split: if_splits)
  moreover have "length (filter (\<lambda>(j, s). j = i) m) \<le> 1" using assms
  proof (induction m)
    case (Cons x m)
    show ?case
    proof (cases "fst x = i")
      case True
      then have "\<forall>y\<in>set m. fst y \<noteq> i" using Cons.prems by (metis distinct.simps(2) image_eqI list.set_map list.simps(9))
      then have "filter (\<lambda>(j, s). j = i) m = []" by (auto simp: filter_empty_conv)
      then show ?thesis by (cases x) simp
    qed (use Cons in \<open>auto split: prod.splits\<close>)
  qed simp
  ultimately show ?thesis by (simp add: count_where_def)
qed

lemma move_active:
  assumes "b \<noteq> StateActive"
  shows "count_where (\<lambda>(i, s). s = StateActive) (lc_move i a b m) \<le> count_where (\<lambda>(i, s). s = StateActive) m"
  unfolding lc_move_def count_where_def using assms by (induction m) (auto split: prod.splits)

lemma lc_step_ok:
  assumes "lc_step m m'" "lc_ok m"
  shows "lc_ok m'"
  using assms
proof cases
  case (lc_seed i)
  then have "count_where (\<lambda>(i, s). s = StateActive) m = 0" unfolding count_where_0_iff by (force split: prod.splits)
  with lc_seed assms(2) show ?thesis by (auto simp: lc_ok_def)
next
  case (lc_activate i)
  with assms(2) promote_unique [of m i] show ?thesis by (auto simp: lc_ok_def) (auto simp: lc_promote_def)
next
  case (lc_retire i)
  then show ?thesis using assms(2) move_active [of StateRetired i StateDraining m]
    by (auto simp: lc_ok_def) (auto simp: lc_move_def split: if_splits)
next
  case (lc_abandon i)
  then show ?thesis using assms(2) move_active [of StateRetired i StateStaged m]
    by (auto simp: lc_ok_def) (auto simp: lc_move_def split: if_splits)
qed (auto simp: lc_ok_def)

lemma forward_refl: "lc_forward m m"
  by (auto simp: lc_forward_def)

lemma forward_trans:
  assumes "lc_forward m m'" "lc_forward m' m''"
  shows "lc_forward m m''"
  using assms unfolding lc_forward_def by (fastforce dest: order_trans)

lemma lc_step_forward:
  assumes "lc_step m m'" "lc_ok m"
  shows "lc_forward m m'"
  using assms
proof cases
  case (lc_activate i)
  have "(i, s) \<in> set m \<Longrightarrow> s = StateStaged" for s
    using assms(2) lc_activate(2) by (auto simp: lc_ok_def dest: eq_key_imp_eq_value)
  then show ?thesis by (force simp: lc_activate(1) lc_forward_def lc_promote_def)
next
  case (lc_retire i)
  then show ?thesis by (force simp: lc_forward_def lc_move_def)
next
  case (lc_abandon i)
  then show ?thesis by (force simp: lc_forward_def lc_move_def)
qed (auto simp: lc_forward_def)

lemma lc_step_has_active:
  assumes "lc_step m m'" "has_active m"
  shows "has_active m'"
  using assms by cases (force simp: has_active_def lc_promote_def lc_move_def image_iff)+

section \<open>Tables of keys\<close>

text \<open>How the statements of a registry act on the (id, state) pairs of its rows, for rows of any type.\<close>

lemma count_two:
  assumes "x \<in> set xs" "y \<in> set xs" "x \<noteq> y" "P x" "P y"
  shows "count_where P xs > 1"
proof -
  have "{x, y} \<subseteq> set (filter P xs)" using assms by auto
  then have "card {x, y} \<le> length (filter P xs)" by (meson List.finite_set card_length card_mono order_trans)
  then show ?thesis using assms(3) by (simp add: count_where_def)
qed

lemma count_update_le:
  assumes "\<forall>r\<in>set xs. P r \<longrightarrow> Q (f r) \<longrightarrow> Q r"
  shows "count_where Q (update_where P f xs) \<le> count_where Q xs"
  using assms by (induction xs) auto

lemma keys_update:
  assumes "\<And>r. P r \<Longrightarrow> rid (f r) = rid r \<and> st (f r) = st r"
  shows "map (\<lambda>r. (rid r, st r)) (update_where P f rows) = map (\<lambda>r. (rid r, st r)) rows"
  using assms by (auto simp: update_where_def)

lemma keys_restate:
  assumes "\<And>r. rid (f r) = rid r" "\<And>r. st (f r) = dst"
  shows "map (\<lambda>r. (rid r, st r)) (update_where (\<lambda>r. rid r = i \<and> st r = src) f rows) = lc_move i src dst (map (\<lambda>r. (rid r, st r)) rows)"
  using assms by (auto simp: update_where_def lc_move_def)

text \<open>
  The promotion of key \<open>i\<close> beside the demotion of the rows picked by \<open>c\<close>, a possibly stale choice: if at most one row is active
  afterwards, the outcome is the abstract promotion.
\<close>

lemma keys_promote:
  assumes "distinct (map rid rows)" "\<exists>t\<in>set rows. rid t = i \<and> st t = StateStaged"
    and g: "\<And>r. rid (g r) = rid r"
      "\<And>r. st (g r) = (if rid r = i \<and> st r = StateStaged then StateActive else if c r \<and> st r = StateActive then StateDraining else st r)"
    and "count_where (\<lambda>r. st r = StateActive) (map g rows) \<le> 1"
  shows "map (\<lambda>r. (rid r, st r)) (map g rows) = lc_promote i (map (\<lambda>r. (rid r, st r)) rows)"
proof -
  from assms(2) obtain t where t: "t \<in> set rows" "rid t = i" "st t = StateStaged" by blast
  have own: "r = t" if "r \<in> set rows" "rid r = i" for r using distinct_map_inj [OF assms(1) that(1) t(1)] that t by simp
  have keep: "st (g r) \<noteq> StateActive" if r: "r \<in> set rows" "rid r \<noteq> i" for r
  proof
    assume "st (g r) = StateActive"
    moreover have "st (g t) = StateActive" "rid (g t) = i" "rid (g r) \<noteq> i" using t r by (simp_all add: g)
    moreover from this have "g r \<noteq> g t" by metis
    ultimately have "count_where (\<lambda>r. st r = StateActive) (map g rows) > 1"
      using t(1) r(1) by (intro count_two [of "g r" _ "g t"]) auto
    with assms(5) show False by simp
  qed
  have "st (g r) = (if rid r = i then StateActive else if st r = StateActive then StateDraining else st r)" if "r \<in> set rows" for r
  proof (cases "rid r = i")
    case True
    then show ?thesis using own [OF that True] t by (simp add: g)
  next
    case False
    then show ?thesis using keep [OF that False] by (simp add: g split: if_splits)
  qed
  then show ?thesis by (simp add: lc_promote_def g(1))
qed

text \<open>
  What the two registry tables have in common: unique ids, names and fingerprints, at most one active row, columns that no
  operation writes after the insert (\<open>same\<close>), and a well-formedness of rows that the writes keep.  \<open>change\<close> lists the ways a statement
  changes the table and its id sequence: not at all, one new row, or some rows rewritten in place.
\<close>

locale key_table =
  fixes rid :: "'r \<Rightarrow> int" and rname :: "'r \<Rightarrow> string" and rfp :: "'r \<Rightarrow> string" and st :: "'r \<Rightarrow> string"
    and same :: "'r \<Rightarrow> 'r \<Rightarrow> bool" and row_ok :: "'r \<Rightarrow> bool"
  assumes same_columns: "same r r' \<Longrightarrow> rid r' = rid r \<and> rname r' = rname r \<and> rfp r' = rfp r"
    and same_refl: "same r r"
begin

definition tbl_ok :: "'r list \<times> int \<Rightarrow> bool" where
  "tbl_ok t \<longleftrightarrow> (\<forall>r\<in>set (fst t). row_ok r \<and> rid r \<le> snd t) \<and> distinct (map rid (fst t)) \<and> distinct (map rname (fst t)) \<and>
     distinct (map rfp (fst t)) \<and> count_where (\<lambda>r. st r = StateActive) (fst t) \<le> 1"

definition conflicts :: "'r \<Rightarrow> 'r \<Rightarrow> bool" where
  "conflicts row r \<longleftrightarrow> rname r = rname row \<or> rfp r = rfp row \<or> (st row = StateActive \<and> st r = StateActive)"

inductive change :: "'r list \<times> int \<Rightarrow> 'r list \<times> int \<Rightarrow> bool" where
  unchanged: "change t t"
| inserted: "\<not> list_ex (conflicts row) rows \<Longrightarrow> rid row = n + 1 \<Longrightarrow> row_ok row \<Longrightarrow> st row = StateStaged \<or> st row = StateActive \<Longrightarrow>
    change (rows, n) (rows @ [row], n + 1)"
| rewritten: "(\<And>r. r \<in> set rows \<Longrightarrow> same r (g r) \<and> (row_ok r \<longrightarrow> row_ok (g r))) \<Longrightarrow>
    count_where (\<lambda>r. st r = StateActive) (map g rows) \<le> max 1 (count_where (\<lambda>r. st r = StateActive) rows) \<Longrightarrow> change (rows, n) (map g rows, n)"

lemma tbl_change:
  assumes "change t t'" "tbl_ok t"
  shows "tbl_ok t'"
  using assms
proof cases
  case (inserted row rows n)
  have "rname row \<notin> rname ` set rows" "rfp row \<notin> rfp ` set rows"
    "st row = StateActive \<Longrightarrow> count_where (\<lambda>r. st r = StateActive) rows = 0"
    using inserted(3) unfolding count_where_0_iff by (auto simp: list_ex_iff conflicts_def)
  moreover have "rid row \<notin> rid ` set rows" using assms(2) inserted by (auto simp: tbl_ok_def)
  ultimately show ?thesis using assms(2) inserted by (fastforce simp: tbl_ok_def)
next
  case (rewritten rows g n)
  have cols: "rid (g r) = rid r" "rname (g r) = rname r" "rfp (g r) = rfp r" if "r \<in> set rows" for r
    using rewritten(3) [OF that] same_columns by auto
  then have "map rid (map g rows) = map rid rows" "map rname (map g rows) = map rname rows" "map rfp (map g rows) = map rfp rows" by auto
  then show ?thesis using assms(2) rewritten cols by (auto simp: tbl_ok_def simp del: map_map)
qed simp

lemma change_update:
  assumes "\<And>r. r \<in> set rows \<Longrightarrow> P r \<Longrightarrow> same r (f r) \<and> (row_ok r \<longrightarrow> row_ok (f r)) \<and> (st (f r) = StateActive \<longrightarrow> st r = StateActive)"
  shows "change (rows, n) (update_where P f rows, n)"
  unfolding update_where_def
proof (rule rewritten)
  show "count_where (\<lambda>r. st r = StateActive) (map (\<lambda>r. if P r then f r else r) rows) \<le> max 1 (count_where (\<lambda>r. st r = StateActive) rows)"
    using count_update_le [of rows P "\<lambda>r. st r = StateActive" f] assms by (auto simp: update_where_def)
qed (use assms same_refl in auto)


lemma change_origin:
  assumes "change t t'" "r' \<in> set (fst t')" "rid r' \<le> snd t"
  shows "\<exists>r\<in>set (fst t). same r r'"
  using assms by cases (auto intro: same_refl bexI [of _ r'])

lemma change_seq: "change t t' \<Longrightarrow> snd t \<le> snd t'"
  by (auto simp: change.simps)

lemma same_id:
  assumes "tbl_ok t" "r \<in> set (fst t)" "q \<in> set (fst t)" "rid r = rid q \<or> rfp r = rfp q"
  shows "r = q"
  using assms distinct_map_inj [of rid "fst t" r q] distinct_map_inj [of rfp "fst t" r q] by (auto simp: tbl_ok_def)

lemma one_active:
  assumes "tbl_ok t" "q \<in> set (fst t)" "r \<in> set (fst t)" "st q = StateActive" "st r = StateActive"
  shows "q = r"
  using count_two [of q "fst t" r "\<lambda>r. st r = StateActive"] assms by (force simp: tbl_ok_def)

lemma active_filter:
  assumes "tbl_ok t" "r \<in> set (fst t)" "st r = StateActive"
  shows "filter (\<lambda>r. st r = StateActive) (fst t) = [r]"
proof -
  have "length (filter (\<lambda>r. st r = StateActive) (fst t)) \<le> 1" "r \<in> set (filter (\<lambda>r. st r = StateActive) (fst t))"
    using assms by (simp_all add: tbl_ok_def count_where_def)
  then show ?thesis by (cases "filter (\<lambda>r. st r = StateActive) (fst t)") auto
qed

lemma first_active:
  assumes "tbl_ok t"
  shows "first_where (\<lambda>r. st r = StateActive) (fst t) = Some r \<longleftrightarrow> r \<in> set (fst t) \<and> st r = StateActive"
  using one_active [OF assms] first_where_None_iff [of "\<lambda>r. st r = StateActive" "fst t"]
  by (cases "first_where (\<lambda>r. st r = StateActive) (fst t)") auto

lemma keys_inserted:
  assumes "tbl_ok (rows, n)" "\<not> list_ex (conflicts row) rows" "rid row = n + 1" "st row = StateStaged \<or> st row = StateActive"
  shows "lc_step (map (\<lambda>r. (rid r, st r)) rows) (map (\<lambda>r. (rid r, st r)) (rows @ [row]))"
proof -
  have new: "n + 1 \<notin> fst ` set (map (\<lambda>r. (rid r, st r)) rows)" using assms(1) by (auto simp: tbl_ok_def)
  show ?thesis
  proof (cases "st row = StateActive")
    case True
    then have "StateActive \<notin> snd ` set (map (\<lambda>r. (rid r, st r)) rows)" using assms(2) by (auto simp: list_ex_iff conflicts_def)
    with True new assms(3) show ?thesis using lc_seed by simp
  next
    case False
    with new assms(3,4) show ?thesis using lc_stage by simp
  qed
qed

end

section \<open>The contract of a registry\<close>

locale lifecycle_impl =
  fixes keys :: "'d \<Rightarrow> lifecycle" and step :: "'d \<Rightarrow> 'd \<Rightarrow> bool" and inv :: "'d \<Rightarrow> bool"
  assumes inv_step: "inv d \<Longrightarrow> step d d' \<Longrightarrow> inv d'"
    and simulates: "inv d \<Longrightarrow> lc_ok (keys d) \<Longrightarrow> step d d' \<Longrightarrow> keys d' = keys d \<or> lc_step (keys d) (keys d')"
begin

lemma steps_keep:
  assumes "step\<^sup>*\<^sup>* d d'" "inv d" "lc_ok (keys d)"
  shows "inv d' \<and> lc_ok (keys d') \<and> lc_forward (keys d) (keys d') \<and> (has_active (keys d) \<longrightarrow> has_active (keys d'))"
  using assms
proof (induction rule: rtranclp_induct)
  case (step d1 d2)
  then have d1: "inv d1" "lc_ok (keys d1)" "lc_forward (keys d) (keys d1)" by auto
  then consider "keys d2 = keys d1" | "lc_step (keys d1) (keys d2)" using simulates step.hyps(2) by blast
  then show ?case
  proof cases
    case 1
    with d1 step show ?thesis using inv_step by auto
  next
    case 2
    then show ?thesis using d1 step inv_step lc_step_ok lc_step_forward lc_step_has_active forward_trans by blast
  qed
qed (auto simp: forward_refl)

lemma retired_is_final:
  assumes "step\<^sup>*\<^sup>* d d'" "inv d" "lc_ok (keys d)" "(i, StateRetired) \<in> set (keys d)"
  shows "(i, StateRetired) \<in> set (keys d')"
proof -
  from steps_keep [OF assms(1,2,3)] assms(4) obtain s where s: "(i, s) \<in> set (keys d')" "3 \<le> lc_rank s"
    by (auto simp: lc_forward_def)
  moreover have "lc_rank s < 4" using steps_keep [OF assms(1,2,3)] s(1) by (force simp: lc_ok_def)
  ultimately have "lc_rank s = 3" by linarith
  with s(1) show ?thesis by (simp add: lc_rank_3)
qed

end

end
