(* ===== verification/Ca_Registry.thy ===== *)
theory Ca_Registry
  imports Signer Lifecycle
begin

text \<open>
  The CA trust-root registry (internal/ca/ca.go) and the cut-over gate of \<open>harbor ca activate\<close>
  (cmd/harbor/ca_rotate.go).

  An operation that reads the registry and later writes it is the composition of a read section and a write section;
  \<open>ca_step\<close> interleaves the write sections of concurrent processes with whatever other components do to the
  enrollments and heartbeats, so a write may rest on a read that is out of date.  \<open>Create\<close> and the promotion check the unique
  indexes of migration 000032.  The certificate library is the parameter \<open>nebula_lib\<close>, the decoder of a heartbeat's
  JSON list is \<open>unjson\<close>, and a custody backend is a \<open>key_deleter\<close> over its own state.
\<close>

datatype ca_err =
    CaNotFound | CaInvalidCert | CaDuplicate | CaEmptyName | CaIllegalTransition string | CaHasDependents nat | CaNoActive
  | CaDb | CaWindow | CaNoDeleter | CaPendingDays int | CaNoKey | CaAlreadyScheduled | CaNotScheduled | CaBackend
  | CaPersist bool | CaRaced bool | CaNoId | CaNotAdopted nat nat "string list"

record CA =
  ca_id :: int
  ca_name :: string
  ca_fp :: string
  ca_pem :: string
  ca_kms :: string
  ca_state :: string
  ca_not_after :: time_ns
  ca_created_by :: string
  ca_created :: time_ns
  ca_updated :: time_ns
  ca_renew_started :: time_ns
  ca_renew_window :: int
  ca_del_at :: time_ns
  ca_del_date :: time_ns

record enr_row =
  er_ip :: string
  er_ca_fp :: string
  er_pem :: string
  er_status :: string

record beat_row =
  br_ip :: string
  br_seen :: time_ns
  br_trusted :: string
  br_not_after :: time_ns

record ca_db =
  cd_cas :: "CA list"
  cd_seq :: int
  cd_enrollments :: "enr_row list"
  cd_beats :: "beat_row list"
  cd_audit :: "audit_note list"

definition ca_recordAudit :: "bool \<Rightarrow> audit_note \<Rightarrow> ca_db \<Rightarrow> ca_db" where
  "ca_recordAudit lost r d = (if lost then d else d\<lparr>cd_audit := cd_audit d @ [r]\<rparr>)"

definition ca_target :: "int \<Rightarrow> string" where
  "ca_target i = ''id='' @ show_int i"

definition parseCA :: "nebula_lib \<Rightarrow> string \<Rightarrow> ca_err + string \<times> time_ns" where
  "parseCA lib pem = (case nl_parse lib pem of
     None \<Rightarrow> Inl CaInvalidCert
   | Some c \<Rightarrow> if \<not> ct_is_ca c then Inl CaInvalidCert
               else if ct_curve c \<noteq> Curve_P256 then Inl CaInvalidCert
               else Inr (nl_fingerprint lib c, ct_not_after c))"

text \<open>\<open>Create\<close>: the unique columns and the partial index that allows one active row.\<close>

definition ca_conflicts :: "CA \<Rightarrow> CA \<Rightarrow> bool" where
  "ca_conflicts row r \<longleftrightarrow> ca_name r = ca_name row \<or> ca_fp r = ca_fp row \<or> (ca_state row = StateActive \<and> ca_state r = StateActive)"

definition ca_create :: "bool \<Rightarrow> CA \<Rightarrow> ca_db \<Rightarrow> (ca_err + CA) \<times> ca_db" where
  "ca_create fails row d =
     (if fails then (Inl CaDb, d)
      else if list_ex (ca_conflicts row) (cd_cas d) then (Inl CaDuplicate, d)
      else let row' = row\<lparr>ca_id := cd_seq d + 1\<rparr> in (Inr row', d\<lparr>cd_cas := cd_cas d @ [row'], cd_seq := cd_seq d + 1\<rparr>))"

definition new_ca :: "string \<Rightarrow> string \<Rightarrow> string \<Rightarrow> string \<Rightarrow> string \<Rightarrow> time_ns \<Rightarrow> string \<Rightarrow> time_ns \<Rightarrow> CA" where
  "new_ca name fp pem kms st not_after actor now =
     \<lparr>ca_id = 0, ca_name = name, ca_fp = fp, ca_pem = pem, ca_kms = kms, ca_state = st, ca_not_after = not_after, ca_created_by = actor,
      ca_created = now, ca_updated = now, ca_renew_started = 0, ca_renew_window = 0, ca_del_at = 0, ca_del_date = 0\<rparr>"

definition ca_Stage ::
  "nebula_lib \<Rightarrow> faults \<Rightarrow> time_ns \<Rightarrow> string \<Rightarrow> string \<Rightarrow> string \<Rightarrow> string \<Rightarrow> ca_db \<Rightarrow> (ca_err + CA) \<times> ca_db" where
  "ca_Stage lib flt now name pem kms actor d =
     (if name = '''' then (Inl CaEmptyName, d)
      else case parseCA lib pem of
        Inl e \<Rightarrow> (Inl e, d)
      | Inr (fp, not_after) \<Rightarrow> (case ca_create (flt 0) (new_ca name fp pem kms StateStaged not_after actor now) d of
          (Inl e, d) \<Rightarrow> (Inl e, d)
        | (Inr row, d) \<Rightarrow> (Inr row, ca_recordAudit (flt 1) (actor, ''ca-stage'', name) d)))"

section \<open>Transitions\<close>

definition ca_set :: "int \<Rightarrow> string \<Rightarrow> (CA \<Rightarrow> CA) \<Rightarrow> ca_db \<Rightarrow> ca_db" where
  "ca_set i st f d = d\<lparr>cd_cas := update_where (\<lambda>r. ca_id r = i \<and> ca_state r = st) f (cd_cas d)\<rparr>"

definition ca_matches :: "int \<Rightarrow> string \<Rightarrow> ca_db \<Rightarrow> bool" where
  "ca_matches i st d \<longleftrightarrow> count_where (\<lambda>r. ca_id r = i \<and> ca_state r = st) (cd_cas d) \<noteq> 0"

definition ca_restate :: "time_ns \<Rightarrow> string \<Rightarrow> CA \<Rightarrow> CA" where
  "ca_restate now st r = r\<lparr>ca_state := st, ca_updated := now\<rparr>"

text \<open>The reads of the Activate transaction: the staged target and the currently active row.\<close>

definition activate_read :: "faults \<Rightarrow> int \<Rightarrow> ca_db \<Rightarrow> ca_err + CA option" where
  "activate_read flt i d =
     (if flt 0 then Inl CaDb
      else case first_where (\<lambda>r. ca_id r = i) (cd_cas d) of
        None \<Rightarrow> Inl CaNotFound
      | Some target \<Rightarrow>
          if ca_state target \<noteq> StateStaged then Inl (CaIllegalTransition (ca_state target))
          else if flt 1 then Inl CaDb
          else Inr (first_where (\<lambda>r. ca_state r = StateActive) (cd_cas d)))"

text \<open>
  Its writes, with the commit: a violated unique index or an error rolls the whole transaction back.
\<close>

definition activate_write :: "faults \<Rightarrow> time_ns \<Rightarrow> CA option \<Rightarrow> int \<Rightarrow> ca_db \<Rightarrow> ca_err option \<times> ca_db" where
  "activate_write flt now cur i d =
     (if cur \<noteq> None \<and> flt 2 then (Some CaDb, d)
      else let d1 = (case cur of None \<Rightarrow> d | Some c \<Rightarrow> ca_set (ca_id c) StateActive (ca_restate now StateDraining) d) in
        if flt 3 then (Some CaDb, d)
        else if \<not> ca_matches i StateStaged d1 then (Some (CaIllegalTransition StateStaged), d)
        else let d2 = ca_set i StateStaged (ca_restate now StateActive) d1 in
          if count_where (\<lambda>r. ca_state r = StateActive) (cd_cas d2) > 1 \<or> flt 4 then (Some CaDb, d)
          else (None, d2))"

definition ca_Activate :: "faults \<Rightarrow> time_ns \<Rightarrow> int \<Rightarrow> string \<Rightarrow> ca_db \<Rightarrow> ca_err option \<times> ca_db" where
  "ca_Activate flt now i actor d = (case activate_read flt i d of
     Inl e \<Rightarrow> (Some e, d)
   | Inr cur \<Rightarrow> (case activate_write flt now cur i d of
       (Some e, d) \<Rightarrow> (Some e, d)
     | (None, d) \<Rightarrow> (None, ca_recordAudit (flt 5) (actor, ''ca-activate'', ca_target i) d)))"

definition ca_Get :: "bool \<Rightarrow> int \<Rightarrow> ca_db \<Rightarrow> ca_err + CA" where
  "ca_Get fails i d = (if fails then Inl CaDb else case first_where (\<lambda>r. ca_id r = i) (cd_cas d) of
     None \<Rightarrow> Inl CaNotFound
   | Some r \<Rightarrow> Inr r)"

text \<open>
  The CA of an issued leaf: the stored fingerprint of the current leaf, or the issuer of the certificate of
  a row that has none.
\<close>

definition leaf_ca :: "nebula_lib \<Rightarrow> enr_row \<Rightarrow> string option" where
  "leaf_ca lib e = (let fp = ToLower (TrimSpace (er_ca_fp e)) in
     if fp \<noteq> '''' then Some fp
     else case nl_parse lib (er_pem e) of None \<Rightarrow> None | Some c \<Rightarrow> Some (ToLower (TrimSpace (ct_issuer c))))"

definition leaf_expiry :: "nebula_lib \<Rightarrow> beat_row list \<Rightarrow> enr_row \<Rightarrow> time_ns" where
  "leaf_expiry lib beats e =
     (let frozen = (case nl_parse lib (er_pem e) of None \<Rightarrow> 0 | Some c \<Rightarrow> ct_not_after c) in
      case first_where (\<lambda>h. br_ip h = er_ip e) (rev beats) of
        None \<Rightarrow> frozen
      | Some h \<Rightarrow> if br_not_after h > 0 then br_not_after h else frozen)"

definition LiveDependents :: "nebula_lib \<Rightarrow> faults \<Rightarrow> time_ns \<Rightarrow> string \<Rightarrow> ca_db \<Rightarrow> ca_err + nat" where
  "LiveDependents lib flt now fp d =
     (if flt 0 \<or> flt 1 then Inl CaDb
      else Inr (count_where (\<lambda>e. er_status e = ''issued'' \<and> leaf_ca lib e = Some (ToLower (TrimSpace fp)) \<and>
                                leaf_expiry lib (cd_beats d) e > now) (cd_enrollments d)))"

definition retire_read :: "nebula_lib \<Rightarrow> faults \<Rightarrow> time_ns \<Rightarrow> int \<Rightarrow> ca_db \<Rightarrow> ca_err option" where
  "retire_read lib flt now i d = (case ca_Get (flt 0) i d of
     Inl e \<Rightarrow> Some e
   | Inr target \<Rightarrow>
       if ca_state target \<noteq> StateDraining then Some (CaIllegalTransition (ca_state target))
       else case LiveDependents lib (skip_faults 1 flt) now (ca_fp target) d of
         Inl e \<Rightarrow> Some e
       | Inr deps \<Rightarrow> if deps > 0 then Some (CaHasDependents deps) else None)"

definition retire_write :: "faults \<Rightarrow> time_ns \<Rightarrow> int \<Rightarrow> string \<Rightarrow> ca_db \<Rightarrow> ca_err option \<times> ca_db" where
  "retire_write flt now i actor d =
     (if flt 3 then (Some CaDb, d)
      else if \<not> ca_matches i StateDraining d then (Some (CaIllegalTransition StateDraining), d)
      else (None, ca_recordAudit (flt 4) (actor, ''ca-retire'', ca_target i) (ca_set i StateDraining (ca_restate now StateRetired) d)))"

definition ca_Retire :: "nebula_lib \<Rightarrow> faults \<Rightarrow> time_ns \<Rightarrow> int \<Rightarrow> string \<Rightarrow> ca_db \<Rightarrow> ca_err option \<times> ca_db" where
  "ca_Retire lib flt now i actor d = (case retire_read lib flt now i d of
     Some e \<Rightarrow> (Some e, d)
   | None \<Rightarrow> retire_write flt now i actor d)"

definition ca_Abandon :: "faults \<Rightarrow> time_ns \<Rightarrow> int \<Rightarrow> string \<Rightarrow> ca_db \<Rightarrow> ca_err option \<times> ca_db" where
  "ca_Abandon flt now i actor d =
     (if flt 0 then (Some CaDb, d)
      else if \<not> ca_matches i StateStaged d then
        (if \<not> flt 1 \<and> first_where (\<lambda>r. ca_id r = i) (cd_cas d) = None then (Some CaNotFound, d) else (Some (CaIllegalTransition ''''), d))
      else (None, ca_recordAudit (flt 1) (actor, ''ca-abandon'', ca_target i) (ca_set i StateStaged (ca_restate now StateRetired) d)))"

section \<open>Reading\<close>

definition ca_Active :: "bool \<Rightarrow> ca_db \<Rightarrow> ca_err + CA" where
  "ca_Active fails d = (if fails then Inl CaDb else case first_where (\<lambda>r. ca_state r = StateActive) (cd_cas d) of
     None \<Rightarrow> Inl CaNoActive
   | Some r \<Rightarrow> Inr r)"

definition ca_ActiveFingerprint :: "bool \<Rightarrow> ca_db \<Rightarrow> ca_err + string" where
  "ca_ActiveFingerprint fails d = (case ca_Active fails d of
     Inr c \<Rightarrow> Inr (ca_fp c)
   | Inl e \<Rightarrow> if e = CaNoActive then Inr '''' else Inl e)"

definition TrustBundle :: "bool \<Rightarrow> ca_db \<Rightarrow> ca_err + string list" where
  "TrustBundle fails d =
     (if fails then Inl CaDb
      else Inr (sort_strings (map ca_pem (sort_key ca_fp (filter (\<lambda>r. ca_state r \<noteq> StateRetired) (cd_cas d))))))"

definition ca_List :: "bool \<Rightarrow> ca_db \<Rightarrow> ca_err + CA list" where
  "ca_List fails d = (if fails then Inl CaDb else Inr (rev (cd_cas d)))"

section \<open>The boot seed\<close>

definition zero_ca :: CA where
  "zero_ca = new_ca '''' '''' '''' '''' '''' 0 '''' 0"

definition activeOrEmpty :: "bool \<Rightarrow> ca_db \<Rightarrow> CA" where
  "activeOrEmpty fails d = (case ca_Active fails d of Inr r \<Rightarrow> r | Inl _ \<Rightarrow> zero_ca)"

definition seed_write ::
  "faults \<Rightarrow> time_ns \<Rightarrow> string \<Rightarrow> string \<Rightarrow> time_ns \<Rightarrow> string \<Rightarrow> string \<Rightarrow> string \<Rightarrow> ca_db \<Rightarrow> (ca_err + CA \<times> bool) \<times> ca_db" where
  "seed_write flt now name fp not_after pem kms actor d =
     (case ca_create (flt 1) (new_ca name fp pem kms StateActive not_after actor now) d of
        (Inl e, d) \<Rightarrow> if e = CaDuplicate then (Inr (activeOrEmpty (flt 2) d, False), d) else (Inl e, d)
      | (Inr row, d) \<Rightarrow> (Inr (row, True), ca_recordAudit (flt 2) (actor, ''ca-seed-active'', name) d))"

definition ca_SeedActive ::
  "nebula_lib \<Rightarrow> faults \<Rightarrow> time_ns \<Rightarrow> string \<Rightarrow> string \<Rightarrow> string \<Rightarrow> string \<Rightarrow> ca_db \<Rightarrow> (ca_err + CA \<times> bool) \<times> ca_db" where
  "ca_SeedActive lib flt now name pem kms actor d = (case parseCA lib pem of
     Inl e \<Rightarrow> (Inl e, d)
   | Inr (fp, not_after) \<Rightarrow>
       if flt 0 then (Inl CaDb, d)
       else if cd_cas d \<noteq> [] then (Inr (activeOrEmpty (flt 1) d, False), d)
       else seed_write flt now name fp not_after pem kms actor d)"

section \<open>Adoption\<close>

record adoption =
  ad_fp :: string
  ad_live :: nat
  ad_adopted :: nat
  ad_laggards :: "string list"
  ad_stale :: "string list"

definition FullyAdopted :: "adoption \<Rightarrow> bool" where
  "FullyAdopted a \<longleftrightarrow> length (ad_laggards a) = 0"

definition containsFold :: "string list \<Rightarrow> string \<Rightarrow> bool" where
  "containsFold fps fp \<longleftrightarrow> list_ex (\<lambda>x. ToLower (TrimSpace x) = fp) fps"

definition beat_live :: "time_ns \<Rightarrow> int \<Rightarrow> beat_row \<Rightarrow> bool" where
  "beat_live now staleAfter h \<longleftrightarrow> staleAfter \<le> 0 \<or> \<not> br_seen h < now - staleAfter"

fun adoption_loop :: "(string \<Rightarrow> string list) \<Rightarrow> time_ns \<Rightarrow> int \<Rightarrow> beat_row list \<Rightarrow> adoption \<Rightarrow> adoption" where
  "adoption_loop unjson now staleAfter [] a = a"
| "adoption_loop unjson now staleAfter (h # hs) a =
     adoption_loop unjson now staleAfter hs
       (if \<not> beat_live now staleAfter h then a\<lparr>ad_stale := ad_stale a @ [br_ip h]\<rparr>
        else let a = a\<lparr>ad_live := ad_live a + 1\<rparr> in
          if containsFold (unjson (br_trusted h)) (ad_fp a) then a\<lparr>ad_adopted := ad_adopted a + 1\<rparr>
          else a\<lparr>ad_laggards := ad_laggards a @ [br_ip h]\<rparr>)"

definition ca_AdoptionStatus ::
  "(string \<Rightarrow> string list) \<Rightarrow> bool \<Rightarrow> time_ns \<Rightarrow> string \<Rightarrow> int \<Rightarrow> ca_db \<Rightarrow> ca_err + adoption" where
  "ca_AdoptionStatus unjson fails now fp staleAfter d =
     (if fails then Inl CaDb
      else let a = adoption_loop unjson now staleAfter (cd_beats d)
             \<lparr>ad_fp = ToLower (TrimSpace fp), ad_live = 0, ad_adopted = 0, ad_laggards = [], ad_stale = []\<rparr> in
        Inr (a\<lparr>ad_laggards := sort_strings (ad_laggards a), ad_stale := sort_strings (ad_stale a)\<rparr>))"

definition adoptionGate :: "adoption \<Rightarrow> bool \<Rightarrow> ca_err option" where
  "adoptionGate ad force =
     (if FullyAdopted ad \<or> force then None else Some (CaNotAdopted (ad_adopted ad) (ad_live ad) (ad_laggards ad)))"

definition cmdCA_activate ::
  "(string \<Rightarrow> string list) \<Rightarrow> faults \<Rightarrow> time_ns \<Rightarrow> int \<Rightarrow> bool \<Rightarrow> int \<Rightarrow> string \<Rightarrow> ca_db \<Rightarrow> ca_err option \<times> ca_db" where
  "cmdCA_activate unjson flt now i force staleAfter actor d =
     (if i = 0 then (Some CaNoId, d)
      else case ca_Get (flt 0) i d of
        Inl e \<Rightarrow> (Some e, d)
      | Inr target \<Rightarrow> (case ca_AdoptionStatus unjson (flt 1) now (ca_fp target) staleAfter d of
          Inl e \<Rightarrow> (Some e, d)
        | Inr ad \<Rightarrow> (case adoptionGate ad force of
            Some e \<Rightarrow> (Some e, d)
          | None \<Rightarrow> ca_Activate (skip_faults 2 flt) now i actor d)))"

section \<open>Accelerated drain\<close>

definition renew_write :: "faults \<Rightarrow> time_ns \<Rightarrow> int \<Rightarrow> int \<Rightarrow> string \<Rightarrow> ca_db \<Rightarrow> ca_err option \<times> ca_db" where
  "renew_write flt now i window actor d =
     (if flt 1 then (Some CaDb, d)
      else if \<not> ca_matches i StateDraining d then (Some (CaIllegalTransition StateDraining), d)
      else (None, ca_recordAudit (flt 2) (actor, ''ca-force-renew'', ca_target i)
        (ca_set i StateDraining (\<lambda>r. r\<lparr>ca_renew_started := now, ca_renew_window := window, ca_updated := now\<rparr>) d)))"

definition ForceRenew :: "faults \<Rightarrow> time_ns \<Rightarrow> int \<Rightarrow> int \<Rightarrow> string \<Rightarrow> ca_db \<Rightarrow> ca_err option \<times> ca_db" where
  "ForceRenew flt now i window actor d =
     (if window \<le> 0 then (Some CaWindow, d)
      else case ca_Get (flt 0) i d of
        Inl e \<Rightarrow> (Some e, d)
      | Inr target \<Rightarrow>
          if ca_state target \<noteq> StateDraining then (Some (CaIllegalTransition (ca_state target)), d)
          else renew_write flt now i window actor d)"

definition StopForceRenew :: "faults \<Rightarrow> time_ns \<Rightarrow> int \<Rightarrow> string \<Rightarrow> ca_db \<Rightarrow> ca_err option \<times> ca_db" where
  "StopForceRenew flt now i actor d =
     (if flt 0 then (Some CaDb, d)
      else if count_where (\<lambda>r. ca_id r = i) (cd_cas d) = 0 then (Some CaNotFound, d)
      else (None, ca_recordAudit (flt 1) (actor, ''ca-force-renew-stop'', ca_target i)
        (d\<lparr>cd_cas := update_where (\<lambda>r. ca_id r = i) (\<lambda>r. r\<lparr>ca_renew_started := 0, ca_renew_window := 0, ca_updated := now\<rparr>) (cd_cas d)\<rparr>)))"

definition DrainWave :: "bool \<Rightarrow> string \<Rightarrow> ca_db \<Rightarrow> ca_err + int \<times> int \<times> bool" where
  "DrainWave fails fp0 d = (let fp = ToLower (TrimSpace fp0) in
     if fp = '''' then Inr (0, 0, False)
     else if fails then Inl CaDb
     else case first_where (\<lambda>r. ca_fp r = fp) (cd_cas d) of
       None \<Rightarrow> Inr (0, 0, False)
     | Some c \<Rightarrow> if ca_state c \<noteq> StateDraining \<or> ca_renew_started c = 0 \<or> ca_renew_window c \<le> 0 then Inr (0, 0, False)
                 else Inr (ca_renew_started c, ca_renew_window c, True))"

section \<open>Deletion of the signing key\<close>

record 'k key_deleter =
  kd_schedule :: "string \<Rightarrow> int \<Rightarrow> 'k \<Rightarrow> time_ns option \<times> 'k"
  kd_cancel :: "string \<Rightarrow> 'k \<Rightarrow> bool \<times> 'k"

definition NoopKeyDeleter :: "time_ns \<Rightarrow> 'k key_deleter" where
  "NoopKeyDeleter now = \<lparr>kd_schedule = (\<lambda>_ days k. (Some (now + days * 24 * 3600 * 1000000000), k)), kd_cancel = (\<lambda>_ k. (True, k))\<rparr>"

definition schedule_read :: "nebula_lib \<Rightarrow> faults \<Rightarrow> time_ns \<Rightarrow> int \<Rightarrow> ca_db \<Rightarrow> ca_err + string" where
  "schedule_read lib flt now i d = (case ca_Get (flt 0) i d of
     Inl e \<Rightarrow> Inl e
   | Inr target \<Rightarrow>
       if ca_state target \<noteq> StateRetired then Inl (CaIllegalTransition (ca_state target))
       else if TrimSpace (ca_kms target) = '''' then Inl CaNoKey
       else if ca_del_at target \<noteq> 0 then Inl CaAlreadyScheduled
       else case LiveDependents lib (skip_faults 1 flt) now (ca_fp target) d of
         Inl e \<Rightarrow> Inl e
       | Inr deps \<Rightarrow> if deps > 0 then Inl (CaHasDependents deps) else Inr (ca_kms target))"

definition schedule_write :: "bool \<Rightarrow> time_ns \<Rightarrow> int \<Rightarrow> time_ns \<Rightarrow> ca_db \<Rightarrow> bool \<times> ca_db" where
  "schedule_write fails now i del_date d =
     (let P = (\<lambda>r. ca_id r = i \<and> ca_state r = StateRetired \<and> ca_del_at r = 0) in
      if fails \<or> count_where P (cd_cas d) = 0 then (False, d)
      else (True, d\<lparr>cd_cas := update_where P (\<lambda>r. r\<lparr>ca_del_at := now, ca_del_date := del_date, ca_updated := now\<rparr>) (cd_cas d)\<rparr>))"

definition ScheduleKeyDeletion ::
  "nebula_lib \<Rightarrow> 'k key_deleter option \<Rightarrow> faults \<Rightarrow> time_ns \<Rightarrow> int \<Rightarrow> int \<Rightarrow> string \<Rightarrow> 'k \<times> ca_db \<Rightarrow>
   (ca_err + time_ns) \<times> 'k \<times> ca_db" where
  "ScheduleKeyDeletion lib del flt now i days actor = (\<lambda>(k, d). case del of
     None \<Rightarrow> (Inl CaNoDeleter, k, d)
   | Some kd \<Rightarrow>
       if days < 7 \<or> days > 30 then (Inl (CaPendingDays days), k, d)
       else case schedule_read lib flt now i d of
         Inl e \<Rightarrow> (Inl e, k, d)
       | Inr key \<Rightarrow> (case kd_schedule kd key days k of
           (None, k) \<Rightarrow> (Inl CaBackend, k, d)
         | (Some del_date, k) \<Rightarrow> (case schedule_write (flt 3) now i del_date d of
             (True, d) \<Rightarrow> (Inr del_date, k, ca_recordAudit (flt 4) (actor, ''ca-key-deletion-scheduled'', ca_target i) d)
           | (False, d) \<Rightarrow> (let (ok, k) = kd_cancel kd key k in (Inl (if flt 3 then CaPersist ok else CaRaced ok), k, d)))))"

definition cancel_write :: "faults \<Rightarrow> time_ns \<Rightarrow> int \<Rightarrow> string \<Rightarrow> ca_db \<Rightarrow> ca_err option \<times> ca_db" where
  "cancel_write flt now i actor d =
     (if flt 1 then (Some CaDb, d)
      else if count_where (\<lambda>r. ca_id r = i) (cd_cas d) = 0 then (Some CaNotFound, d)
      else (None, ca_recordAudit (flt 2) (actor, ''ca-key-deletion-cancelled'', ca_target i)
        (d\<lparr>cd_cas := update_where (\<lambda>r. ca_id r = i) (\<lambda>r. r\<lparr>ca_del_at := 0, ca_del_date := 0, ca_updated := now\<rparr>) (cd_cas d)\<rparr>)))"

definition CancelKeyDeletion ::
  "'k key_deleter option \<Rightarrow> faults \<Rightarrow> time_ns \<Rightarrow> int \<Rightarrow> string \<Rightarrow> 'k \<times> ca_db \<Rightarrow> ca_err option \<times> 'k \<times> ca_db" where
  "CancelKeyDeletion del flt now i actor = (\<lambda>(k, d). case del of
     None \<Rightarrow> (Some CaNoDeleter, k, d)
   | Some kd \<Rightarrow> (case ca_Get (flt 0) i d of
       Inl e \<Rightarrow> (Some e, k, d)
     | Inr target \<Rightarrow>
         if ca_del_at target = 0 then (Some CaNotScheduled, k, d)
         else case kd_cancel kd (ca_kms target) k of
           (False, k) \<Rightarrow> (Some CaBackend, k, d)
         | (True, k) \<Rightarrow> (let (e, d) = cancel_write flt now i actor d in (e, k, d))))"

definition PendingKeyDeletions :: "bool \<Rightarrow> ca_db \<Rightarrow> ca_err + CA list" where
  "PendingKeyDeletions fails d = (if fails then Inl CaDb else Inr (sort_key ca_del_date (filter (\<lambda>r. ca_del_at r > 0) (cd_cas d))))"

section \<open>Concurrent processes\<close>

text \<open>A call between its read section and its write section, with what it carries from one to the other.\<close>

datatype ca_call =
    CActivate "CA option" int | CRetire int | CRenew int int | CSchedule int | CCancel int
  | CSeed string string time_ns string string

definition ca_read :: "nebula_lib \<Rightarrow> faults \<Rightarrow> time_ns \<Rightarrow> ca_call \<Rightarrow> ca_db \<Rightarrow> bool" where
  "ca_read lib flt now c d = (case c of
     CActivate cur i \<Rightarrow> activate_read flt i d = Inr cur
   | CRetire i \<Rightarrow> retire_read lib flt now i d = None
   | CRenew i window \<Rightarrow> window > 0 \<and> (case ca_Get (flt 0) i d of Inl _ \<Rightarrow> False | Inr r \<Rightarrow> ca_state r = StateDraining)
   | CSchedule i \<Rightarrow> (case schedule_read lib flt now i d of Inl _ \<Rightarrow> False | Inr _ \<Rightarrow> True)
   | CCancel i \<Rightarrow> (case ca_Get (flt 0) i d of Inl _ \<Rightarrow> False | Inr r \<Rightarrow> ca_del_at r \<noteq> 0)
   | CSeed name fp not_after pem kms \<Rightarrow> parseCA lib pem = Inr (fp, not_after) \<and> \<not> flt 0 \<and> cd_cas d = [])"

definition ca_write :: "faults \<Rightarrow> time_ns \<Rightarrow> time_ns \<Rightarrow> string \<Rightarrow> ca_call \<Rightarrow> ca_db \<Rightarrow> ca_db" where
  "ca_write flt now del_date actor c d = (case c of
     CActivate cur i \<Rightarrow> snd (activate_write flt now cur i d)
   | CRetire i \<Rightarrow> snd (retire_write flt now i actor d)
   | CRenew i window \<Rightarrow> snd (renew_write flt now i window actor d)
   | CSchedule i \<Rightarrow> snd (schedule_write (flt 3) now i del_date d)
   | CCancel i \<Rightarrow> snd (cancel_write flt now i actor d)
   | CSeed name fp not_after pem kms \<Rightarrow> snd (seed_write flt now name fp not_after pem kms actor d))"

record ca_sys =
  cs_db :: ca_db
  cs_calls :: "ca_call list"

inductive ca_step :: "nebula_lib \<Rightarrow> ca_sys \<Rightarrow> ca_sys \<Rightarrow> bool" for lib where
  do_stage: "ca_step lib s (s\<lparr>cs_db := snd (ca_Stage lib flt now name pem kms actor (cs_db s))\<rparr>)"
| do_abandon: "ca_step lib s (s\<lparr>cs_db := snd (ca_Abandon flt now i actor (cs_db s))\<rparr>)"
| do_stop: "ca_step lib s (s\<lparr>cs_db := snd (StopForceRenew flt now i actor (cs_db s))\<rparr>)"
| do_read: "ca_read lib flt now c (cs_db s) \<Longrightarrow> ca_step lib s (s\<lparr>cs_calls := c # cs_calls s\<rparr>)"
| do_write: "c \<in> set (cs_calls s) \<Longrightarrow>
    ca_step lib s \<lparr>cs_db = ca_write flt now del_date actor c (cs_db s), cs_calls = remove1 c (cs_calls s)\<rparr>"
| do_other: "cd_cas d = cd_cas (cs_db s) \<Longrightarrow> cd_seq d = cd_seq (cs_db s) \<Longrightarrow> ca_step lib s (s\<lparr>cs_db := d\<rparr>)"

definition ca_fresh :: "ca_sys \<Rightarrow> bool" where
  "ca_fresh s \<longleftrightarrow> cd_cas (cs_db s) = [] \<and> cs_calls s = []"

definition ca_keys :: "ca_sys \<Rightarrow> lifecycle" where
  "ca_keys s = map (\<lambda>r. (ca_id r, ca_state r)) (cd_cas (cs_db s))"

text \<open>What a row always is: a P256 CA certificate with its own fingerprint and expiry, in one of the four states.\<close>

definition ca_row_ok :: "nebula_lib \<Rightarrow> CA \<Rightarrow> bool" where
  "ca_row_ok lib r \<longleftrightarrow> parseCA lib (ca_pem r) = Inr (ca_fp r, ca_not_after r) \<and>
     ca_state r \<in> {StateStaged, StateActive, StateDraining, StateRetired} \<and>
     (ca_renew_started r \<noteq> 0 \<or> ca_renew_window r \<noteq> 0 \<longrightarrow> ca_renew_window r > 0 \<and> ca_state r \<in> {StateDraining, StateRetired}) \<and>
     (ca_del_at r \<noteq> 0 \<longrightarrow> ca_state r = StateRetired \<and> TrimSpace (ca_kms r) \<noteq> '''')"

definition ca_typed :: "nebula_lib \<Rightarrow> ca_db \<Rightarrow> bool" where
  "ca_typed lib d \<longleftrightarrow> (\<forall>r\<in>set (cd_cas d). ca_row_ok lib r \<and> ca_id r \<le> cd_seq d) \<and>
     distinct (map ca_id (cd_cas d)) \<and> distinct (map ca_name (cd_cas d)) \<and> distinct (map ca_fp (cd_cas d)) \<and>
     count_where (\<lambda>r. ca_state r = StateActive) (cd_cas d) \<le> 1"

definition call_ok :: "nebula_lib \<Rightarrow> ca_db \<Rightarrow> ca_call \<Rightarrow> bool" where
  "call_ok lib d c = (case c of
     CRenew i window \<Rightarrow> window > 0
   | CSchedule i \<Rightarrow> (\<forall>r\<in>set (cd_cas d). ca_id r = i \<longrightarrow> TrimSpace (ca_kms r) \<noteq> '''') \<and> i \<le> cd_seq d
   | CSeed name fp not_after pem kms \<Rightarrow> parseCA lib pem = Inr (fp, not_after)
   | _ \<Rightarrow> True)"

definition ca_inv :: "nebula_lib \<Rightarrow> ca_sys \<Rightarrow> bool" where
  "ca_inv lib s \<longleftrightarrow> ca_typed lib (cs_db s) \<and> (\<forall>c\<in>set (cs_calls s). call_ok lib (cs_db s) c)"

section \<open>The registry stays well formed\<close>

text \<open>The columns no operation writes after the insert.\<close>

definition same_ca :: "CA \<Rightarrow> CA \<Rightarrow> bool" where
  "same_ca r r' \<longleftrightarrow> ca_id r' = ca_id r \<and> ca_name r' = ca_name r \<and> ca_fp r' = ca_fp r \<and> ca_pem r' = ca_pem r \<and>
     ca_kms r' = ca_kms r \<and> ca_not_after r' = ca_not_after r"

interpretation caT: key_table ca_id ca_name ca_fp ca_state same_ca "ca_row_ok lib" for lib
  by unfold_locales (auto simp: same_ca_def)

abbreviation ca_tab :: "ca_db \<Rightarrow> CA list \<times> int" where
  "ca_tab d \<equiv> (cd_cas d, cd_seq d)"

lemma ca_typed_tbl: "ca_typed lib d \<longleftrightarrow> caT.tbl_ok lib (ca_tab d)"
  by (simp add: ca_typed_def caT.tbl_ok_def)

lemma ca_conflicts_tbl: "ca_conflicts = caT.conflicts"
  by (simp add: fun_eq_iff ca_conflicts_def caT.conflicts_def)

lemma ca_audit_sel [simp]: "cd_cas (ca_recordAudit x n d) = cd_cas d" "cd_seq (ca_recordAudit x n d) = cd_seq d"
  by (simp_all add: ca_recordAudit_def)

lemma new_ca_state [simp]: "ca_state (new_ca name fp pem kms st na actor now) = st"
  by (simp add: new_ca_def)

lemma new_ca_ok:
  assumes "parseCA lib pem = Inr (fp, na)" "st = StateStaged \<or> st = StateActive"
  shows "ca_row_ok lib (new_ca name fp pem kms st na actor now\<lparr>ca_id := i\<rparr>)"
  using assms by (auto simp: ca_row_ok_def new_ca_def)

lemma create_cases:
  assumes "ca_create fails row d = (x, d')"
  obtains "d' = d" | "ca_tab d' = (cd_cas d @ [row\<lparr>ca_id := cd_seq d + 1\<rparr>], cd_seq d + 1)" "\<not> list_ex (caT.conflicts (row\<lparr>ca_id := cd_seq d + 1\<rparr>)) (cd_cas d)"
  using assms by (auto simp: ca_create_def Let_def ca_conflicts_tbl [symmetric] ca_conflicts_def list_ex_iff split: if_splits)

lemma change_create:
  assumes "ca_create fails (new_ca name fp pem kms st na actor now) d = (x, d')" "parseCA lib pem = Inr (fp, na)" "st = StateStaged \<or> st = StateActive"
  shows "caT.change lib (ca_tab d) (ca_tab d')"
  using assms(1)
proof (cases rule: create_cases)
  case 2
  then show ?thesis using caT.inserted [OF 2(2)] new_ca_ok [OF assms(2,3)] assms(3) by simp
qed (simp add: caT.unchanged)

lemma change_Stage: "caT.change lib (ca_tab d) (ca_tab (snd (ca_Stage lib flt now name pem kms actor d)))"
proof (cases "name = '''' \<or> (\<exists>e. parseCA lib pem = Inl e)")
  case False
  then obtain fp na where p: "parseCA lib pem = Inr (fp, na)" "name \<noteq> ''''" by (cases "parseCA lib pem") auto
  obtain x d' where c: "ca_create (flt 0) (new_ca name fp pem kms StateStaged na actor now) d = (x, d')" by fastforce
  from change_create [OF c p(1)] p c show ?thesis by (cases x) (auto simp: ca_Stage_def)
qed (auto simp: ca_Stage_def intro: caT.unchanged)

lemma change_seed:
  assumes "parseCA lib pem = Inr (fp, na)"
  shows "caT.change lib (ca_tab d) (ca_tab (snd (seed_write flt now name fp na pem kms actor d)))"
proof -
  obtain x d' where c: "ca_create (flt 1) (new_ca name fp pem kms StateActive na actor now) d = (x, d')" by fastforce
  from change_create [OF c assms] c show ?thesis by (cases x) (auto simp: seed_write_def)
qed

lemmas in_place = ca_set_def ca_restate_def same_ca_def ca_row_ok_def

lemma change_Abandon: "caT.change lib (ca_tab d) (ca_tab (snd (ca_Abandon flt now i actor d)))"
  by (auto simp: ca_Abandon_def in_place intro!: caT.change_update caT.unchanged)

lemma change_retire: "caT.change lib (ca_tab d) (ca_tab (snd (retire_write flt now i actor d)))"
  by (auto simp: retire_write_def in_place intro!: caT.change_update caT.unchanged)

lemma change_renew: "window > 0 \<Longrightarrow> caT.change lib (ca_tab d) (ca_tab (snd (renew_write flt now i window actor d)))"
  by (auto simp: renew_write_def in_place intro!: caT.change_update caT.unchanged)

lemma change_stop: "caT.change lib (ca_tab d) (ca_tab (snd (StopForceRenew flt now i actor d)))"
  by (auto simp: StopForceRenew_def in_place intro!: caT.change_update caT.unchanged)

lemma change_cancel: "caT.change lib (ca_tab d) (ca_tab (snd (cancel_write flt now i actor d)))"
  by (auto simp: cancel_write_def in_place intro!: caT.change_update caT.unchanged)

lemma change_schedule:
  assumes "\<forall>r\<in>set (cd_cas d). ca_id r = i \<longrightarrow> TrimSpace (ca_kms r) \<noteq> ''''"
  shows "caT.change lib (ca_tab d) (ca_tab (snd (schedule_write fails now i del_date d)))"
  using assms by (auto simp: schedule_write_def Let_def in_place intro!: caT.change_update caT.unchanged)

definition activate_row :: "time_ns \<Rightarrow> CA option \<Rightarrow> int \<Rightarrow> CA \<Rightarrow> CA" where
  "activate_row now cur i r =
     (if ca_id r = i \<and> ca_state r = StateStaged then ca_restate now StateActive r
      else if cur \<noteq> None \<and> ca_id r = ca_id (the cur) \<and> ca_state r = StateActive then ca_restate now StateDraining r else r)"

lemma activate_rows:
  "map (activate_row now None i)
     (update_where (\<lambda>r. ca_id r = ca_id c \<and> ca_state r = StateActive) (ca_restate now StateDraining) rows) = map (activate_row now (Some c) i) rows"
  "update_where (\<lambda>r. ca_id r = i \<and> ca_state r = StateStaged) (ca_restate now StateActive) rows = map (activate_row now None i) rows"
  by (auto simp: update_where_def activate_row_def ca_restate_def)

lemma activate_cases:
  assumes "activate_write flt now cur i d = (e, d')"
  obtains "d' = d" "e \<noteq> None"
  | "cd_cas d' = map (activate_row now cur i) (cd_cas d)" "cd_seq d' = cd_seq d"
    "count_where (\<lambda>r. ca_state r = StateActive) (cd_cas d') \<le> 1" "\<exists>r\<in>set (cd_cas d). ca_id r = i \<and> ca_state r = StateStaged"
proof (cases e)
  case None
  then have *: "cd_cas d' = map (activate_row now cur i) (cd_cas d) \<and> cd_seq d' = cd_seq d \<and>
      count_where (\<lambda>r. ca_state r = StateActive) (cd_cas d') \<le> 1"
    using assms by (cases cur) (auto simp: activate_write_def Let_def ca_set_def activate_rows not_less split: if_splits)
  have "\<exists>r\<in>set (cd_cas d). ca_id r = i \<and> ca_state r = StateStaged"
  proof (rule ccontr)
    assume none: "\<not> ?thesis"
    then have "count_where (\<lambda>r. ca_id r = i \<and> ca_state r = StateStaged) (update_where P (ca_restate now StateDraining) (cd_cas d)) = 0" for P
      unfolding count_where_0_iff by (auto simp: update_where_def ca_restate_def)
    moreover have "count_where (\<lambda>r. ca_id r = i \<and> ca_state r = StateStaged) (cd_cas d) = 0"
      unfolding count_where_0_iff using none by auto
    ultimately show False using assms None
      by (cases cur) (auto simp: activate_write_def Let_def ca_matches_def ca_set_def split: if_splits)
  qed
  with * that show ?thesis by blast
next
  case (Some x)
  then have "d' = d" using assms by (cases cur) (auto simp: activate_write_def Let_def split: if_splits)
  with that Some show ?thesis by blast
qed

lemma change_activate: "caT.change lib (ca_tab d) (ca_tab (snd (activate_write flt now cur i d)))"
proof -
  obtain e d' where w: "activate_write flt now cur i d = (e, d')" by fastforce
  then have "caT.change lib (ca_tab d) (ca_tab d')"
  proof (cases rule: activate_cases)
    case 2
    show ?thesis unfolding 2(1,2)
      by (rule caT.rewritten) (use 2(1,3) in \<open>auto simp: same_ca_def activate_row_def ca_restate_def ca_row_ok_def\<close>)
  qed (simp add: caT.unchanged)
  with w show ?thesis by simp
qed

lemma change_write:
  assumes "call_ok lib d c"
  shows "caT.change lib (ca_tab d) (ca_tab (ca_write flt now del_date actor c d))"
  using assms unfolding ca_write_def call_ok_def
  by (cases c) (auto simp: change_activate change_retire change_renew change_schedule change_cancel change_seed)

section \<open>Calls in flight\<close>

lemma change_call_ok:
  assumes ch: "caT.change lib (ca_tab d) (ca_tab d')" and ok: "call_ok lib d c"
  shows "call_ok lib d' c"
proof (cases c)
  case (CSchedule i)
  have "TrimSpace (ca_kms r') \<noteq> ''''" if r': "r' \<in> set (cd_cas d')" "ca_id r' = i" for r'
  proof -
    have "ca_id r' \<le> cd_seq d" using r' ok by (simp add: CSchedule call_ok_def)
    then obtain r where "r \<in> set (cd_cas d)" "same_ca r r'" using caT.change_origin [OF ch, of r'] r' by auto
    with r' ok show ?thesis by (auto simp: CSchedule call_ok_def same_ca_def)
  qed
  moreover have "i \<le> cd_seq d'" using caT.change_seq [OF ch] ok by (simp add: CSchedule call_ok_def)
  ultimately show ?thesis by (simp add: CSchedule call_ok_def)
qed (use ok in \<open>auto simp: call_ok_def\<close>)

lemma read_call_ok:
  assumes "ca_read lib flt now c d" "ca_typed lib d"
  shows "call_ok lib d c"
proof (cases c)
  case (CSchedule i)
  with assms(1) obtain r where r: "r \<in> set (cd_cas d)" "ca_id r = i" "TrimSpace (ca_kms r) \<noteq> ''''"
    by (auto simp: ca_read_def schedule_read_def ca_Get_def split: sum.splits if_splits option.splits)
  moreover have "r' = r" if "r' \<in> set (cd_cas d)" "ca_id r' = i" for r'
    using caT.same_id [of lib "ca_tab d" r' r] assms(2) that r by (simp add: ca_typed_tbl)
  ultimately have "\<forall>r\<in>set (cd_cas d). ca_id r = i \<longrightarrow> TrimSpace (ca_kms r) \<noteq> ''''" by blast
  moreover have "i \<le> cd_seq d" using assms(2) r by (auto simp: ca_typed_def)
  ultimately show ?thesis using CSchedule by (simp add: call_ok_def)
qed (use assms in \<open>auto simp: call_ok_def ca_read_def\<close>)

lemma step_change:
  assumes "ca_step lib s s'" "ca_inv lib s"
  shows "caT.change lib (ca_tab (cs_db s)) (ca_tab (cs_db s'))"
  using assms by cases (auto simp: change_Stage change_Abandon change_stop ca_inv_def intro: change_write caT.unchanged)

lemma ca_inv_step:
  assumes "ca_inv lib s" "ca_step lib s s'"
  shows "ca_inv lib s'"
proof -
  note ch = step_change [OF assms(2,1)]
  have ok: "ca_typed lib (cs_db s)" "\<forall>c\<in>set (cs_calls s). call_ok lib (cs_db s) c" using assms(1) by (auto simp: ca_inv_def)
  have "\<forall>c\<in>set (cs_calls s'). call_ok lib (cs_db s) c"
    using assms(2)
  proof cases
    case (do_read flt now c)
    with ok read_call_ok [OF do_read(2)] show ?thesis by simp
  next
    case (do_write c flt now del_date actor)
    with ok show ?thesis using set_remove1_subset [of c "cs_calls s"] by auto
  qed (use ok in simp_all)
  then show ?thesis using caT.tbl_change [OF ch] ok(1) change_call_ok [OF ch] by (simp add: ca_inv_def ca_typed_tbl)
qed

section \<open>The registry refines the lifecycle\<close>

lemma keys_activate:
  assumes "activate_write flt now cur i d = (e, d')" "distinct (map ca_id (cd_cas d))"
  defines "k \<equiv> \<lambda>d. map (\<lambda>r. (ca_id r, ca_state r)) (cd_cas d)"
  shows "k d' = k d \<or> lc_step (k d) (k d')"
  using assms(1)
proof (cases rule: activate_cases)
  case 2
  have "map (\<lambda>r. (ca_id r, ca_state r)) (map (activate_row now cur i) (cd_cas d)) = lc_promote i (k d)"
    unfolding k_def using 2 assms(2)
    by (intro keys_promote [where c = "\<lambda>r. cur \<noteq> None \<and> ca_id r = ca_id (the cur)"]) (auto simp: activate_row_def ca_restate_def)
  moreover have "(i, StateStaged) \<in> set (k d)" using 2(4) by (force simp: k_def)
  ultimately show ?thesis using 2(1) by (simp add: k_def lc_activate)
qed simp

lemma keys_create:
  assumes "ca_create fails (new_ca name fp pem kms st na actor now) d = (x, d')" "ca_typed lib d" "st = StateStaged \<or> st = StateActive"
  defines "k \<equiv> \<lambda>d. map (\<lambda>r. (ca_id r, ca_state r)) (cd_cas d)"
  shows "k d' = k d \<or> lc_step (k d) (k d')"
  using assms(1)
proof (cases rule: create_cases)
  case 2
  then show ?thesis using caT.keys_inserted [OF assms(2) [unfolded ca_typed_tbl] 2(2)] assms(3) by (simp add: k_def)
qed simp

lemma keys_write:
  assumes "ca_typed lib d"
  defines "k \<equiv> \<lambda>d. map (\<lambda>r. (ca_id r, ca_state r)) (cd_cas d)"
  shows "k (ca_write flt now del_date actor c d) = k d \<or> lc_step (k d) (k (ca_write flt now del_date actor c d))"
proof (cases c)
  case (CActivate cur i)
  obtain e d' where w: "activate_write flt now cur i d = (e, d')" by fastforce
  from keys_activate [OF w] assms(1) show ?thesis
    by (simp add: CActivate ca_write_def w k_def ca_typed_def)
next
  case (CRetire i)
  then show ?thesis by (auto simp: ca_write_def retire_write_def ca_set_def k_def keys_restate ca_restate_def intro: lc_retire)
next
  case (CSeed name fp na pem kms)
  obtain x d' where c: "ca_create (flt 1) (new_ca name fp pem kms StateActive na actor now) d = (x, d')" by fastforce
  from keys_create [OF c assms(1)] show ?thesis
    by (cases x) (auto simp: CSeed ca_write_def seed_write_def c k_def simp del: One_nat_def)
qed (auto simp: ca_write_def renew_write_def schedule_write_def cancel_write_def ca_set_def k_def Let_def intro!: disjI1 keys_update)

lemma ca_simulates:
  assumes "ca_inv lib s" "ca_step lib s s'"
  shows "ca_keys s' = ca_keys s \<or> lc_step (ca_keys s) (ca_keys s')"
proof -
  have typed: "ca_typed lib (cs_db s)" using assms(1) by (simp add: ca_inv_def)
  show ?thesis using assms(2)
  proof cases
    case (do_stage flt now name pem kms actor)
    show ?thesis
    proof (cases "name = '''' \<or> (\<exists>e. parseCA lib pem = Inl e)")
      case False
      then obtain fp na where p: "parseCA lib pem = Inr (fp, na)" "name \<noteq> ''''" by (cases "parseCA lib pem") auto
      obtain x d' where c: "ca_create (flt 0) (new_ca name fp pem kms StateStaged na actor now) (cs_db s) = (x, d')" by fastforce
      from keys_create [OF c typed] p c show ?thesis by (cases x) (auto simp: do_stage ca_keys_def ca_Stage_def)
    qed (auto simp: do_stage ca_Stage_def ca_keys_def)
  next
    case (do_abandon flt now i actor)
    then show ?thesis by (auto simp: ca_Abandon_def ca_set_def ca_keys_def keys_restate ca_restate_def intro: lc_abandon)
  next
    case (do_stop flt now i actor)
    then show ?thesis by (auto simp: StopForceRenew_def ca_keys_def intro!: disjI1 keys_update)
  next
    case (do_write c flt now del_date actor)
    then show ?thesis using keys_write [OF typed] by (simp add: ca_keys_def)
  qed (auto simp: ca_keys_def)
qed

interpretation caL: lifecycle_impl ca_keys "ca_step lib" "ca_inv lib" for lib
  by unfold_locales (use ca_inv_step ca_simulates in blast)+

lemma fresh_ok:
  assumes "ca_fresh s"
  shows "ca_inv lib s" "lc_ok (ca_keys s)"
  using assms by (simp_all add: ca_fresh_def ca_inv_def ca_typed_def ca_keys_def lc_ok_def)

lemma set_TrustBundle: "TrustBundle False d = Inr b \<Longrightarrow> set b = ca_pem ` {r \<in> set (cd_cas d). ca_state r \<noteq> StateRetired}"
  by (auto simp: TrustBundle_def)

lemma ca_Active_iff:
  assumes "ca_typed lib d"
  shows "ca_Active False d = Inr r \<longleftrightarrow> r \<in> set (cd_cas d) \<and> ca_state r = StateActive"
  using caT.first_active [OF assms [unfolded ca_typed_tbl], of r] by (auto simp: ca_Active_def split: option.splits)

text \<open>
  C6: The CA registry is well formed in every state that concurrent calls of its operations reach from the empty table, database
  failures and stale reads included: every row is a P256 CA certificate with its own fingerprint and expiry in
  one of the four states, ids, names and fingerprints are unique, at most one CA is active, an accelerated drain is set only on
  draining or retired CAs, and a signing key is scheduled for deletion only on a retired CA that has one.
\<close>

theorem registry_well_typed:
  assumes "ca_fresh s0" "(ca_step lib)\<^sup>*\<^sup>* s0 s"
  shows "ca_typed lib (cs_db s)"
  using caL.steps_keep [OF assms(2) fresh_ok [OF assms(1)]] by (simp add: ca_inv_def)

text \<open>
  C13: Rotation never loses the signing CA and never goes back: once some CA is active, after any interleaving of further calls
  exactly one CA is active and its certificate is in the trust bundle; every CA of the earlier table is
  still there at the same or a later state, so a retired CA stays retired.
\<close>

theorem signing_CA_never_lost:
  assumes "ca_fresh s0" "(ca_step lib)\<^sup>*\<^sup>* s0 s" "(ca_step lib)\<^sup>*\<^sup>* s s'" "ca_Active False (cs_db s) = Inr c"
  shows "(\<exists>r b. ca_Active False (cs_db s') = Inr r \<and> filter (\<lambda>r. ca_state r = StateActive) (cd_cas (cs_db s')) = [r] \<and>
           TrustBundle False (cs_db s') = Inr b \<and> ca_pem r \<in> set b) \<and> lc_forward (ca_keys s) (ca_keys s')"
proof -
  note at_s = caL.steps_keep [OF assms(2) fresh_ok [OF assms(1)]]
  then have typed: "ca_typed lib (cs_db s)" by (simp add: ca_inv_def)
  then have "has_active (ca_keys s)"
    using assms(4) ca_Active_iff [OF typed] by (force simp: has_active_def ca_keys_def)
  with at_s caL.steps_keep [OF assms(3)] have s': "ca_inv lib s'" "lc_forward (ca_keys s) (ca_keys s')" "has_active (ca_keys s')" by auto
  then obtain r where r: "r \<in> set (cd_cas (cs_db s'))" "ca_state r = StateActive" by (auto simp: has_active_def ca_keys_def)
  have typed': "ca_typed lib (cs_db s')" using s'(1) by (simp add: ca_inv_def)
  have "filter (\<lambda>r. ca_state r = StateActive) (cd_cas (cs_db s')) = [r]"
    using caT.active_filter [OF typed' [unfolded ca_typed_tbl]] r by simp
  moreover obtain b where b: "TrustBundle False (cs_db s') = Inr b" by (simp add: TrustBundle_def)
  ultimately show ?thesis using r s' ca_Active_iff [OF typed'] set_TrustBundle [OF b] by auto
qed

definition demo_empty :: ca_sys where
  "demo_empty = \<lparr>cs_db = \<lparr>cd_cas = [], cd_seq = 0, cd_enrollments = [], cd_beats = [], cd_audit = []\<rparr>, cs_calls = []\<rparr>"

text \<open>The seeded CA, then a second one staged and activated.\<close>

definition demo_seed :: ca_call where "demo_seed = CSeed ''one'' ''ca'' 1000 ''ca'' ''k1''"

definition demo_seeded :: ca_sys where
  "demo_seeded = \<lparr>cs_db = ca_write no_faults 1 0 ''boot'' demo_seed (cs_db demo_empty), cs_calls = []\<rparr>"

definition demo_staged :: ca_sys where
  "demo_staged = demo_seeded\<lparr>cs_db := snd (ca_Stage demo_lib no_faults 2 ''two'' ''ca2'' ''k2'' ''op'' (cs_db demo_seeded))\<rparr>"

definition demo_cut :: ca_call where "demo_cut = CActivate (first_where (\<lambda>_. True) (cd_cas (cs_db demo_seeded))) 2"

definition demo_rotated :: ca_sys where
  "demo_rotated = \<lparr>cs_db = ca_write no_faults 3 0 ''op'' demo_cut (cs_db demo_staged), cs_calls = []\<rparr>"

lemma demo_seed_steps: "(ca_step demo_lib)\<^sup>*\<^sup>* demo_empty demo_seeded"
proof -
  have "ca_read demo_lib no_faults 1 demo_seed (cs_db demo_empty)" by code_simp
  from do_read [OF this] do_write [of demo_seed "demo_empty\<lparr>cs_calls := [demo_seed]\<rparr>" demo_lib no_faults 1 0 "''boot''"]
  show ?thesis by (simp add: demo_seeded_def demo_empty_def)
qed

lemma demo_rotation_steps: "(ca_step demo_lib)\<^sup>*\<^sup>* demo_seeded demo_rotated"
proof -
  have "ca_read demo_lib no_faults 3 demo_cut (cs_db demo_staged)" by code_simp
  then have "ca_step demo_lib demo_staged (demo_staged\<lparr>cs_calls := [demo_cut]\<rparr>)"
    using do_read [of demo_lib no_faults 3 demo_cut demo_staged] by (simp add: demo_staged_def demo_seeded_def)
  moreover have "ca_step demo_lib (demo_staged\<lparr>cs_calls := [demo_cut]\<rparr>) demo_rotated"
    using do_write [of demo_cut "demo_staged\<lparr>cs_calls := [demo_cut]\<rparr>" demo_lib no_faults 3 0 "''op''"] by (simp add: demo_rotated_def)
  moreover have "ca_step demo_lib demo_seeded demo_staged" unfolding demo_staged_def by (rule do_stage)
  ultimately show ?thesis by (meson converse_rtranclp_into_rtranclp r_into_rtranclp)
qed

lemma demo_empty_fresh: "ca_fresh demo_empty"
  by (simp add: ca_fresh_def demo_empty_def)

theorem registry_well_typed_witness:
  "ca_typed demo_lib (cs_db demo_rotated) \<and> map ca_state (cd_cas (cs_db demo_rotated)) = [''draining'', ''active'']"
proof
  show "ca_typed demo_lib (cs_db demo_rotated)"
    using registry_well_typed [OF demo_empty_fresh rtranclp_trans [OF demo_seed_steps demo_rotation_steps]] .
qed code_simp

theorem signing_CA_never_lost_witness:
  "\<exists>r b. ca_Active False (cs_db demo_rotated) = Inr r \<and> ca_name r = ''two'' \<and> TrustBundle False (cs_db demo_rotated) = Inr b \<and>
     ''ca2'' \<in> set b"
proof -
  have "case_sum (\<lambda>_. False) (\<lambda>_. True) (ca_Active False (cs_db demo_seeded))" by code_simp
  then obtain c where "ca_Active False (cs_db demo_seeded) = Inr c" by (auto split: sum.splits)
  from signing_CA_never_lost [OF demo_empty_fresh demo_seed_steps demo_rotation_steps this]
  obtain r b where r: "ca_Active False (cs_db demo_rotated) = Inr r" "TrustBundle False (cs_db demo_rotated) = Inr b" "ca_pem r \<in> set b" by blast
  moreover have "map_sum id ca_name (ca_Active False (cs_db demo_rotated)) = Inr ''two''"
    "map_sum id ca_pem (ca_Active False (cs_db demo_rotated)) = Inr ''ca2''" by code_simp+
  ultimately show ?thesis by auto
qed

section \<open>The gates of a rotation\<close>

lemma adoption_loop_result:
  "ad_fp (adoption_loop unjson now st hs a) = ad_fp a \<and>
   ad_laggards (adoption_loop unjson now st hs a) =
     ad_laggards a @ map br_ip (filter (\<lambda>h. beat_live now st h \<and> \<not> containsFold (unjson (br_trusted h)) (ad_fp a)) hs)"
  by (induction unjson now st hs a rule: adoption_loop.induct) (auto simp: Let_def)

lemma FullyAdopted_iff:
  assumes "ca_AdoptionStatus unjson fails now fp st d = Inr ad"
  shows "FullyAdopted ad \<longleftrightarrow> (\<forall>h\<in>set (cd_beats d). beat_live now st h \<longrightarrow> containsFold (unjson (br_trusted h)) (ToLower (TrimSpace fp)))"
proof -
  have "length (ad_laggards ad) =
      length (filter (\<lambda>h. beat_live now st h \<and> \<not> containsFold (unjson (br_trusted h)) (ToLower (TrimSpace fp))) (cd_beats d))"
    using assms by (auto simp: ca_AdoptionStatus_def adoption_loop_result Let_def split: if_splits)
  then show ?thesis by (auto simp: FullyAdopted_def filter_empty_conv)
qed

lemma ca_Get_Inr: "ca_Get fails i d = Inr r \<Longrightarrow> r \<in> set (cd_cas d) \<and> ca_id r = i"
  by (auto simp: ca_Get_def split: if_splits option.splits)

lemma typed_row_eq:
  assumes "ca_typed lib d" "r \<in> set (cd_cas d)" "q \<in> set (cd_cas d)" "ca_id r = ca_id q \<or> ca_pem r = ca_pem q"
  shows "r = q"
proof -
  have "parseCA lib (ca_pem r) = Inr (ca_fp r, ca_not_after r)" "parseCA lib (ca_pem q) = Inr (ca_fp q, ca_not_after q)"
    using assms(1-3) by (simp_all add: ca_typed_def ca_row_ok_def)
  then have "ca_pem r = ca_pem q \<Longrightarrow> ca_fp r = ca_fp q" by simp
  then show ?thesis using caT.same_id [OF assms(1) [unfolded ca_typed_tbl], of r q] assms(2-4) by auto
qed

text \<open>
  Retiring a CA strands nobody who depends on it at the check: Retire succeeds only on a draining CA to which no unexpired issued
  leaf chains (the host's current leaf, by its heartbeat), and then removes exactly that certificate from
  the trust bundle.
\<close>

theorem retire_strands_nobody:
  assumes "ca_typed lib d" "ca_Retire lib flt now i actor d = (None, d')"
  shows "\<exists>r\<in>set (cd_cas d). ca_id r = i \<and> ca_state r = StateDraining \<and> LiveDependents lib no_faults now (ca_fp r) d = Inr 0 \<and>
    (\<exists>b b'. TrustBundle False d = Inr b \<and> TrustBundle False d' = Inr b' \<and> set b' = set b - {ca_pem r})"
proof -
  have read: "retire_read lib flt now i d = None" and wr: "retire_write flt now i actor d = (None, d')"
    using assms(2) by (auto simp: ca_Retire_def split: option.splits)
  from read obtain r where r: "r \<in> set (cd_cas d)" "ca_id r = i" "ca_state r = StateDraining" "LiveDependents lib no_faults now (ca_fp r) d = Inr 0"
    by (auto simp: retire_read_def LiveDependents_def dest!: ca_Get_Inr split: sum.splits if_splits)
  have rows: "cd_cas d' = update_where (\<lambda>r. ca_id r = i \<and> ca_state r = StateDraining) (ca_restate now StateRetired) (cd_cas d)"
    using wr by (auto simp: retire_write_def ca_set_def split: if_splits)
  have own: "q = r" if "q \<in> set (cd_cas d)" "ca_id q = i \<or> ca_pem q = ca_pem r" for q
    using typed_row_eq [OF assms(1) that(1) r(1)] that(2) r(2) by auto
  obtain b b' where b: "TrustBundle False d = Inr b" "TrustBundle False d' = Inr b'" by (simp add: TrustBundle_def)
  have "set b' = set b - {ca_pem r}"
    unfolding set_TrustBundle [OF b(1)] set_TrustBundle [OF b(2)] rows set_update_where
    using r own by (auto simp: ca_restate_def split: if_splits)
  with r b show ?thesis by blast
qed

text \<open>
  C25: Trust before you sign: without -force, the activate command cuts signing over only to a staged CA that every live host confirms in its
  heartbeat; that CA becomes the active one, and the cut-over leaves the trust bundle, which already held it, unchanged.
\<close>

theorem trust_before_signing:
  assumes "ca_typed lib d" "cmdCA_activate unjson flt now i False staleAfter actor d = (None, d')"
  shows "\<exists>r\<in>set (cd_cas d). ca_id r = i \<and> ca_state r = StateStaged \<and>
    (\<forall>h\<in>set (cd_beats d). beat_live now staleAfter h \<longrightarrow> containsFold (unjson (br_trusted h)) (ToLower (TrimSpace (ca_fp r)))) \<and>
    ca_ActiveFingerprint False d' = Inr (ca_fp r) \<and>
    (\<exists>b b'. TrustBundle False d = Inr b \<and> TrustBundle False d' = Inr b' \<and> set b' = set b \<and> ca_pem r \<in> set b)"
proof -
  obtain r ad where r: "r \<in> set (cd_cas d)" "ca_id r = i" and ad: "ca_AdoptionStatus unjson (flt 1) now (ca_fp r) staleAfter d = Inr ad"
    and full: "FullyAdopted ad" and act: "ca_Activate (skip_faults 2 flt) now i actor d = (None, d')"
    using assms(2) by (auto simp: cmdCA_activate_def adoptionGate_def dest!: ca_Get_Inr split: if_splits sum.splits)
  from act obtain cur d1 where w: "activate_write (skip_faults 2 flt) now cur i d = (None, d1)" "cd_cas d' = cd_cas d1" "cd_seq d' = cd_seq d1"
    by (auto simp: ca_Activate_def split: sum.splits prod.splits option.splits)
  from w(1) have typed': "ca_typed lib d'"
    using caT.tbl_change [OF change_activate assms(1) [unfolded ca_typed_tbl], of "skip_faults 2 flt" now cur i] w by (simp add: ca_typed_tbl)
  from w(1) show ?thesis
  proof (cases rule: activate_cases)
    case 2
    have st: "ca_state r = StateStaged" using 2(4) typed_row_eq [OF assms(1) r(1)] r(2) by metis
    let ?g = "activate_row now cur i"
    have g: "ca_pem (?g q) = ca_pem q" "ca_fp (?g q) = ca_fp q" "ca_state (?g q) = StateRetired \<longleftrightarrow> ca_state q = StateRetired" for q
      by (auto simp: activate_row_def ca_restate_def)
    have "?g r \<in> set (cd_cas d')" "ca_state (?g r) = StateActive" using r st 2(1) w(2) by (auto simp: activate_row_def ca_restate_def)
    then have "ca_Active False d' = Inr (?g r)" using ca_Active_iff [OF typed'] by blast
    then have fp: "ca_ActiveFingerprint False d' = Inr (ca_fp r)" by (simp add: ca_ActiveFingerprint_def g)
    obtain b b' where b: "TrustBundle False d = Inr b" "TrustBundle False d' = Inr b'" by (simp add: TrustBundle_def)
    have "set b' = set b" unfolding set_TrustBundle [OF b(1)] set_TrustBundle [OF b(2)] w(2) 2(1) using g by (force simp: image_iff)
    moreover have "ca_pem r \<in> set b" unfolding set_TrustBundle [OF b(1)] using r st by auto
    ultimately show ?thesis using r st fp b full [unfolded FullyAdopted_iff [OF ad]] by blast
  qed simp
qed

definition demo_fleet :: ca_db where
  "demo_fleet = (cs_db demo_staged)\<lparr>cd_beats := [\<lparr>br_ip = ''h1'', br_seen = 90, br_trusted = ''CA2'', br_not_after = 50\<rparr>,
     \<lparr>br_ip = ''h2'', br_seen = 3, br_trusted = '''', br_not_after = 0\<rparr>],
     cd_enrollments := [\<lparr>er_ip = ''h1'', er_ca_fp = ''ca'', er_pem = ''leaf'', er_status = ''issued''\<rparr>]\<rparr>"

definition demo_drained :: ca_db where
  "demo_drained = snd (ca_Activate no_faults 100 2 ''op'' demo_fleet)"

lemma demo_fleet_typed: "ca_typed demo_lib demo_fleet"
  by code_simp

lemma demo_drained_typed: "ca_typed demo_lib demo_drained"
  by code_simp

theorem trust_before_signing_witness:
  "\<exists>r\<in>set (cd_cas demo_fleet). ca_id r = 2 \<and> ca_ActiveFingerprint False (snd (cmdCA_activate (\<lambda>s. [s]) no_faults 100 2 False 20 ''op'' demo_fleet)) = Inr (ca_fp r)"
proof -
  obtain d' where "cmdCA_activate (\<lambda>s. [s]) no_faults 100 2 False 20 ''op'' demo_fleet = (None, d')"
  proof -
    have "fst (cmdCA_activate (\<lambda>s. [s]) no_faults 100 2 False 20 ''op'' demo_fleet) = None" by code_simp
    with that show ?thesis by (metis prod.collapse)
  qed
  from trust_before_signing [OF demo_fleet_typed this] this show ?thesis by auto
qed

theorem retire_strands_nobody_witness:
  "\<exists>r\<in>set (cd_cas demo_drained). ca_id r = 1 \<and> LiveDependents demo_lib no_faults 100 (ca_fp r) demo_drained = Inr 0 \<and>
     (\<exists>b'. TrustBundle False (snd (ca_Retire demo_lib no_faults 100 1 ''op'' demo_drained)) = Inr b' \<and> ca_pem r \<notin> set b')"
proof -
  obtain d' where "ca_Retire demo_lib no_faults 100 1 ''op'' demo_drained = (None, d')"
  proof -
    have "fst (ca_Retire demo_lib no_faults 100 1 ''op'' demo_drained) = None" by code_simp
    with that show ?thesis by (metis prod.collapse)
  qed
  from retire_strands_nobody [OF demo_drained_typed this] this show ?thesis unfolding snd_conv by (metis DiffD2 insertI1 snd_conv)
qed

section \<open>Two gaps of the gates\<close>

text \<open>
  Nothing ties a custody key to one CA: a CA certificate reissued over the same KMS key leaves a retired row and the active row with the same
  \<open>kms_key_id\<close>, and ScheduleKeyDeletion of the retired one, which looks at that row and its leaves only, schedules the deletion of
  the key that signs.
\<close>

definition demo_reissued :: ca_db where
  "demo_reissued = snd (ca_Retire demo_lib no_faults 100 1 ''op'' (snd (ca_Activate no_faults 90 2 ''op''
     (snd (ca_Stage demo_lib no_faults 80 ''reissued'' ''ca-v2'' ''k1'' ''op'' (cs_db demo_seeded))))))"

definition demo_custody :: "string list key_deleter" where
  "demo_custody = \<lparr>kd_schedule = (\<lambda>key days ks. (Some days, key # ks)), kd_cancel = (\<lambda>key ks. (True, removeAll key ks))\<rparr>"

lemma active_key_scheduled_for_deletion:
  "case ScheduleKeyDeletion demo_lib (Some demo_custody) no_faults 110 1 30 ''op'' ([], demo_reissued) of
     (res, pending, d) \<Rightarrow> res = Inr 30 \<and> (case ca_Active False d of Inr r \<Rightarrow> ca_kms r \<in> set pending | Inl _ \<Rightarrow> False)"
  by code_simp

text \<open>
  Retire counts the leaves before its write on the ground that only the active CA signs.  A signer follows the registry by polling, so until its next tick it still
  signs with the CA that was active at the last one: that CA can be retired with no dependents and gain one afterwards.
\<close>

lemma retired_CA_gains_leaf:
  "\<exists>d' c pem s'. ca_Retire demo_lib no_faults 100 1 ''op'' demo_drained = (None, d') \<and> CurrentFingerprint demo_signer = ''ca'' \<and>
     Issue demo_lib (\<lambda>b. b) (br_acquire 5) 1 no_faults ''op'' (demo_template\<lparr>tm_not_after := 109\<rparr>) demo_signer = (Inr (c, pem), s') \<and>
     LiveDependents demo_lib no_faults 101 ''ca'' (d'\<lparr>cd_enrollments := cd_enrollments d' @
       [\<lparr>er_ip = ''h9'', er_ca_fp = ct_issuer c, er_pem = pem, er_status = ''issued''\<rparr>]\<rparr>) = Inr 1"
proof -
  let ?r = "ca_Retire demo_lib no_faults 100 1 ''op'' demo_drained"
  let ?i = "Issue demo_lib (\<lambda>b. b) (br_acquire 5) 1 no_faults ''op'' (demo_template\<lparr>tm_not_after := 109\<rparr>) demo_signer"
  have a: "fst ?r = None" "CurrentFingerprint demo_signer = ''ca''" by code_simp+
  have b: "case fst ?i of Inl _ \<Rightarrow> False | Inr (c, pem) \<Rightarrow> LiveDependents demo_lib no_faults 101 ''ca'' ((snd ?r)\<lparr>cd_enrollments := cd_enrollments (snd ?r) @
       [\<lparr>er_ip = ''h9'', er_ca_fp = ct_issuer c, er_pem = pem, er_status = ''issued''\<rparr>]\<rparr>) = Inr 1" by code_simp
  obtain x s' where i: "?i = (x, s')" by fastforce
  with b obtain c pem where x: "x = Inr (c, pem)" by (auto split: sum.splits)
  obtain d' where d: "?r = (None, d')" using a(1) by (cases ?r) simp
  show ?thesis using b unfolding i d x by (intro exI [of _ d'] exI [of _ c] exI [of _ pem] exI [of _ s']) (simp add: a(2))
qed

end
