(* ===== verification/Config_Keys.thy ===== *)
theory Config_Keys
  imports Bundle Ca_Registry
begin

text \<open>
  The registry of config-signing keys (internal/configkey/configkey.go): the same lifecycle as the CA registry over raw P256 public
  keys, with adoption of the active key, not a count of leaves, as the gate of Retire.

  Conventions are those of Ca_Registry.thy; the key deleter and the adoption snapshot are shared with it, as the Go types are identical.
  \<open>key_lib\<close> holds the PEM decoder of the certificate library, the curve-point check and SHA-256.
\<close>

record key_lib =
  kl_parse :: "string \<Rightarrow> (bytes \<times> curve) option"
  kl_point :: "bytes \<Rightarrow> bool"
  kl_sha :: "bytes \<Rightarrow> bytes"

datatype ck_err =
    CkNotFound | CkInvalidPub | CkDuplicate | CkEmptyName | CkIllegalTransition string | CkNotDrained nat | CkNoActive
  | CkDb | CkNoDeleter | CkPendingDays int | CkNoKey | CkAlreadyScheduled | CkNotScheduled | CkBackend | CkPersist bool | CkRaced bool

record config_key =
  ck_id :: int
  ck_name :: string
  ck_fp :: string
  ck_pem :: string
  ck_kms :: string
  ck_state :: string
  ck_created_by :: string
  ck_created :: time_ns
  ck_updated :: time_ns
  ck_del_at :: time_ns
  ck_del_date :: time_ns

record key_beat =
  kb_ip :: string
  kb_seen :: time_ns
  kb_trusted :: string

record ck_db =
  kd_keys :: "config_key list"
  kd_seq :: int
  kd_beats :: "key_beat list"
  kd_audit :: "audit_note list"

definition ck_recordAudit :: "bool \<Rightarrow> audit_note \<Rightarrow> ck_db \<Rightarrow> ck_db" where
  "ck_recordAudit lost r d = (if lost then d else d\<lparr>kd_audit := kd_audit d @ [r]\<rparr>)"

definition parseConfigPub :: "key_lib \<Rightarrow> string \<Rightarrow> ck_err + string" where
  "parseConfigPub lib pem = (case kl_parse lib pem of
     None \<Rightarrow> Inl CkInvalidPub
   | Some (pub, crv) \<Rightarrow> if crv \<noteq> Curve_P256 then Inl CkInvalidPub
               else if \<not> kl_point lib pub then Inl CkInvalidPub
               else Inr (PubkeyHash (kl_sha lib) pub))"

definition ck_conflicts :: "config_key \<Rightarrow> config_key \<Rightarrow> bool" where
  "ck_conflicts row r \<longleftrightarrow> ck_name r = ck_name row \<or> ck_fp r = ck_fp row \<or> (ck_state row = StateActive \<and> ck_state r = StateActive)"

definition ck_create :: "bool \<Rightarrow> config_key \<Rightarrow> ck_db \<Rightarrow> (ck_err + config_key) \<times> ck_db" where
  "ck_create fails row d =
     (if fails then (Inl CkDb, d)
      else if list_ex (ck_conflicts row) (kd_keys d) then (Inl CkDuplicate, d)
      else let row' = row\<lparr>ck_id := kd_seq d + 1\<rparr> in (Inr row', d\<lparr>kd_keys := kd_keys d @ [row'], kd_seq := kd_seq d + 1\<rparr>))"

definition new_ck :: "string \<Rightarrow> string \<Rightarrow> string \<Rightarrow> string \<Rightarrow> string \<Rightarrow> string \<Rightarrow> time_ns \<Rightarrow> config_key" where
  "new_ck name fp pem kms st actor now =
     \<lparr>ck_id = 0, ck_name = name, ck_fp = fp, ck_pem = pem, ck_kms = kms, ck_state = st, ck_created_by = actor,
      ck_created = now, ck_updated = now, ck_del_at = 0, ck_del_date = 0\<rparr>"

definition ck_Stage ::
  "key_lib \<Rightarrow> faults \<Rightarrow> time_ns \<Rightarrow> string \<Rightarrow> string \<Rightarrow> string \<Rightarrow> string \<Rightarrow> ck_db \<Rightarrow> (ck_err + config_key) \<times> ck_db" where
  "ck_Stage lib flt now name pem kms actor d =
     (if name = '''' then (Inl CkEmptyName, d)
      else case parseConfigPub lib pem of
        Inl e \<Rightarrow> (Inl e, d)
      | Inr fp \<Rightarrow> (case ck_create (flt 0) (new_ck name fp pem kms StateStaged actor now) d of
          (Inl e, d) \<Rightarrow> (Inl e, d)
        | (Inr row, d) \<Rightarrow> (Inr row, ck_recordAudit (flt 1) (actor, ''configkey-stage'', name) d)))"

section \<open>Transitions\<close>

definition ck_set :: "int \<Rightarrow> string \<Rightarrow> (config_key \<Rightarrow> config_key) \<Rightarrow> ck_db \<Rightarrow> ck_db" where
  "ck_set i st f d = d\<lparr>kd_keys := update_where (\<lambda>r. ck_id r = i \<and> ck_state r = st) f (kd_keys d)\<rparr>"

definition ck_matches :: "int \<Rightarrow> string \<Rightarrow> ck_db \<Rightarrow> bool" where
  "ck_matches i st d \<longleftrightarrow> count_where (\<lambda>r. ck_id r = i \<and> ck_state r = st) (kd_keys d) \<noteq> 0"

definition ck_restate :: "time_ns \<Rightarrow> string \<Rightarrow> config_key \<Rightarrow> config_key" where
  "ck_restate now st r = r\<lparr>ck_state := st, ck_updated := now\<rparr>"

definition ck_activate_read :: "faults \<Rightarrow> int \<Rightarrow> ck_db \<Rightarrow> ck_err + config_key option" where
  "ck_activate_read flt i d =
     (if flt 0 then Inl CkDb
      else case first_where (\<lambda>r. ck_id r = i) (kd_keys d) of
        None \<Rightarrow> Inl CkNotFound
      | Some target \<Rightarrow>
          if ck_state target \<noteq> StateStaged then Inl (CkIllegalTransition (ck_state target))
          else if flt 1 then Inl CkDb
          else Inr (first_where (\<lambda>r. ck_state r = StateActive) (kd_keys d)))"

definition ck_activate_write :: "faults \<Rightarrow> time_ns \<Rightarrow> config_key option \<Rightarrow> int \<Rightarrow> ck_db \<Rightarrow> ck_err option \<times> ck_db" where
  "ck_activate_write flt now cur i d =
     (if cur \<noteq> None \<and> flt 2 then (Some CkDb, d)
      else let d1 = (case cur of None \<Rightarrow> d | Some c \<Rightarrow> ck_set (ck_id c) StateActive (ck_restate now StateDraining) d) in
        if flt 3 then (Some CkDb, d)
        else if \<not> ck_matches i StateStaged d1 then (Some (CkIllegalTransition StateStaged), d)
        else let d2 = ck_set i StateStaged (ck_restate now StateActive) d1 in
          if count_where (\<lambda>r. ck_state r = StateActive) (kd_keys d2) > 1 \<or> flt 4 then (Some CkDb, d)
          else (None, d2))"

definition ck_Activate :: "faults \<Rightarrow> time_ns \<Rightarrow> int \<Rightarrow> string \<Rightarrow> ck_db \<Rightarrow> ck_err option \<times> ck_db" where
  "ck_Activate flt now i actor d = (case ck_activate_read flt i d of
     Inl e \<Rightarrow> (Some e, d)
   | Inr cur \<Rightarrow> (case ck_activate_write flt now cur i d of
       (Some e, d) \<Rightarrow> (Some e, d)
     | (None, d) \<Rightarrow> (None, ck_recordAudit (flt 5) (actor, ''configkey-activate'', ca_target i) d)))"

definition ck_Get :: "bool \<Rightarrow> int \<Rightarrow> ck_db \<Rightarrow> ck_err + config_key" where
  "ck_Get fails i d = (if fails then Inl CkDb else case first_where (\<lambda>r. ck_id r = i) (kd_keys d) of
     None \<Rightarrow> Inl CkNotFound
   | Some r \<Rightarrow> Inr r)"

definition ck_Active :: "bool \<Rightarrow> ck_db \<Rightarrow> ck_err + config_key" where
  "ck_Active fails d = (if fails then Inl CkDb else case first_where (\<lambda>r. ck_state r = StateActive) (kd_keys d) of
     None \<Rightarrow> Inl CkNoActive
   | Some r \<Rightarrow> Inr r)"

definition ck_ActiveFingerprint :: "bool \<Rightarrow> ck_db \<Rightarrow> ck_err + string" where
  "ck_ActiveFingerprint fails d = (case ck_Active fails d of
     Inr c \<Rightarrow> Inr (ck_fp c)
   | Inl e \<Rightarrow> if e = CkNoActive then Inr '''' else Inl e)"

section \<open>Adoption\<close>

definition containsExact :: "string list \<Rightarrow> string \<Rightarrow> bool" where
  "containsExact fps fp \<longleftrightarrow> list_ex (\<lambda>x. TrimSpace x = fp) fps"

definition key_beat_live :: "time_ns \<Rightarrow> int \<Rightarrow> key_beat \<Rightarrow> bool" where
  "key_beat_live now staleAfter h \<longleftrightarrow> staleAfter \<le> 0 \<or> \<not> kb_seen h < now - staleAfter"

fun ck_adoption_loop :: "(string \<Rightarrow> string list) \<Rightarrow> time_ns \<Rightarrow> int \<Rightarrow> key_beat list \<Rightarrow> adoption \<Rightarrow> adoption" where
  "ck_adoption_loop unjson now staleAfter [] a = a"
| "ck_adoption_loop unjson now staleAfter (h # hs) a =
     ck_adoption_loop unjson now staleAfter hs
       (if \<not> key_beat_live now staleAfter h then a\<lparr>ad_stale := ad_stale a @ [kb_ip h]\<rparr>
        else let a = a\<lparr>ad_live := ad_live a + 1\<rparr> in
          if containsExact (unjson (kb_trusted h)) (ad_fp a) then a\<lparr>ad_adopted := ad_adopted a + 1\<rparr>
          else a\<lparr>ad_laggards := ad_laggards a @ [kb_ip h]\<rparr>)"

definition ck_AdoptionStatus ::
  "(string \<Rightarrow> string list) \<Rightarrow> bool \<Rightarrow> time_ns \<Rightarrow> string \<Rightarrow> int \<Rightarrow> ck_db \<Rightarrow> ck_err + adoption" where
  "ck_AdoptionStatus unjson fails now fp staleAfter d =
     (if fails then Inl CkDb
      else let a = ck_adoption_loop unjson now staleAfter (kd_beats d)
             \<lparr>ad_fp = TrimSpace fp, ad_live = 0, ad_adopted = 0, ad_laggards = [], ad_stale = []\<rparr> in
        Inr (a\<lparr>ad_laggards := sort_strings (ad_laggards a), ad_stale := sort_strings (ad_stale a)\<rparr>))"

definition DrainLaggards :: "(string \<Rightarrow> string list) \<Rightarrow> faults \<Rightarrow> time_ns \<Rightarrow> int \<Rightarrow> ck_db \<Rightarrow> ck_err + nat" where
  "DrainLaggards unjson flt now staleAfter d = (case ck_ActiveFingerprint (flt 0) d of
     Inl e \<Rightarrow> Inl e
   | Inr fp \<Rightarrow>
       if fp = '''' then Inl CkNoActive
       else case ck_AdoptionStatus unjson (flt 1) now fp staleAfter d of
         Inl e \<Rightarrow> Inl e
       | Inr ad \<Rightarrow> Inr (length (ad_laggards ad)))"

section \<open>Retiring and abandoning\<close>

definition ck_retire_read :: "(string \<Rightarrow> string list) \<Rightarrow> faults \<Rightarrow> time_ns \<Rightarrow> int \<Rightarrow> int \<Rightarrow> ck_db \<Rightarrow> ck_err option" where
  "ck_retire_read unjson flt now i staleAfter d = (case ck_Get (flt 0) i d of
     Inl e \<Rightarrow> Some e
   | Inr target \<Rightarrow>
       if ck_state target \<noteq> StateDraining then Some (CkIllegalTransition (ck_state target))
       else case DrainLaggards unjson (skip_faults 1 flt) now staleAfter d of
         Inl e \<Rightarrow> Some e
       | Inr laggards \<Rightarrow> if laggards > 0 then Some (CkNotDrained laggards) else None)"

definition ck_retire_write :: "faults \<Rightarrow> time_ns \<Rightarrow> int \<Rightarrow> string \<Rightarrow> ck_db \<Rightarrow> ck_err option \<times> ck_db" where
  "ck_retire_write flt now i actor d =
     (if flt 3 then (Some CkDb, d)
      else if \<not> ck_matches i StateDraining d then (Some (CkIllegalTransition StateDraining), d)
      else (None, ck_recordAudit (flt 4) (actor, ''configkey-retire'', ca_target i) (ck_set i StateDraining (ck_restate now StateRetired) d)))"

definition ck_Retire :: "(string \<Rightarrow> string list) \<Rightarrow> faults \<Rightarrow> time_ns \<Rightarrow> int \<Rightarrow> int \<Rightarrow> string \<Rightarrow> ck_db \<Rightarrow> ck_err option \<times> ck_db" where
  "ck_Retire unjson flt now i staleAfter actor d = (case ck_retire_read unjson flt now i staleAfter d of
     Some e \<Rightarrow> (Some e, d)
   | None \<Rightarrow> ck_retire_write flt now i actor d)"

definition ck_Abandon :: "faults \<Rightarrow> time_ns \<Rightarrow> int \<Rightarrow> string \<Rightarrow> ck_db \<Rightarrow> ck_err option \<times> ck_db" where
  "ck_Abandon flt now i actor d =
     (if flt 0 then (Some CkDb, d)
      else if \<not> ck_matches i StateStaged d then
        (if \<not> flt 1 \<and> first_where (\<lambda>r. ck_id r = i) (kd_keys d) = None then (Some CkNotFound, d) else (Some (CkIllegalTransition ''''), d))
      else (None, ck_recordAudit (flt 1) (actor, ''configkey-abandon'', ca_target i) (ck_set i StateStaged (ck_restate now StateRetired) d)))"

definition TrustedKeys :: "bool \<Rightarrow> ck_db \<Rightarrow> ck_err + string list" where
  "TrustedKeys fails d =
     (if fails then Inl CkDb
      else Inr (sort_strings (map ck_pem (sort_key ck_fp (filter (\<lambda>r. ck_state r \<noteq> StateRetired) (kd_keys d))))))"

definition Generation :: "bool \<Rightarrow> ck_db \<Rightarrow> ck_err + time_ns" where
  "Generation fails d =
     (if fails then Inl CkDb
      else case kd_keys d of [] \<Rightarrow> Inr 0 | r # rs \<Rightarrow> Inr (foldl (\<lambda>m r. max m (ck_updated r)) (ck_updated r) rs))"

definition ck_List :: "bool \<Rightarrow> ck_db \<Rightarrow> ck_err + config_key list" where
  "ck_List fails d = (if fails then Inl CkDb else Inr (rev (kd_keys d)))"

section \<open>The boot seed\<close>

definition ck_activeOrEmpty :: "bool \<Rightarrow> ck_db \<Rightarrow> config_key" where
  "ck_activeOrEmpty fails d = (case ck_Active fails d of Inr r \<Rightarrow> r | Inl _ \<Rightarrow> new_ck '''' '''' '''' '''' '''' '''' 0)"

definition ck_seed_write ::
  "faults \<Rightarrow> time_ns \<Rightarrow> string \<Rightarrow> string \<Rightarrow> string \<Rightarrow> string \<Rightarrow> string \<Rightarrow> ck_db \<Rightarrow> (ck_err + config_key \<times> bool) \<times> ck_db" where
  "ck_seed_write flt now name fp pem kms actor d =
     (case ck_create (flt 1) (new_ck name fp pem kms StateActive actor now) d of
        (Inl e, d) \<Rightarrow> if e = CkDuplicate then (Inr (ck_activeOrEmpty (flt 2) d, False), d) else (Inl e, d)
      | (Inr row, d) \<Rightarrow> (Inr (row, True), ck_recordAudit (flt 2) (actor, ''configkey-seed-active'', name) d))"

definition ck_SeedActive ::
  "key_lib \<Rightarrow> faults \<Rightarrow> time_ns \<Rightarrow> string \<Rightarrow> string \<Rightarrow> string \<Rightarrow> string \<Rightarrow> ck_db \<Rightarrow> (ck_err + config_key \<times> bool) \<times> ck_db" where
  "ck_SeedActive lib flt now name pem kms actor d = (case parseConfigPub lib pem of
     Inl e \<Rightarrow> (Inl e, d)
   | Inr fp \<Rightarrow>
       if flt 0 then (Inl CkDb, d)
       else if kd_keys d \<noteq> [] then (Inr (ck_activeOrEmpty (flt 1) d, False), d)
       else ck_seed_write flt now name fp pem kms actor d)"

section \<open>Deletion of the signing key\<close>

definition ck_schedule_read :: "faults \<Rightarrow> int \<Rightarrow> ck_db \<Rightarrow> ck_err + string" where
  "ck_schedule_read flt i d = (case ck_Get (flt 0) i d of
     Inl e \<Rightarrow> Inl e
   | Inr target \<Rightarrow>
       if ck_state target \<noteq> StateRetired then Inl (CkIllegalTransition (ck_state target))
       else if TrimSpace (ck_kms target) = '''' then Inl CkNoKey
       else if ck_del_at target \<noteq> 0 then Inl CkAlreadyScheduled
       else Inr (ck_kms target))"

definition ck_schedule_write :: "bool \<Rightarrow> time_ns \<Rightarrow> int \<Rightarrow> time_ns \<Rightarrow> ck_db \<Rightarrow> bool \<times> ck_db" where
  "ck_schedule_write fails now i del_date d =
     (let P = (\<lambda>r. ck_id r = i \<and> ck_state r = StateRetired \<and> ck_del_at r = 0) in
      if fails \<or> count_where P (kd_keys d) = 0 then (False, d)
      else (True, d\<lparr>kd_keys := update_where P (\<lambda>r. r\<lparr>ck_del_at := now, ck_del_date := del_date, ck_updated := now\<rparr>) (kd_keys d)\<rparr>))"

definition ck_ScheduleKeyDeletion ::
  "'k key_deleter option \<Rightarrow> faults \<Rightarrow> time_ns \<Rightarrow> int \<Rightarrow> int \<Rightarrow> string \<Rightarrow> 'k \<times> ck_db \<Rightarrow> (ck_err + time_ns) \<times> 'k \<times> ck_db" where
  "ck_ScheduleKeyDeletion del flt now i days actor = (\<lambda>(k, d). case del of
     None \<Rightarrow> (Inl CkNoDeleter, k, d)
   | Some kd \<Rightarrow>
       if days < 7 \<or> days > 30 then (Inl (CkPendingDays days), k, d)
       else case ck_schedule_read flt i d of
         Inl e \<Rightarrow> (Inl e, k, d)
       | Inr key \<Rightarrow> (case kd_schedule kd key days k of
           (None, k) \<Rightarrow> (Inl CkBackend, k, d)
         | (Some del_date, k) \<Rightarrow> (case ck_schedule_write (flt 1) now i del_date d of
             (True, d) \<Rightarrow> (Inr del_date, k, ck_recordAudit (flt 2) (actor, ''configkey-key-deletion-scheduled'', ca_target i) d)
           | (False, d) \<Rightarrow> (let (ok, k) = kd_cancel kd key k in (Inl (if flt 1 then CkPersist ok else CkRaced ok), k, d)))))"

definition ck_cancel_write :: "faults \<Rightarrow> time_ns \<Rightarrow> int \<Rightarrow> string \<Rightarrow> ck_db \<Rightarrow> ck_err option \<times> ck_db" where
  "ck_cancel_write flt now i actor d =
     (if flt 1 then (Some CkDb, d)
      else if count_where (\<lambda>r. ck_id r = i) (kd_keys d) = 0 then (Some CkNotFound, d)
      else (None, ck_recordAudit (flt 2) (actor, ''configkey-key-deletion-cancelled'', ca_target i)
        (d\<lparr>kd_keys := update_where (\<lambda>r. ck_id r = i) (\<lambda>r. r\<lparr>ck_del_at := 0, ck_del_date := 0, ck_updated := now\<rparr>) (kd_keys d)\<rparr>)))"

definition ck_CancelKeyDeletion ::
  "'k key_deleter option \<Rightarrow> faults \<Rightarrow> time_ns \<Rightarrow> int \<Rightarrow> string \<Rightarrow> 'k \<times> ck_db \<Rightarrow> ck_err option \<times> 'k \<times> ck_db" where
  "ck_CancelKeyDeletion del flt now i actor = (\<lambda>(k, d). case del of
     None \<Rightarrow> (Some CkNoDeleter, k, d)
   | Some kd \<Rightarrow> (case ck_Get (flt 0) i d of
       Inl e \<Rightarrow> (Some e, k, d)
     | Inr target \<Rightarrow>
         if ck_del_at target = 0 then (Some CkNotScheduled, k, d)
         else case kd_cancel kd (ck_kms target) k of
           (False, k) \<Rightarrow> (Some CkBackend, k, d)
         | (True, k) \<Rightarrow> (let (e, d) = ck_cancel_write flt now i actor d in (e, k, d))))"

definition ck_PendingKeyDeletions :: "bool \<Rightarrow> ck_db \<Rightarrow> ck_err + config_key list" where
  "ck_PendingKeyDeletions fails d = (if fails then Inl CkDb else Inr (sort_key ck_del_date (filter (\<lambda>r. ck_del_at r > 0) (kd_keys d))))"

section \<open>Concurrent processes\<close>

datatype ck_call = KActivate "config_key option" int | KRetire int | KSchedule int | KCancel int | KSeed string string string string

definition ck_read :: "key_lib \<Rightarrow> (string \<Rightarrow> string list) \<Rightarrow> faults \<Rightarrow> time_ns \<Rightarrow> int \<Rightarrow> ck_call \<Rightarrow> ck_db \<Rightarrow> bool" where
  "ck_read lib unjson flt now staleAfter c d = (case c of
     KActivate cur i \<Rightarrow> ck_activate_read flt i d = Inr cur
   | KRetire i \<Rightarrow> ck_retire_read unjson flt now i staleAfter d = None
   | KSchedule i \<Rightarrow> (case ck_schedule_read flt i d of Inl _ \<Rightarrow> False | Inr _ \<Rightarrow> True)
   | KCancel i \<Rightarrow> (case ck_Get (flt 0) i d of Inl _ \<Rightarrow> False | Inr r \<Rightarrow> ck_del_at r \<noteq> 0)
   | KSeed name fp pem kms \<Rightarrow> parseConfigPub lib pem = Inr fp \<and> \<not> flt 0 \<and> kd_keys d = [])"

definition ck_write :: "faults \<Rightarrow> time_ns \<Rightarrow> time_ns \<Rightarrow> string \<Rightarrow> ck_call \<Rightarrow> ck_db \<Rightarrow> ck_db" where
  "ck_write flt now del_date actor c d = (case c of
     KActivate cur i \<Rightarrow> snd (ck_activate_write flt now cur i d)
   | KRetire i \<Rightarrow> snd (ck_retire_write flt now i actor d)
   | KSchedule i \<Rightarrow> snd (ck_schedule_write (flt 1) now i del_date d)
   | KCancel i \<Rightarrow> snd (ck_cancel_write flt now i actor d)
   | KSeed name fp pem kms \<Rightarrow> snd (ck_seed_write flt now name fp pem kms actor d))"

record ck_sys =
  ks_db :: ck_db
  ks_calls :: "ck_call list"

inductive ck_step :: "key_lib \<Rightarrow> (string \<Rightarrow> string list) \<Rightarrow> ck_sys \<Rightarrow> ck_sys \<Rightarrow> bool" for lib unjson where
  ck_do_stage: "ck_step lib unjson s (s\<lparr>ks_db := snd (ck_Stage lib flt now name pem kms actor (ks_db s))\<rparr>)"
| ck_do_abandon: "ck_step lib unjson s (s\<lparr>ks_db := snd (ck_Abandon flt now i actor (ks_db s))\<rparr>)"
| ck_do_read: "ck_read lib unjson flt now staleAfter c (ks_db s) \<Longrightarrow> ck_step lib unjson s (s\<lparr>ks_calls := c # ks_calls s\<rparr>)"
| ck_do_write: "c \<in> set (ks_calls s) \<Longrightarrow>
    ck_step lib unjson s \<lparr>ks_db = ck_write flt now del_date actor c (ks_db s), ks_calls = remove1 c (ks_calls s)\<rparr>"
| ck_do_other: "kd_keys d = kd_keys (ks_db s) \<Longrightarrow> kd_seq d = kd_seq (ks_db s) \<Longrightarrow> ck_step lib unjson s (s\<lparr>ks_db := d\<rparr>)"

definition ck_fresh :: "ck_sys \<Rightarrow> bool" where
  "ck_fresh s \<longleftrightarrow> kd_keys (ks_db s) = [] \<and> ks_calls s = []"

definition ck_keys :: "ck_sys \<Rightarrow> lifecycle" where
  "ck_keys s = map (\<lambda>r. (ck_id r, ck_state r)) (kd_keys (ks_db s))"

definition ck_row_ok :: "key_lib \<Rightarrow> config_key \<Rightarrow> bool" where
  "ck_row_ok lib r \<longleftrightarrow> parseConfigPub lib (ck_pem r) = Inr (ck_fp r) \<and>
     ck_state r \<in> {StateStaged, StateActive, StateDraining, StateRetired} \<and>
     (ck_del_at r \<noteq> 0 \<longrightarrow> ck_state r = StateRetired \<and> TrimSpace (ck_kms r) \<noteq> '''')"

definition ck_typed :: "key_lib \<Rightarrow> ck_db \<Rightarrow> bool" where
  "ck_typed lib d \<longleftrightarrow> (\<forall>r\<in>set (kd_keys d). ck_row_ok lib r \<and> ck_id r \<le> kd_seq d) \<and>
     distinct (map ck_id (kd_keys d)) \<and> distinct (map ck_name (kd_keys d)) \<and> distinct (map ck_fp (kd_keys d)) \<and>
     count_where (\<lambda>r. ck_state r = StateActive) (kd_keys d) \<le> 1"

definition ck_call_ok :: "key_lib \<Rightarrow> ck_db \<Rightarrow> ck_call \<Rightarrow> bool" where
  "ck_call_ok lib d c = (case c of
     KSchedule i \<Rightarrow> (\<forall>r\<in>set (kd_keys d). ck_id r = i \<longrightarrow> TrimSpace (ck_kms r) \<noteq> '''') \<and> i \<le> kd_seq d
   | KSeed name fp pem kms \<Rightarrow> parseConfigPub lib pem = Inr fp
   | _ \<Rightarrow> True)"

definition ck_inv :: "key_lib \<Rightarrow> ck_sys \<Rightarrow> bool" where
  "ck_inv lib s \<longleftrightarrow> ck_typed lib (ks_db s) \<and> (\<forall>c\<in>set (ks_calls s). ck_call_ok lib (ks_db s) c)"

definition same_ck :: "config_key \<Rightarrow> config_key \<Rightarrow> bool" where
  "same_ck r r' \<longleftrightarrow> ck_id r' = ck_id r \<and> ck_name r' = ck_name r \<and> ck_fp r' = ck_fp r \<and> ck_pem r' = ck_pem r \<and> ck_kms r' = ck_kms r"

section \<open>The registry stays well formed\<close>

interpretation ckT: key_table ck_id ck_name ck_fp ck_state same_ck "ck_row_ok lib" for lib
  by unfold_locales (auto simp: same_ck_def)

abbreviation ck_tab :: "ck_db \<Rightarrow> config_key list \<times> int" where
  "ck_tab d \<equiv> (kd_keys d, kd_seq d)"

lemma ck_typed_tbl: "ck_typed lib d \<longleftrightarrow> ckT.tbl_ok lib (ck_tab d)"
  by (simp add: ck_typed_def ckT.tbl_ok_def)

lemma ck_audit_sel [simp]: "kd_keys (ck_recordAudit x n d) = kd_keys d" "kd_seq (ck_recordAudit x n d) = kd_seq d"
  by (simp_all add: ck_recordAudit_def)

lemma new_ck_ok:
  assumes "parseConfigPub lib pem = Inr fp" "st = StateStaged \<or> st = StateActive"
  shows "ck_row_ok lib (new_ck name fp pem kms st actor now\<lparr>ck_id := i\<rparr>)"
  using assms by (auto simp: ck_row_ok_def new_ck_def)

lemma ck_create_cases:
  assumes "ck_create fails row d = (x, d')"
  obtains "d' = d" | "ck_tab d' = (kd_keys d @ [row\<lparr>ck_id := kd_seq d + 1\<rparr>], kd_seq d + 1)" "\<not> list_ex (ckT.conflicts (row\<lparr>ck_id := kd_seq d + 1\<rparr>)) (kd_keys d)"
  using assms by (auto simp: ck_create_def Let_def ck_conflicts_def ckT.conflicts_def list_ex_iff split: if_splits)

lemma ck_change_create:
  assumes "ck_create fails (new_ck name fp pem kms st actor now) d = (x, d')" "parseConfigPub lib pem = Inr fp" "st = StateStaged \<or> st = StateActive"
  shows "ckT.change lib (ck_tab d) (ck_tab d')"
  using assms(1)
proof (cases rule: ck_create_cases)
  case 2
  then show ?thesis using ckT.inserted [OF 2(2)] new_ck_ok [OF assms(2,3)] assms(3) by (simp add: new_ck_def)
qed (simp add: ckT.unchanged)

lemma ck_change_Stage: "ckT.change lib (ck_tab d) (ck_tab (snd (ck_Stage lib flt now name pem kms actor d)))"
proof (cases "name = '''' \<or> (\<exists>e. parseConfigPub lib pem = Inl e)")
  case False
  then obtain fp where p: "parseConfigPub lib pem = Inr fp" "name \<noteq> ''''" by (cases "parseConfigPub lib pem") auto
  obtain x d' where c: "ck_create (flt 0) (new_ck name fp pem kms StateStaged actor now) d = (x, d')" by fastforce
  from ck_change_create [OF c p(1)] p c show ?thesis by (cases x) (auto simp: ck_Stage_def)
qed (auto simp: ck_Stage_def intro: ckT.unchanged)

lemma ck_change_seed:
  assumes "parseConfigPub lib pem = Inr fp"
  shows "ckT.change lib (ck_tab d) (ck_tab (snd (ck_seed_write flt now name fp pem kms actor d)))"
proof -
  obtain x d' where c: "ck_create (flt 1) (new_ck name fp pem kms StateActive actor now) d = (x, d')" by fastforce
  from ck_change_create [OF c assms] c show ?thesis by (cases x) (auto simp: ck_seed_write_def)
qed

lemmas ck_in_place = ck_set_def ck_restate_def same_ck_def ck_row_ok_def

lemma ck_change_Abandon: "ckT.change lib (ck_tab d) (ck_tab (snd (ck_Abandon flt now i actor d)))"
  by (auto simp: ck_Abandon_def ck_in_place intro!: ckT.change_update ckT.unchanged)

lemma ck_change_retire: "ckT.change lib (ck_tab d) (ck_tab (snd (ck_retire_write flt now i actor d)))"
  by (auto simp: ck_retire_write_def ck_in_place intro!: ckT.change_update ckT.unchanged)

lemma ck_change_cancel: "ckT.change lib (ck_tab d) (ck_tab (snd (ck_cancel_write flt now i actor d)))"
  by (auto simp: ck_cancel_write_def ck_in_place intro!: ckT.change_update ckT.unchanged)

lemma ck_change_schedule:
  assumes "\<forall>r\<in>set (kd_keys d). ck_id r = i \<longrightarrow> TrimSpace (ck_kms r) \<noteq> ''''"
  shows "ckT.change lib (ck_tab d) (ck_tab (snd (ck_schedule_write fails now i del_date d)))"
  using assms by (auto simp: ck_schedule_write_def Let_def ck_in_place intro!: ckT.change_update ckT.unchanged)

definition ck_activate_row :: "time_ns \<Rightarrow> config_key option \<Rightarrow> int \<Rightarrow> config_key \<Rightarrow> config_key" where
  "ck_activate_row now cur i r =
     (if ck_id r = i \<and> ck_state r = StateStaged then ck_restate now StateActive r
      else if cur \<noteq> None \<and> ck_id r = ck_id (the cur) \<and> ck_state r = StateActive then ck_restate now StateDraining r else r)"

lemma ck_activate_rows:
  "map (ck_activate_row now None i)
     (update_where (\<lambda>r. ck_id r = ck_id c \<and> ck_state r = StateActive) (ck_restate now StateDraining) rows) = map (ck_activate_row now (Some c) i) rows"
  "update_where (\<lambda>r. ck_id r = i \<and> ck_state r = StateStaged) (ck_restate now StateActive) rows = map (ck_activate_row now None i) rows"
  by (auto simp: update_where_def ck_activate_row_def ck_restate_def)

lemma ck_activate_cases:
  assumes "ck_activate_write flt now cur i d = (e, d')"
  obtains "d' = d" "e \<noteq> None"
  | "kd_keys d' = map (ck_activate_row now cur i) (kd_keys d)" "kd_seq d' = kd_seq d"
    "count_where (\<lambda>r. ck_state r = StateActive) (kd_keys d') \<le> 1" "\<exists>r\<in>set (kd_keys d). ck_id r = i \<and> ck_state r = StateStaged"
proof (cases e)
  case None
  then have *: "kd_keys d' = map (ck_activate_row now cur i) (kd_keys d) \<and> kd_seq d' = kd_seq d \<and>
      count_where (\<lambda>r. ck_state r = StateActive) (kd_keys d') \<le> 1"
    using assms by (cases cur) (auto simp: ck_activate_write_def Let_def ck_set_def ck_activate_rows not_less split: if_splits)
  have "\<exists>r\<in>set (kd_keys d). ck_id r = i \<and> ck_state r = StateStaged"
  proof (rule ccontr)
    assume none: "\<not> ?thesis"
    then have "count_where (\<lambda>r. ck_id r = i \<and> ck_state r = StateStaged) (update_where P (ck_restate now StateDraining) (kd_keys d)) = 0" for P
      unfolding count_where_0_iff by (auto simp: update_where_def ck_restate_def)
    moreover have "count_where (\<lambda>r. ck_id r = i \<and> ck_state r = StateStaged) (kd_keys d) = 0"
      unfolding count_where_0_iff using none by auto
    ultimately show False using assms None
      by (cases cur) (auto simp: ck_activate_write_def Let_def ck_matches_def ck_set_def split: if_splits)
  qed
  with * that show ?thesis by blast
next
  case (Some x)
  then have "d' = d" using assms by (cases cur) (auto simp: ck_activate_write_def Let_def split: if_splits)
  with that Some show ?thesis by blast
qed

lemma ck_change_activate: "ckT.change lib (ck_tab d) (ck_tab (snd (ck_activate_write flt now cur i d)))"
proof -
  obtain e d' where w: "ck_activate_write flt now cur i d = (e, d')" by fastforce
  then have "ckT.change lib (ck_tab d) (ck_tab d')"
  proof (cases rule: ck_activate_cases)
    case 2
    show ?thesis unfolding 2(1,2)
      by (rule ckT.rewritten) (use 2(1,3) in \<open>auto simp: same_ck_def ck_activate_row_def ck_restate_def ck_row_ok_def\<close>)
  qed (simp add: ckT.unchanged)
  with w show ?thesis by simp
qed

lemma ck_change_write:
  assumes "ck_call_ok lib d c"
  shows "ckT.change lib (ck_tab d) (ck_tab (ck_write flt now del_date actor c d))"
  using assms unfolding ck_write_def ck_call_ok_def
  by (cases c) (auto simp: ck_change_activate ck_change_retire ck_change_schedule ck_change_cancel ck_change_seed)

section \<open>Calls in flight\<close>

lemma ck_change_call_ok:
  assumes ch: "ckT.change lib (ck_tab d) (ck_tab d')" and ok: "ck_call_ok lib d c"
  shows "ck_call_ok lib d' c"
proof (cases c)
  case (KSchedule i)
  have "TrimSpace (ck_kms r') \<noteq> ''''" if r': "r' \<in> set (kd_keys d')" "ck_id r' = i" for r'
  proof -
    have "ck_id r' \<le> kd_seq d" using r' ok by (simp add: KSchedule ck_call_ok_def)
    then obtain r where "r \<in> set (kd_keys d)" "same_ck r r'" using ckT.change_origin [OF ch, of r'] r' by auto
    with r' ok show ?thesis by (auto simp: KSchedule ck_call_ok_def same_ck_def)
  qed
  moreover have "i \<le> kd_seq d'" using ckT.change_seq [OF ch] ok by (simp add: KSchedule ck_call_ok_def)
  ultimately show ?thesis by (simp add: KSchedule ck_call_ok_def)
qed (use ok in \<open>auto simp: ck_call_ok_def\<close>)

lemma ck_read_call_ok:
  assumes "ck_read lib unjson flt now staleAfter c d" "ck_typed lib d"
  shows "ck_call_ok lib d c"
proof (cases c)
  case (KSchedule i)
  with assms(1) obtain r where r: "r \<in> set (kd_keys d)" "ck_id r = i" "TrimSpace (ck_kms r) \<noteq> ''''"
    by (auto simp: ck_read_def ck_schedule_read_def ck_Get_def split: sum.splits if_splits option.splits)
  moreover have "r' = r" if "r' \<in> set (kd_keys d)" "ck_id r' = i" for r'
    using ckT.same_id [of lib "ck_tab d" r' r] assms(2) that r by (simp add: ck_typed_tbl)
  ultimately have "\<forall>r\<in>set (kd_keys d). ck_id r = i \<longrightarrow> TrimSpace (ck_kms r) \<noteq> ''''" by blast
  moreover have "i \<le> kd_seq d" using assms(2) r by (auto simp: ck_typed_def)
  ultimately show ?thesis using KSchedule by (simp add: ck_call_ok_def)
qed (use assms in \<open>auto simp: ck_call_ok_def ck_read_def\<close>)

lemma ck_step_change:
  assumes "ck_step lib unjson s s'" "ck_inv lib s"
  shows "ckT.change lib (ck_tab (ks_db s)) (ck_tab (ks_db s'))"
  using assms by cases (auto simp: ck_change_Stage ck_change_Abandon ck_inv_def intro: ck_change_write ckT.unchanged)

lemma ck_inv_step:
  assumes "ck_inv lib s" "ck_step lib unjson s s'"
  shows "ck_inv lib s'"
proof -
  note ch = ck_step_change [OF assms(2,1)]
  have ok: "ck_typed lib (ks_db s)" "\<forall>c\<in>set (ks_calls s). ck_call_ok lib (ks_db s) c" using assms(1) by (auto simp: ck_inv_def)
  have "\<forall>c\<in>set (ks_calls s'). ck_call_ok lib (ks_db s) c"
    using assms(2)
  proof cases
    case (ck_do_read flt now staleAfter c)
    with ok ck_read_call_ok [OF ck_do_read(2)] show ?thesis by simp
  next
    case (ck_do_write c flt now del_date actor)
    with ok show ?thesis using set_remove1_subset [of c "ks_calls s"] by auto
  qed (use ok in simp_all)
  then show ?thesis using ckT.tbl_change [OF ch] ok(1) ck_change_call_ok [OF ch] by (simp add: ck_inv_def ck_typed_tbl)
qed

section \<open>The registry refines the lifecycle\<close>

lemma ck_keys_activate:
  assumes "ck_activate_write flt now cur i d = (e, d')" "distinct (map ck_id (kd_keys d))"
  defines "k \<equiv> \<lambda>d. map (\<lambda>r. (ck_id r, ck_state r)) (kd_keys d)"
  shows "k d' = k d \<or> lc_step (k d) (k d')"
  using assms(1)
proof (cases rule: ck_activate_cases)
  case 2
  have "map (\<lambda>r. (ck_id r, ck_state r)) (map (ck_activate_row now cur i) (kd_keys d)) = lc_promote i (k d)"
    unfolding k_def using 2 assms(2)
    by (intro keys_promote [where c = "\<lambda>r. cur \<noteq> None \<and> ck_id r = ck_id (the cur)"]) (auto simp: ck_activate_row_def ck_restate_def)
  moreover have "(i, StateStaged) \<in> set (k d)" using 2(4) by (force simp: k_def)
  ultimately show ?thesis using 2(1) by (simp add: k_def lc_activate)
qed simp

lemma ck_keys_create:
  assumes "ck_create fails (new_ck name fp pem kms st actor now) d = (x, d')" "ck_typed lib d" "st = StateStaged \<or> st = StateActive"
  defines "k \<equiv> \<lambda>d. map (\<lambda>r. (ck_id r, ck_state r)) (kd_keys d)"
  shows "k d' = k d \<or> lc_step (k d) (k d')"
  using assms(1)
proof (cases rule: ck_create_cases)
  case 2
  then show ?thesis using ckT.keys_inserted [OF assms(2) [unfolded ck_typed_tbl] 2(2)] assms(3) by (simp add: k_def new_ck_def)
qed simp

lemma ck_keys_write:
  assumes "ck_typed lib d"
  defines "k \<equiv> \<lambda>d. map (\<lambda>r. (ck_id r, ck_state r)) (kd_keys d)"
  shows "k (ck_write flt now del_date actor c d) = k d \<or> lc_step (k d) (k (ck_write flt now del_date actor c d))"
proof (cases c)
  case (KActivate cur i)
  obtain e d' where w: "ck_activate_write flt now cur i d = (e, d')" by fastforce
  from ck_keys_activate [OF w] assms(1) show ?thesis
    by (simp add: KActivate ck_write_def w k_def ck_typed_def)
next
  case (KRetire i)
  then show ?thesis by (auto simp: ck_write_def ck_retire_write_def ck_set_def k_def keys_restate ck_restate_def intro: lc_retire)
next
  case (KSeed name fp pem kms)
  obtain x d' where c: "ck_create (flt 1) (new_ck name fp pem kms StateActive actor now) d = (x, d')" by fastforce
  from ck_keys_create [OF c assms(1)] show ?thesis
    by (cases x) (auto simp: KSeed ck_write_def ck_seed_write_def c k_def simp del: One_nat_def)
qed (auto simp: ck_write_def ck_schedule_write_def ck_cancel_write_def ck_set_def k_def Let_def intro!: disjI1 keys_update)

lemma ck_simulates:
  assumes "ck_inv lib s" "ck_step lib unjson s s'"
  shows "ck_keys s' = ck_keys s \<or> lc_step (ck_keys s) (ck_keys s')"
proof -
  have typed: "ck_typed lib (ks_db s)" using assms(1) by (simp add: ck_inv_def)
  show ?thesis using assms(2)
  proof cases
    case (ck_do_stage flt now name pem kms actor)
    show ?thesis
    proof (cases "name = '''' \<or> (\<exists>e. parseConfigPub lib pem = Inl e)")
      case False
      then obtain fp where p: "parseConfigPub lib pem = Inr fp" "name \<noteq> ''''" by (cases "parseConfigPub lib pem") auto
      obtain x d' where c: "ck_create (flt 0) (new_ck name fp pem kms StateStaged actor now) (ks_db s) = (x, d')" by fastforce
      from ck_keys_create [OF c typed] p c show ?thesis by (cases x) (auto simp: ck_do_stage ck_keys_def ck_Stage_def)
    qed (auto simp: ck_do_stage ck_Stage_def ck_keys_def)
  next
    case (ck_do_abandon flt now i actor)
    then show ?thesis by (auto simp: ck_Abandon_def ck_set_def ck_keys_def keys_restate ck_restate_def intro: lc_abandon)
  next
    case (ck_do_write c flt now del_date actor)
    then show ?thesis using ck_keys_write [OF typed] by (simp add: ck_keys_def)
  qed (auto simp: ck_keys_def)
qed

interpretation ckL: lifecycle_impl ck_keys "ck_step lib unjson" "ck_inv lib" for lib unjson
  by unfold_locales (use ck_inv_step ck_simulates in blast)+

lemma ck_fresh_ok:
  assumes "ck_fresh s"
  shows "ck_inv lib s" "lc_ok (ck_keys s)"
  using assms by (simp_all add: ck_fresh_def ck_inv_def ck_typed_def ck_keys_def lc_ok_def)

lemma set_TrustedKeys: "TrustedKeys False d = Inr b \<Longrightarrow> set b = ck_pem ` {r \<in> set (kd_keys d). ck_state r \<noteq> StateRetired}"
  by (auto simp: TrustedKeys_def)

lemma ck_Active_iff:
  assumes "ck_typed lib d"
  shows "ck_Active False d = Inr r \<longleftrightarrow> r \<in> set (kd_keys d) \<and> ck_state r = StateActive"
  using ckT.first_active [OF assms [unfolded ck_typed_tbl], of r] by (auto simp: ck_Active_def split: option.splits)

text \<open>
  C10: The config-key registry implements the key lifecycle: every table that concurrent calls reach from the empty one is well
  formed (valid P256 keys under their own fingerprints, unique, one of four states, at most one active), each call, the boot
  seed and the first activation included, is a step of the abstract machine or leaves it alone, and keys only move forward, so a
  retired key stays retired.  Once a key is active there is exactly one active key in every later table, with its PEM among the trusted keys.
\<close>

theorem config_key_rotation:
  assumes "ck_fresh s0" "(ck_step lib unjson)\<^sup>*\<^sup>* s0 s" "(ck_step lib unjson)\<^sup>*\<^sup>* s s'" "ck_step lib unjson s' s''"
  shows "ck_typed lib (ks_db s') \<and> (ck_keys s'' = ck_keys s' \<or> lc_step (ck_keys s') (ck_keys s'')) \<and> lc_forward (ck_keys s) (ck_keys s') \<and>
    (\<forall>c. ck_Active False (ks_db s) = Inr c \<longrightarrow>
      (\<exists>r b. ck_Active False (ks_db s') = Inr r \<and> filter (\<lambda>r. ck_state r = StateActive) (kd_keys (ks_db s')) = [r] \<and>
         TrustedKeys False (ks_db s') = Inr b \<and> ck_pem r \<in> set b))"
proof -
  note at_s = ckL.steps_keep [OF assms(2) ck_fresh_ok [OF assms(1)]]
  then have typed: "ck_typed lib (ks_db s)" by (simp add: ck_inv_def)
  from at_s ckL.steps_keep [OF assms(3)] have s': "ck_inv lib s'" "lc_forward (ck_keys s) (ck_keys s')" and
    keep: "has_active (ck_keys s) \<longrightarrow> has_active (ck_keys s')" by auto
  have typed': "ck_typed lib (ks_db s')" using s'(1) by (simp add: ck_inv_def)
  have "\<exists>r b. ck_Active False (ks_db s') = Inr r \<and> filter (\<lambda>r. ck_state r = StateActive) (kd_keys (ks_db s')) = [r] \<and>
      TrustedKeys False (ks_db s') = Inr b \<and> ck_pem r \<in> set b" if "ck_Active False (ks_db s) = Inr c" for c
  proof -
    have "has_active (ck_keys s)" using that ck_Active_iff [OF typed] by (force simp: has_active_def ck_keys_def)
    then have "has_active (ck_keys s')" using keep by blast
    then obtain r where r: "r \<in> set (kd_keys (ks_db s'))" "ck_state r = StateActive" by (auto simp: has_active_def ck_keys_def)
    have "filter (\<lambda>r. ck_state r = StateActive) (kd_keys (ks_db s')) = [r]"
      using ckT.active_filter [OF typed' [unfolded ck_typed_tbl]] r by simp
    moreover obtain b where b: "TrustedKeys False (ks_db s') = Inr b" by (simp add: TrustedKeys_def)
    ultimately show ?thesis using r ck_Active_iff [OF typed'] set_TrustedKeys [OF b] by auto
  qed
  with s' typed' ck_simulates [OF s'(1) assms(4)] show ?thesis by blast
qed

section \<open>The drain gate\<close>

lemma ck_adoption_result:
  "ad_fp (ck_adoption_loop unjson now st hs a) = ad_fp a \<and>
   ad_laggards (ck_adoption_loop unjson now st hs a) =
     ad_laggards a @ map kb_ip (filter (\<lambda>h. key_beat_live now st h \<and> \<not> containsExact (unjson (kb_trusted h)) (ad_fp a)) hs)"
  by (induction unjson now st hs a rule: ck_adoption_loop.induct) (auto simp: Let_def)

lemma DrainLaggards_0:
  assumes "DrainLaggards unjson flt now st d = Inr 0"
  obtains a where "ck_Active False d = Inr a" "\<forall>h\<in>set (kd_beats d). key_beat_live now st h \<longrightarrow> containsExact (unjson (kb_trusted h)) (TrimSpace (ck_fp a))"
proof -
  from assms obtain a ad where a: "ck_Active False d = Inr a" "ck_AdoptionStatus unjson (flt 1) now (ck_fp a) st d = Inr ad" "length (ad_laggards ad) = 0"
    by (auto simp: DrainLaggards_def ck_ActiveFingerprint_def ck_Active_def split: sum.splits if_splits option.splits)
  have "length (ad_laggards ad) =
      length (filter (\<lambda>h. key_beat_live now st h \<and> \<not> containsExact (unjson (kb_trusted h)) (TrimSpace (ck_fp a))) (kd_beats d))"
    using a(2) by (auto simp: ck_AdoptionStatus_def ck_adoption_result Let_def split: if_splits)
  with a(3) have "\<forall>h\<in>set (kd_beats d). key_beat_live now st h \<longrightarrow> containsExact (unjson (kb_trusted h)) (TrimSpace (ck_fp a))"
    by (auto simp: filter_empty_conv)
  with a(1) that show ?thesis by blast
qed

text \<open>
  C30: A config key leaves the trusted set only when nobody live needs it: Retire succeeds only on a draining key while some key is active and
  every live host's heartbeat confirms that active key; it then removes exactly the retired key from the trusted set, and the
  active key stays in it.
\<close>

theorem retire_needs_adoption:
  assumes "ck_typed lib d" "ck_Retire unjson flt now i staleAfter actor d = (None, d')"
  shows "\<exists>r\<in>set (kd_keys d). \<exists>a. ck_id r = i \<and> ck_state r = StateDraining \<and> ck_Active False d = Inr a \<and> ck_Active False d' = Inr a \<and>
    (\<forall>h\<in>set (kd_beats d). key_beat_live now staleAfter h \<longrightarrow> containsExact (unjson (kb_trusted h)) (TrimSpace (ck_fp a))) \<and>
    (\<exists>b b'. TrustedKeys False d = Inr b \<and> TrustedKeys False d' = Inr b' \<and> set b' = set b - {ck_pem r} \<and> ck_pem a \<in> set b')"
proof -
  have read: "ck_retire_read unjson flt now i staleAfter d = None" and wr: "ck_retire_write flt now i actor d = (None, d')"
    using assms(2) by (auto simp: ck_Retire_def split: option.splits)
  from read obtain r where r: "r \<in> set (kd_keys d)" "ck_id r = i" "ck_state r = StateDraining"
      and l: "DrainLaggards unjson (skip_faults 1 flt) now staleAfter d = Inr 0"
    by (auto simp: ck_retire_read_def ck_Get_def split: sum.splits if_splits option.splits)
  obtain a where a: "ck_Active False d = Inr a" "\<forall>h\<in>set (kd_beats d). key_beat_live now staleAfter h \<longrightarrow> containsExact (unjson (kb_trusted h)) (TrimSpace (ck_fp a))"
    using l by (rule DrainLaggards_0)
  then have act: "a \<in> set (kd_keys d)" "ck_state a = StateActive" using ck_Active_iff [OF assms(1)] by auto
  have rows: "kd_keys d' = update_where (\<lambda>r. ck_id r = i \<and> ck_state r = StateDraining) (ck_restate now StateRetired) (kd_keys d)"
    using wr by (auto simp: ck_retire_write_def ck_set_def split: if_splits)
  have typed': "ck_typed lib d'"
    using ckT.tbl_change [OF ck_change_retire assms(1) [unfolded ck_typed_tbl], of flt now i actor] wr by (simp add: ck_typed_tbl)
  have fp: "ck_pem q = ck_pem r \<Longrightarrow> ck_fp q = ck_fp r" if "q \<in> set (kd_keys d)" for q
  proof -
    have "parseConfigPub lib (ck_pem q) = Inr (ck_fp q)" "parseConfigPub lib (ck_pem r) = Inr (ck_fp r)"
      using assms(1) that r(1) by (simp_all add: ck_typed_def ck_row_ok_def)
    then show "ck_pem q = ck_pem r \<Longrightarrow> ck_fp q = ck_fp r" by simp
  qed
  have own: "q = r" if "q \<in> set (kd_keys d)" "ck_id q = i \<or> ck_pem q = ck_pem r" for q
    using ckT.same_id [OF assms(1) [unfolded ck_typed_tbl], of q r] fp [OF that(1)] that r by auto
  obtain b b' where b: "TrustedKeys False d = Inr b" "TrustedKeys False d' = Inr b'" by (simp add: TrustedKeys_def)
  have "set b' = set b - {ck_pem r}"
    unfolding set_TrustedKeys [OF b(1)] set_TrustedKeys [OF b(2)] rows set_update_where
    using r own by (auto simp: ck_restate_def split: if_splits)
  moreover have "a \<in> set (kd_keys d')" using act by (auto simp: rows set_update_where)
  moreover from this have "ck_Active False d' = Inr a" "ck_pem a \<in> set b'"
    using act ck_Active_iff [OF typed'] set_TrustedKeys [OF b(2)] by auto
  ultimately show ?thesis using r a b by blast
qed

section \<open>A concrete rotation\<close>

definition demo_key_lib :: key_lib where
  "demo_key_lib = \<lparr>kl_parse = (\<lambda>pem. if pem = '''' then None else Some (if pem = ''p2'' then [2] else [1], Curve_P256)), kl_point = (\<lambda>_. True), kl_sha = (\<lambda>b. b)\<rparr>"

definition demo_keys0 :: ck_sys where
  "demo_keys0 = \<lparr>ks_db = \<lparr>kd_keys = [], kd_seq = 0, kd_beats = [], kd_audit = []\<rparr>, ks_calls = []\<rparr>"

definition demo_key_seed :: ck_call where "demo_key_seed = KSeed ''genesis'' (PubkeyHash (\<lambda>b. b) [1]) ''p1'' ''k1''"

definition demo_keys1 :: ck_sys where
  "demo_keys1 = \<lparr>ks_db = ck_write no_faults 1 0 ''boot'' demo_key_seed (ks_db demo_keys0), ks_calls = []\<rparr>"

definition demo_keys2 :: ck_sys where
  "demo_keys2 = demo_keys1\<lparr>ks_db := snd (ck_Stage demo_key_lib no_faults 2 ''next'' ''p2'' ''k2'' ''op'' (ks_db demo_keys1))\<rparr>"

lemma demo_key_steps:
  "(ck_step demo_key_lib (\<lambda>s. [s]))\<^sup>*\<^sup>* demo_keys0 demo_keys1" "(ck_step demo_key_lib (\<lambda>s. [s]))\<^sup>*\<^sup>* demo_keys1 demo_keys2"
proof -
  have r: "ck_read demo_key_lib (\<lambda>s. [s]) no_faults 1 0 demo_key_seed (ks_db demo_keys0)" by code_simp
  have "ck_step demo_key_lib (\<lambda>s. [s]) demo_keys0 (demo_keys0\<lparr>ks_calls := [demo_key_seed]\<rparr>)"
    using ck_do_read [OF r] by (simp add: demo_keys0_def)
  moreover have "ck_step demo_key_lib (\<lambda>s. [s]) (demo_keys0\<lparr>ks_calls := [demo_key_seed]\<rparr>) demo_keys1"
    using ck_do_write [of demo_key_seed "demo_keys0\<lparr>ks_calls := [demo_key_seed]\<rparr>" demo_key_lib "\<lambda>s. [s]" no_faults 1 0 "''boot''"]
    by (simp add: demo_keys1_def)
  ultimately show "(ck_step demo_key_lib (\<lambda>s. [s]))\<^sup>*\<^sup>* demo_keys0 demo_keys1" by (meson converse_rtranclp_into_rtranclp r_into_rtranclp)
  show "(ck_step demo_key_lib (\<lambda>s. [s]))\<^sup>*\<^sup>* demo_keys1 demo_keys2" unfolding demo_keys2_def by (intro r_into_rtranclp ck_do_stage)
qed

theorem config_key_rotation_witness:
  "ck_typed demo_key_lib (ks_db demo_keys2) \<and> map ck_state (kd_keys (ks_db demo_keys2)) = [''active'', ''staged''] \<and>
   (\<exists>r b. ck_Active False (ks_db demo_keys2) = Inr r \<and> TrustedKeys False (ks_db demo_keys2) = Inr b \<and> ck_pem r \<in> set b)"
proof -
  have f: "ck_fresh demo_keys0" by (simp add: ck_fresh_def demo_keys0_def)
  have "case_sum (\<lambda>_. False) (\<lambda>_. True) (ck_Active False (ks_db demo_keys1))" by code_simp
  then obtain c where c: "ck_Active False (ks_db demo_keys1) = Inr c" by (auto split: sum.splits)
  have st: "ck_step demo_key_lib (\<lambda>s. [s]) demo_keys2 (demo_keys2\<lparr>ks_db := ks_db demo_keys2\<rparr>)" by (rule ck_do_other) simp_all
  have "map ck_state (kd_keys (ks_db demo_keys2)) = [''active'', ''staged'']" by code_simp
  with config_key_rotation [OF f demo_key_steps st] c show ?thesis by blast
qed

definition demo_key_fleet :: ck_db where
  "demo_key_fleet = (snd (ck_Activate no_faults 3 2 ''op'' (ks_db demo_keys2)))\<lparr>kd_beats :=
     [\<lparr>kb_ip = ''h1'', kb_seen = 90, kb_trusted = PubkeyHash (\<lambda>b. b) [2]\<rparr>, \<lparr>kb_ip = ''h2'', kb_seen = 3, kb_trusted = ''''\<rparr>]\<rparr>"

theorem retire_needs_adoption_witness:
  "\<exists>r\<in>set (kd_keys demo_key_fleet). ck_id r = 1 \<and>
     (\<exists>b'. TrustedKeys False (snd (ck_Retire (\<lambda>s. [s]) no_faults 100 1 20 ''op'' demo_key_fleet)) = Inr b' \<and> ck_pem r \<notin> set b')"
proof -
  have t: "ck_typed demo_key_lib demo_key_fleet" by code_simp
  have "fst (ck_Retire (\<lambda>s. [s]) no_faults 100 1 20 ''op'' demo_key_fleet) = None" by code_simp
  then obtain d' where d: "ck_Retire (\<lambda>s. [s]) no_faults 100 1 20 ''op'' demo_key_fleet = (None, d')" by (metis prod.collapse)
  from retire_needs_adoption [OF t d] show ?thesis unfolding d snd_conv by (metis DiffD2 insertI1)
qed

end
