(* ===== verification/Rollout.thy ===== *)
theory Rollout
  imports Prelude
begin

text \<open>
  Staged rollouts (internal/rollout/rollout.go): a target version goes out in waves, a canary first; heartbeats of the active
  wave widen it to the next wave, complete it, or roll it back and freeze it.

  A transaction either runs all its statements or, when the k-th one fails, leaves the tables alone; row and
  advisory locks make transactions on one lane one after the other.  Heartbeats are the table that Core writes.
\<close>

definition StateCanary :: string where "StateCanary = ''canary''"
definition StateWidening :: string where "StateWidening = ''widening''"
definition StateCompleted :: string where "StateCompleted = ''completed''"
definition StateRolledBack :: string where "StateRolledBack = ''rolledback''"
definition HostWaiting :: string where "HostWaiting = ''waiting''"
definition HostConverged :: string where "HostConverged = ''converged''"
definition HostFailed :: string where "HostFailed = ''failed''"
definition HostReverted :: string where "HostReverted = ''reverted''"
definition LanePolicy :: string where "LanePolicy = ''policy''"
definition LaneBlocklist :: string where "LaneBlocklist = ''blocklist''"
definition LaneNebula :: string where "LaneNebula = ''nebula''"
definition LanePilot :: string where "LanePilot = ''pilot''"

lemmas rollout_consts = StateCanary_def StateWidening_def StateCompleted_def StateRolledBack_def HostWaiting_def HostConverged_def
  HostFailed_def HostReverted_def LanePolicy_def LaneBlocklist_def LaneNebula_def LanePilot_def

definition lanes :: "string list" where "lanes = [LanePolicy, LaneBlocklist, LaneNebula, LanePilot]"

definition healthBad :: "string \<Rightarrow> bool" where
  "healthBad h \<longleftrightarrow> h \<in> set [''unhealthy'', ''degraded'', ''error'', ''critical'', ''red'']"

datatype ro_err = ErrActiveExists | ErrNoHosts | ErrNone | ErrNotActive | RoDb

record rollout =
  ro_id :: int
  ro_lane :: string
  ro_description :: string
  ro_target :: int
  ro_prev :: int
  ro_state :: string
  ro_wave :: nat
  ro_wave_size :: int
  ro_min_healthy :: int
  ro_observe :: int
  ro_missing_after :: int
  ro_wave_started :: time_ns
  ro_created :: time_ns
  ro_updated :: time_ns
  ro_note :: string

record ro_host =
  rh_id :: int
  rh_rollout :: int
  rh_ip :: string
  rh_wave :: nat
  rh_status :: string
  rh_updated :: time_ns

record beat =
  hb_ip :: string
  hb_bundle :: int
  hb_blocklist :: int
  hb_nebula :: int
  hb_pilot :: int
  hb_health :: string
  hb_seen :: time_ns

definition appliedFor :: "beat \<Rightarrow> string \<Rightarrow> int" where
  "appliedFor b lane =
     (if lane = LaneBlocklist then hb_blocklist b else if lane = LaneNebula then hb_nebula b
      else if lane = LanePilot then hb_pilot b else hb_bundle b)"

record ro_db =
  rd_rollouts :: "rollout list"
  rd_seq :: int
  rd_hosts :: "ro_host list"
  rd_host_seq :: int
  rd_beats :: "beat list"
  rd_audit :: "audit_note list"

definition ro_audit :: "bool \<Rightarrow> audit_note \<Rightarrow> ro_db \<Rightarrow> ro_db" where
  "ro_audit fails r db = (if fails then db else db\<lparr>rd_audit := rd_audit db @ [r]\<rparr>)"

definition ro_name :: "int \<Rightarrow> string" where
  "ro_name i = ''rollout#'' @ show_int i"

section \<open>Reading\<close>

text \<open>The rows are in id order, so the newest of a lane is the last.\<close>

definition current :: "string \<Rightarrow> ro_db \<Rightarrow> rollout option" where
  "current lane db = first_where (\<lambda>r. ro_lane r = lane) (rev (rd_rollouts db))"

definition is_active :: "rollout \<Rightarrow> bool" where
  "is_active r \<longleftrightarrow> ro_state r = StateCanary \<or> ro_state r = StateWidening"

definition lockedActiveCurrent :: "string \<Rightarrow> ro_db \<Rightarrow> rollout option" where
  "lockedActiveCurrent lane db = (case current lane db of None \<Rightarrow> None | Some r \<Rightarrow> if is_active r then Some r else None)"

section \<open>Starting\<close>

record start_config =
  sc_lane :: string
  sc_description :: string
  sc_target :: int
  sc_prev :: int
  sc_hosts :: "string list"
  sc_canary :: int
  sc_wave_size :: int
  sc_min_healthy :: int
  sc_observe :: int
  sc_missing_after :: int
  sc_actor :: string

definition wave_of :: "nat \<Rightarrow> int \<Rightarrow> nat \<Rightarrow> nat" where
  "wave_of canary wsize i = (if i < canary then 0 else if wsize \<le> 0 then 1 else 1 + (i - canary) div nat wsize)"

definition canary_size :: "start_config \<Rightarrow> nat" where
  "canary_size c = (let n = (if sc_canary c < 1 then 1 else sc_canary c) in if n > int (length (sc_hosts c)) then length (sc_hosts c) else nat n)"

text \<open>The host rows of a new rollout; \<open>(rollout_id, overlay_ip)\<close> is unique, so a repeated host fails the insert.\<close>

definition wave_hosts :: "int \<Rightarrow> int \<Rightarrow> time_ns \<Rightarrow> start_config \<Rightarrow> ro_host list" where
  "wave_hosts rid seq now c =
     map (\<lambda>(i, ip). \<lparr>rh_id = seq + int i, rh_rollout = rid, rh_ip = ip, rh_wave = wave_of (canary_size c) (sc_wave_size c) i,
            rh_status = HostWaiting, rh_updated = now\<rparr>) (enumerate 0 (sc_hosts c))"

definition new_rollout :: "int \<Rightarrow> string \<Rightarrow> time_ns \<Rightarrow> start_config \<Rightarrow> rollout" where
  "new_rollout rid lane now c =
     \<lparr>ro_id = rid, ro_lane = lane, ro_description = sc_description c, ro_target = sc_target c, ro_prev = sc_prev c, ro_state = StateCanary,
      ro_wave = 0, ro_wave_size = sc_wave_size c, ro_min_healthy = sc_min_healthy c, ro_observe = sc_observe c, ro_missing_after = sc_missing_after c,
      ro_wave_started = now, ro_created = now, ro_updated = now, ro_note = ''''\<rparr>"

definition Start :: "faults \<Rightarrow> bool \<Rightarrow> time_ns \<Rightarrow> start_config \<Rightarrow> ro_db \<Rightarrow> (ro_err + rollout) \<times> ro_db" where
  "Start flt audit_fails now c db =
     (if sc_hosts c = [] then (Inl ErrNoHosts, db)
      else let lane = (if sc_lane c = '''' then LanePolicy else sc_lane c); rid = rd_seq db; r = new_rollout rid lane now c in
      if flt 0 then (Inl RoDb, db)
      else if lockedActiveCurrent lane db \<noteq> None then (Inl ErrActiveExists, db)
      else if list_ex flt [1..<length (sc_hosts c) + 2] \<or> \<not> distinct (sc_hosts c) then (Inl RoDb, db)
      else (Inr r, ro_audit audit_fails (sc_actor c, ''rollout-start'', ro_name rid)
             (db\<lparr>rd_rollouts := rd_rollouts db @ [r], rd_seq := rid + 1, rd_hosts := rd_hosts db @ wave_hosts rid (rd_host_seq db) now c,
                 rd_host_seq := rd_host_seq db + int (length (sc_hosts c))\<rparr>)))"

section \<open>Evaluating the active wave\<close>

text \<open>A heartbeat read: a row, none, or a failed statement.\<close>

datatype beat_read = BeatRow beat | BeatNone | BeatErr

definition read_beat :: "bool \<Rightarrow> string \<Rightarrow> ro_db \<Rightarrow> beat_read" where
  "read_beat fails ip db = (if fails then BeatErr else case first_where (\<lambda>b. hb_ip b = ip) (rd_beats db) of None \<Rightarrow> BeatNone | Some b \<Rightarrow> BeatRow b)"

definition isMissing :: "beat_read \<Rightarrow> time_ns \<Rightarrow> rollout \<Rightarrow> bool" where
  "isMissing rd now r =
     (if now - ro_wave_started r < ro_missing_after r then False
      else case rd of BeatNone \<Rightarrow> True | BeatErr \<Rightarrow> False | BeatRow b \<Rightarrow> hb_seen b < now - ro_missing_after r)"

datatype verdict = VFailed | VConverged | VMissing | VObserving

definition host_verdict :: "time_ns \<Rightarrow> rollout \<Rightarrow> beat_read \<Rightarrow> verdict" where
  "host_verdict now r rd =
     (case rd of
        BeatRow b \<Rightarrow>
          if healthBad (hb_health b) then VFailed
          else if appliedFor b (ro_lane r) = ro_target r \<and> hb_seen b \<ge> now - ro_missing_after r then VConverged
          else if isMissing rd now r then VMissing else VObserving
      | _ \<Rightarrow> if isMissing rd now r then VMissing else VObserving)"

definition trigger_text :: "string \<Rightarrow> beat_read \<Rightarrow> verdict \<Rightarrow> string" where
  "trigger_text ip rd v = (case (v, rd) of
     (VFailed, BeatRow b) \<Rightarrow> ip @ '' reported health='' @ hb_health b
   | (VMissing, _) \<Rightarrow> ip @ '' went silent (no healthy heartbeat on the target version)''
   | _ \<Rightarrow> '''')"

definition wave_rows :: "rollout \<Rightarrow> ro_db \<Rightarrow> ro_host list" where
  "wave_rows r db = filter (\<lambda>h. rh_rollout h = ro_id r \<and> rh_wave h = ro_wave r) (rd_hosts db)"

text \<open>Each host of the wave with its heartbeat and verdict; the i-th heartbeat is the (i+2)-nd statement.\<close>

definition wave_reads :: "faults \<Rightarrow> time_ns \<Rightarrow> rollout \<Rightarrow> ro_db \<Rightarrow> (ro_host \<times> beat_read \<times> verdict) list" where
  "wave_reads flt now r db =
     map (\<lambda>(i, h). let rd = read_beat (flt (i + 2)) (rh_ip h) db in (h, rd, host_verdict now r rd)) (enumerate 0 (wave_rows r db))"

definition count_verdict :: "verdict \<Rightarrow> (ro_host \<times> beat_read \<times> verdict) list \<Rightarrow> int" where
  "count_verdict v rs = int (length (filter (\<lambda>(_, _, x). x = v) rs))"

definition first_trigger :: "(ro_host \<times> beat_read \<times> verdict) list \<Rightarrow> string" where
  "first_trigger rs = (case first_where (\<lambda>(_, _, v). v = VFailed \<or> v = VMissing) rs of None \<Rightarrow> '''' | Some (h, rd, v) \<Rightarrow> trigger_text (rh_ip h) rd v)"

datatype decision = Rollback string | Advance | Hold

definition decide_wave :: "faults \<Rightarrow> time_ns \<Rightarrow> rollout \<Rightarrow> ro_db \<Rightarrow> decision" where
  "decide_wave flt now r db =
     (let rs = wave_reads flt now r db; converged = count_verdict VConverged rs; missing = count_verdict VMissing rs;
          reachable = int (length rs) - missing;
          need = (if ro_min_healthy r \<le> 0 \<or> ro_min_healthy r > reachable then reachable else ro_min_healthy r) in
      if count_verdict VFailed rs > 0 then Rollback (first_trigger rs)
      else if ro_wave r = 0 \<and> converged = 0 \<and> missing > 0 then Rollback (''canary not validated: '' @ first_trigger rs)
      else if converged \<ge> need then Advance
      else if now - ro_wave_started r \<ge> ro_observe r
        then Rollback (''wave '' @ show_int (int (ro_wave r)) @ '' did not converge within the observe window ('' @ show_int converged @ ''/'' @ show_int need @
               '' reachable healthy; '' @ show_int missing @ '' missing excluded)'')
      else Hold)"

definition mark_wave :: "rollout \<Rightarrow> time_ns \<Rightarrow> string \<Rightarrow> ro_db \<Rightarrow> ro_db" where
  "mark_wave r now st db = db\<lparr>rd_hosts := update_where (\<lambda>h. rh_rollout h = ro_id r \<and> rh_wave h = ro_wave r) (\<lambda>h. h\<lparr>rh_status := st, rh_updated := now\<rparr>) (rd_hosts db)\<rparr>"

definition set_rollout :: "int \<Rightarrow> (rollout \<Rightarrow> rollout) \<Rightarrow> ro_db \<Rightarrow> ro_db" where
  "set_rollout rid f db = db\<lparr>rd_rollouts := update_where (\<lambda>r. ro_id r = rid) f (rd_rollouts db)\<rparr>"

definition advanceTx :: "faults \<Rightarrow> time_ns \<Rightarrow> rollout \<Rightarrow> ro_db \<Rightarrow> (ro_err + audit_note) \<times> ro_db" where
  "advanceTx flt now r db =
     (if flt 0 \<or> flt 1 \<or> flt 2 then (Inl RoDb, db)
      else let db' = mark_wave r now HostConverged db in
      if count_where (\<lambda>h. rh_rollout h = ro_id r \<and> rh_wave h > ro_wave r) (rd_hosts db') = 0
      then (Inr (''system'', ''rollout-completed'', ro_name (ro_id r)),
            set_rollout (ro_id r) (\<lambda>q. q\<lparr>ro_state := StateCompleted, ro_updated := now, ro_note := ''all waves converged''\<rparr>) db')
      else (Inr (''system'', ''rollout-advanced'', ro_name (ro_id r)),
            set_rollout (ro_id r) (\<lambda>q. q\<lparr>ro_state := StateWidening, ro_wave := ro_wave r + 1, ro_wave_started := now, ro_updated := now\<rparr>) db'))"

definition rollbackTx :: "faults \<Rightarrow> time_ns \<Rightarrow> rollout \<Rightarrow> string \<Rightarrow> ro_db \<Rightarrow> (ro_err + audit_note) \<times> ro_db" where
  "rollbackTx flt now r trigger db =
     (if flt 0 \<or> flt 1 then (Inl RoDb, db)
      else (Inr (''system'', ''rollout-rolledback'', ro_name (ro_id r)),
            set_rollout (ro_id r) (\<lambda>q. q\<lparr>ro_state := StateRolledBack, ro_updated := now, ro_note := ''auto-rollback: '' @ trigger\<rparr>)
              (mark_wave r now HostFailed db)))"

text \<open>Statements 0 and 1 are the two reads, 2 up to the wave's size the heartbeats, then the writes.\<close>

definition evaluateLane :: "faults \<Rightarrow> bool \<Rightarrow> time_ns \<Rightarrow> string \<Rightarrow> ro_db \<Rightarrow> (ro_err + bool) \<times> ro_db" where
  "evaluateLane flt audit_fails now lane db =
     (if flt 0 then (Inl RoDb, db)
      else case lockedActiveCurrent lane db of
        None \<Rightarrow> (Inr False, db)
      | Some r \<Rightarrow>
          if flt 1 then (Inl RoDb, db)
          else let writes = skip_faults (2 + length (wave_rows r db)) flt;
                   out = (case decide_wave flt now r db of
                            Rollback t \<Rightarrow> Some (rollbackTx writes now r t db)
                          | Advance \<Rightarrow> Some (advanceTx writes now r db)
                          | Hold \<Rightarrow> None) in
          (case out of
             None \<Rightarrow> (Inr False, db)
           | Some (Inl e, db') \<Rightarrow> (Inl e, db')
           | Some (Inr evt, db') \<Rightarrow> (Inr True, ro_audit audit_fails evt db')))"

fun evaluate_lanes :: "(string \<Rightarrow> faults) \<Rightarrow> bool \<Rightarrow> time_ns \<Rightarrow> string list \<Rightarrow> bool \<Rightarrow> ro_db \<Rightarrow> (ro_err + bool) \<times> ro_db" where
  "evaluate_lanes flt audit_fails now [] changed db = (Inr changed, db)"
| "evaluate_lanes flt audit_fails now (l # ls) changed db = (case evaluateLane (flt l) audit_fails now l db of
     (Inl e, db) \<Rightarrow> (Inl e, db)
   | (Inr c, db) \<Rightarrow> evaluate_lanes flt audit_fails now ls (changed \<or> c) db)"

definition Evaluate :: "(string \<Rightarrow> faults) \<Rightarrow> bool \<Rightarrow> time_ns \<Rightarrow> ro_db \<Rightarrow> (ro_err + bool) \<times> ro_db" where
  "Evaluate flt audit_fails now db = evaluate_lanes flt audit_fails now lanes False db"

definition AbortLane :: "faults \<Rightarrow> bool \<Rightarrow> time_ns \<Rightarrow> string \<Rightarrow> string \<Rightarrow> ro_db \<Rightarrow> ro_err option \<times> ro_db" where
  "AbortLane flt audit_fails now lane actor db =
     (if flt 0 then (Some RoDb, db)
      else case lockedActiveCurrent lane db of
        None \<Rightarrow> (Some ErrNotActive, db)
      | Some r \<Rightarrow>
          if flt 1 then (Some RoDb, db)
          else (None, ro_audit audit_fails (actor, ''rollout-aborted'', ro_name (ro_id r))
                 (set_rollout (ro_id r) (\<lambda>q. q\<lparr>ro_state := StateRolledBack, ro_updated := now, ro_note := ''operator-aborted''\<rparr>) db)))"

definition Abort :: "faults \<Rightarrow> bool \<Rightarrow> time_ns \<Rightarrow> string \<Rightarrow> ro_db \<Rightarrow> ro_err option \<times> ro_db" where
  "Abort flt audit_fails now actor db = AbortLane flt audit_fails now LanePolicy actor db"

section \<open>What a host is told\<close>

definition host_of :: "int \<Rightarrow> string \<Rightarrow> ro_db \<Rightarrow> ro_host option" where
  "host_of rid ip db = first_where (\<lambda>h. rh_rollout h = rid \<and> rh_ip h = ip) (rd_hosts db)"

definition markReverted :: "bool \<Rightarrow> time_ns \<Rightarrow> int \<Rightarrow> ro_db \<Rightarrow> ro_db" where
  "markReverted fails now hid db =
     (if fails then db else db\<lparr>rd_hosts := update_where (\<lambda>h. rh_id h = hid) (\<lambda>h. h\<lparr>rh_status := HostReverted, rh_updated := now\<rparr>) (rd_hosts db)\<rparr>)"

text \<open>The version of the \<open>apply_bundle\<close> command, if any.\<close>

definition commandForLane :: "faults \<Rightarrow> time_ns \<Rightarrow> string \<Rightarrow> string \<Rightarrow> int \<Rightarrow> ro_db \<Rightarrow> int option \<times> ro_db" where
  "commandForLane flt now lane ip reported db =
     (case (if flt 0 then None else current lane db) of
        None \<Rightarrow> (None, db)
      | Some r \<Rightarrow> (case (if flt 1 then None else host_of (ro_id r) ip db) of
          None \<Rightarrow> (None, db)
        | Some h \<Rightarrow>
            if is_active r then (if rh_wave h \<le> ro_wave r \<and> reported \<noteq> ro_target r then Some (ro_target r) else None, db)
            else if ro_state r = StateCompleted then (if reported \<noteq> ro_target r then Some (ro_target r) else None, db)
            else if ro_state r = StateRolledBack \<and> lane \<noteq> LaneBlocklist \<and> rh_wave h \<le> ro_wave r then
              (if reported \<noteq> ro_prev r then (Some (ro_prev r), db)
               else (None, if rh_status h \<noteq> HostReverted then markReverted (flt 2) now (rh_id h) db else db))
            else (None, db)))"

definition CommandFor :: "faults \<Rightarrow> time_ns \<Rightarrow> string \<Rightarrow> int \<Rightarrow> ro_db \<Rightarrow> int option \<times> ro_db" where
  "CommandFor flt now ip reported db = commandForLane flt now LanePolicy ip reported db"

definition BlocklistCommandFor :: "faults \<Rightarrow> time_ns \<Rightarrow> string \<Rightarrow> int \<Rightarrow> ro_db \<Rightarrow> int option \<times> ro_db" where
  "BlocklistCommandFor flt now ip reported db = commandForLane flt now LaneBlocklist ip reported db"

definition NebulaCommandFor :: "faults \<Rightarrow> time_ns \<Rightarrow> string \<Rightarrow> int \<Rightarrow> ro_db \<Rightarrow> int option \<times> ro_db" where
  "NebulaCommandFor flt now ip reported db = commandForLane flt now LaneNebula ip reported db"

definition PilotCommandFor :: "faults \<Rightarrow> time_ns \<Rightarrow> string \<Rightarrow> int \<Rightarrow> ro_db \<Rightarrow> int option \<times> ro_db" where
  "PilotCommandFor flt now ip reported db = commandForLane flt now LanePilot ip reported db"

definition VersionFor :: "faults \<Rightarrow> string \<Rightarrow> ro_db \<Rightarrow> int option" where
  "VersionFor flt ip db = (case (if flt 0 then None else current LanePolicy db) of
     None \<Rightarrow> None
   | Some r \<Rightarrow> (case (if flt 1 then None else host_of (ro_id r) ip db) of
       None \<Rightarrow> Some (ro_prev r)
     | Some h \<Rightarrow> if is_active r \<and> rh_wave h \<le> ro_wave r then Some (ro_target r) else Some (ro_prev r)))"

definition BlocklistVersion :: "bool \<Rightarrow> ro_db \<Rightarrow> int" where
  "BlocklistVersion fails db =
     (let ts = map ro_target (filter (\<lambda>r. ro_lane r = LaneBlocklist) (rd_rollouts db)) in if fails \<or> ts = [] then 0 else foldl max (hd ts) (tl ts))"

definition genForLane :: "faults \<Rightarrow> string \<Rightarrow> string \<Rightarrow> ro_db \<Rightarrow> int option" where
  "genForLane flt lane ip db = (case (if flt 0 then None else current lane db) of
     None \<Rightarrow> None
   | Some r \<Rightarrow>
       if ro_state r = StateCompleted then Some (ro_target r)
       else if is_active r then
         (if flt 1 then None
          else case host_of (ro_id r) ip db of
            None \<Rightarrow> Some (ro_prev r)
          | Some h \<Rightarrow> if rh_wave h \<le> ro_wave r then Some (ro_target r) else Some (ro_prev r))
       else Some (ro_prev r))"

definition NebulaGenFor :: "faults \<Rightarrow> string \<Rightarrow> ro_db \<Rightarrow> int option" where "NebulaGenFor flt ip db = genForLane flt LaneNebula ip db"
definition PilotGenFor :: "faults \<Rightarrow> string \<Rightarrow> ro_db \<Rightarrow> int option" where "PilotGenFor flt ip db = genForLane flt LanePilot ip db"

definition currentCompletedGen :: "bool \<Rightarrow> string \<Rightarrow> ro_db \<Rightarrow> int" where
  "currentCompletedGen fails lane db =
     (case (if fails then None else first_where (\<lambda>r. ro_lane r = lane \<and> ro_state r = StateCompleted) (rev (rd_rollouts db))) of
        None \<Rightarrow> 0 | Some r \<Rightarrow> ro_target r)"

definition FloorCatchupGen :: "faults \<Rightarrow> string \<Rightarrow> int \<Rightarrow> ro_db \<Rightarrow> int option" where
  "FloorCatchupGen flt lane reported db =
     (if flt 0 then None
      else if lockedActiveCurrent lane db \<noteq> None then None
      else let floor = currentCompletedGen (flt 1) lane db in if floor = 0 \<or> reported \<ge> floor then None else Some floor)"

definition StatusLane :: "faults \<Rightarrow> string \<Rightarrow> ro_db \<Rightarrow> ro_err + rollout \<times> ro_host list" where
  "StatusLane flt lane db =
     (if flt 0 then Inl RoDb
      else case current lane db of
        None \<Rightarrow> Inl ErrNone
      | Some r \<Rightarrow> if flt 1 then Inl RoDb
          else Inr (r, sort_key (\<lambda>h. rh_wave h) (sort_key (\<lambda>h. rh_ip h) (filter (\<lambda>h. rh_rollout h = ro_id r) (rd_hosts db)))))"

section \<open>Tables\<close>

text \<open>Identifiers are unique and below their sequence, and every rollout has a host in its canary wave.\<close>

definition ro_ok :: "ro_db \<Rightarrow> bool" where
  "ro_ok db \<longleftrightarrow> distinct (map ro_id (rd_rollouts db)) \<and>
     (\<forall>r\<in>set (rd_rollouts db). ro_id r < rd_seq db \<and> (\<exists>h\<in>set (rd_hosts db). rh_rollout h = ro_id r \<and> rh_wave h = 0))"

text \<open>One transaction of some Core process, an operator, or new heartbeats.\<close>

inductive ro_step :: "time_ns \<Rightarrow> ro_db \<Rightarrow> ro_db \<Rightarrow> bool" where
  rs_start: "Start flt af now c db = (x, db') \<Longrightarrow> ro_step now db db'"
| rs_evaluate: "evaluateLane flt af now lane db = (x, db') \<Longrightarrow> ro_step now db db'"
| rs_abort: "AbortLane flt af now lane actor db = (x, db') \<Longrightarrow> ro_step now db db'"
| rs_command: "commandForLane flt now lane ip reported db = (x, db') \<Longrightarrow> ro_step now db db'"
| rs_beats: "ro_step now db (db\<lparr>rd_beats := bs\<rparr>)"

text \<open>Histories: the states passed through, with the time of the step that left them.\<close>

inductive ro_reach :: "(time_ns \<times> ro_db) list \<Rightarrow> ro_db \<Rightarrow> bool" where
  rr_init: "rd_rollouts db = [] \<Longrightarrow> ro_reach [] db"
| rr_step: "ro_reach tr db \<Longrightarrow> ro_step now db db' \<Longrightarrow> ro_reach ((now, db) # tr) db'"

lemma audit_sel [simp]:
  "rd_rollouts (ro_audit f r db) = rd_rollouts db" "rd_hosts (ro_audit f r db) = rd_hosts db" "rd_seq (ro_audit f r db) = rd_seq db"
  "rd_beats (ro_audit f r db) = rd_beats db"
  by (simp_all add: ro_audit_def)

lemma mark_sel [simp]:
  "rd_rollouts (mark_wave r now st db) = rd_rollouts db" "rd_seq (mark_wave r now st db) = rd_seq db" "rd_beats (mark_wave r now st db) = rd_beats db"
  by (simp_all add: mark_wave_def)

lemma set_sel [simp]:
  "rd_hosts (set_rollout rid f db) = rd_hosts db" "rd_seq (set_rollout rid f db) = rd_seq db" "rd_beats (set_rollout rid f db) = rd_beats db"
  by (simp_all add: set_rollout_def)

text \<open>What a host row keeps: its rollout and wave.\<close>

definition seats :: "ro_db \<Rightarrow> (int \<times> nat) set" where
  "seats db = set (map (\<lambda>h. (rh_rollout h, rh_wave h)) (rd_hosts db))"

lemma seats_update:
  assumes "\<And>h. rh_rollout (f h) = rh_rollout h" "\<And>h. rh_wave (f h) = rh_wave h"
  shows "seats (db\<lparr>rd_hosts := update_where P f (rd_hosts db)\<rparr>) = seats db"
  unfolding seats_def using map_key_update_where [of "\<lambda>h. (rh_rollout h, rh_wave h)" f P "rd_hosts db"] assms by simp

lemma seats_mark [simp]: "seats (mark_wave r now st db) = seats db" "seats (set_rollout rid f db) = seats db" "seats (ro_audit x n db) = seats db"
    "seats (markReverted fl now hid db) = seats db"
  using seats_update [of "\<lambda>h. h\<lparr>rh_status := st, rh_updated := now\<rparr>"] seats_update [of "\<lambda>h. h\<lparr>rh_status := HostReverted, rh_updated := now\<rparr>"]
  by (simp_all add: mark_wave_def markReverted_def) (simp_all add: seats_def)

lemma seats_rollouts [simp]: "seats (db\<lparr>rd_rollouts := rs\<rparr>) = seats db"
  by (simp add: seats_def)

lemma reverted_sel [simp]: "rd_rollouts (markReverted fl now hid db) = rd_rollouts db" "rd_seq (markReverted fl now hid db) = rd_seq db"
  by (simp_all add: markReverted_def)

text \<open>Every transaction but Start leaves the rows alone or rewrites the one active rollout of a lane.\<close>

lemma evaluate_cases:
  assumes "evaluateLane flt af now lane db = (x, db')"
  obtains (same) "db' = db" "x \<noteq> Inr True"
  | (undo) r t where "lockedActiveCurrent lane db = Some r" "decide_wave flt now r db = Rollback t" "seats db' = seats db" "rd_seq db' = rd_seq db" "x = Inr True"
      "rd_rollouts db' = update_where (\<lambda>q. ro_id q = ro_id r) (\<lambda>q. q\<lparr>ro_state := StateRolledBack, ro_updated := now, ro_note := ''auto-rollback: '' @ t\<rparr>) (rd_rollouts db)"
  | (finish) r where "lockedActiveCurrent lane db = Some r" "decide_wave flt now r db = Advance" "seats db' = seats db" "rd_seq db' = rd_seq db" "x = Inr True"
      "rd_rollouts db' = update_where (\<lambda>q. ro_id q = ro_id r) (\<lambda>q. q\<lparr>ro_state := StateCompleted, ro_updated := now, ro_note := ''all waves converged''\<rparr>) (rd_rollouts db)"
  | (widen) r w where "lockedActiveCurrent lane db = Some r" "decide_wave flt now r db = Advance" "seats db' = seats db" "rd_seq db' = rd_seq db" "x = Inr True"
      "(ro_id r, w) \<in> seats db" "w > ro_wave r"
      "rd_rollouts db' = update_where (\<lambda>q. ro_id q = ro_id r) (\<lambda>q. q\<lparr>ro_state := StateWidening, ro_wave := ro_wave r + 1, ro_wave_started := now, ro_updated := now\<rparr>) (rd_rollouts db)"
proof (cases "lockedActiveCurrent lane db")
  case None
  then show thesis using assms same by (auto simp: evaluateLane_def split: if_splits)
next
  case (Some r)
  define w where "w = skip_faults (2 + length (wave_rows r db)) flt"
  have seat: "\<exists>v. (ro_id r, v) \<in> seats db \<and> v > ro_wave r" if c: "count_where (\<lambda>h. rh_rollout h = ro_id r \<and> rh_wave h > ro_wave r) (rd_hosts (mark_wave r now HostConverged db)) \<noteq> 0"
  proof -
    obtain h where "h \<in> set (rd_hosts (mark_wave r now HostConverged db))" "rh_rollout h = ro_id r" "rh_wave h > ro_wave r"
      using c unfolding count_where_0_iff by auto
    then have "(ro_id r, rh_wave h) \<in> seats (mark_wave r now HostConverged db)" unfolding seats_def by force
    then show ?thesis using \<open>rh_wave h > ro_wave r\<close> by auto
  qed
  show thesis
  proof (cases "decide_wave flt now r db")
    case (Rollback t)
    then show thesis using assms Some same undo [OF Some Rollback]
      by (auto simp: evaluateLane_def Let_def rollbackTx_def set_rollout_def split: if_splits)
  next
    case Advance
    then show thesis using assms Some same finish [OF Some Advance] widen [OF Some Advance] seat
      by (auto simp: evaluateLane_def Let_def advanceTx_def set_rollout_def split: if_splits)
  next
    case Hold
    then show thesis using assms Some same by (auto simp: evaluateLane_def Let_def split: if_splits)
  qed
qed

lemma current_in:
  assumes "lockedActiveCurrent lane db = Some r"
  shows "r \<in> set (rd_rollouts db)" "ro_lane r = lane" "is_active r"
  using assms by (auto simp: lockedActiveCurrent_def current_def split: option.splits if_splits)

lemma command_rollouts:
  assumes "commandForLane flt now lane ip reported db = (x, db')"
  shows "rd_rollouts db' = rd_rollouts db" "seats db' = seats db" "rd_seq db' = rd_seq db"
proof -
  have "db' = db \<or> (\<exists>f h. db' = markReverted f now h db)" using assms
    by (auto simp: commandForLane_def split: option.splits if_splits)
  then show "rd_rollouts db' = rd_rollouts db" "seats db' = seats db" "rd_seq db' = rd_seq db"
    by auto
qed

lemma wave_hosts_canary:
  assumes "sc_hosts c \<noteq> []"
  shows "\<exists>h\<in>set (wave_hosts rid seq now c). rh_rollout h = rid \<and> rh_wave h = 0"
proof -
  obtain ip ips where h: "sc_hosts c = ip # ips" using assms by (cases "sc_hosts c") auto
  have "canary_size c > 0" using h by (auto simp: canary_size_def Let_def)
  then show ?thesis using h by (simp add: wave_hosts_def wave_of_def)
qed

lemma seats_iff: "(i, w) \<in> seats db \<longleftrightarrow> (\<exists>h\<in>set (rd_hosts db). rh_rollout h = i \<and> rh_wave h = w)"
  by (auto simp: seats_def)

lemma ro_ok_seats: "ro_ok db \<longleftrightarrow> distinct (map ro_id (rd_rollouts db)) \<and> (\<forall>r\<in>set (rd_rollouts db). ro_id r < rd_seq db \<and> (ro_id r, 0) \<in> seats db)"
  by (simp add: ro_ok_def seats_iff)

lemma ro_ok_update:
  assumes "ro_ok db" "rd_rollouts db' = update_where P f (rd_rollouts db)" "seats db' = seats db" "rd_seq db' = rd_seq db" "\<And>r. ro_id (f r) = ro_id r"
  shows "ro_ok db'"
  using assms map_key_update_where [of ro_id f P "rd_rollouts db"] by (auto simp: ro_ok_seats set_update_where)

lemma Start_cases:
  assumes "Start flt af now c db = (x, db')"
  obtains (same) "db' = db"
  | (started) lane where "sc_hosts c \<noteq> []" "lockedActiveCurrent lane db = None" "x = Inr (new_rollout (rd_seq db) lane now c)"
      "rd_rollouts db' = rd_rollouts db @ [new_rollout (rd_seq db) lane now c]" "rd_seq db' = rd_seq db + 1"
      "rd_hosts db' = rd_hosts db @ wave_hosts (rd_seq db) (rd_host_seq db) now c"
proof (cases "fst (Start flt af now c db)")
  case (Inl e)
  then show thesis using assms same by (auto simp: Start_def Let_def split: if_splits)
next
  case (Inr r)
  define lane where "lane = (if sc_lane c = [] then LanePolicy else sc_lane c)"
  have g: "sc_hosts c \<noteq> []" "lockedActiveCurrent lane db = None" using Inr by (auto simp: Start_def Let_def lane_def split: if_splits)
  have "\<not> flt 0" "\<not> (list_ex flt [1..<length (sc_hosts c) + 2] \<or> \<not> distinct (sc_hosts c))"
    using Inr by (auto simp: Start_def Let_def split: if_splits)
  then have "(x, db') = (Inr (new_rollout (rd_seq db) lane now c), ro_audit af (sc_actor c, ''rollout-start'', ro_name (rd_seq db))
      (db\<lparr>rd_rollouts := rd_rollouts db @ [new_rollout (rd_seq db) lane now c], rd_seq := rd_seq db + 1, rd_hosts := rd_hosts db @ wave_hosts (rd_seq db) (rd_host_seq db) now c,
          rd_host_seq := rd_host_seq db + int (length (sc_hosts c))\<rparr>))"
    using g assms unfolding Start_def Let_def lane_def [symmetric] by simp
  then show thesis using started [OF g] by simp
qed

lemma Abort_cases:
  assumes "AbortLane flt af now lane actor db = (x, db')"
  obtains (same) "db' = db"
  | (frozen) r where "lockedActiveCurrent lane db = Some r" "seats db' = seats db" "rd_seq db' = rd_seq db"
      "rd_rollouts db' = update_where (\<lambda>q. ro_id q = ro_id r) (\<lambda>q. q\<lparr>ro_state := StateRolledBack, ro_updated := now, ro_note := ''operator-aborted''\<rparr>) (rd_rollouts db)"
  using assms by (auto simp: AbortLane_def set_rollout_def split: if_splits option.splits)

lemma ro_ok_step:
  assumes "ro_step now db db'" "ro_ok db"
  shows "ro_ok db'"
  using assms
proof (cases rule: ro_step.cases)
  case (rs_start flt af c x)
  from rs_start(1) show ?thesis
  proof (cases rule: Start_cases)
    case (started lane)
    then show ?thesis using assms(2) wave_hosts_canary [OF started(1)]
      by (fastforce simp: ro_ok_def new_rollout_def)
  qed (use assms in simp)
next
  case (rs_evaluate flt af lane x)
  from rs_evaluate(1) show ?thesis
    by (cases rule: evaluate_cases) (use assms(2) in \<open>auto elim!: ro_ok_update\<close>)
next
  case (rs_abort flt af lane actor x)
  from rs_abort(1) show ?thesis by (cases rule: Abort_cases) (use assms(2) in \<open>auto elim!: ro_ok_update\<close>)
next
  case (rs_command flt lane ip reported x)
  then show ?thesis using assms(2) command_rollouts by (simp add: ro_ok_seats)
qed (use assms(2) in \<open>simp add: ro_ok_def\<close>)

section \<open>The canary comes first\<close>

text \<open>A host of the canary wave ran the target, in good health and seen recently.\<close>

definition canary_validated :: "rollout \<Rightarrow> time_ns \<times> ro_db \<Rightarrow> bool" where
  "canary_validated r s \<longleftrightarrow> (\<exists>h\<in>set (rd_hosts (snd s)). rh_rollout h = ro_id r \<and> rh_wave h = 0 \<and>
     (\<exists>b\<in>set (rd_beats (snd s)). hb_ip b = rh_ip h \<and> appliedFor b (ro_lane r) = ro_target r \<and> \<not> healthBad (hb_health b) \<and> hb_seen b \<ge> fst s - ro_missing_after r))"

lemma verdict_VConverged:
  assumes "host_verdict now r (read_beat f ip db) = VConverged"
  shows "\<exists>b\<in>set (rd_beats db). hb_ip b = ip \<and> appliedFor b (ro_lane r) = ro_target r \<and> \<not> healthBad (hb_health b) \<and> hb_seen b \<ge> now - ro_missing_after r"
  using assms by (auto simp: host_verdict_def read_beat_def dest!: first_where_SomeD split: if_splits option.splits beat_read.splits)

lemma wave_reads_length: "length (wave_reads flt now r db) = length (wave_rows r db)"
  by (simp add: wave_reads_def)

lemma wave_reads_mem:
  assumes "(h, rd, v) \<in> set (wave_reads flt now r db)"
  shows "h \<in> set (wave_rows r db)" "\<exists>f. rd = read_beat f (rh_ip h) db" "v = host_verdict now r rd"
  using assms by (auto simp: wave_reads_def Let_def in_set_enumerate_eq)

lemma count_verdict_pos: "count_verdict v rs > 0 \<Longrightarrow> \<exists>h rd. (h, rd, v) \<in> set rs"
  by (auto simp: count_verdict_def dest!: filter_eq_ConsD length_pos_if_in_set split: prod.splits) (metis (mono_tags, lifting) case_prod_unfold filter_False length_greater_0_conv prod.collapse)

lemma advance_validated:
  assumes "ro_ok db" "r \<in> set (rd_rollouts db)" "ro_wave r = 0" "decide_wave flt now r db = Advance"
  shows "canary_validated r (now, db)"
proof -
  let ?rs = "wave_reads flt now r db"
  have ne: "int (length ?rs) > 0" using assms(1-3) by (auto simp: wave_reads_length ro_ok_def wave_rows_def length_greater_0_conv filter_empty_conv)
  have nn: "count_verdict v ?rs \<ge> 0" for v by (simp add: count_verdict_def)
  have "count_verdict VConverged ?rs > 0"
  proof (cases "count_verdict VMissing ?rs > 0")
    case True
    then show ?thesis using assms(3,4) nn [of VConverged] by (auto simp: decide_wave_def Let_def split: if_splits)
  next
    case False
    then have "count_verdict VMissing ?rs = 0" using nn [of VMissing] by simp
    then show ?thesis using assms(4) ne by (cases ?rs) (auto simp: decide_wave_def Let_def split: if_splits)
  qed
  then obtain h rd where h: "(h, rd, VConverged) \<in> set ?rs" using count_verdict_pos by blast
  then obtain f where f: "h \<in> set (wave_rows r db)" "host_verdict now r (read_beat f (rh_ip h) db) = VConverged"
    using wave_reads_mem [OF h] by metis
  show ?thesis using verdict_VConverged [OF f(2)] f(1) assms(3) by (auto simp: canary_validated_def wave_rows_def)
qed

text \<open>The identity of a rollout: what the validation of its canary refers to.\<close>

definition same_rollout :: "rollout \<Rightarrow> rollout \<Rightarrow> bool" where
  "same_rollout q r \<longleftrightarrow> ro_id q = ro_id r \<and> ro_lane q = ro_lane r \<and> ro_target q = ro_target r \<and> ro_missing_after q = ro_missing_after r"

lemma validated_same: "same_rollout q r \<Longrightarrow> canary_validated q s \<Longrightarrow> canary_validated r s"
  by (simp add: same_rollout_def canary_validated_def)

definition widened :: "rollout \<Rightarrow> bool" where
  "widened r \<longleftrightarrow> ro_wave r > 0 \<or> ro_state r = StateCompleted"

text \<open>A step leaves every widened rollout in place or has just seen its canary validated.\<close>

lemma step_widened:
  assumes "ro_step now db db'" "ro_ok db" "r \<in> set (rd_rollouts db')" "widened r"
  shows "(\<exists>q\<in>set (rd_rollouts db). same_rollout q r \<and> widened q) \<or> canary_validated r (now, db)"
  using assms(1)
proof (cases rule: ro_step.cases)
  case (rs_start flt af c x)
  from rs_start(1) show ?thesis
    by (cases rule: Start_cases) (use assms(3,4) in \<open>auto simp: same_rollout_def widened_def new_rollout_def rollout_consts\<close>)
next
  case (rs_evaluate flt af lane x)
  have pick: "(\<exists>q\<in>set (rd_rollouts db). same_rollout q r \<and> widened q) \<or> canary_validated r (now, db)"
    if "lockedActiveCurrent lane db = Some a" "rd_rollouts db' = update_where (\<lambda>q. ro_id q = ro_id a) f (rd_rollouts db)"
      "decide_wave flt now a db = Advance" "\<And>q. same_rollout q (f q)" for a f
  proof -
    have a: "a \<in> set (rd_rollouts db)" using current_in that(1) by blast
    have inj: "inj_on ro_id (set (rd_rollouts db))" using assms(2) by (simp add: ro_ok_def distinct_map)
    have "r \<in> set (rd_rollouts db) \<or> r = f a" using assms(3) that(2) inj a by (auto simp: set_update_where dest: inj_onD)
    then show ?thesis
    proof
      assume "r = f a"
      then have "same_rollout a r" using that(4) by simp
      then show ?thesis
        using advance_validated [OF assms(2) a _ that(3)] a validated_same by (cases "ro_wave a = 0") (auto simp: widened_def)
    qed (use assms(4) in \<open>auto simp: same_rollout_def\<close>)
  qed
  from rs_evaluate(1) show ?thesis
  proof (cases rule: evaluate_cases)
    case same
    then show ?thesis using assms(3,4) by (auto simp: same_rollout_def)
  next
    case (undo a t)
    then show ?thesis using assms(3,4) by (auto simp: set_update_where same_rollout_def widened_def rollout_consts)
  next
    case (finish a)
    show ?thesis by (rule pick [OF finish(1,6,2)]) (simp add: same_rollout_def)
  next
    case (widen a w)
    show ?thesis by (rule pick [OF widen(1,8,2)]) (simp add: same_rollout_def)
  qed
next
  case (rs_abort flt af lane actor x)
  from rs_abort(1) show ?thesis
    by (cases rule: Abort_cases) (use assms(3,4) in \<open>auto simp: set_update_where same_rollout_def widened_def rollout_consts\<close>)
next
  case (rs_command flt lane ip reported x)
  then show ?thesis using assms(3,4) command_rollouts by (auto simp: same_rollout_def)
next
  case (rs_beats bs)
  then show ?thesis using assms(3,4) by (auto simp: same_rollout_def)
qed

text \<open>
  C4: A bad release stops at the canary: in every history of starts, evaluations, aborts, commands and heartbeats, with any failing
  statements, a rollout that has gone beyond its canary wave or completed was, at some earlier evaluation, validated by a
  canary host that reported the target version, in good health and within the silence limit.
\<close>

theorem canary_before_widening:
  assumes "ro_reach tr db" "r \<in> set (rd_rollouts db)" "ro_wave r > 0 \<or> ro_state r = StateCompleted"
  shows "\<exists>s\<in>set tr. canary_validated r s"
proof -
  from assms(1) have "ro_ok db \<and> (\<forall>r\<in>set (rd_rollouts db). widened r \<longrightarrow> (\<exists>s\<in>set tr. canary_validated r s))"
  proof (induction)
    case (rr_init db)
    then show ?case by (simp add: ro_ok_def)
  next
    case (rr_step tr db now db')
    then show ?case using ro_ok_step step_widened [OF rr_step(2)] validated_same by (fastforce)
  qed
  then show ?thesis using assms(2,3) by (auto simp: widened_def)
qed

definition demo_start :: start_config where
  "demo_start = \<lparr>sc_lane = '''', sc_description = '''', sc_target = 2, sc_prev = 1, sc_hosts = [''a'', ''b''], sc_canary = 1, sc_wave_size = 0, sc_min_healthy = 0,
     sc_observe = 100, sc_missing_after = 50, sc_actor = ''op''\<rparr>"

definition demo_empty :: ro_db where
  "demo_empty = \<lparr>rd_rollouts = [], rd_seq = 1, rd_hosts = [], rd_host_seq = 1, rd_beats = [], rd_audit = []\<rparr>"

definition demo_started :: ro_db where "demo_started = snd (Start no_faults False 0 demo_start demo_empty)"

definition demo_beats :: "beat list" where
  "demo_beats = [\<lparr>hb_ip = ''a'', hb_bundle = 2, hb_blocklist = 0, hb_nebula = 0, hb_pilot = 0, hb_health = ''ok'', hb_seen = 8\<rparr>]"

definition demo_widened :: ro_db where "demo_widened = snd (evaluateLane no_faults False 10 LanePolicy (demo_started\<lparr>rd_beats := demo_beats\<rparr>))"

theorem canary_before_widening_witness:
  "ro_wave (hd (rd_rollouts demo_widened)) = 1 \<and>
   list_ex (canary_validated (hd (rd_rollouts demo_widened))) [(10, demo_started\<lparr>rd_beats := demo_beats\<rparr>), (5, demo_started), (0, demo_empty)]"
proof -
  have "ro_reach [] demo_empty" by (rule rr_init) (simp add: demo_empty_def)
  moreover have "ro_step 0 demo_empty demo_started" by (rule rs_start [of no_faults False 0 demo_start]) (simp add: demo_started_def prod_eq_iff)
  moreover have "ro_step 5 demo_started (demo_started\<lparr>rd_beats := demo_beats\<rparr>)" by (rule rs_beats)
  moreover have "ro_step 10 (demo_started\<lparr>rd_beats := demo_beats\<rparr>) demo_widened"
    by (rule rs_evaluate [of no_faults False 10 LanePolicy]) (simp add: demo_widened_def prod_eq_iff)
  ultimately have r: "ro_reach [(10, demo_started\<lparr>rd_beats := demo_beats\<rparr>), (5, demo_started), (0, demo_empty)] demo_widened"
    by (blast intro: rr_step)
  have w: "ro_wave (hd (rd_rollouts demo_widened)) = 1" "length (rd_rollouts demo_widened) = 1" by code_simp+
  then have "hd (rd_rollouts demo_widened) \<in> set (rd_rollouts demo_widened)" by (cases "rd_rollouts demo_widened") auto
  then show ?thesis using canary_before_widening [OF r] w unfolding list_ex_iff by simp
qed

section \<open>Every rollout ends\<close>

lemma current_update:
  assumes "\<And>q. ro_lane (f q) = ro_lane q"
  shows "first_where (\<lambda>r. ro_lane r = lane) (rev (update_where P f rs)) = map_option (\<lambda>r. if P r then f r else r) (first_where (\<lambda>r. ro_lane r = lane) (rev rs))"
  using assms by (induction rs rule: rev_induct) (auto simp: first_where_append)

lemma updated_current:
  assumes "lockedActiveCurrent lane db = Some r" "rd_rollouts db' = update_where (\<lambda>q. ro_id q = ro_id r) f (rd_rollouts db)" "\<And>q. ro_lane (f q) = ro_lane q"
  shows "lockedActiveCurrent lane db' = (if is_active (f r) then Some (f r) else None)"
  using assms current_update [of f lane "\<lambda>q. ro_id q = ro_id r" "rd_rollouts db"]
  by (auto simp: lockedActiveCurrent_def current_def split: option.splits if_splits)

lemma evaluate_decides:
  assumes "lockedActiveCurrent lane db = Some r" "\<And>k. \<not> flt k" "now - ro_wave_started r \<ge> ro_observe r"
  shows "fst (evaluateLane flt af now lane db) = Inr True"
proof -
  have "decide_wave flt now r db \<noteq> Hold" using assms(3) by (auto simp: decide_wave_def Let_def split: if_splits)
  then show ?thesis using assms(1,2)
    by (auto simp: evaluateLane_def Let_def rollbackTx_def advanceTx_def skip_faults_def split: decision.splits)
qed

text \<open>One late evaluation: when it comes, what heartbeats it sees, whether its audit row is written.\<close>

record eval_call =
  el_now :: time_ns
  el_beats :: "beat list"
  el_audit_fails :: bool

definition eval_at :: "string \<Rightarrow> eval_call \<Rightarrow> ro_db \<Rightarrow> ro_db" where
  "eval_at lane e db = snd (evaluateLane no_faults (el_audit_fails e) (el_now e) lane (db\<lparr>rd_beats := el_beats e\<rparr>))"

definition evals :: "string \<Rightarrow> eval_call list \<Rightarrow> ro_db \<Rightarrow> ro_db" where
  "evals lane es db = foldl (\<lambda>db e. eval_at lane e db) db es"

fun spaced :: "time_ns \<Rightarrow> int \<Rightarrow> eval_call list \<Rightarrow> bool" where
  "spaced t gap [] = True"
| "spaced t gap (e # es) = (t + gap \<le> el_now e \<and> spaced (el_now e) gap es)"

lemma evals_ended: "lockedActiveCurrent lane db = None \<Longrightarrow> lockedActiveCurrent lane (evals lane es db) = None"
proof (induction es arbitrary: db)
  case (Cons e es)
  then have "lockedActiveCurrent lane (db\<lparr>rd_beats := el_beats e\<rparr>) = None" by (simp add: lockedActiveCurrent_def current_def)
  then have "lockedActiveCurrent lane (eval_at lane e db) = None" by (simp add: eval_at_def evaluateLane_def)
  then show ?case using Cons.IH by (simp add: evals_def)
qed (simp add: evals_def)

lemma eval_progress:
  assumes "lockedActiveCurrent lane db = Some r" "ro_wave_started r + ro_observe r \<le> el_now e"
  shows "lockedActiveCurrent lane (eval_at lane e db) = None \<or>
    (\<exists>q w. lockedActiveCurrent lane (eval_at lane e db) = Some q \<and> seats (eval_at lane e db) = seats db \<and> (ro_id r, w) \<in> seats db \<and> w > ro_wave r \<and>
       ro_id q = ro_id r \<and> ro_wave q = ro_wave r + 1 \<and> ro_wave_started q = el_now e \<and> ro_observe q = ro_observe r)"
proof -
  let ?db = "db\<lparr>rd_beats := el_beats e\<rparr>"
  obtain x db' where ev: "evaluateLane no_faults (el_audit_fails e) (el_now e) lane ?db = (x, db')" by fastforce
  have l: "lockedActiveCurrent lane ?db = Some r" using assms(1) by (simp add: lockedActiveCurrent_def current_def)
  have st: "seats ?db = seats db" by (simp add: seats_def)
  have x: "x = Inr True" using evaluate_decides [OF l, of no_faults "el_now e" "el_audit_fails e"] assms(2) ev by simp
  have db': "eval_at lane e db = db'" by (simp add: eval_at_def ev)
  from ev show ?thesis
  proof (cases rule: evaluate_cases)
    case same
    then show ?thesis using x by simp
  next
    case (undo a t)
    then have "a = r" using l by simp
    then show ?thesis using updated_current [OF l, of db'] undo db' by (auto simp: is_active_def rollout_consts)
  next
    case (finish a)
    then have "a = r" using l by simp
    then show ?thesis using updated_current [OF l, of db'] finish db' by (auto simp: is_active_def rollout_consts)
  next
    case (widen a w)
    then have "a = r" using l by simp
    then show ?thesis using updated_current [OF l, of db'] widen db' st by (auto simp: is_active_def rollout_consts)
  qed
qed

text \<open>
  C26: Every rollout is decided: on a working store, whatever the heartbeats say and however many hosts are silent, evaluations that come an
  observe window apart end the rollout, completed or rolled back, after at most one evaluation per remaining wave and one more.
\<close>

theorem rollout_terminates:
  assumes "lockedActiveCurrent lane db = Some r" "spaced (ro_wave_started r) (ro_observe r) (e # es)"
    and "\<forall>h\<in>set (rd_hosts db). rh_rollout h = ro_id r \<longrightarrow> rh_wave h \<le> ro_wave r + length es"
  shows "lockedActiveCurrent lane (evals lane (e # es) db) = None"
proof -
  have "\<forall>w. (ro_id r, w) \<in> seats db \<longrightarrow> w \<le> ro_wave r + length es" using assms(3) by (auto simp: seats_iff)
  then show ?thesis using assms(1,2)
  proof (induction es arbitrary: db r e)
    case Nil
    then show ?case using eval_progress [of lane db r e] by (force simp: evals_def)
  next
    case (Cons e' es)
    have t: "ro_wave_started r + ro_observe r \<le> el_now e" using Cons.prems(3) by simp
    show ?case using eval_progress [OF Cons.prems(2) t]
    proof
      assume "lockedActiveCurrent lane (eval_at lane e db) = None"
      then show ?thesis using evals_ended [of lane "eval_at lane e db" "e' # es"] by (simp add: evals_def)
    next
      assume "\<exists>q w. lockedActiveCurrent lane (eval_at lane e db) = Some q \<and> seats (eval_at lane e db) = seats db \<and> (ro_id r, w) \<in> seats db \<and> w > ro_wave r \<and>
         ro_id q = ro_id r \<and> ro_wave q = ro_wave r + 1 \<and> ro_wave_started q = el_now e \<and> ro_observe q = ro_observe r"
      then obtain q where q: "lockedActiveCurrent lane (eval_at lane e db) = Some q" "seats (eval_at lane e db) = seats db"
        "ro_id q = ro_id r" "ro_wave q = ro_wave r + 1" "ro_wave_started q = el_now e" "ro_observe q = ro_observe r" by blast
      have "lockedActiveCurrent lane (evals lane (e' # es) (eval_at lane e db)) = None"
        by (rule Cons.IH [OF _ q(1)]) (use q Cons.prems(1,3) in auto)
      then show ?thesis by (simp add: evals_def)
    qed
  qed
qed

theorem rollout_terminates_witness:
  "lockedActiveCurrent LanePolicy demo_started \<noteq> None \<and>
   lockedActiveCurrent LanePolicy (evals LanePolicy [\<lparr>el_now = 200, el_beats = [], el_audit_fails = False\<rparr>, \<lparr>el_now = 300, el_beats = [], el_audit_fails = False\<rparr>] demo_started) = None"
proof -
  have s: "lockedActiveCurrent LanePolicy demo_started = Some (new_rollout 1 LanePolicy 0 demo_start)" by code_simp
  have h: "list_all (\<lambda>h. rh_wave h \<le> 1) (rd_hosts demo_started)" by code_simp
  show ?thesis
    using rollout_terminates [OF s, of "\<lparr>el_now = 200, el_beats = [], el_audit_fails = False\<rparr>" "[\<lparr>el_now = 300, el_beats = [], el_audit_fails = False\<rparr>]"] s h
    by (simp add: new_rollout_def demo_start_def list_all_iff)
qed

section \<open>Lanes and decided rollouts\<close>

text \<open>A decided rollout is final: no step changes its row.\<close>

lemma decided_rollout_final:
  assumes "ro_step now db db'" "ro_ok db" "r \<in> set (rd_rollouts db)" "\<not> is_active r"
  shows "r \<in> set (rd_rollouts db')"
proof -
  have keep: "r \<in> set (rd_rollouts db')" if "lockedActiveCurrent lane db = Some a" "rd_rollouts db' = update_where (\<lambda>q. ro_id q = ro_id a) f (rd_rollouts db)" for lane a f
  proof -
    have "ro_id r \<noteq> ro_id a" using current_in [OF that(1)] assms(2-4) by (metis distinct_map inj_onD ro_ok_def)
    then show ?thesis using that(2) assms(3) by (auto simp: set_update_where)
  qed
  from assms(1) show ?thesis
  proof (cases rule: ro_step.cases)
    case (rs_start flt af c x)
    from rs_start(1) show ?thesis by (cases rule: Start_cases) (use assms(3) in auto)
  next
    case (rs_evaluate flt af lane x)
    from rs_evaluate(1) show ?thesis by (cases rule: evaluate_cases) (use assms(3) keep in auto)
  next
    case (rs_abort flt af lane actor x)
    from rs_abort(1) show ?thesis by (cases rule: Abort_cases) (use assms(3) keep in auto)
  next
    case (rs_command flt lane ip reported x)
    then show ?thesis using assms(3) command_rollouts by simp
  qed (use assms(3) in simp)
qed

text \<open>While a rollout is active, no host outside the activated waves is told to apply the target; a rolled-back one sends nobody there.\<close>

lemma command_bounded:
  assumes "current lane db = Some r" "commandForLane flt now lane ip reported db = (Some v, db')" "ro_state r \<noteq> StateCompleted" "v \<noteq> ro_prev r"
  shows "is_active r \<and> v = ro_target r \<and> (\<exists>h. host_of (ro_id r) ip db = Some h \<and> rh_wave h \<le> ro_wave r)"
  using assms by (auto simp: commandForLane_def split: if_splits option.splits)

text \<open>
  After a completed policy rollout the two answers disagree: a host that refetches its bundle is stamped with the previous
  version, reports it, and is told to apply the target, on every heartbeat.
\<close>

lemma completed_rollout_never_settles:
  assumes "current LanePolicy db = Some r" "ro_state r = StateCompleted" "host_of (ro_id r) ip db = Some h" "ro_prev r \<noteq> ro_target r"
  shows "VersionFor no_faults ip db = Some (ro_prev r) \<and> CommandFor no_faults now ip (ro_prev r) db = (Some (ro_target r), db)"
  using assms by (simp add: VersionFor_def CommandFor_def commandForLane_def is_active_def rollout_consts)

end
