(* ===== verification/Addrtext.thy ===== *)
theory Addrtext
  imports Netip
begin

text \<open>
  \<open>netip.ParseAddr\<close>, which the code applies to the overlay addresses it keeps as text: dotted decimal without leading
  zeros, colon-separated hexadecimal groups with at most one \<open>::\<close>, an embedded IPv4 tail and a zone.  An IPv4 address
  that was printed parses back to itself.
\<close>

definition digit_val :: "char \<Rightarrow> nat option" where
  "digit_val c = (let n = of_char c in if 48 \<le> n \<and> n \<le> 57 then Some (n - 48) else None)"

definition hex_val :: "char \<Rightarrow> nat option" where
  "hex_val c = (let n = of_char c in
     if 48 \<le> n \<and> n \<le> 57 then Some (n - 48) else if 97 \<le> n \<and> n \<le> 102 then Some (n - 87)
     else if 65 \<le> n \<and> n \<le> 70 then Some (n - 55) else None)"

text \<open>The fields read so far, the value and the number of digits of the current one.\<close>

fun parse4_loop :: "nat list \<Rightarrow> nat \<Rightarrow> nat \<Rightarrow> string \<Rightarrow> nat list option" where
  "parse4_loop fs v n [] = (if length fs < 3 then None else Some (fs @ [v]))"
| "parse4_loop fs v n (c # cs) = (case digit_val c of
     Some d \<Rightarrow> if n = 1 \<and> v = 0 then None else if v * 10 + d > 255 then None else parse4_loop fs (v * 10 + d) (n + 1) cs
   | None \<Rightarrow> if c \<noteq> CHR ''.'' \<or> n = 0 \<or> cs = [] \<or> length fs = 3 then None else parse4_loop (fs @ [v]) 0 0 cs)"

definition parseIPv4 :: "string \<Rightarrow> addr option" where
  "parseIPv4 s = map_option (\<lambda>fs. Addr4 (of_int (foldl (\<lambda>a f. a * 256 + int f) 0 fs))) (parse4_loop [] 0 0 s)"

definition finish6 :: "nat list \<Rightarrow> nat option \<Rightarrow> string \<Rightarrow> nat list option" where
  "finish6 gs ellipsis s =
     (if s \<noteq> [] then None
      else if length gs < 8 then map_option (\<lambda>e. take e gs @ replicate (8 - length gs) 0 @ drop e gs) ellipsis
      else if ellipsis \<noteq> None then None else Some gs)"

fun parse6_loop :: "nat \<Rightarrow> nat list \<Rightarrow> nat option \<Rightarrow> string \<Rightarrow> nat list option" where
  "parse6_loop 0 gs ellipsis s = finish6 gs ellipsis s"
| "parse6_loop (Suc left) gs ellipsis s =
     (let ds = takeWhile (\<lambda>c. hex_val c \<noteq> None) s; rest = dropWhile (\<lambda>c. hex_val c \<noteq> None) s in
      if ds = [] \<or> length ds > 4 then None
      else if rest \<noteq> [] \<and> hd rest = CHR ''.'' then
        (if (ellipsis = None \<and> length gs \<noteq> 6) \<or> length gs > 6 then None
         else case parse4_loop [] 0 0 s of
           Some [a, b, c, d] \<Rightarrow> finish6 (gs @ [a * 256 + b, c * 256 + d]) ellipsis []
         | _ \<Rightarrow> None)
      else let gs' = gs @ [foldl (\<lambda>a c. a * 16 + the (hex_val c)) 0 ds] in
        case rest of
          [] \<Rightarrow> finish6 gs' ellipsis []
        | c # cs \<Rightarrow>
            if c \<noteq> CHR '':'' \<or> cs = [] then None
            else if hd cs = CHR '':'' then
              (if ellipsis \<noteq> None then None
               else if tl cs = [] then finish6 gs' (Some (length gs')) []
               else parse6_loop left gs' (Some (length gs')) (tl cs))
            else parse6_loop left gs' ellipsis cs)"

definition parseIPv6 :: "string \<Rightarrow> addr option" where
  "parseIPv6 s =
     (let body = takeWhile (\<lambda>c. c \<noteq> CHR ''%'') s; tail = dropWhile (\<lambda>c. c \<noteq> CHR ''%'') s; zone = tl tail;
          groups = (if take 2 body = ''::'' then (if drop 2 body = [] then Some (replicate 8 0) else parse6_loop 8 [] (Some 0) (drop 2 body))
                    else parse6_loop 8 [] None body) in
      if tail \<noteq> [] \<and> zone = [] then None
      else map_option (\<lambda>gs. Addr6 (of_int (foldl (\<lambda>a g. a * 65536 + int g) 0 gs)) zone) groups)"

definition ParseAddr :: "string \<Rightarrow> addr option" where
  "ParseAddr s = (case List.find (\<lambda>c. c \<in> set ''.:%'') s of
     None \<Rightarrow> None
   | Some c \<Rightarrow> if c = CHR ''.'' then parseIPv4 s else if c = CHR '':'' then parseIPv6 s else None)"

lemma digit_val_char [simp]: "k < 10 \<Longrightarrow> digit_val (char_of (48 + k)) = Some k"
  by (simp add: digit_val_def)

lemma parse4_digits: "k < 256 \<Longrightarrow> parse4_loop fs 0 0 (digits k @ r) = parse4_loop fs k (length (digits k)) r"
proof (induction k arbitrary: r rule: less_induct)
  case (less k)
  show ?case
  proof (cases "k < 10")
    case True
    then show ?thesis by (simp add: digits.simps [of k])
  next
    case False
    have eq: "k div 10 * 10 + k mod 10 = k" by simp
    have pos: "k div 10 \<noteq> 0" using False by simp
    have "digits k = digits (k div 10) @ [char_of (48 + k mod 10)]"
      using False by (simp add: digits.simps [of k])
    moreover have "parse4_loop fs 0 0 (digits (k div 10) @ c # r) = parse4_loop fs (k div 10) (length (digits (k div 10))) (c # r)" for c
      using False less.prems by (intro less.IH) auto
    moreover have "digit_val (char_of (48 + k mod 10)) = Some (k mod 10)" by simp
    ultimately show ?thesis using pos eq less.prems by (simp del: mod_mult_div_eq div_mult_mod_eq add: eq)
  qed
qed

lemma digits_nonempty: "digits k \<noteq> []"
  by (simp add: digits.simps [of k])

lemma digits_char: "c \<in> set (digits k) \<Longrightarrow> \<exists>d < 10 :: nat. c = char_of (48 + d)"
proof (induction k rule: less_induct)
  case (less k)
  show ?case
  proof (cases "k < 10")
    case True
    then show ?thesis using less.prems by (intro exI [of _ k]) (simp add: digits.simps [of k])
  next
    case False
    then have "c \<in> set (digits (k div 10)) \<or> c = char_of (48 + k mod 10)"
      using less.prems by (auto simp: digits.simps [of k])
    then show ?thesis using False by (metis less.IH div_less_dividend mod_less_divisor not_less zero_less_numeral
      one_less_numeral_iff semiring_norm(76) gr_zeroI)
  qed
qed

lemma find_dot: "List.find (\<lambda>c. c \<in> set ''.:%'') (digits k @ CHR ''.'' # r) = Some CHR ''.''"
proof -
  have "\<not> (c \<in> set ''.:%'')" if m: "c \<in> set (digits k)" for c
  proof
    assume "c \<in> set ''.:%''"
    then have "digit_val c = None" by (auto simp: digit_val_def)
    moreover obtain d :: nat where "d < 10" "c = char_of (48 + d)" using digits_char [OF m] by blast
    ultimately show False by simp
  qed
  then have "List.find (\<lambda>c. c \<in> set ''.:%'') (ds @ CHR ''.'' # r) = Some CHR ''.''" if "set ds \<subseteq> set (digits k)" for ds
    using that by (induction ds) auto
  then show ?thesis by blast
qed

lemma octet_less: "octet w i < 256"
  by (simp add: octet_def nat_less_iff)

lemma octets_value: "of_int (((int (octet w 3) * 256 + int (octet w 2)) * 256 + int (octet w 1)) * 256 + int (octet w 0)) = (w :: 32 word)"
proof -
  let ?u = "uint w"
  have b: "0 \<le> ?u" "?u < 2 ^ 32" using uint_bounded [of w] by auto
  have m: "?u div 16777216 mod 256 = ?u div 16777216" using b by (intro mod_pos_pos_trivial) (auto simp: pos_imp_zdiv_nonneg_iff)
  have d: "?u div 65536 = ?u div 256 div 256" "?u div 16777216 = ?u div 65536 div 256" by (simp_all add: zdiv_zmult2_eq [symmetric])
  have s: "x = x div 256 * 256 + x mod 256" for x :: int by simp
  have a: "?u div 16777216 * 256 + ?u div 65536 mod 256 = ?u div 65536" and b: "?u div 65536 * 256 + ?u div 256 mod 256 = ?u div 256"
    unfolding d by simp_all
  have "((?u div 16777216 mod 256 * 256 + ?u div 65536 mod 256) * 256 + ?u div 256 mod 256) * 256 + ?u mod 256 = ?u"
    unfolding m a b by (rule s [symmetric])
  moreover have "int (octet w 3) = ?u div 16777216 mod 256" "int (octet w 2) = ?u div 65536 mod 256"
    "int (octet w 1) = ?u div 256 mod 256" "int (octet w 0) = ?u mod 256" by (simp_all add: octet_def)
  ultimately show ?thesis by (simp only: word_of_int_uint)
qed

text \<open>A printed IPv4 address parses back to itself.\<close>

lemma ParseAddr_string4: "ParseAddr (string4 w) = Some (Addr4 w)"
proof -
  have dot: "digit_val CHR ''.'' = None" by (simp add: digit_val_def)
  have step: "parse4_loop fs 0 0 (digits (octet w i) @ ''.'' @ digits (octet w j) @ r) = parse4_loop (fs @ [octet w i]) 0 0 (digits (octet w j) @ r)"
    if "length fs < 3" for fs i j r
    using that by (subst parse4_digits [OF octet_less]) (simp add: dot digits_nonempty)
  have stop: "parse4_loop fs 0 0 (digits (octet w i)) = Some (fs @ [octet w i])" if "length fs = 3" for fs i
    using that parse4_digits [OF octet_less, of fs w i "[]"] by simp
  have "parse4_loop [] 0 0 (string4 w) = parse4_loop [octet w 3, octet w 2, octet w 1] 0 0 (digits (octet w 0))"
    unfolding string4_def using step [of "[]" 3 2] step [of "[octet w 3]" 2 1] step [of "[octet w 3, octet w 2]" 1 0 "[]"] by simp
  then have "parse4_loop [] 0 0 (string4 w) = Some [octet w 3, octet w 2, octet w 1, octet w 0]"
    by (simp add: stop)
  then have "parseIPv4 (string4 w) = Some (Addr4 w)"
    using octets_value [of w] by (simp add: parseIPv4_def)
  moreover have "List.find (\<lambda>c. c \<in> set ''.:%'') (string4 w) = Some CHR ''.''"
    unfolding string4_def append_Cons append_Nil by (rule find_dot)
  ultimately show ?thesis by (simp add: ParseAddr_def)
qed

lemma ParseAddr_examples:
  "ParseAddr ''10.0.0.1'' = Some (Addr4 167772161)" "ParseAddr ''10.0.0.01'' = None" "ParseAddr ''10.0.0'' = None"
  "ParseAddr ''256.0.0.1'' = None" "ParseAddr [] = None" "ParseAddr ''::1'' = Some (Addr6 1 [])"
  by code_simp+

lemma ParseAddr_examples6:
  "ParseAddr ''::1%e'' = Some (Addr6 1 ''e'')" "ParseAddr ''1::2::3'' = None" "ParseAddr ''::1.2.3.4'' = Some (Addr6 16909060 [])"
  by code_simp+

end
