(* ===== verification/Revocation.thy ===== *)
theory Revocation
  imports Policy Dualcontrol Addrtext
begin

text \<open>
  \<open>internal/revocation/revocation.go\<close>: the certificate blocklist.  The table \<open>revocations\<close> is a list of rows with
  \<open>UNIQUE(fingerprint)\<close>; a transaction is one step.  The guard reads four columns of the table \<open>enrollments\<close>, the
  records \<open>guard_row\<close> below in id order (\<open>None\<close> is a group column whose JSON does not parse), and the rate limit reads
  the table \<open>approvals\<close> of the two-person workflow.  The JSON payload of a bulk change is read by the parameter \<open>unspec\<close>.
\<close>

definition BulkRevokeKind :: string where "BulkRevokeKind = ''revocation.bulk-revoke''"
definition MaxBulkFingerprints :: nat where "MaxBulkFingerprints = 100"
definition MaxBulkPerWindow :: nat where "MaxBulkPerWindow = 3"
definition BulkWindow :: int where "BulkWindow = 3600 * 10 ^ 9"
definition rvActive :: string where "rvActive = ''active''"
definition rvLifted :: string where "rvLifted = ''lifted''"

datatype rv_err = RvNoFingerprint | RvInvalidFingerprint string | RvAlreadyActive | RvControlPlaneProtected
  | RvBulkEmpty | RvBulkTooLarge | RvBulkRateLimited | RvBulkPayload | RvDb

record bulk_spec =
  bs_fingerprints :: "string list"
  bs_reason :: string

record rv_row =
  rv_id :: int
  rv_fp :: string
  rv_reason :: string
  rv_bulk :: bool
  rv_state :: string
  rv_by :: string
  rv_created :: time_ns
  rv_updated :: time_ns

record rv_db =
  rv_rows :: "rv_row list"
  rv_seq :: int
  rv_audit :: "audit_note list"

text \<open>A registry: whether it audits, and the central block (the zero prefix when not configured).\<close>

record rv_registry =
  rr_audit :: bool
  rr_central :: prefix

record guard_row =
  gd_fp :: string
  gd_status :: string
  gd_groups :: "string list option"
  gd_ip :: string

definition rv_New :: "bool \<Rightarrow> rv_registry" where
  "rv_New audit = \<lparr>rr_audit = audit, rr_central = zero_prefix\<rparr>"

definition WithCentralBlock :: "rv_registry \<Rightarrow> prefix \<Rightarrow> rv_registry" where
  "WithCentralBlock r p = r\<lparr>rr_central := p\<rparr>"

definition normFingerprint :: "string \<Rightarrow> string" where
  "normFingerprint fp = ToLower (TrimSpace fp)"

definition hex_char :: "char \<Rightarrow> bool" where
  "hex_char c \<longleftrightarrow> (CHR ''0'' \<le> c \<and> c \<le> CHR ''9'') \<or> (CHR ''a'' \<le> c \<and> c \<le> CHR ''f'')"

definition validFingerprint :: "string \<Rightarrow> bool" where
  "validFingerprint fp \<longleftrightarrow> length fp = 64 \<and> list_all hex_char fp"

definition rv_recordAudit :: "bool \<Rightarrow> rv_registry \<Rightarrow> audit_note \<Rightarrow> rv_db \<Rightarrow> rv_db" where
  "rv_recordAudit fails r note db = (if \<not> rr_audit r \<or> fails then db else db\<lparr>rv_audit := rv_audit db @ [note]\<rparr>)"

text \<open>The latest issued enrolment of a fingerprint.\<close>

definition latest_issued :: "guard_row list \<Rightarrow> string \<Rightarrow> guard_row option" where
  "latest_issued enr fp = first_where (\<lambda>e. gd_fp e = fp \<and> gd_status e = ''issued'') (rev enr)"

definition in_central :: "prefix \<Rightarrow> string \<Rightarrow> bool" where
  "in_central central ip \<longleftrightarrow> is_valid central \<and> (case ParseAddr ip of None \<Rightarrow> False | Some a \<Rightarrow> contains_addr central a)"

definition json_groups :: "string list option \<Rightarrow> string list" where
  "json_groups gs = (case gs of None \<Rightarrow> [] | Some l \<Rightarrow> l)"

definition protectControlPlane :: "bool \<Rightarrow> rv_registry \<Rightarrow> guard_row list \<Rightarrow> string \<Rightarrow> rv_err option" where
  "protectControlPlane fails r enr fp =
     (if fails then Some RvDb
      else case latest_issued enr fp of
        None \<Rightarrow> None
      | Some e \<Rightarrow>
          if GrantsReservedGroup (json_groups (gd_groups e)) then Some RvControlPlaneProtected
          else if in_central (rr_central r) (gd_ip e) then Some RvControlPlaneProtected
          else None)"

definition new_rv :: "int \<Rightarrow> time_ns \<Rightarrow> string \<Rightarrow> string \<Rightarrow> string \<Rightarrow> bool \<Rightarrow> rv_row" where
  "new_rv i now fp reason actor bulk =
     \<lparr>rv_id = i, rv_fp = fp, rv_reason = reason, rv_bulk = bulk, rv_state = rvActive, rv_by = actor,
      rv_created = now, rv_updated = now\<rparr>"

definition reactivate :: "time_ns \<Rightarrow> string \<Rightarrow> string \<Rightarrow> bool \<Rightarrow> rv_row \<Rightarrow> rv_row" where
  "reactivate now reason actor bulk r = r\<lparr>rv_state := rvActive, rv_reason := reason, rv_bulk := bulk, rv_by := actor, rv_updated := now\<rparr>"

definition addTx ::
  "faults \<Rightarrow> time_ns \<Rightarrow> rv_db \<Rightarrow> string \<Rightarrow> string \<Rightarrow> string \<Rightarrow> bool \<Rightarrow> (rv_err + rv_row) \<times> rv_db" where
  "addTx flt now db fp reason actor bulk =
     (if flt 0 then (Inl RvDb, db)
      else case first_where (\<lambda>r. rv_fp r = fp) (rv_rows db) of
        None \<Rightarrow>
          (let row = new_rv (rv_seq db) now fp reason actor bulk in
           if flt 1 then (Inl RvDb, db)
           else (Inr row, db\<lparr>rv_rows := rv_rows db @ [row], rv_seq := rv_seq db + 1\<rparr>))
      | Some row \<Rightarrow>
          if rv_state row = rvActive then (Inl RvAlreadyActive, db)
          else if flt 1 then (Inl RvDb, db)
          else (Inr (reactivate now reason actor bulk row),
                db\<lparr>rv_rows := update_where (\<lambda>r. rv_fp r = fp) (reactivate now reason actor bulk) (rv_rows db)\<rparr>))"

definition rv_add ::
  "faults \<Rightarrow> rv_registry \<Rightarrow> time_ns \<Rightarrow> rv_db \<Rightarrow> string \<Rightarrow> string \<Rightarrow> string \<Rightarrow> bool \<Rightarrow> (rv_err + rv_row) \<times> rv_db" where
  "rv_add flt r now db fp reason actor bulk =
     (case addTx flt now db fp reason actor bulk of
        (Inl e, _) \<Rightarrow> (Inl e, db)
      | (Inr row, db1) \<Rightarrow> (Inr row, rv_recordAudit (flt 2) r (actor, ''revocation-add'', fp) db1))"

definition rv_Add ::
  "faults \<Rightarrow> rv_registry \<Rightarrow> time_ns \<Rightarrow> guard_row list \<Rightarrow> rv_db \<Rightarrow> string \<Rightarrow> string \<Rightarrow> string \<Rightarrow> (rv_err + rv_row) \<times> rv_db" where
  "rv_Add flt r now enr db fingerprint reason actor =
     (let fp = normFingerprint fingerprint in
      if fp = [] then (Inl RvNoFingerprint, db)
      else if \<not> validFingerprint fp then (Inl (RvInvalidFingerprint fingerprint), db)
      else case protectControlPlane (flt 0) r enr fp of
        Some e \<Rightarrow> (Inl e, db)
      | None \<Rightarrow> rv_add (skip_faults 1 flt) r now db fp reason actor False)"

subsection \<open>Bulk revocation\<close>

fun bulk_fingerprints :: "string list \<Rightarrow> string list \<Rightarrow> rv_err + string list" where
  "bulk_fingerprints fps [] = Inr fps"
| "bulk_fingerprints fps (raw # rest) =
     (let fp = normFingerprint raw in
      if fp = [] \<or> fp \<in> set fps then bulk_fingerprints fps rest
      else if \<not> validFingerprint fp then Inl (RvInvalidFingerprint raw)
      else bulk_fingerprints (fps @ [fp]) rest)"

fun protect_all :: "faults \<Rightarrow> rv_registry \<Rightarrow> guard_row list \<Rightarrow> string list \<Rightarrow> rv_err option" where
  "protect_all flt r enr [] = None"
| "protect_all flt r enr (fp # fps) =
     (case protectControlPlane (flt 0) r enr fp of
        Some e \<Rightarrow> Some e
      | None \<Rightarrow> protect_all (skip_faults 1 flt) r enr fps)"

definition in_window :: "time_ns \<Rightarrow> change list \<Rightarrow> nat" where
  "in_window start approvals =
     count_where (\<lambda>ch. ch_kind ch = BulkRevokeKind \<and> ch_state ch \<in> {StateCommitting, StateCommitted} \<and> ch_created ch \<ge> start) approvals"

text \<open>The writes of the transaction: an active fingerprint is skipped, any other error rolls everything back.\<close>

fun bulk_writes :: "faults \<Rightarrow> time_ns \<Rightarrow> rv_db \<Rightarrow> string \<Rightarrow> string \<Rightarrow> string list \<Rightarrow> (rv_err + nat) \<times> rv_db" where
  "bulk_writes flt now db reason actor [] = (Inr 0, db)"
| "bulk_writes flt now db reason actor (fp # fps) =
     (case addTx flt now db fp reason actor True of
        (Inr _, db1) \<Rightarrow>
          (case bulk_writes (skip_faults 2 flt) now db1 reason actor fps of
             (Inr n, db2) \<Rightarrow> (Inr (Suc n), db2)
           | (Inl e, db2) \<Rightarrow> (Inl e, db2))
      | (Inl e, db1) \<Rightarrow>
          if e = RvAlreadyActive then bulk_writes (skip_faults 2 flt) now db reason actor fps else (Inl e, db))"

definition bulk_transaction ::
  "faults \<Rightarrow> bool \<Rightarrow> time_ns \<Rightarrow> change list \<Rightarrow> rv_db \<Rightarrow> string \<Rightarrow> string \<Rightarrow> string list \<Rightarrow> (rv_err + nat) \<times> rv_db" where
  "bulk_transaction flt postgres now approvals db reason actor fps =
     (if postgres \<and> flt 0 then (Inl RvDb, db)
      else if flt 1 then (Inl RvDb, db)
      else if in_window (now - BulkWindow) approvals > MaxBulkPerWindow then (Inl RvBulkRateLimited, db)
      else case bulk_writes (skip_faults 2 flt) now db reason actor fps of
        (Inl e, _) \<Rightarrow> (Inl e, db)
      | (Inr n, db1) \<Rightarrow> (Inr n, db1))"

definition applyBulk ::
  "faults \<Rightarrow> bool \<Rightarrow> rv_registry \<Rightarrow> time_ns \<Rightarrow> guard_row list \<Rightarrow> change list \<Rightarrow> rv_db \<Rightarrow> bulk_spec \<Rightarrow> string \<Rightarrow> rv_err option \<times> rv_db" where
  "applyBulk flt postgres r now enr approvals db spec actor =
     (case bulk_fingerprints [] (bs_fingerprints spec) of
        Inl e \<Rightarrow> (Some e, db)
      | Inr fps \<Rightarrow>
          if fps = [] then (Some RvBulkEmpty, db)
          else if length fps > MaxBulkFingerprints then (Some RvBulkTooLarge, db)
          else case protect_all flt r enr fps of
            Some e \<Rightarrow> (Some e, db)
          | None \<Rightarrow>
              (case bulk_transaction (skip_faults (Suc (length fps)) flt) postgres now approvals db (bs_reason spec) actor fps of
                 (Inl e, _) \<Rightarrow> (Some e, db)
               | (Inr _, db1) \<Rightarrow> (None, rv_recordAudit (flt (length fps)) r (actor, ''revocation-bulk'', BulkRevokeKind) db1)))"

text \<open>
  \<open>RegisterCommitter\<close>: the world of the two-person workflow is the revocation table.  The committer runs once the change
  has been claimed, so the approvals it counts contain its own change in the state \<open>committing\<close>.
\<close>

definition bulk_committer ::
  "faults \<Rightarrow> bool \<Rightarrow> (bytes \<Rightarrow> bulk_spec option) \<Rightarrow> (rv_err \<Rightarrow> string) \<Rightarrow> rv_registry \<Rightarrow> time_ns \<Rightarrow> guard_row list \<Rightarrow> change list \<Rightarrow>
   rv_db committer" where
  "bulk_committer flt postgres unspec err_text r now enr approvals ch db =
     (case unspec (ch_payload ch) of
        None \<Rightarrow> (Some (err_text RvBulkPayload), db)
      | Some spec \<Rightarrow>
          (case applyBulk flt postgres r now enr approvals db spec (ch_proposer ch) of
             (e, db1) \<Rightarrow> (map_option err_text e, db1)))"

definition rv_RegisterCommitter ::
  "faults \<Rightarrow> bool \<Rightarrow> (bytes \<Rightarrow> bulk_spec option) \<Rightarrow> (rv_err \<Rightarrow> string) \<Rightarrow> rv_registry \<Rightarrow> time_ns \<Rightarrow> guard_row list \<Rightarrow> change list \<Rightarrow>
   rv_db controller \<Rightarrow> rv_db controller" where
  "rv_RegisterCommitter flt postgres unspec err_text r now enr approvals c =
     dc_Register c BulkRevokeKind (bulk_committer flt postgres unspec err_text r now enr approvals)"

subsection \<open>Lift and the reads\<close>

definition rv_Lift :: "faults \<Rightarrow> rv_registry \<Rightarrow> time_ns \<Rightarrow> rv_db \<Rightarrow> string \<Rightarrow> string \<Rightarrow> rv_err option \<times> rv_db" where
  "rv_Lift flt r now db fingerprint actor =
     (let fp = normFingerprint fingerprint in
      if fp = [] then (Some RvNoFingerprint, db)
      else if flt 0 then (Some RvDb, db)
      else case first_where (\<lambda>q. rv_fp q = fp) (rv_rows db) of
        None \<Rightarrow> (None, db)
      | Some row \<Rightarrow>
          if rv_state row = rvLifted then (None, db)
          else if flt 1 then (Some RvDb, db)
          else (None, rv_recordAudit (flt 2) r (actor, ''revocation-lift'', fp)
                  (db\<lparr>rv_rows := update_where (\<lambda>q. rv_fp q = fp) (\<lambda>q. q\<lparr>rv_state := rvLifted, rv_updated := now\<rparr>) (rv_rows db)\<rparr>)))"

definition ActiveFingerprints :: "bool \<Rightarrow> rv_db \<Rightarrow> string list option" where
  "ActiveFingerprints fails db =
     (if fails then None else Some (sort_strings (map rv_fp (filter (\<lambda>q. rv_state q = rvActive) (rv_rows db)))))"

definition rv_List :: "bool \<Rightarrow> rv_db \<Rightarrow> rv_row list option" where
  "rv_List fails db = (if fails then None else Some (rev (rv_rows db)))"

section \<open>The table and the guard\<close>

definition active_fps :: "rv_db \<Rightarrow> string set" where
  "active_fps db = rv_fp ` {q \<in> set (rv_rows db). rv_state q = rvActive}"

definition rv_ok :: "rv_db \<Rightarrow> bool" where
  "rv_ok db \<longleftrightarrow> distinct (map rv_fp (rv_rows db)) \<and> (\<forall>q\<in>set (rv_rows db). validFingerprint (rv_fp q) \<and> rv_state q \<in> {rvActive, rvLifted})"

text \<open>A fingerprint the guard protects: its latest issued enrolment is a control-plane host.\<close>

definition protected_fp :: "rv_registry \<Rightarrow> guard_row list \<Rightarrow> string \<Rightarrow> bool" where
  "protected_fp r enr fp \<longleftrightarrow> (case latest_issued enr fp of None \<Rightarrow> False
     | Some e \<Rightarrow> GrantsReservedGroup (json_groups (gd_groups e)) \<or> in_central (rr_central r) (gd_ip e))"

text \<open>The rows of the other fingerprints are as before.\<close>

definition same_except :: "string set \<Rightarrow> rv_db \<Rightarrow> rv_db \<Rightarrow> bool" where
  "same_except F db db' \<longleftrightarrow> filter (\<lambda>q. rv_fp q \<notin> F) (rv_rows db') = filter (\<lambda>q. rv_fp q \<notin> F) (rv_rows db)"

lemma rv_states_differ [simp]: "rvActive \<noteq> rvLifted" "rvLifted \<noteq> rvActive"
  by (simp_all add: rvActive_def rvLifted_def)

lemma guard_None: "protectControlPlane fails r enr fp = None \<longleftrightarrow> \<not> fails \<and> \<not> protected_fp r enr fp"
  by (auto simp: protectControlPlane_def protected_fp_def split: option.splits)

lemma rv_audit_sel [simp]: "rv_rows (rv_recordAudit fails r note db) = rv_rows db" "rv_seq (rv_recordAudit fails r note db) = rv_seq db"
  by (simp_all add: rv_recordAudit_def)

lemma rv_rows_only:
  assumes "rv_rows db' = rv_rows db"
  shows "active_fps db' = active_fps db" "rv_ok db' = rv_ok db" "same_except F db0 db' = same_except F db0 db"
  using assms by (simp_all add: active_fps_def rv_ok_def same_except_def)

lemma same_except_refl [simp]: "same_except F db db"
  by (simp add: same_except_def)

lemma same_except_trans:
  assumes "same_except F db1 db2" "same_except G db2 db3"
  shows "same_except (F \<union> G) db1 db3"
proof -
  have split: "filter (\<lambda>q. rv_fp q \<notin> F \<union> G) xs = filter (\<lambda>q. rv_fp q \<notin> G) (filter (\<lambda>q. rv_fp q \<notin> F) xs)"
    "filter (\<lambda>q. rv_fp q \<notin> F \<union> G) xs = filter (\<lambda>q. rv_fp q \<notin> F) (filter (\<lambda>q. rv_fp q \<notin> G) xs)" for xs
    by (auto simp: conj_commute intro: filter_cong)
  show ?thesis using assms unfolding same_except_def by (metis split)
qed

lemma filter_update_other:
  assumes "\<And>q. rv_fp (f q) = rv_fp q" "fp \<in> F"
  shows "filter (\<lambda>q. rv_fp q \<notin> F) (update_where (\<lambda>q. rv_fp q = fp) f rows) = filter (\<lambda>q. rv_fp q \<notin> F) rows"
  using assms by (induction rows) auto

lemma rv_find_distinct:
  assumes "distinct (map rv_fp rows)" "q \<in> set rows" "first_where (\<lambda>q. rv_fp q = fp) rows = Some row" "rv_fp q = fp"
  shows "q = row"
proof -
  have "row \<in> set rows \<and> rv_fp row = fp" using assms(3) by (rule first_where_SomeD)
  then show ?thesis using distinct_map_inj [OF assms(1,2)] assms(4) by simp
qed

lemma addTx_Inl:
  assumes "addTx flt now db fp reason actor bulk = (Inl e, db')"
  shows "db' = db" "e = RvDb \<or> e = RvAlreadyActive \<and> fp \<in> active_fps db"
  using assms by (auto simp: addTx_def Let_def active_fps_def split: if_splits option.splits dest!: first_where_SomeD)

lemma addTx_Inr:
  assumes "addTx flt now db fp reason actor bulk = (Inr row, db')" "rv_ok db" "validFingerprint fp"
  shows "rv_ok db'" "active_fps db' = insert fp (active_fps db)" "same_except {fp} db db'" "fp \<notin> active_fps db"
proof -
  consider (fresh) "first_where (\<lambda>q. rv_fp q = fp) (rv_rows db) = None" "rv_rows db' = rv_rows db @ [new_rv (rv_seq db) now fp reason actor bulk]"
    | (lifted) q where "first_where (\<lambda>q. rv_fp q = fp) (rv_rows db) = Some q" "rv_state q \<noteq> rvActive"
        "rv_rows db' = update_where (\<lambda>q. rv_fp q = fp) (reactivate now reason actor bulk) (rv_rows db)"
    using assms(1) by (auto simp: addTx_def Let_def split: if_splits option.splits)
  then have "rv_ok db' \<and> active_fps db' = insert fp (active_fps db) \<and> same_except {fp} db db' \<and> fp \<notin> active_fps db"
  proof cases
    case fresh
    then have "\<forall>q\<in>set (rv_rows db). rv_fp q \<noteq> fp" by (simp add: first_where_None_iff)
    then have nf: "fp \<notin> active_fps db" by (auto simp: active_fps_def)
    let ?q = "new_rv (rv_seq db) now fp reason actor bulk"
    have q: "rv_fp ?q = fp" "rv_state ?q = rvActive" by (simp_all add: new_rv_def)
    have "{q \<in> set (rv_rows db'). rv_state q = rvActive} = insert ?q {q \<in> set (rv_rows db). rv_state q = rvActive}"
      using fresh(2) q by auto
    then have "active_fps db' = insert fp (active_fps db)" by (simp add: active_fps_def q)
    then show ?thesis using nf fresh(2) assms(2,3) q \<open>\<forall>q\<in>set (rv_rows db). rv_fp q \<noteq> fp\<close>
      by (auto simp: rv_ok_def same_except_def)
  next
    case lifted
    then have mem: "q \<in> set (rv_rows db)" "rv_fp q = fp" by (auto dest: first_where_SomeD)
    have only: "p = q" if "p \<in> set (rv_rows db)" "rv_fp p = fp" for p
      using rv_find_distinct that lifted(1) assms(2) by (metis rv_ok_def)
    have f: "rv_fp (reactivate now reason actor bulk p) = rv_fp p" "rv_state (reactivate now reason actor bulk p) = rvActive" for p
      by (simp_all add: reactivate_def)
    have "map rv_fp (rv_rows db') = map rv_fp (rv_rows db)"
      using lifted(3) f by (simp add: map_key_update_where)
    moreover have rows: "set (rv_rows db') = insert (reactivate now reason actor bulk q) (set (rv_rows db) - {q})"
    proof -
      have "{p \<in> set (rv_rows db). rv_fp p = fp} = {q}" "{p \<in> set (rv_rows db). rv_fp p \<noteq> fp} = set (rv_rows db) - {q}"
        using mem only by blast+
      then show ?thesis using lifted(3) by (simp add: set_update_where)
    qed
    ultimately have "rv_ok db'" using assms(2,3) f mem by (auto simp: rv_ok_def)
    moreover have "{p \<in> set (rv_rows db'). rv_state p = rvActive} =
        insert (reactivate now reason actor bulk q) {p \<in> set (rv_rows db). rv_state p = rvActive}"
      using rows f(2) lifted(2) by blast
    then have "active_fps db' = insert fp (active_fps db)" by (simp add: active_fps_def f mem)
    moreover have "fp \<notin> active_fps db" using only lifted(2) by (auto simp: active_fps_def)
    moreover have "same_except {fp} db db'"
      unfolding same_except_def lifted(3) by (rule filter_update_other [OF f(1)]) simp
    ultimately show ?thesis by blast
  qed
  then show "rv_ok db'" "active_fps db' = insert fp (active_fps db)" "same_except {fp} db db'" "fp \<notin> active_fps db" by auto
qed

lemma Add_effect:
  assumes "rv_Add flt r now enr db fingerprint reason actor = (res, db')" "rv_ok db"
  shows "rv_ok db'"
    "case res of Inl _ \<Rightarrow> rv_rows db' = rv_rows db
     | Inr row \<Rightarrow> let fp = normFingerprint fingerprint in validFingerprint fp \<and> \<not> protected_fp r enr fp \<and> active_fps db' = insert fp (active_fps db)"
proof -
  let ?fp = "normFingerprint fingerprint"
  have "rv_ok db' \<and> (case res of Inl _ \<Rightarrow> rv_rows db' = rv_rows db
     | Inr row \<Rightarrow> validFingerprint ?fp \<and> \<not> protected_fp r enr ?fp \<and> active_fps db' = insert ?fp (active_fps db))"
  proof (cases res)
    case (Inl e)
    then have "db' = db" using assms(1) by (auto simp: rv_Add_def rv_add_def Let_def split: if_splits option.splits sum.splits prod.splits)
    then show ?thesis using Inl assms(2) by simp
  next
    case (Inr row)
    then obtain db1 where g: "validFingerprint ?fp" "protectControlPlane (flt 0) r enr ?fp = None"
      and a: "addTx (skip_faults 1 flt) now db ?fp reason actor False = (Inr row, db1)" and "rv_rows db' = rv_rows db1"
      using assms(1) by (auto simp: rv_Add_def rv_add_def Let_def split: if_splits option.splits sum.splits prod.splits)
    then show ?thesis using Inr addTx_Inr [OF a assms(2) g(1)] g rv_rows_only [of db' db1] by (simp add: guard_None)
  qed
  then show "rv_ok db'" "case res of Inl _ \<Rightarrow> rv_rows db' = rv_rows db
     | Inr row \<Rightarrow> let fp = ?fp in validFingerprint fp \<and> \<not> protected_fp r enr fp \<and> active_fps db' = insert fp (active_fps db)"
    by (auto simp: Let_def split: sum.splits)
qed

section \<open>Bulk revocation\<close>

lemma bulk_fingerprints_ok:
  assumes "bulk_fingerprints fps raws = Inr out" "distinct fps"
  shows "distinct out \<and> set out = set fps \<union> (normFingerprint ` set raws - {[]}) \<and>
    ((\<forall>fp\<in>set fps. validFingerprint fp) \<longrightarrow> (\<forall>fp\<in>set out. validFingerprint fp))"
  using assms
proof (induction raws arbitrary: fps)
  case (Cons raw raws)
  show ?case
  proof (cases "normFingerprint raw = [] \<or> normFingerprint raw \<in> set fps")
    case True
    then show ?thesis using Cons.IH [of fps] Cons.prems by (auto simp: Let_def)
  next
    case False
    then have v: "validFingerprint (normFingerprint raw)" "bulk_fingerprints (fps @ [normFingerprint raw]) raws = Inr out"
      using Cons.prems by (auto simp: Let_def split: if_splits)
    have "distinct (fps @ [normFingerprint raw])" using False Cons.prems(2) by simp
    from Cons.IH [OF v(2) this] show ?thesis using v(1) False by auto
  qed
qed simp

lemma protect_all_None: "protect_all flt r enr fps = None \<Longrightarrow> \<forall>fp\<in>set fps. \<not> protected_fp r enr fp"
  by (induction fps arbitrary: flt) (auto simp: guard_None split: option.splits)

lemma bulk_writes_Inr:
  assumes "bulk_writes flt now db reason actor fps = (Inr n, db')" "rv_ok db" "\<forall>fp\<in>set fps. validFingerprint fp"
  shows "rv_ok db' \<and> active_fps db' = active_fps db \<union> set fps \<and> same_except (set fps) db db'"
  using assms
proof (induction fps arbitrary: flt db n)
  case (Cons fp fps)
  show ?case
  proof (cases "addTx flt now db fp reason actor True")
    case (Pair res db1)
    show ?thesis
    proof (cases res)
      case (Inl e)
      then have "e = RvAlreadyActive" using Cons.prems(1) Pair by (auto split: if_splits)
      then have w: "bulk_writes (skip_faults 2 flt) now db reason actor fps = (Inr n, db')" "fp \<in> active_fps db"
        using Cons.prems(1) Pair Inl addTx_Inl(2) [of flt now db fp reason actor True e db1] by auto
      then show ?thesis using Cons.IH [OF w(1)] Cons.prems(2,3) same_except_trans [of "{fp}" db db "set fps" db'] by auto
    next
      case (Inr row)
      then obtain k where w: "bulk_writes (skip_faults 2 flt) now db1 reason actor fps = (Inr k, db')"
        using Cons.prems(1) Pair by (auto split: prod.splits sum.splits)
      have a: "rv_ok db1" "active_fps db1 = insert fp (active_fps db)" "same_except {fp} db db1"
        using addTx_Inr [OF Pair [unfolded Inr]] Cons.prems(2,3) by auto
      then show ?thesis using Cons.IH [OF w a(1)] Cons.prems(3) same_except_trans [OF a(3), of "set fps" db'] by auto
    qed
  qed
qed simp

lemma applyBulk_refused:
  "applyBulk flt pg r now enr approvals db spec actor = (Some e, db') \<Longrightarrow> db' = db"
  by (auto simp: applyBulk_def split: sum.splits if_splits option.splits prod.splits)

lemma applyBulk_applied:
  assumes "applyBulk flt pg r now enr approvals db spec actor = (None, db')" "rv_ok db"
  shows "\<exists>fps. distinct fps \<and> fps \<noteq> [] \<and> length fps \<le> MaxBulkFingerprints \<and> set fps = normFingerprint ` set (bs_fingerprints spec) - {[]} \<and>
    (\<forall>fp\<in>set fps. validFingerprint fp \<and> \<not> protected_fp r enr fp) \<and> in_window (now - BulkWindow) approvals \<le> MaxBulkPerWindow \<and>
    rv_ok db' \<and> active_fps db' = active_fps db \<union> set fps \<and> same_except (set fps) db db'"
proof -
  obtain fps n db1 where f: "bulk_fingerprints [] (bs_fingerprints spec) = Inr fps" "fps \<noteq> []" "length fps \<le> MaxBulkFingerprints"
    and p: "protect_all flt r enr fps = None"
    and t: "bulk_transaction (skip_faults (Suc (length fps)) flt) pg now approvals db (bs_reason spec) actor fps = (Inr n, db1)"
    and rows: "rv_rows db' = rv_rows db1"
    using assms(1) by (auto simp: applyBulk_def split: sum.splits if_splits option.splits prod.splits)
  have b: "distinct fps" "set fps = normFingerprint ` set (bs_fingerprints spec) - {[]}" "\<forall>fp\<in>set fps. validFingerprint fp"
    using bulk_fingerprints_ok [OF f(1)] by auto
  have w: "bulk_writes (skip_faults 2 (skip_faults (Suc (length fps)) flt)) now db (bs_reason spec) actor fps = (Inr n, db1)"
    and win: "in_window (now - BulkWindow) approvals \<le> MaxBulkPerWindow"
    using t by (auto simp: bulk_transaction_def split: if_splits prod.splits sum.splits)
  have "rv_ok db1 \<and> active_fps db1 = active_fps db \<union> set fps \<and> same_except (set fps) db db1"
    using bulk_writes_Inr [OF w assms(2) b(3)] .
  then have "rv_ok db' \<and> active_fps db' = active_fps db \<union> set fps \<and> same_except (set fps) db db'"
    using rv_rows_only [OF rows] by simp
  then show ?thesis using win b f(2,3) protect_all_None [OF p] by blast
qed

lemma Lift_effect:
  assumes "rv_Lift flt r now db fingerprint actor = (res, db')" "rv_ok db"
  shows "rv_ok db' \<and> active_fps db' \<subseteq> active_fps db \<and> (res = None \<longrightarrow> normFingerprint fingerprint \<notin> active_fps db')"
proof -
  let ?fp = "normFingerprint fingerprint"
  consider "db' = db" "res \<noteq> None" | "db' = db" "first_where (\<lambda>q. rv_fp q = ?fp) (rv_rows db) = None"
    | q where "db' = db" "first_where (\<lambda>q. rv_fp q = ?fp) (rv_rows db) = Some q" "rv_state q = rvLifted"
    | "rv_rows db' = update_where (\<lambda>q. rv_fp q = ?fp) (\<lambda>q. q\<lparr>rv_state := rvLifted, rv_updated := now\<rparr>) (rv_rows db)"
    using assms(1) by (auto simp: rv_Lift_def Let_def split: if_splits option.splits)
  then show ?thesis
  proof cases
    case 3
    then have "p = q" if "p \<in> set (rv_rows db)" "rv_fp p = ?fp" for p
      using rv_find_distinct that assms(2) by (metis rv_ok_def)
    then show ?thesis using 3 assms(2) by (auto simp: active_fps_def)
  next
    case 4
    then have "map rv_fp (rv_rows db') = map rv_fp (rv_rows db)" by (simp add: map_key_update_where)
    moreover have "\<forall>q\<in>set (rv_rows db'). validFingerprint (rv_fp q) \<and> rv_state q \<in> {rvActive, rvLifted}"
      using assms(2) unfolding 4 set_update_where rv_ok_def by auto
    ultimately have "rv_ok db'" using assms(2) by (simp add: rv_ok_def)
    moreover have "{q \<in> set (rv_rows db'). rv_state q = rvActive} = {q \<in> set (rv_rows db). rv_state q = rvActive \<and> rv_fp q \<noteq> ?fp}"
      unfolding 4 set_update_where by auto
    then have "active_fps db' \<subseteq> active_fps db" "?fp \<notin> active_fps db'" by (auto simp: active_fps_def)
    ultimately show ?thesis by blast
  qed (use assms(2) in \<open>auto simp: active_fps_def first_where_None_iff\<close>)
qed

section \<open>Any sequence of calls\<close>

text \<open>
  The calls in any order, with any failures, beside an enrolment table that changes: a certificate is fresh, so the table never
  attaches a blocklisted fingerprint to another enrolment.
\<close>

inductive rv_step :: "rv_registry \<Rightarrow> guard_row list \<times> rv_db \<Rightarrow> guard_row list \<times> rv_db \<Rightarrow> bool" for r where
  step_add: "rv_Add flt r now enr db fp reason actor = (res, db') \<Longrightarrow> rv_step r (enr, db) (enr, db')"
| step_bulk: "applyBulk flt pg r now enr approvals db spec actor = (e, db') \<Longrightarrow> rv_step r (enr, db) (enr, db')"
| step_lift: "rv_Lift flt r now db fp actor = (e', db') \<Longrightarrow> rv_step r (enr, db) (enr, db')"
| step_enrol: "\<forall>fp\<in>active_fps db. latest_issued enr' fp \<in> {None, latest_issued enr fp} \<Longrightarrow> rv_step r (enr, db) (enr', db)"

definition rv_empty :: rv_db where
  "rv_empty = \<lparr>rv_rows = [], rv_seq = 1, rv_audit = []\<rparr>"

definition rv_inv :: "rv_registry \<Rightarrow> guard_row list \<times> rv_db \<Rightarrow> bool" where
  "rv_inv r s \<longleftrightarrow> rv_ok (snd s) \<and> (\<forall>fp\<in>active_fps (snd s). \<not> protected_fp r (fst s) fp)"

lemma rv_inv_step:
  assumes "rv_step r s s'" "rv_inv r s"
  shows "rv_inv r s'"
  using assms
proof (cases rule: rv_step.cases)
  case (step_add flt now enr db fp reason actor res db')
  then have "rv_ok db" using assms(2) by (simp add: rv_inv_def)
  then show ?thesis using Add_effect [OF step_add(3)] assms(2) step_add(1,2) rv_rows_only(1) [of db' db]
    by (cases res) (auto simp: rv_inv_def Let_def)
next
  case (step_bulk flt pg now enr approvals db spec actor e db')
  then have "rv_ok db" using assms(2) by (simp add: rv_inv_def)
  then show ?thesis using applyBulk_refused [of flt pg r now enr approvals db spec actor] applyBulk_applied [of flt pg r now enr approvals db spec actor db']
      assms(2) step_bulk by (cases e) (auto simp: rv_inv_def)
next
  case (step_lift flt now db fp actor e' db' enr)
  then show ?thesis using Lift_effect [OF step_lift(3)] assms(2) by (auto simp: rv_inv_def)
next
  case (step_enrol db enr' enr)
  have "\<not> protected_fp r enr' fp" if fp: "fp \<in> active_fps db" for fp
  proof (cases "latest_issued enr' fp")
    case (Some e)
    then have "latest_issued enr fp = Some e" using step_enrol(3) fp by fastforce
    then show ?thesis using assms(2) fp step_enrol(1) Some by (auto simp: rv_inv_def protected_fp_def)
  qed (simp add: protected_fp_def)
  then show ?thesis using assms(2) step_enrol(1,2) by (simp add: rv_inv_def)
qed

lemma rv_inv_reach: "(rv_step r)\<^sup>*\<^sup>* s s' \<Longrightarrow> rv_inv r s \<Longrightarrow> rv_inv r s'"
  by (induction rule: rtranclp_induct) (auto intro: rv_inv_step)

lemma ActiveFingerprints_sorted:
  assumes "rv_ok db"
  shows "\<exists>fps. ActiveFingerprints False db = Some fps \<and> sorted_wrt (<) fps \<and> set fps = active_fps db"
  using assms by (auto simp: ActiveFingerprints_def rv_ok_def active_fps_def strict_sorted_iff distinct_map_filter)

text \<open>
  C21: Whatever calls of Add, bulk revoke and Lift are made, with whatever failing statements, the blocklist handed to
  the hosts never names a control-plane or lighthouse host: every fingerprint on it is a canonical 64-digit fingerprint whose
  latest issued enrolment holds no reserved group and no address of the central block.  The list is strictly ascending,
  so an unchanged blocklist renders the same bundle.
\<close>

theorem blocklist_spares_control_plane:
  assumes "(rv_step r)\<^sup>*\<^sup>* (enr0, rv_empty) (enr, db)"
  shows "\<exists>fps. ActiveFingerprints False db = Some fps \<and> sorted_wrt (<) fps \<and>
    list_all (\<lambda>fp. validFingerprint fp \<and> \<not> protected_fp r enr fp) fps"
proof -
  have "rv_inv r (enr0, rv_empty)" by (simp add: rv_inv_def rv_ok_def rv_empty_def active_fps_def)
  then have inv: "rv_ok db" "\<forall>fp\<in>active_fps db. \<not> protected_fp r enr fp"
    using rv_inv_reach [OF assms] by (auto simp: rv_inv_def)
  then show ?thesis using ActiveFingerprints_sorted [OF inv(1)]
    by (auto simp: list_all_iff rv_ok_def active_fps_def)
qed

text \<open>
  C39: A bulk revoke is all or nothing.  If it is refused, for whatever reason (an invalid, empty or oversized list, a protected
  fingerprint, the rate limit, a failing statement at any place), the table is untouched.  If it succeeds, between one and a hundred
  different fingerprints were asked for, all of them well formed and none of a control-plane host, the active set has grown by exactly
  these, no other row has changed and the table is well formed.
\<close>

theorem bulk_revoke_all_or_nothing:
  assumes "applyBulk flt pg r now enr approvals db spec actor = (e, db')" "rv_ok db"
  shows "case e of
      Some _ \<Rightarrow> db' = db
    | None \<Rightarrow> (let F = normFingerprint ` set (bs_fingerprints spec) - {[]} in
        F \<noteq> {} \<and> card F \<le> MaxBulkFingerprints \<and> (\<forall>fp\<in>F. validFingerprint fp \<and> \<not> protected_fp r enr fp) \<and>
        active_fps db' = active_fps db \<union> F \<and> same_except F db db' \<and> rv_ok db')"
proof (cases e)
  case None
  define F where "F = normFingerprint ` set (bs_fingerprints spec) - {[]}"
  obtain fps where "distinct fps" "fps \<noteq> []" "length fps \<le> MaxBulkFingerprints" "set fps = F"
    "\<forall>fp\<in>set fps. validFingerprint fp \<and> \<not> protected_fp r enr fp" "rv_ok db'" "active_fps db' = active_fps db \<union> set fps" "same_except (set fps) db db'"
    using applyBulk_applied [of flt pg r now enr approvals db spec actor db'] assms None unfolding F_def by blast
  moreover from this have "card F \<le> MaxBulkFingerprints" "F \<noteq> {}" using distinct_card [of fps] by auto
  ultimately show ?thesis unfolding None option.case F_def [symmetric] Let_def by simp
next
  case (Some x)
  then have "db' = db" using assms(1) applyBulk_refused by blast
  then show ?thesis using Some by simp
qed

section \<open>A run\<close>

definition demo_fp :: "char \<Rightarrow> string" where
  "demo_fp c = replicate 64 c"

definition demo_enr :: "guard_row list" where
  "demo_enr = [\<lparr>gd_fp = demo_fp CHR ''a'', gd_status = ''issued'', gd_groups = Some [GroupControlPlane], gd_ip = ''10.0.0.1''\<rparr>,
     \<lparr>gd_fp = demo_fp CHR ''b'', gd_status = ''issued'', gd_groups = Some [''web''], gd_ip = ''10.0.0.9''\<rparr>]"

definition demo_added :: rv_db where
  "demo_added = snd (rv_Add no_faults (rv_New True) 5 demo_enr rv_empty ('' '' @ demo_fp CHR ''B'') ''lost'' ''op'')"

lemma demo_added_eq: "demo_added = \<lparr>rv_rows = [new_rv 1 5 (demo_fp CHR ''b'') ''lost'' ''op'' False], rv_seq = 2,
   rv_audit = [(''op'', ''revocation-add'', demo_fp CHR ''b'')]\<rparr>"
  by code_simp

lemma demo_refused: "fst (rv_Add no_faults (rv_New True) 5 demo_enr demo_added (demo_fp CHR ''a'') ''oops'' ''op'') = Inl RvControlPlaneProtected"
  by code_simp

theorem blocklist_spares_control_plane_witness:
  "\<exists>fps. ActiveFingerprints False demo_added = Some fps \<and> sorted_wrt (<) fps \<and>
     list_all (\<lambda>fp. validFingerprint fp \<and> \<not> protected_fp (rv_New True) demo_enr fp) fps \<and> fps = [demo_fp CHR ''b'']"
proof -
  obtain res where "rv_Add no_faults (rv_New True) 5 demo_enr rv_empty ('' '' @ demo_fp CHR ''B'') ''lost'' ''op'' = (res, demo_added)"
    unfolding demo_added_def by (metis prod.collapse)
  then have "(rv_step (rv_New True))\<^sup>*\<^sup>* (demo_enr, rv_empty) (demo_enr, demo_added)"
    by (intro r_into_rtranclp) (rule step_add)
  from blocklist_spares_control_plane [OF this] show ?thesis
    by (auto simp: demo_added_eq ActiveFingerprints_def new_rv_def)
qed

definition demo_spec :: bulk_spec where
  "demo_spec = \<lparr>bs_fingerprints = [demo_fp CHR ''b'', demo_fp CHR ''C'', demo_fp CHR ''c''], bs_reason = ''sweep''\<rparr>"

definition demo_bulk :: rv_db where
  "demo_bulk = snd (applyBulk no_faults True (rv_New True) 9 demo_enr [] demo_added demo_spec ''op'')"

lemma demo_bulk_steps:
  "bulk_fingerprints [] (bs_fingerprints demo_spec) = Inr [demo_fp CHR ''b'', demo_fp CHR ''c'']"
  "protect_all no_faults (rv_New True) demo_enr [demo_fp CHR ''b'', demo_fp CHR ''c''] = None"
  by code_simp+

lemma demo_bulk_written:
  "case_sum (\<lambda>_. False) (\<lambda>_. True) (fst (bulk_writes no_faults 9 demo_added ''sweep'' ''op'' [demo_fp CHR ''b'', demo_fp CHR ''c'']))"
  unfolding demo_added_eq by code_simp

lemma demo_bulk_ok: "fst (applyBulk no_faults True (rv_New True) 9 demo_enr [] demo_added demo_spec ''op'') = None"
proof -
  have "bs_reason demo_spec = ''sweep''" by (simp add: demo_spec_def)
  then show ?thesis using demo_bulk_steps demo_bulk_written
    by (auto simp: applyBulk_def bulk_transaction_def in_window_def MaxBulkFingerprints_def MaxBulkPerWindow_def
      simp del: protect_all.simps bulk_writes.simps bulk_fingerprints.simps split: prod.splits sum.splits)
qed

theorem bulk_revoke_all_or_nothing_witness:
  "let F = normFingerprint ` set (bs_fingerprints demo_spec) - {[]} in
   F \<noteq> {} \<and> card F \<le> MaxBulkFingerprints \<and> active_fps demo_bulk = active_fps demo_added \<union> F \<and> same_except F demo_added demo_bulk"
proof -
  have "rv_ok demo_added" unfolding demo_added_eq by code_simp
  moreover have "applyBulk no_faults True (rv_New True) 9 demo_enr [] demo_added demo_spec ''op'' = (None, demo_bulk)"
    using demo_bulk_ok unfolding demo_bulk_def by (metis prod.collapse)
  ultimately show ?thesis
    using bulk_revoke_all_or_nothing [of no_faults True "rv_New True" 9 demo_enr "[]" demo_added demo_spec "''op''" None demo_bulk]
    by (simp add: Let_def)
qed

text \<open>
  The rate limit counts a change by the time it was proposed: changes proposed before the window are not counted, however
  many of them are committed within it.
\<close>

lemma bulk_errors:
  "bulk_fingerprints fps raws = Inl e \<Longrightarrow> \<exists>raw. e = RvInvalidFingerprint raw"
  "protect_all flt r enr fps = Some e \<Longrightarrow> e = RvDb \<or> e = RvControlPlaneProtected"
  "bulk_writes flt now db reason actor fps = (Inl e, db') \<Longrightarrow> e = RvDb"
proof -
  show "bulk_fingerprints fps raws = Inl e \<Longrightarrow> \<exists>raw. e = RvInvalidFingerprint raw"
    by (induction fps raws rule: bulk_fingerprints.induct) (auto simp: Let_def split: if_splits)
  show "protect_all flt r enr fps = Some e \<Longrightarrow> e = RvDb \<or> e = RvControlPlaneProtected"
    by (induction fps arbitrary: flt) (auto simp: protectControlPlane_def split: option.splits if_splits)
  show "bulk_writes flt now db reason actor fps = (Inl e, db') \<Longrightarrow> e = RvDb"
  proof (induction fps arbitrary: flt db)
    case (Cons fp fps)
    show ?case
    proof (cases "addTx flt now db fp reason actor True")
      case (Pair res db1)
      then show ?thesis using Cons addTx_Inl(2) [of flt now db fp reason actor True _ db1]
        by (cases res) (fastforce split: if_splits prod.splits sum.splits)+
    qed
  qed simp
qed

lemma old_proposals_evade_limit:
  assumes "\<forall>ch\<in>set approvals. ch_created ch < now - BulkWindow"
    and "applyBulk flt pg r now enr approvals db spec actor = (Some e, db')"
  shows "e \<noteq> RvBulkRateLimited"
proof -
  have "in_window (now - BulkWindow) approvals = 0"
    unfolding in_window_def count_where_0_iff using assms(1) by auto
  then show ?thesis using assms(2)
    by (auto simp: applyBulk_def bulk_transaction_def split: sum.splits option.splits prod.splits if_splits dest!: bulk_errors)
qed

end
