(* ===== verification/Reaper.thy ===== *)
theory Reaper
  imports Ipam Revocation
begin

text \<open>
  \<open>internal/reaper/reaper.go\<close>: the pass that reclaims the hosts that are gone.  It reads the tables \<open>heartbeats\<close>,
  \<open>enrollments\<close> and \<open>devices\<close> (of which the columns it uses are kept) and releases overlay addresses through \<open>Ipam.Release\<close>.
  The rows of the join come in the order of the heartbeats; one clock value serves a pass.  Metrics and log lines are left
  out; the audit details are left out.
\<close>

definition ReasonCertExpired :: string where "ReasonCertExpired = ''cert-expired''"
definition ReasonSilent :: string where "ReasonSilent = ''silent''"

record reap_config =
  rc_persistent :: int
  rc_ephemeral :: int
  rc_silent :: int
  rc_dry :: bool

definition withDefaults :: "reap_config \<Rightarrow> reap_config" where
  "withDefaults c =
     c\<lparr>rc_persistent := (if rc_persistent c \<le> 0 then 7 * 24 * 3600 * 10 ^ 9 else rc_persistent c),
       rc_ephemeral := (if rc_ephemeral c \<le> 0 then 3600 * 10 ^ 9 else rc_ephemeral c)\<rparr>"

record reaper =
  rp_cfg :: reap_config
  rp_central :: prefix
  rp_pool :: pool
  rp_auditing :: bool
  rp_tolerates :: bool

definition reaper_New :: "reap_config \<Rightarrow> prefix \<Rightarrow> pool \<Rightarrow> bool \<Rightarrow> bool \<Rightarrow> reaper" where
  "reaper_New cfg central pl auditing tolerates =
     \<lparr>rp_cfg = withDefaults cfg, rp_central = central, rp_pool = pl, rp_auditing = auditing, rp_tolerates = tolerates\<rparr>"

record beat_row =
  bt_ip :: string
  bt_device :: string
  bt_not_after :: time_ns
  bt_last_seen :: time_ns

record reap_row = guard_row +
  re_ephemeral :: bool

record device_mark =
  dm_name :: string
  dm_reaped_at :: time_ns
  dm_reason :: string

record reap_db =
  rpd_beats :: "beat_row list"
  rpd_enrollments :: "reap_row list"
  rpd_devices :: "device_mark list"
  rpd_ipam :: ipam_db
  rpd_audit :: "audit_note list"

record reap_candidate =
  cn_ip :: string
  cn_device :: string
  cn_not_after :: time_ns
  cn_last_seen :: time_ns
  cn_fingerprint :: string
  cn_ephemeral :: bool
  cn_groups :: "string list option"

record reap_report =
  rep_candidates :: nat
  rep_reaped :: nat
  rep_would :: nat
  rep_ips :: nat
  rep_errors :: nat
  rep_by_reason :: "string \<Rightarrow> nat"

definition certStillValid :: "reap_candidate \<Rightarrow> time_ns \<Rightarrow> bool" where
  "certStillValid c now \<longleftrightarrow> cn_not_after c \<noteq> 0 \<and> cn_not_after c \<ge> now"

definition reap_reason :: "reap_candidate \<Rightarrow> time_ns \<Rightarrow> reap_config \<Rightarrow> string option" where
  "reap_reason c now cfg =
     (let grace = (if cn_ephemeral c then rc_ephemeral cfg else rc_persistent cfg) in
      if cn_not_after c \<noteq> 0 \<and> cn_not_after c < now - grace \<and> cn_last_seen c < now - grace then Some ReasonCertExpired
      else if rc_silent cfg > 0 \<and> cn_not_after c \<noteq> 0 \<and> \<not> certStillValid c now \<and> cn_last_seen c < now - rc_silent cfg
      then Some ReasonSilent
      else None)"

definition excluded :: "reaper \<Rightarrow> reap_candidate \<Rightarrow> bool" where
  "excluded r c \<longleftrightarrow> GrantsReservedGroup (json_groups (cn_groups c)) \<or> in_central (rp_central r) (cn_ip c)"

text \<open>The join of \<open>loadCandidates\<close>: the latest issued enrolment of the address, and no device row that is already reaped.\<close>

definition latest_of_ip :: "reap_row list \<Rightarrow> string \<Rightarrow> reap_row option" where
  "latest_of_ip enr ip = first_where (\<lambda>e. gd_ip e = ip \<and> gd_status e = ''issued'') (rev enr)"

definition prefilter :: "reap_config \<Rightarrow> time_ns \<Rightarrow> beat_row \<Rightarrow> bool" where
  "prefilter cfg now h \<longleftrightarrow>
     (let cutoff = now - (if rc_ephemeral cfg < rc_persistent cfg then rc_ephemeral cfg else rc_persistent cfg) in
      (bt_not_after h \<noteq> 0 \<and> bt_not_after h < cutoff \<and> bt_last_seen h < cutoff) \<or>
      (rc_silent cfg > 0 \<and> bt_last_seen h < now - rc_silent cfg))"

definition join_row :: "reap_config \<Rightarrow> time_ns \<Rightarrow> reap_db \<Rightarrow> beat_row \<Rightarrow> reap_candidate option" where
  "join_row cfg now db h =
     (case latest_of_ip (rpd_enrollments db) (bt_ip h) of
        None \<Rightarrow> None
      | Some e \<Rightarrow>
          if prefilter cfg now h \<and> \<not> list_ex (\<lambda>d. dm_name d = bt_device h \<and> dm_reaped_at d \<noteq> 0) (rpd_devices db)
          then Some \<lparr>cn_ip = bt_ip h, cn_device = bt_device h, cn_not_after = bt_not_after h, cn_last_seen = bt_last_seen h,
                     cn_fingerprint = gd_fp e, cn_ephemeral = re_ephemeral e, cn_groups = gd_groups e\<rparr>
          else None)"

fun dedup_hosts :: "string list \<Rightarrow> string list \<Rightarrow> reap_candidate list \<Rightarrow> reap_candidate list" where
  "dedup_hosts ips names [] = []"
| "dedup_hosts ips names (c # cs) =
     (if cn_ip c \<noteq> [] \<and> cn_ip c \<in> set ips then dedup_hosts ips names cs
      else if cn_device c \<noteq> [] \<and> cn_device c \<in> set names then dedup_hosts ips names cs
      else c # dedup_hosts (if cn_ip c \<noteq> [] then cn_ip c # ips else ips) (if cn_device c \<noteq> [] then cn_device c # names else names) cs)"

definition dedupByHost :: "reap_candidate list \<Rightarrow> reap_candidate list" where
  "dedupByHost cs = dedup_hosts [] [] cs"

definition loadCandidates :: "bool \<Rightarrow> reaper \<Rightarrow> time_ns \<Rightarrow> reap_db \<Rightarrow> reap_candidate list option" where
  "loadCandidates fails r now db =
     (if fails then None else Some (dedupByHost (List.map_filter (join_row (rp_cfg r) now db) (rpd_beats db))))"

definition reap_audit :: "bool \<Rightarrow> reaper \<Rightarrow> string \<Rightarrow> string \<Rightarrow> reap_db \<Rightarrow> reap_db" where
  "reap_audit fails r action tgt db =
     (if \<not> rp_auditing r \<or> fails then db else db\<lparr>rpd_audit := rpd_audit db @ [(''reaper'', action, tgt)]\<rparr>)"

definition dryRunOne :: "bool \<Rightarrow> reaper \<Rightarrow> reap_candidate \<Rightarrow> string \<Rightarrow> reap_report \<Rightarrow> reap_db \<Rightarrow> reap_report \<times> reap_db" where
  "dryRunOne fails r c reason rep db =
     (rep\<lparr>rep_would := rep_would rep + 1, rep_by_reason := (rep_by_reason rep)(reason := rep_by_reason rep reason + 1)\<rparr>,
      reap_audit fails r ''reaper-would-reap'' (cn_device c) db)"

text \<open>The release of the address: whether it failed, whether it was reclaimed.\<close>

definition reap_release :: "bool \<Rightarrow> reaper \<Rightarrow> time_ns \<Rightarrow> reap_candidate \<Rightarrow> reap_db \<Rightarrow> (bool \<times> bool) \<times> reap_db" where
  "reap_release fails r now c db =
     (case ParseAddr (cn_ip c) of
        None \<Rightarrow> ((False, False), db)
      | Some ip \<Rightarrow>
          (case Release fails (rp_pool r) now (rpd_ipam db) ip of
             (None, ipam) \<Rightarrow> ((False, True), db\<lparr>rpd_ipam := ipam\<rparr>)
           | (Some e, ipam) \<Rightarrow> ((\<not> (rp_tolerates r \<and> e = ErrNotAllocated), False), db\<lparr>rpd_ipam := ipam\<rparr>)))"

definition delete_beat :: "bool \<Rightarrow> reap_candidate \<Rightarrow> reap_db \<Rightarrow> reap_db" where
  "delete_beat fails c db = (if fails then db else db\<lparr>rpd_beats := delete_where (\<lambda>h. bt_ip h = cn_ip c) (rpd_beats db)\<rparr>)"

definition stamp_device :: "bool \<Rightarrow> time_ns \<Rightarrow> string \<Rightarrow> reap_candidate \<Rightarrow> reap_db \<Rightarrow> reap_db" where
  "stamp_device fails now reason c db =
     (if fails then db
      else db\<lparr>rpd_devices := update_where (\<lambda>d. dm_name d = cn_device c \<and> dm_reaped_at d = 0)
                (\<lambda>d. d\<lparr>dm_reaped_at := now, dm_reason := reason\<rparr>) (rpd_devices db)\<rparr>)"

definition reapOne :: "faults \<Rightarrow> reaper \<Rightarrow> time_ns \<Rightarrow> reap_candidate \<Rightarrow> string \<Rightarrow> reap_report \<Rightarrow> reap_db \<Rightarrow> reap_report \<times> reap_db" where
  "reapOne flt r now c reason rep db =
     (case reap_release (flt 0) r now c db of
        ((failed, reclaimed), db1) \<Rightarrow>
          let db2 = stamp_device (flt 2) now reason c (delete_beat (flt 1) c db1);
              db3 = reap_audit (flt 3) r ''reaper-reap'' (cn_device c) db2 in
          (rep\<lparr>rep_ips := rep_ips rep + (if reclaimed then 1 else 0),
               rep_errors := rep_errors rep + (if failed \<or> flt 1 \<or> flt 2 then 1 else 0),
               rep_reaped := rep_reaped rep + 1,
               rep_by_reason := (rep_by_reason rep)(reason := rep_by_reason rep reason + 1)\<rparr>, db3))"

fun reap_loop :: "faults \<Rightarrow> reaper \<Rightarrow> time_ns \<Rightarrow> reap_report \<Rightarrow> reap_db \<Rightarrow> reap_candidate list \<Rightarrow> reap_report \<times> reap_db" where
  "reap_loop flt r now rep db [] = (rep, db)"
| "reap_loop flt r now rep db (c # cs) =
     (case reap_reason c now (rp_cfg r) of
        None \<Rightarrow> reap_loop (skip_faults 4 flt) r now rep db cs
      | Some reason \<Rightarrow>
          if excluded r c then reap_loop (skip_faults 4 flt) r now rep db cs
          else
            let rep1 = rep\<lparr>rep_candidates := rep_candidates rep + 1\<rparr> in
            (case (if rc_dry (rp_cfg r) then dryRunOne (flt 3) r c reason rep1 db else reapOne flt r now c reason rep1 db) of
               (rep2, db2) \<Rightarrow> reap_loop (skip_faults 4 flt) r now rep2 db2 cs))"

definition empty_report :: reap_report where
  "empty_report = \<lparr>rep_candidates = 0, rep_reaped = 0, rep_would = 0, rep_ips = 0, rep_errors = 0, rep_by_reason = (\<lambda>_. 0)\<rparr>"

definition ReapOnce :: "faults \<Rightarrow> reaper \<Rightarrow> time_ns \<Rightarrow> reap_db \<Rightarrow> reap_report option \<times> reap_db" where
  "ReapOnce flt r now db =
     (case loadCandidates (flt 0) r now db of
        None \<Rightarrow> (None, db)
      | Some cs \<Rightarrow> (case reap_loop (skip_faults 1 flt) r now empty_report db cs of (rep, db1) \<Rightarrow> (Some rep, db1)))"

text \<open>\<open>Run\<close>: a pass at the start and at every tick, until the context ends.\<close>

fun reaper_Run :: "reaper \<Rightarrow> (faults \<times> time_ns) list \<Rightarrow> reap_db \<Rightarrow> reap_db" where
  "reaper_Run r [] db = db"
| "reaper_Run r ((flt, now) # ticks) db = reaper_Run r ticks (snd (ReapOnce flt r now db))"

section \<open>What a pass may touch\<close>

text \<open>
  A host is gone when the certificate it last reported has expired, it has been silent for its grace period (or for the
  configured silence), the latest issued enrolment of its address holds no reserved group, its address is outside the central
  block and its device is not already marked.
\<close>

definition gone_host :: "reaper \<Rightarrow> time_ns \<Rightarrow> reap_db \<Rightarrow> beat_row \<Rightarrow> bool" where
  "gone_host r now db h \<longleftrightarrow>
     (case latest_of_ip (rpd_enrollments db) (bt_ip h) of
        None \<Rightarrow> False
      | Some e \<Rightarrow>
          let grace = (if re_ephemeral e then rc_ephemeral (rp_cfg r) else rc_persistent (rp_cfg r)); silent = rc_silent (rp_cfg r) in
          bt_not_after h \<noteq> 0 \<and> bt_not_after h < now \<and>
          ((bt_not_after h < now - grace \<and> bt_last_seen h < now - grace) \<or> (silent > 0 \<and> bt_last_seen h < now - silent)) \<and>
          \<not> GrantsReservedGroup (json_groups (gd_groups e)) \<and> \<not> in_central (rp_central r) (bt_ip h)) \<and>
     \<not> list_ex (\<lambda>d. dm_name d = bt_device h \<and> dm_reaped_at d \<noteq> 0) (rpd_devices db)"

text \<open>Outside the addresses and devices \<open>K\<close> nothing changes.\<close>

definition leases_of :: "(string \<times> string) set \<Rightarrow> allocation \<Rightarrow> bool" where
  "leases_of K a \<longleftrightarrow> (\<exists>(i, d)\<in>K. \<exists>ip. ParseAddr i = Some ip \<and> al_ip a = IpText ip)"

definition only_touches :: "(string \<times> string) set \<Rightarrow> reap_db \<Rightarrow> reap_db \<Rightarrow> bool" where
  "only_touches K db db' \<longleftrightarrow>
     filter (\<lambda>h. bt_ip h \<notin> fst ` K) (rpd_beats db') = filter (\<lambda>h. bt_ip h \<notin> fst ` K) (rpd_beats db) \<and>
     filter (\<lambda>d. dm_name d \<notin> snd ` K) (rpd_devices db') = filter (\<lambda>d. dm_name d \<notin> snd ` K) (rpd_devices db) \<and>
     filter (\<lambda>a. \<not> leases_of K a) (allocs (rpd_ipam db')) = filter (\<lambda>a. \<not> leases_of K a) (allocs (rpd_ipam db)) \<and>
     rpd_enrollments db' = rpd_enrollments db"

lemma only_touches_refl [simp]: "only_touches K db db"
  by (simp add: only_touches_def)

lemma only_touches_trans: "only_touches K db1 db2 \<Longrightarrow> only_touches K db2 db3 \<Longrightarrow> only_touches K db1 db3"
  by (simp add: only_touches_def)

lemma filter_delete_where:
  assumes "\<And>x. Q x \<Longrightarrow> \<not> P x"
  shows "filter P (delete_where Q xs) = filter P xs"
  using assms by (induction xs) auto

lemma filter_update_where:
  assumes "\<And>x. Q x \<Longrightarrow> \<not> P x" "\<And>x. Q x \<Longrightarrow> \<not> P (f x)"
  shows "filter P (update_where Q f xs) = filter P xs"
  using assms by (induction xs) auto

lemma reap_audit_sel [simp]:
  "rpd_beats (reap_audit fails r a t db) = rpd_beats db" "rpd_devices (reap_audit fails r a t db) = rpd_devices db"
  "rpd_ipam (reap_audit fails r a t db) = rpd_ipam db" "rpd_enrollments (reap_audit fails r a t db) = rpd_enrollments db"
  "(reap_audit fails r a t db)\<lparr>rpd_audit := x\<rparr> = db\<lparr>rpd_audit := x\<rparr>"
  by (simp_all add: reap_audit_def)

lemma touches_audit: "only_touches K db (reap_audit fails r a t db)"
  by (simp add: only_touches_def)

lemma Release_others:
  assumes "\<And>a. al_ip a = IpText ip \<Longrightarrow> P a"
  shows "filter (\<lambda>a. \<not> P a) (allocs (snd (Release fails pl now db ip))) = filter (\<lambda>a. \<not> P a) (allocs db)"
  unfolding Release_def Let_def using assms by (auto intro!: filter_delete_where filter_update_where)

lemma touches_release:
  assumes "(cn_ip c, cn_device c) \<in> K"
  shows "only_touches K db (snd (reap_release fails r now c db))"
proof (cases "ParseAddr (cn_ip c)")
  case None
  then show ?thesis by (simp add: reap_release_def)
next
  case (Some ip)
  have "filter (\<lambda>a. \<not> leases_of K a) (allocs (snd (Release fails (rp_pool r) now (rpd_ipam db) ip))) = filter (\<lambda>a. \<not> leases_of K a) (allocs (rpd_ipam db))"
    using assms Some by (intro Release_others) (force simp: leases_of_def)
  then show ?thesis using Some by (auto simp: reap_release_def only_touches_def split: prod.splits option.splits)
qed

lemma touches_beat: "(cn_ip c, cn_device c) \<in> K \<Longrightarrow> only_touches K db (delete_beat fails c db)"
  by (force simp: delete_beat_def only_touches_def intro!: filter_delete_where)

lemma touches_stamp: "(cn_ip c, cn_device c) \<in> K \<Longrightarrow> only_touches K db (stamp_device fails now reason c db)"
  by (force simp: stamp_device_def only_touches_def intro!: filter_update_where)

lemma reapOne_db:
  "snd (reapOne flt r now c reason rep db) =
     reap_audit (flt 3) r ''reaper-reap'' (cn_device c) (stamp_device (flt 2) now reason c (delete_beat (flt 1) c (snd (reap_release (flt 0) r now c db))))"
  by (simp add: reapOne_def Let_def split: prod.splits)

lemma touches_reapOne:
  assumes "(cn_ip c, cn_device c) \<in> K"
  shows "only_touches K db (snd (reapOne flt r now c reason rep db))"
  unfolding reapOne_db
  by (rule only_touches_trans [OF only_touches_trans [OF only_touches_trans [OF touches_release [OF assms] touches_beat [OF assms]]
    touches_stamp [OF assms]] touches_audit])

text \<open>The candidates a pass acts on.\<close>

definition acted :: "reaper \<Rightarrow> time_ns \<Rightarrow> reap_candidate \<Rightarrow> bool" where
  "acted r now c \<longleftrightarrow> reap_reason c now (rp_cfg r) \<noteq> None \<and> \<not> excluded r c"

lemma touches_loop:
  assumes "\<And>c. c \<in> set cs \<Longrightarrow> acted r now c \<Longrightarrow> (cn_ip c, cn_device c) \<in> K"
  shows "only_touches K db (snd (reap_loop flt r now rep db cs))"
  using assms
proof (induction cs arbitrary: flt rep db)
  case (Cons c cs)
  have IH: "only_touches K db (snd (reap_loop flt' r now rep' db cs))" for flt' rep' db
    using Cons by simp
  show ?case
  proof (cases "acted r now c")
    case False
    then show ?thesis using IH by (auto simp: acted_def split: option.splits)
  next
    case True
    then obtain reason where reason: "reap_reason c now (rp_cfg r) = Some reason" "\<not> excluded r c" by (auto simp: acted_def)
    let ?rep = "rep\<lparr>rep_candidates := rep_candidates rep + 1\<rparr>"
    let ?s = "if rc_dry (rp_cfg r) then dryRunOne (flt 3) r c reason ?rep db else reapOne flt r now c reason ?rep db"
    have "(cn_ip c, cn_device c) \<in> K" using Cons.prems True by simp
    then have "only_touches K db (snd ?s)" using touches_reapOne touches_audit by (simp add: dryRunOne_def)
    then have "only_touches K db (snd (reap_loop (skip_faults 4 flt) r now (fst ?s) (snd ?s) cs))"
      using only_touches_trans IH by blast
    then show ?thesis using reason by (cases "rc_dry (rp_cfg r)") (simp_all add: Let_def case_prod_beta)
  qed
qed simp

lemma dry_loop:
  assumes "rc_dry (rp_cfg r)"
  shows "(snd (reap_loop flt r now rep db cs))\<lparr>rpd_audit := x\<rparr> = db\<lparr>rpd_audit := x\<rparr>"
  using assms
  by (induction cs arbitrary: flt rep db) (auto simp: Let_def dryRunOne_def split: option.splits)

lemma dedup_subset: "set (dedup_hosts ips names cs) \<subseteq> set cs"
  by (induction ips names cs rule: dedup_hosts.induct) auto

lemma join_row_gone:
  assumes "join_row (rp_cfg r) now db h = Some c" "acted r now c" "r = reaper_New cfg central pl auditing tolerates"
  shows "gone_host r now db h" "cn_ip c = bt_ip h" "cn_device c = bt_device h"
proof -
  obtain e where e: "latest_of_ip (rpd_enrollments db) (bt_ip h) = Some e"
    and nr: "\<not> list_ex (\<lambda>d. dm_name d = bt_device h \<and> dm_reaped_at d \<noteq> 0) (rpd_devices db)"
    and c: "c = \<lparr>cn_ip = bt_ip h, cn_device = bt_device h, cn_not_after = bt_not_after h, cn_last_seen = bt_last_seen h,
       cn_fingerprint = gd_fp e, cn_ephemeral = re_ephemeral e, cn_groups = gd_groups e\<rparr>"
    using assms(1) by (auto simp: join_row_def split: option.splits if_splits)
  have pos: "0 < rc_ephemeral (rp_cfg r)" "0 < rc_persistent (rp_cfg r)"
    using assms(3) by (auto simp: reaper_New_def withDefaults_def)
  show "cn_ip c = bt_ip h" "cn_device c = bt_device h" by (simp_all add: c)
  show "gone_host r now db h"
    using assms(2) e nr pos unfolding c gone_host_def acted_def reap_reason_def excluded_def certStillValid_def Let_def
    by (auto split: if_splits)
qed

text \<open>
  C22: One pass of the reaper, with whatever statements failing, acts only where a stale heartbeat row allows it.  A row allows it when
  its certificate has expired and its host has not been heard from for the grace period of its kind past the expiry and the last sign of
  life (or, when SilentAfter is set, for that time), the latest issued enrolment of its address holds no reserved group, the address is outside the
  central block and the device is not marked yet.  Heartbeats and leases of every other address and the marks of every other device
  name stay as they were, and no enrolment is changed.  The mark goes by device name: a device that left such a row at an old address is
  marked although it may be alive at a new one.  A dry run changes nothing but the audit log.
\<close>

theorem reaper_acts_on_stale_heartbeats:
  assumes r_def: "r = reaper_New cfg central pl auditing tolerates"
    and "ReapOnce flt r now db = (res, db')"
  shows "only_touches {(bt_ip h, bt_device h) | h. h \<in> set (rpd_beats db) \<and> gone_host r now db h} db db' \<and>
    (rc_dry cfg \<longrightarrow> db' = db\<lparr>rpd_audit := rpd_audit db'\<rparr>)"
proof (cases "loadCandidates (flt 0) r now db")
  case None
  then show ?thesis using assms(2) by (simp add: ReapOnce_def)
next
  case (Some cs)
  then have db': "db' = snd (reap_loop (skip_faults 1 flt) r now empty_report db cs)"
    using assms(2) by (simp add: ReapOnce_def split: prod.splits)
  have cs: "\<exists>h\<in>set (rpd_beats db). join_row (rp_cfg r) now db h = Some c" if "c \<in> set cs" for c
    using that Some dedup_subset by (fastforce simp: loadCandidates_def dedupByHost_def map_filter_def split: if_splits)
  have "only_touches {(bt_ip h, bt_device h) | h. h \<in> set (rpd_beats db) \<and> gone_host r now db h} db db'"
    unfolding db' by (rule touches_loop) (use cs join_row_gone r_def in fastforce)
  moreover have "db' = db\<lparr>rpd_audit := rpd_audit db'\<rparr>" if "rc_dry cfg"
  proof -
    have "rc_dry (rp_cfg r)" using that by (simp add: r_def reaper_New_def withDefaults_def)
    from dry_loop [OF this, where x = "rpd_audit db'" and flt = "skip_faults 1 flt" and now = now and rep = empty_report and db = db and cs = cs]
    show ?thesis unfolding db' [symmetric] by simp
  qed
  ultimately show ?thesis by blast
qed

section \<open>A gone host is reclaimed\<close>

definition reclaimed :: "string \<Rightarrow> string \<Rightarrow> reap_db \<Rightarrow> bool" where
  "reclaimed i d db \<longleftrightarrow>
     (\<forall>h\<in>set (rpd_beats db). bt_ip h \<noteq> i) \<and> (\<forall>m\<in>set (rpd_devices db). dm_name m = d \<longrightarrow> dm_reaped_at m \<noteq> 0) \<and>
     (\<forall>a\<in>set (allocs (rpd_ipam db)). \<forall>ip. ParseAddr i = Some ip \<longrightarrow> al_ip a = IpText ip \<longrightarrow> al_state a \<noteq> stateAllocated)"

lemma Release_rows:
  "a \<in> set (allocs (snd (Release fails pl now db ip))) \<Longrightarrow>
     a \<in> set (allocs db) \<or> al_state a = stateQuarantined"
  by (auto simp: Release_def Let_def set_delete_where set_update_where split: if_splits)

lemma Release_frees:
  "a \<in> set (allocs (snd (Release False pl now db ip))) \<Longrightarrow> al_ip a = IpText ip \<Longrightarrow> al_state a \<noteq> stateAllocated"
  by (auto simp: Release_def Let_def set_delete_where set_update_where count_where_0_iff states_differ split: if_splits)

lemma release_sel:
  "rpd_beats (snd (reap_release fails r now c db)) = rpd_beats db" "rpd_devices (snd (reap_release fails r now c db)) = rpd_devices db"
  "allocs (rpd_ipam (snd (reap_release fails r now c db))) = (case ParseAddr (cn_ip c) of None \<Rightarrow> allocs (rpd_ipam db)
     | Some ip \<Rightarrow> allocs (snd (Release fails (rp_pool r) now (rpd_ipam db) ip)))"
  by (auto simp: reap_release_def split: option.splits prod.splits)

lemma reapOne_sel:
  "set (rpd_beats (snd (reapOne flt r now c reason rep db))) \<subseteq> set (rpd_beats db)"
  "allocs (rpd_ipam (snd (reapOne flt r now c reason rep db))) = allocs (rpd_ipam (snd (reap_release (flt 0) r now c db)))"
  "m \<in> set (rpd_devices (snd (reapOne flt r now c reason rep db))) \<Longrightarrow>
     m \<in> set (rpd_devices db) \<or> (dm_name m = cn_device c \<and> dm_reaped_at m = now)"
  by (auto simp: reapOne_db delete_beat_def stamp_device_def release_sel set_delete_where set_update_where split: if_splits)

lemma reclaimed_kept:
  assumes "reclaimed i d db" "now \<noteq> 0"
  shows "reclaimed i d (snd (reapOne flt r now c reason rep db))"
proof -
  have "al_state a \<noteq> stateAllocated"
    if "a \<in> set (allocs (rpd_ipam (snd (reap_release (flt 0) r now c db))))" "ParseAddr i = Some ip" "al_ip a = IpText ip" for a ip
    using that assms(1) Release_rows [of a] by (auto simp: release_sel reclaimed_def states_differ split: option.splits)
  moreover have "\<forall>h\<in>set (rpd_beats (snd (reapOne flt r now c reason rep db))). bt_ip h \<noteq> i"
    using assms(1) reapOne_sel(1) unfolding reclaimed_def by blast
  moreover have dm: "dm_reaped_at m \<noteq> 0" if "m \<in> set (rpd_devices (snd (reapOne flt r now c reason rep db)))" "dm_name m = d" for m
    using reapOne_sel(3) [OF that(1)] that(2) assms unfolding reclaimed_def by auto
  ultimately show ?thesis unfolding reclaimed_def reapOne_sel(2) by (intro conjI ballI allI impI) auto
qed

lemma reapOne_reclaims:
  assumes "now \<noteq> 0"
  shows "reclaimed (cn_ip c) (cn_device c) (snd (reapOne no_faults r now c reason rep db))"
proof -
  have "\<forall>h\<in>set (rpd_beats (snd (reapOne no_faults r now c reason rep db))). bt_ip h \<noteq> cn_ip c"
    by (auto simp: reapOne_db delete_beat_def stamp_device_def set_delete_where)
  moreover have "\<forall>m\<in>set (rpd_devices (snd (reapOne no_faults r now c reason rep db))). dm_name m = cn_device c \<longrightarrow> dm_reaped_at m \<noteq> 0"
    using assms by (auto simp: reapOne_db delete_beat_def stamp_device_def set_update_where)
  moreover have "al_state a \<noteq> stateAllocated"
    if "a \<in> set (allocs (rpd_ipam (snd (reap_release False r now c db))))" "ParseAddr (cn_ip c) = Some ip" "al_ip a = IpText ip" for a ip
    using that Release_frees [of a] by (auto simp: release_sel)
  ultimately show ?thesis unfolding reclaimed_def reapOne_sel(2) no_faults_apply by blast
qed

lemma loop_step:
  assumes "\<not> rc_dry (rp_cfg r)"
  shows "\<exists>rep' db'. snd (reap_loop no_faults r now rep db (c # cs)) = snd (reap_loop no_faults r now rep' db' cs) \<and>
    (db' = db \<and> \<not> acted r now c \<or> acted r now c \<and> (\<exists>reason rep1. db' = snd (reapOne no_faults r now c reason rep1 db)))"
  using assms by (cases "reap_reason c now (rp_cfg r)") (auto simp: acted_def Let_def case_prod_beta)

lemma loop_keeps:
  assumes "\<not> rc_dry (rp_cfg r)" "now \<noteq> 0"
  shows "reclaimed i d db \<Longrightarrow> reclaimed i d (snd (reap_loop no_faults r now rep db cs))"
proof (induction cs arbitrary: rep db)
  case (Cons c cs)
  obtain rep' db' where "snd (reap_loop no_faults r now rep db (c # cs)) = snd (reap_loop no_faults r now rep' db' cs)"
    "db' = db \<or> (\<exists>reason rep1. db' = snd (reapOne no_faults r now c reason rep1 db))"
    using loop_step [OF assms(1)] by metis
  then show ?case using Cons reclaimed_kept assms(2) by metis
qed simp

lemma loop_reclaims:
  assumes "\<not> rc_dry (rp_cfg r)" "now \<noteq> 0" "acted r now c"
  shows "c \<in> set cs \<Longrightarrow> reclaimed (cn_ip c) (cn_device c) (snd (reap_loop no_faults r now rep db cs))"
proof (induction cs arbitrary: rep db)
  case (Cons x cs)
  obtain rep' db' where s: "snd (reap_loop no_faults r now rep db (x # cs)) = snd (reap_loop no_faults r now rep' db' cs)"
    and a: "acted r now x \<Longrightarrow> \<exists>reason rep1. db' = snd (reapOne no_faults r now x reason rep1 db)"
    using loop_step [OF assms(1), of now rep db x cs] by blast
  show ?case
  proof (cases "x = c")
    case True
    then obtain reason rep1 where "db' = snd (reapOne no_faults r now c reason rep1 db)" using a assms(3) by blast
    then show ?thesis unfolding s using loop_keeps [OF assms(1,2)] reapOne_reclaims [OF assms(2)] by simp
  next
    case False
    then have "c \<in> set cs" using Cons.prems by simp
    then show ?thesis unfolding s by (rule Cons.IH)
  qed
qed simp

lemma dedup_distinct:
  assumes "distinct (map cn_ip cs)" "distinct (map cn_device cs)" "set ips \<inter> cn_ip ` set cs = {}" "set names \<inter> cn_device ` set cs = {}"
  shows "dedup_hosts ips names cs = cs"
  using assms by (induction ips names cs rule: dedup_hosts.induct) auto

lemma join_row_fields: "join_row cfg now db h = Some c \<Longrightarrow> cn_ip c = bt_ip h \<and> cn_device c = bt_device h"
  by (auto simp: join_row_def split: option.splits if_splits)

lemma join_distinct:
  assumes "distinct (map key beats)" "\<And>h c. join_row cfg now db h = Some c \<Longrightarrow> ckey c = key h"
  shows "distinct (map ckey (List.map_filter (join_row cfg now db) beats))"
proof -
  have "map ckey (List.map_filter (join_row cfg now db) beats) = map key (filter (\<lambda>h. join_row cfg now db h \<noteq> None) beats)"
    using assms(2) by (induction beats) (auto simp: map_filter_simps split: option.splits)
  then show ?thesis using assms(1) by (simp add: distinct_map_filter)
qed

lemma gone_acted:
  assumes "gone_host r now db h"
  shows "\<exists>c. join_row (rp_cfg r) now db h = Some c \<and> acted r now c"
proof -
  obtain e where e: "latest_of_ip (rpd_enrollments db) (bt_ip h) = Some e"
    using assms(1) by (auto simp: gone_host_def split: option.splits)
  let ?grace = "if re_ephemeral e then rc_ephemeral (rp_cfg r) else rc_persistent (rp_cfg r)"
  let ?c = "\<lparr>cn_ip = bt_ip h, cn_device = bt_device h, cn_not_after = bt_not_after h, cn_last_seen = bt_last_seen h,
     cn_fingerprint = gd_fp e, cn_ephemeral = re_ephemeral e, cn_groups = gd_groups e\<rparr>"
  have g: "bt_not_after h \<noteq> 0" "bt_not_after h < now"
    "(bt_not_after h < now - ?grace \<and> bt_last_seen h < now - ?grace) \<or> (rc_silent (rp_cfg r) > 0 \<and> bt_last_seen h < now - rc_silent (rp_cfg r))"
    "\<not> GrantsReservedGroup (json_groups (gd_groups e))" "\<not> in_central (rp_central r) (bt_ip h)"
    "\<not> list_ex (\<lambda>d. dm_name d = bt_device h \<and> dm_reaped_at d \<noteq> 0) (rpd_devices db)"
    using assms(1) e by (simp_all add: gone_host_def Let_def)
  have "prefilter (rp_cfg r) now h" using g(1,3) unfolding prefilter_def Let_def by (auto split: if_splits)
  then have "join_row (rp_cfg r) now db h = Some ?c" using e g(6) by (simp add: join_row_def)
  moreover have "reap_reason ?c now (rp_cfg r) \<noteq> None" using g(1-3) unfolding reap_reason_def Let_def certStillValid_def by (cases "re_ephemeral e") auto
  then have "acted r now ?c" using g(4,5) by (simp add: acted_def excluded_def)
  ultimately show ?thesis by blast
qed

text \<open>
  C23: A host that is gone is reclaimed by the next pass: if no statement fails and the heartbeats name distinct
  addresses and devices, then after the pass its heartbeat is deleted, its device is marked and its address is no longer leased.
\<close>

theorem gone_host_reclaimed:
  assumes "r = reaper_New cfg central pl auditing tolerates" "\<not> rc_dry cfg" "now \<noteq> 0"
    and "distinct (map bt_ip (rpd_beats db))" "distinct (map bt_device (rpd_beats db))"
    and "h \<in> set (rpd_beats db)" "gone_host r now db h"
  shows "reclaimed (bt_ip h) (bt_device h) (snd (ReapOnce no_faults r now db))"
proof -
  let ?cs = "List.map_filter (join_row (rp_cfg r) now db) (rpd_beats db)"
  have dry: "\<not> rc_dry (rp_cfg r)" using assms(1,2) by (simp add: reaper_New_def withDefaults_def)
  have "dedupByHost ?cs = ?cs" unfolding dedupByHost_def
    using join_distinct [OF assms(4), where ckey = cn_ip] join_distinct [OF assms(5), where ckey = cn_device] join_row_fields
    by (intro dedup_distinct) simp_all
  then have run: "snd (ReapOnce no_faults r now db) = snd (reap_loop no_faults r now empty_report db ?cs)"
    by (simp add: ReapOnce_def loadCandidates_def case_prod_beta)
  obtain c where c: "join_row (rp_cfg r) now db h = Some c" "acted r now c" using gone_acted [OF assms(7)] by blast
  then have "c \<in> set ?cs" using assms(6) by (force simp: map_filter_def)
  then show ?thesis using loop_reclaims [OF dry assms(3) c(2)] join_row_fields [OF c(1)] unfolding run by metis
qed

section \<open>A run\<close>

definition demo_pool :: pool where
  "demo_pool = \<lparr>pl_prefix = Prefix (Addr4 0x0a000000) 24, pl_subranges = [], pl_reserved = [], pl_quarantine_ttl = 0\<rparr>"

definition demo_reap_config :: reap_config where
  "demo_reap_config = \<lparr>rc_persistent = 50, rc_ephemeral = 10, rc_silent = 0, rc_dry = False\<rparr>"

definition demo_reaper :: reaper where
  "demo_reaper = reaper_New demo_reap_config zero_prefix demo_pool True True"

definition demo_issued :: "string \<Rightarrow> string list \<Rightarrow> reap_row" where
  "demo_issued ip gs = \<lparr>gd_fp = ip, gd_status = ''issued'', gd_groups = Some gs, gd_ip = ip, re_ephemeral = False\<rparr>"

definition demo_beat :: "string \<Rightarrow> string \<Rightarrow> time_ns \<Rightarrow> beat_row" where
  "demo_beat ip d t = \<lparr>bt_ip = ip, bt_device = d, bt_not_after = t, bt_last_seen = t\<rparr>"

definition demo_lease :: "int \<Rightarrow> addr \<Rightarrow> allocation" where
  "demo_lease i ip = \<lparr>al_id = i, al_ip = IpText ip, al_device = i, al_state = stateAllocated, al_allocated_at = 1, al_released_at = 0,
     al_quarantine_until = 0, al_netblock = 0, al_method = ''enroll''\<rparr>"

definition demo_reap_db :: reap_db where
  "demo_reap_db = \<lparr>rpd_beats = [demo_beat ''10.0.0.5'' ''web'' 100, demo_beat ''10.0.0.6'' ''core'' 100],
     rpd_enrollments = [demo_issued ''10.0.0.5'' [''web''], demo_issued ''10.0.0.6'' [GroupControlPlane]],
     rpd_devices = [\<lparr>dm_name = ''web'', dm_reaped_at = 0, dm_reason = ''''\<rparr>, \<lparr>dm_name = ''core'', dm_reaped_at = 0, dm_reason = ''''\<rparr>],
     rpd_ipam = \<lparr>devices = [], dev_seq = 3, allocs = [demo_lease 1 (Addr4 0x0a000005), demo_lease 2 (Addr4 0x0a000006)], alloc_seq = 3, ipam_events = []\<rparr>,
     rpd_audit = []\<rparr>"

lemma demo_beat_sel: "bt_ip (demo_beat ip d t) = ip" "bt_device (demo_beat ip d t) = d"
  by (simp_all add: demo_beat_def)

lemma demo_gone: "gone_host demo_reaper 200 demo_reap_db (demo_beat ''10.0.0.5'' ''web'' 100)"
  "\<not> gone_host demo_reaper 200 demo_reap_db (demo_beat ''10.0.0.6'' ''core'' 100)"
  by code_simp+

lemma demo_pass: "rpd_beats (snd (ReapOnce no_faults demo_reaper 200 demo_reap_db)) = [demo_beat ''10.0.0.6'' ''core'' 100]"
  by code_simp

theorem reaper_acts_on_stale_heartbeats_witness:
  "only_touches {(''10.0.0.5'', ''web'')} demo_reap_db (snd (ReapOnce no_faults demo_reaper 200 demo_reap_db)) \<and>
   rpd_beats (snd (ReapOnce no_faults demo_reaper 200 demo_reap_db)) = [demo_beat ''10.0.0.6'' ''core'' 100]"
proof -
  have "{(bt_ip h, bt_device h) | h. h \<in> set (rpd_beats demo_reap_db) \<and> gone_host demo_reaper 200 demo_reap_db h} = {(''10.0.0.5'', ''web'')}"
  proof -
    have "set (rpd_beats demo_reap_db) = {demo_beat ''10.0.0.5'' ''web'' 100, demo_beat ''10.0.0.6'' ''core'' 100}"
      by (simp add: demo_reap_db_def)
    then have "{h \<in> set (rpd_beats demo_reap_db). gone_host demo_reaper 200 demo_reap_db h} = {demo_beat ''10.0.0.5'' ''web'' 100}"
      using demo_gone by auto
    then have "(\<lambda>h. (bt_ip h, bt_device h)) ` {h \<in> set (rpd_beats demo_reap_db). gone_host demo_reaper 200 demo_reap_db h} = {(''10.0.0.5'', ''web'')}"
      by (simp add: demo_beat_def)
    then show ?thesis by (simp add: image_Collect)
  qed
  then show ?thesis
    using reaper_acts_on_stale_heartbeats [OF demo_reaper_def prod.collapse [symmetric], where flt = no_faults and now = 200 and db = demo_reap_db] demo_pass by simp
qed

theorem gone_host_reclaimed_witness:
  "reclaimed ''10.0.0.5'' ''web'' (snd (ReapOnce no_faults demo_reaper 200 demo_reap_db))"
proof -
  have "distinct (map bt_ip (rpd_beats demo_reap_db))" "distinct (map bt_device (rpd_beats demo_reap_db))"
    "demo_beat ''10.0.0.5'' ''web'' 100 \<in> set (rpd_beats demo_reap_db)" "\<not> rc_dry demo_reap_config"
    by (simp_all add: demo_reap_db_def demo_beat_def demo_reap_config_def)
  from gone_host_reclaimed [OF demo_reaper_def this(4) _ this(1-3) demo_gone(1)]
  show ?thesis by (simp only: demo_beat_sel)
qed

text \<open>
  A device that was re-enrolled at a new address leaves its old heartbeat behind.  Once that row is reaped, the device is marked
  although it is alive under the new address, and a marked device is never a candidate again: when it is gone for good, its
  address is not reclaimed.
\<close>

definition demo_moved :: reap_db where
  "demo_moved = demo_reap_db\<lparr>rpd_beats := [demo_beat ''10.0.0.5'' ''web'' 100, demo_beat ''10.0.0.7'' ''web'' 1000],
     rpd_enrollments := [demo_issued ''10.0.0.5'' [''web''], demo_issued ''10.0.0.7'' [''web'']]\<rparr>"

lemma stale_heartbeat_marks_live_device:
  "rpd_beats (snd (ReapOnce no_faults demo_reaper 200 demo_moved)) = [demo_beat ''10.0.0.7'' ''web'' 1000]"
  "rpd_beats (reaper_Run demo_reaper [(no_faults, 200), (no_faults, 5000)] demo_moved) = [demo_beat ''10.0.0.7'' ''web'' 1000]"
  by code_simp+

end
