(* ===== verification/Coreapi.thy ===== *)
theory Coreapi
  imports Enrollment Rollout Ca_Registry Reaper
begin

text \<open>
  \<open>internal/coreapi/coreapi.go\<close>: Core's mesh-only API, on which a host that already has a certificate heartbeats, renews and
  refreshes its configuration.  The state joins the tables of the other components: the enrolments, leases and signer of
  \<open>Enrollment.core\<close>, the heartbeats, the device marks of the reaper, the blocklist, the rollouts and the CA registry.

  A handler takes the caller's overlay address, which the tunnel authenticates, and the body.  \<open>api_call\<close> holds the clock and
  which statements fail, by name.  JSON codecs, curve points and the release registries are parameters; group and
  fingerprint columns of JSON lists are the lists, and a heartbeat's expiry is what \<open>time.Parse\<close> makes of it.
\<close>

unbundle bit_operations_syntax

datatype stmt = SDevice | SHealRead | SHealRevoked | SHealAlloc | SHealOwner | SHealStatus | SHealMark | SHealAudit | SHealDevice
  | SOwner | SReassert | SUpsert | SArch | SArchAudit | SEvalAudit | SRolloutAudit | SCommand nat | SActiveCA | SDrain | SFloor nat
  | SRevoked | SGateAudit | SReservedAudit | SSign | SVersion | SBlocklist | SNebula | SPilot | SBookkeeping | SOldExpiry | SWriteback
  | SWritebackAudit | SBeatExpiry | SBeatAudit | SRenewAudit

record api_call =
  ac_now :: time_ns
  ac_fails :: "stmt \<Rightarrow> bool"
  ac_faults :: "stmt \<Rightarrow> faults"
  ac_eval :: "string \<Rightarrow> faults"

datatype api_err = ApNotAllowed | ApRevoked | ApUnavailable | ApTooLarge | ApInvalid | ApSignature | ApInternal

datatype command = CmdRenew | CmdApplyBundle int

record hb_request =
  hq_type :: string
  hq_bundle :: int
  hq_blocklist :: int
  hq_not_after :: "time_ns option"
  hq_pilot_version :: string
  hq_pilot_sha :: string
  hq_nebula_version :: string
  hq_nebula_sha :: string
  hq_goos :: string
  hq_goarch :: string
  hq_offset :: int
  hq_health :: string
  hq_cas :: "string list"
  hq_keys :: "string list"

record renew_request =
  rq_type :: string
  rq_curve :: string
  rq_pubkey :: string

record heartbeat =
  hx_ip :: string
  hx_device :: string
  hx_pilot_version :: string
  hx_nebula_version :: string
  hx_not_after :: time_ns
  hx_bundle :: int
  hx_blocklist :: int
  hx_nebula :: int
  hx_pilot :: int
  hx_offset :: int
  hx_health :: string
  hx_seen :: time_ns
  hx_cas :: "string list"
  hx_keys :: "string list"

text \<open>\<open>ReleaseSource\<close>: the artifact of a generation for a platform, and the generation of a running binary.\<close>

record release_source =
  rls_lookup :: "int \<Rightarrow> string \<Rightarrow> string \<Rightarrow> release_ref option"
  rls_gen :: "string \<Rightarrow> int"

record ('p, 'b, 'n) api_config =
  cc_codec :: "'p bundle_codec"
  cc_point :: "bytes \<Rightarrow> 'p option"
  cc_unbeat :: "bytes \<Rightarrow> hb_request option"
  cc_unrenew :: "bytes \<Rightarrow> renew_request option"
  cc_lib :: nebula_lib
  cc_acquire :: "'b \<Rightarrow> br_out \<times> 'b"
  cc_is_open :: "'b \<Rightarrow> bool option"
  cc_limit :: int
  cc_pool :: prefix
  cc_lifetime :: int
  cc_threshold :: int
  cc_backend :: "backend \<times> string"
  cc_config_signer :: "config_signer option"
  cc_ca_pem :: string
  cc_ca_source :: "string list option option"
  cc_key_pem :: string
  cc_key_source :: "string list option option"
  cc_key_version :: "int option option"
  cc_lighthouses :: "lighthouse_ref list"
  cc_lh_source :: "lighthouse_ref list option option"
  cc_blocklist_source :: "string list option option"
  cc_policy :: "policy option"
  cc_tun :: string
  cc_port :: int
  cc_nebula :: release_ref
  cc_pilot :: release_ref
  cc_nebula_releases :: "release_source option"
  cc_pilot_releases :: "release_source option"
  cc_rollout :: bool
  cc_revocation :: bool
  cc_alloc :: "'n allocator option"
  cc_central :: prefix
  cc_drain :: bool

record ('b, 'n) api_state =
  ap_core :: "('b, 'n) core"
  ap_beats :: "heartbeat list"
  ap_marks :: "device_mark list"
  ap_rev :: rv_db
  ap_rollout :: ro_db
  ap_cas :: ca_db

definition maxBody :: nat where "maxBody = 16 * 1024"

definition api_audit :: "bool \<Rightarrow> audit_note \<Rightarrow> ('b, 'n) api_state \<Rightarrow> ('b, 'n) api_state" where
  "api_audit fails r w = w\<lparr>ap_core := en_audit fails r (ap_core w)\<rparr>"

section \<open>What a bundle is built from\<close>

definition api_bundleVersion :: "('p, 'b, 'n) api_config \<Rightarrow> api_call \<Rightarrow> string \<Rightarrow> ('b, 'n) api_state \<Rightarrow> int" where
  "api_bundleVersion cfg k ip w =
     (if cc_rollout cfg then (case VersionFor (ac_faults k SVersion) ip (ap_rollout w) of Some v \<Rightarrow> v | None \<Rightarrow> 1) else 1)"

definition api_lighthouses :: "('p, 'b, 'n) api_config \<Rightarrow> lighthouse_ref list" where
  "api_lighthouses cfg = (case cc_lh_source cfg of Some (Some lhs) \<Rightarrow> if lhs = [] then cc_lighthouses cfg else lhs | _ \<Rightarrow> cc_lighthouses cfg)"

definition api_blocklistVersion :: "('p, 'b, 'n) api_config \<Rightarrow> api_call \<Rightarrow> ('b, 'n) api_state \<Rightarrow> int" where
  "api_blocklistVersion cfg k w = (if cc_rollout cfg then BlocklistVersion (ac_fails k SBlocklist) (ap_rollout w) else 0)"

definition api_caBundle :: "('p, 'b, 'n) api_config \<Rightarrow> string list" where
  "api_caBundle cfg = (case cc_ca_source cfg of Some (Some cas) \<Rightarrow> if cas \<noteq> [] then cas else [cc_ca_pem cfg] | _ \<Rightarrow> [cc_ca_pem cfg])"

definition api_configKeys :: "('p, 'b, 'n) api_config \<Rightarrow> string list" where
  "api_configKeys cfg =
     (let static = (if cc_key_pem cfg \<noteq> '''' then [cc_key_pem cfg] else []) in
      case cc_key_source cfg of Some (Some ks) \<Rightarrow> if ks \<noteq> [] then ks else static | _ \<Rightarrow> static)"

definition api_configKeyVersion :: "('p, 'b, 'n) api_config \<Rightarrow> int" where
  "api_configKeyVersion cfg = (case cc_key_version cfg of Some (Some v) \<Rightarrow> v | _ \<Rightarrow> 0)"

definition api_signBundle :: "('p, 'b, 'n) api_config \<Rightarrow> cfg_bundle \<Rightarrow> string option" where
  "api_signBundle cfg b = (case cc_config_signer cfg of
     Some s \<Rightarrow> cs_Sign (cc_codec cfg) s b
   | None \<Rightarrow> bundle_Sign (cc_codec cfg) (fst (cc_backend cfg)) (snd (cc_backend cfg)) b)"

definition api_blocklist :: "('p, 'b, 'n) api_config \<Rightarrow> string list" where
  "api_blocklist cfg = (case cc_blocklist_source cfg of Some (Some fps) \<Rightarrow> fps | _ \<Rightarrow> [])"

definition no_release :: release_ref where
  "no_release = \<lparr>rr_version = '''', rr_sha256 = '''', rr_url = ''''\<rparr>"

definition nebulaRelease :: "('p, 'b, 'n) api_config \<Rightarrow> api_call \<Rightarrow> string \<Rightarrow> string \<Rightarrow> string \<Rightarrow> ('b, 'n) api_state \<Rightarrow> release_ref" where
  "nebulaRelease cfg k ip goos goarch w = (case cc_nebula_releases cfg of
     None \<Rightarrow> cc_nebula cfg
   | Some rs \<Rightarrow>
       if \<not> cc_rollout cfg then cc_nebula cfg
       else (case NebulaGenFor (ac_faults k SNebula) ip (ap_rollout w) of
           None \<Rightarrow> cc_nebula cfg
         | Some gen \<Rightarrow> if gen = 0 then no_release else (case rls_lookup rs gen goos goarch of Some t \<Rightarrow> t | None \<Rightarrow> no_release)))"

definition pilotRelease :: "('p, 'b, 'n) api_config \<Rightarrow> api_call \<Rightarrow> string \<Rightarrow> string \<Rightarrow> string \<Rightarrow> ('b, 'n) api_state \<Rightarrow> release_ref" where
  "pilotRelease cfg k ip goos goarch w = (case cc_pilot_releases cfg of
     None \<Rightarrow> cc_pilot cfg
   | Some rs \<Rightarrow>
       if \<not> cc_rollout cfg then cc_pilot cfg
       else (case PilotGenFor (ac_faults k SPilot) ip (ap_rollout w) of
           None \<Rightarrow> cc_pilot cfg
         | Some gen \<Rightarrow> if gen = 0 then no_release else (case rls_lookup rs gen goos goarch of Some t \<Rightarrow> t | None \<Rightarrow> no_release)))"

definition assembleBundle ::
  "('p, 'b, 'n) api_config \<Rightarrow> api_call \<Rightarrow> enrollment \<Rightarrow> string list \<Rightarrow> string \<Rightarrow> time_ns \<Rightarrow> ('b, 'n) api_state \<Rightarrow> cfg_bundle" where
  "assembleBundle cfg k dev groups pem notAfter w =
     \<lparr>bu_protocol = 0, bu_type = '''', bu_version = api_bundleVersion cfg k (en_ip dev) w, bu_blocklist_version = api_blocklistVersion cfg k w,
      bu_issued_at = ac_now k, bu_name = en_device dev, bu_ip = en_ip dev, bu_groups = groups, bu_certificate = pem,
      bu_ca_bundle = api_caBundle cfg, bu_config_keys = api_configKeys cfg, bu_config_key_version = api_configKeyVersion cfg,
      bu_firewall = CompileFirewall (cc_policy cfg) groups, bu_lighthouses = api_lighthouses cfg, bu_blocklist = api_blocklist cfg,
      bu_tun_dev = cc_tun cfg, bu_listen_port = cc_port cfg, bu_nebula = nebulaRelease cfg k (en_ip dev) (en_goos dev) (en_goarch dev) w,
      bu_pilot = pilotRelease cfg k (en_ip dev) (en_goos dev) (en_goarch dev) w, bu_not_after = notAfter\<rparr>"

section \<open>Who is calling\<close>

definition api_device :: "bool \<Rightarrow> string \<Rightarrow> ('b, 'n) core \<Rightarrow> enrollment option" where
  "api_device fails ip c =
     (if fails then None else first_where (\<lambda>e. en_ip e = ip \<and> en_status e = StatusIssued) (rev (co_rows c)))"

text \<open>\<open>None\<close> when the blocklist cannot be read.\<close>

definition api_revoked :: "('p, 'b, 'n) api_config \<Rightarrow> bool \<Rightarrow> rv_db \<Rightarrow> string \<Rightarrow> bool option" where
  "api_revoked cfg fails blocked fp =
     (if \<not> cc_revocation cfg \<or> fp = '''' then Some False
      else map_option (\<lambda>fps. fp \<in> set fps) (ActiveFingerprints fails blocked))"

fun ip_string :: "ip_text \<Rightarrow> string" where
  "ip_string (IpText a) = addr_String a"
| "ip_string (IpBad s) = s"

definition allocationOwner :: "bool \<Rightarrow> ipam_db \<Rightarrow> string \<Rightarrow> string option" where
  "allocationOwner fails db ip =
     (if fails then None
      else case first_where (\<lambda>a. ip_string (al_ip a) = ip) (allocs db) of
        None \<Rightarrow> None
      | Some a \<Rightarrow> (case first_where (\<lambda>d. dev_id d = al_device a) (devices db) of
          None \<Rightarrow> None
        | Some d \<Rightarrow> if dev_name d = '''' then None else Some (dev_name d)))"

section \<open>Self-heal\<close>

text \<open>The guards of \<open>trySelfHeal\<close> on the latest enrolment at the address, up to the address to re-assert.\<close>

definition heal_guard :: "('p, 'b, 'n) api_config \<Rightarrow> api_call \<Rightarrow> string \<Rightarrow> enrollment \<Rightarrow> ('b, 'n) api_state \<Rightarrow> addr option" where
  "heal_guard cfg k ip e w =
     (case nl_parse (cc_lib cfg) (en_cert e) of
        None \<Rightarrow> None
      | Some c \<Rightarrow>
          if \<not> ct_not_after c > ac_now k then None
          else if en_fingerprint e \<noteq> '''' \<and>
            (case ActiveFingerprints (ac_fails k SHealRevoked) (ap_rev w) of None \<Rightarrow> True | Some fps \<Rightarrow> en_fingerprint e \<in> set fps) then None
          else if GrantsReservedGroup (en_groups e) then None
          else (case ParseAddr ip of
              None \<Rightarrow> None
            | Some a \<Rightarrow> if is_valid (cc_central cfg) \<and> contains_addr (cc_central cfg) a then None else Some a))"

text \<open>The re-assertion of the exact address: an address that is taken is fine only when this device holds it.\<close>

definition heal_address :: "('p, 'b, 'n) api_config \<Rightarrow> api_call \<Rightarrow> 'n allocator \<Rightarrow> string \<Rightarrow> enrollment \<Rightarrow> addr \<Rightarrow> ('b, 'n) api_state \<Rightarrow> bool \<times> ('b, 'n) api_state" where
  "heal_address cfg k al ip e a w =
     (case AllocateSpecific (ac_faults k SHealAlloc) al (ac_now k) (co_ipam (ap_core w)) (co_nb (ap_core w)) (en_device e) a ''self-heal'' of
        (err, db, n) \<Rightarrow>
          let w1 = w\<lparr>ap_core := (ap_core w)\<lparr>co_ipam := db, co_nb := n\<rparr>\<rparr> in
          (case err of
             None \<Rightarrow> (True, w1)
           | Some x \<Rightarrow> (x = ErrAddrTaken \<and> allocationOwner (ac_fails k SHealOwner) db ip = Some (en_device e), w1)))"

definition heal_rows :: "api_call \<Rightarrow> string \<Rightarrow> enrollment \<Rightarrow> ('b, 'n) api_state \<Rightarrow> ('b, 'n) api_state" where
  "heal_rows k ip e w =
     (let c = ap_core w;
          c1 = (if en_status e \<noteq> StatusIssued \<and> \<not> ac_fails k SHealStatus
                then c\<lparr>co_rows := update_where (\<lambda>q. en_id q = en_id e \<and> en_status q \<noteq> StatusIssued) (\<lambda>q. q\<lparr>en_status := StatusIssued\<rparr>) (co_rows c)\<rparr>
                else c);
          marks = (if ac_fails k SHealMark then ap_marks w
                   else update_where (\<lambda>d. dm_name d = en_device e \<and> dm_reaped_at d \<noteq> 0) (\<lambda>d. d\<lparr>dm_reaped_at := 0, dm_reason := ''''\<rparr>) (ap_marks w)) in
      api_audit (ac_fails k SHealAudit) (''system'', ''heartbeat-self-heal'', ip) (w\<lparr>ap_core := c1, ap_marks := marks\<rparr>))"

definition trySelfHeal :: "('p, 'b, 'n) api_config \<Rightarrow> api_call \<Rightarrow> string \<Rightarrow> ('b, 'n) api_state \<Rightarrow> enrollment option \<times> ('b, 'n) api_state" where
  "trySelfHeal cfg k ip w =
     (if \<not> cc_revocation cfg then (None, w)
      else case cc_alloc cfg of
        None \<Rightarrow> (None, w)
      | Some al \<Rightarrow>
          (case (if ac_fails k SHealRead then None else first_where (\<lambda>e. en_ip e = ip) (rev (co_rows (ap_core w)))) of
             None \<Rightarrow> (None, w)
           | Some e \<Rightarrow>
               (case heal_guard cfg k ip e w of
                  None \<Rightarrow> (None, w)
                | Some a \<Rightarrow>
                    (case heal_address cfg k al ip e a w of
                       (False, w1) \<Rightarrow> (None, w1)
                     | (True, w1) \<Rightarrow>
                         let w2 = heal_rows k ip e w1 in (api_device (ac_fails k SHealDevice) ip (ap_core w2), w2)))))"

definition reconcileAllocation :: "('p, 'b, 'n) api_config \<Rightarrow> api_call \<Rightarrow> enrollment \<Rightarrow> ('b, 'n) api_state \<Rightarrow> ('b, 'n) api_state" where
  "reconcileAllocation cfg k dev w =
     (case cc_alloc cfg of
        None \<Rightarrow> w
      | Some al \<Rightarrow>
          if en_ip dev = '''' then w
          else (case allocationOwner (ac_fails k SOwner) (co_ipam (ap_core w)) (en_ip dev) of
              Some _ \<Rightarrow> w
            | None \<Rightarrow>
                (case ParseAddr (en_ip dev) of
                   None \<Rightarrow> w
                 | Some a \<Rightarrow>
                     (case AllocateSpecific (ac_faults k SReassert) al (ac_now k) (co_ipam (ap_core w)) (co_nb (ap_core w)) (en_device dev) a ''heartbeat-reconcile'' of
                        (_, db, n) \<Rightarrow> w\<lparr>ap_core := (ap_core w)\<lparr>co_ipam := db, co_nb := n\<rparr>\<rparr>))))"

section \<open>The accelerated drain\<close>

definition fnv32a :: "string \<Rightarrow> 32 word" where
  "fnv32a s = foldl (\<lambda>h c. (h XOR of_int (of_char c)) * 16777619) 2166136261 s"

text \<open>\<open>int64\<close> arithmetic: results wrap to 64 bits, division truncates towards zero.\<close>

definition wrap64 :: "int \<Rightarrow> int" where
  "wrap64 i = signed_take_bit 63 i"

definition quo64 :: "int \<Rightarrow> int \<Rightarrow> int" where
  "quo64 a b = (if a < 0 then - (- a div b) else a div b)"

definition drain_bucket :: "string \<Rightarrow> int" where
  "drain_bucket ip = uint (fnv32a ip) mod 100"

definition inDrainWave :: "string \<Rightarrow> int \<Rightarrow> int \<Rightarrow> int \<Rightarrow> bool" where
  "inDrainWave ip started window now =
     (if started \<le> 0 \<or> window \<le> 0 then False
      else let elapsed = wrap64 (now - started) in
        if elapsed < 0 then False
        else if elapsed \<ge> window then True
        else drain_bucket ip \<le> quo64 (wrap64 (elapsed * 100)) window)"

definition EqualFold :: "string \<Rightarrow> string \<Rightarrow> bool" where
  "EqualFold s t \<longleftrightarrow> ToLower s = ToLower t"

definition forceRenewStraggler :: "('p, 'b, 'n) api_config \<Rightarrow> api_call \<Rightarrow> string \<Rightarrow> string \<Rightarrow> ('b, 'n) api_state \<Rightarrow> bool" where
  "forceRenewStraggler cfg k ip hostCA w =
     (if \<not> cc_drain cfg \<or> hostCA = '''' then False
      else case ca_ActiveFingerprint (ac_fails k SActiveCA) (ap_cas w) of
        Inl _ \<Rightarrow> False
      | Inr active \<Rightarrow>
          if active = '''' \<or> EqualFold hostCA active then False
          else if \<not> EqualFold (CurrentFingerprint (co_signer (ap_core w))) active then False
          else (case DrainWave (ac_fails k SDrain) hostCA (ap_cas w) of
              Inl _ \<Rightarrow> False
            | Inr (started, window, accelerated) \<Rightarrow>
                if \<not> accelerated \<or> \<not> inDrainWave ip started window (ac_now k) then False
                else BreakerOpen (cc_is_open cfg) (co_signer (ap_core w)) \<noteq> Some True))"

section \<open>Commands\<close>

definition floorReconcile :: "('p, 'b, 'n) api_config \<Rightarrow> api_call \<Rightarrow> string \<Rightarrow> string \<Rightarrow> int \<Rightarrow> int \<Rightarrow> ('b, 'n) api_state \<Rightarrow> command option" where
  "floorReconcile cfg k goos goarch nebula pilot w =
     (let try = (\<lambda>rs flt lane applied. (case rs of
           None \<Rightarrow> None
         | Some s \<Rightarrow> (case FloorCatchupGen flt lane applied (ap_rollout w) of
             None \<Rightarrow> None
           | Some gen \<Rightarrow> if rls_lookup s gen goos goarch \<noteq> None then Some (CmdApplyBundle gen) else None))) in
      case try (cc_nebula_releases cfg) (ac_faults k (SFloor 0)) LaneNebula nebula of
        Some c \<Rightarrow> Some c
      | None \<Rightarrow> try (cc_pilot_releases cfg) (ac_faults k (SFloor 1)) LanePilot pilot)"

text \<open>At most one \<open>apply_bundle\<close>: the first lane that wants this host to move, else the floor.\<close>

definition lane_command ::
  "('p, 'b, 'n) api_config \<Rightarrow> api_call \<Rightarrow> enrollment \<Rightarrow> int \<Rightarrow> int \<Rightarrow> int \<Rightarrow> int \<Rightarrow> ('b, 'n) api_state \<Rightarrow> command option \<times> ('b, 'n) api_state" where
  "lane_command cfg k dev bundle blocklist nebula pilot w =
     (case CommandFor (ac_faults k (SCommand 0)) (ac_now k) (en_ip dev) bundle (ap_rollout w) of
        (Some v, r) \<Rightarrow> (Some (CmdApplyBundle v), w\<lparr>ap_rollout := r\<rparr>)
      | (None, r) \<Rightarrow>
        (case BlocklistCommandFor (ac_faults k (SCommand 1)) (ac_now k) (en_ip dev) blocklist r of
           (Some v, r) \<Rightarrow> (Some (CmdApplyBundle v), w\<lparr>ap_rollout := r\<rparr>)
         | (None, r) \<Rightarrow>
           (case NebulaCommandFor (ac_faults k (SCommand 2)) (ac_now k) (en_ip dev) nebula r of
              (Some v, r) \<Rightarrow> (Some (CmdApplyBundle v), w\<lparr>ap_rollout := r\<rparr>)
            | (None, r) \<Rightarrow>
              (case PilotCommandFor (ac_faults k (SCommand 3)) (ac_now k) (en_ip dev) pilot r of
                 (Some v, r) \<Rightarrow> (Some (CmdApplyBundle v), w\<lparr>ap_rollout := r\<rparr>)
               | (None, r) \<Rightarrow> (let w = w\<lparr>ap_rollout := r\<rparr> in (floorReconcile cfg k (en_goos dev) (en_goarch dev) nebula pilot w, w))))))"

definition commandsFor ::
  "('p, 'b, 'n) api_config \<Rightarrow> api_call \<Rightarrow> enrollment \<Rightarrow> int \<Rightarrow> int \<Rightarrow> int \<Rightarrow> int \<Rightarrow> time_ns \<Rightarrow> ('b, 'n) api_state \<Rightarrow> command list \<times> ('b, 'n) api_state" where
  "commandsFor cfg k dev bundle blocklist nebula pilot notAfter w =
     (let nearExpiry = cc_threshold cfg > 0 \<and> notAfter > 0 \<and> notAfter - ac_now k < cc_threshold cfg;
          renew = nearExpiry \<or> en_gen dev > en_issued_gen dev \<or> forceRenewStraggler cfg k (en_ip dev) (en_ca_fingerprint dev) w;
          cmds = (if renew then [CmdRenew] else []) in
      if \<not> cc_rollout cfg then (cmds, w)
      else case lane_command cfg k dev bundle blocklist nebula pilot w of
        (Some c, w1) \<Rightarrow> (cmds @ [c], w1)
      | (None, w1) \<Rightarrow> (cmds, w1))"

section \<open>The heartbeat\<close>

definition normal_fps :: "(string \<Rightarrow> string) \<Rightarrow> string list \<Rightarrow> string list" where
  "normal_fps f fps = sort_strings (map f fps)"

definition beat_row_of :: "('p, 'b, 'n) api_config \<Rightarrow> api_call \<Rightarrow> enrollment \<Rightarrow> hb_request \<Rightarrow> heartbeat" where
  "beat_row_of cfg k dev req =
     (let gen = (\<lambda>rs sha. case rs of None \<Rightarrow> 0 | Some s \<Rightarrow> rls_gen s sha) in
      \<lparr>hx_ip = en_ip dev, hx_device = en_device dev, hx_pilot_version = hq_pilot_version req, hx_nebula_version = hq_nebula_version req,
       hx_not_after = (case hq_not_after req of Some t \<Rightarrow> t | None \<Rightarrow> 0), hx_bundle = hq_bundle req, hx_blocklist = hq_blocklist req,
       hx_nebula = gen (cc_nebula_releases cfg) (hq_nebula_sha req), hx_pilot = gen (cc_pilot_releases cfg) (hq_pilot_sha req),
       hx_offset = hq_offset req, hx_health = hq_health req, hx_seen = ac_now k,
       hx_cas = normal_fps (\<lambda>s. ToLower (TrimSpace s)) (hq_cas req), hx_keys = normal_fps TrimSpace (hq_keys req)\<rparr>)"

text \<open>The insert with \<open>ON CONFLICT (overlay_ip)\<close>, which replaces every reported column.\<close>

definition upsert_beat :: "heartbeat \<Rightarrow> heartbeat list \<Rightarrow> heartbeat list" where
  "upsert_beat hb beats =
     (if list_ex (\<lambda>h. hx_ip h = hx_ip hb) beats then update_where (\<lambda>h. hx_ip h = hx_ip hb) (\<lambda>_. hb) beats else beats @ [hb])"

definition rollout_view :: "heartbeat list \<Rightarrow> ro_db \<Rightarrow> ro_db" where
  "rollout_view beats r =
     r\<lparr>rd_beats := map (\<lambda>h. \<lparr>hb_ip = hx_ip h, hb_bundle = hx_bundle h, hb_blocklist = hx_blocklist h, hb_nebula = hx_nebula h,
         hb_pilot = hx_pilot h, hb_health = hx_health h, hb_seen = hx_seen h\<rparr>) beats\<rparr>"

definition record_arch :: "api_call \<Rightarrow> enrollment \<Rightarrow> hb_request \<Rightarrow> ('b, 'n) api_state \<Rightarrow> ('b, 'n) api_state" where
  "record_arch k dev req w =
     (if hq_goos req = '''' \<or> (hq_goos req = en_goos dev \<and> hq_goarch req = en_goarch dev) then w
      else if ac_fails k SArch then api_audit (ac_fails k SArchAudit) (''system'', ''host-arch-update-error'', en_ip dev) w
      else w\<lparr>ap_core := (ap_core w)\<lparr>co_rows := update_where (\<lambda>e. en_id e = en_id dev) (\<lambda>e. e\<lparr>en_goos := hq_goos req, en_goarch := hq_goarch req\<rparr>) (co_rows (ap_core w))\<rparr>\<rparr>)"

definition drive_rollout :: "('p, 'b, 'n) api_config \<Rightarrow> api_call \<Rightarrow> enrollment \<Rightarrow> ('b, 'n) api_state \<Rightarrow> ('b, 'n) api_state" where
  "drive_rollout cfg k dev w =
     (if \<not> cc_rollout cfg then w
      else case Evaluate (ac_eval k) (ac_fails k SRolloutAudit) (ac_now k) (rollout_view (ap_beats w) (ap_rollout w)) of
        (Inl _, r) \<Rightarrow> api_audit (ac_fails k SEvalAudit) (''system'', ''rollout-eval-error'', en_ip dev) (w\<lparr>ap_rollout := r\<rparr>)
      | (Inr _, r) \<Rightarrow> w\<lparr>ap_rollout := r\<rparr>)"

definition handleHeartbeat :: "('p, 'b, 'n) api_config \<Rightarrow> api_call \<Rightarrow> string \<Rightarrow> bytes \<Rightarrow> ('b, 'n) api_state \<Rightarrow> (api_err + command list) \<times> ('b, 'n) api_state" where
  "handleHeartbeat cfg k ip body w =
     (case (case api_device (ac_fails k SDevice) ip (ap_core w) of Some dev \<Rightarrow> (Some dev, w) | None \<Rightarrow> trySelfHeal cfg k ip w) of
        (None, w) \<Rightarrow> (Inl ApNotAllowed, w)
      | (Some dev, w) \<Rightarrow>
          let w1 = reconcileAllocation cfg k dev w in
          if length body > maxBody then (Inl ApTooLarge, w1)
          else (case cc_unbeat cfg body of
              None \<Rightarrow> (Inl ApInvalid, w1)
            | Some req \<Rightarrow>
                if hq_type req \<noteq> ''heartbeat'' then (Inl ApInvalid, w1)
                else if ac_fails k SUpsert then (Inl ApInternal, w1)
                else
                  let hb = beat_row_of cfg k dev req;
                      w2 = drive_rollout cfg k dev (record_arch k dev req (w1\<lparr>ap_beats := upsert_beat hb (ap_beats w1)\<rparr>)) in
                  (case commandsFor cfg k dev (hq_bundle req) (hq_blocklist req) (hx_nebula hb) (hx_pilot hb) (hx_not_after hb) w2 of
                     (cmds, w3) \<Rightarrow> (Inr cmds, w3))))"

section \<open>Renewal\<close>

fun containsGroup :: "string list \<Rightarrow> string \<Rightarrow> bool" where
  "containsGroup [] g = False"
| "containsGroup (x # gs) g = (x = g \<or> containsGroup gs g)"

fun keep_reserved :: "string list \<Rightarrow> string list \<Rightarrow> string list \<Rightarrow> string list \<times> string list" where
  "keep_reserved [] result kept = (result, kept)"
| "keep_reserved (g # gs) result kept =
     (if IsReservedGroup g \<and> \<not> containsGroup result g then keep_reserved gs (result @ [g]) (kept @ [g]) else keep_reserved gs result kept)"

definition keepReservedGroups :: "string list \<Rightarrow> string list \<Rightarrow> string list \<times> string list" where
  "keepReservedGroups carried desired =
     (if \<not> GrantsReservedGroup carried then (desired, []) else keep_reserved carried desired [])"

definition groupsReduced :: "string list \<Rightarrow> string list \<Rightarrow> bool" where
  "groupsReduced old new = list_ex (\<lambda>o'. \<not> containsGroup new o') old"

text \<open>The gate: the calling device, refused when it is revoked or when that cannot be told.\<close>

definition renew_gate :: "('p, 'b, 'n) api_config \<Rightarrow> api_call \<Rightarrow> string \<Rightarrow> ('b, 'n) api_state \<Rightarrow> (api_err + enrollment) \<times> ('b, 'n) api_state" where
  "renew_gate cfg k ip w =
     (case api_device (ac_fails k SDevice) ip (ap_core w) of
        None \<Rightarrow> (Inl ApNotAllowed, w)
      | Some dev \<Rightarrow>
          (case api_revoked cfg (ac_fails k SRevoked) (ap_rev w) (en_fingerprint dev) of
             None \<Rightarrow> (Inl ApUnavailable, api_audit (ac_fails k SGateAudit) (''system'', ''renew-revocation-check-error'', en_ip dev) w)
           | Some True \<Rightarrow> (Inl ApRevoked, api_audit (ac_fails k SGateAudit) (''renew:'' @ en_device dev, ''renew-refused-revoked'', en_device dev) w)
           | Some False \<Rightarrow> (Inr dev, w)))"

text \<open>The request: a JWS over the new public key, signed by the new key.\<close>

definition renew_csr :: "('p, 'b, 'n) api_config \<Rightarrow> bytes \<Rightarrow> api_err + bytes" where
  "renew_csr cfg body =
     (if length body > maxBody then Inl ApTooLarge
      else case bc_unenv (cc_codec cfg) (map (\<lambda>b. char_of (unat b)) body) of
        None \<Rightarrow> Inl ApInvalid
      | Some env \<Rightarrow> (case DecodeString (fl_payload env) of
          None \<Rightarrow> Inl ApInvalid
        | Some pl \<Rightarrow> (case cc_unrenew cfg pl of
            None \<Rightarrow> Inl ApInvalid
          | Some req \<Rightarrow>
              if rq_type req \<noteq> ''renew'' \<or> rq_curve req \<noteq> ''P256'' then Inl ApInvalid
              else (case DecodeString (rq_pubkey req) of
                  None \<Rightarrow> Inl ApInvalid
                | Some pub \<Rightarrow>
                    if length pub \<noteq> 65 then Inl ApInvalid
                    else (case cc_point cfg pub of
                        None \<Rightarrow> Inl ApInvalid
                      | Some key \<Rightarrow>
                          (case jws_Verify (bc_unheader (cc_codec cfg)) (bc_sha (cc_codec cfg)) (bc_ecdsa (cc_codec cfg)) env (Some key) of
                             Inl _ \<Rightarrow> Inl ApSignature
                           | Inr (h, _) \<Rightarrow>
                               if hd_typ h \<noteq> TypRenewRequest \<or> hd_kid h \<noteq> PubkeyHash (bc_sha (cc_codec cfg)) pub then Inl ApSignature
                               else Inr pub))))))"

definition renew_template :: "('p, 'b, 'n) api_config \<Rightarrow> api_call \<Rightarrow> enrollment \<Rightarrow> addr \<Rightarrow> string list \<Rightarrow> bytes \<Rightarrow> template" where
  "renew_template cfg k dev overlay groups pub =
     (let nb = ac_now k - 5 * 60 * 10 ^ 9 in
      \<lparr>tm_name = en_device dev, tm_networks = [prefix_from overlay (pfx_bits (cc_pool cfg))], tm_groups = groups,
       tm_not_before = nb, tm_not_after = nb + cc_lifetime cfg, tm_pub = pub\<rparr>)"

fun audit_kept :: "api_call \<Rightarrow> enrollment \<Rightarrow> nat \<Rightarrow> string list \<Rightarrow> ('b, 'n) api_state \<Rightarrow> ('b, 'n) api_state" where
  "audit_kept k dev i [] w = w"
| "audit_kept k dev i (g # gs) w =
     audit_kept k dev (Suc i) gs (api_audit (ac_faults k SReservedAudit i) (''system'', ''renew-reserved-strip-refused'', en_device dev) w)"

text \<open>The write-backs once the new fingerprint is recorded: the signed groups under the generation guard, the heartbeat's expiry, the audit row.\<close>

definition old_expiry :: "api_call \<Rightarrow> enrollment \<Rightarrow> heartbeat list \<Rightarrow> time_ns" where
  "old_expiry k dev beats =
     (if ac_fails k SOldExpiry then 0 else case first_where (\<lambda>h. hx_ip h = en_ip dev) beats of None \<Rightarrow> 0 | Some h \<Rightarrow> hx_not_after h)"

definition written_back :: "enrollment \<Rightarrow> string list \<Rightarrow> bool \<Rightarrow> time_ns \<Rightarrow> enrollment \<Rightarrow> enrollment" where
  "written_back dev groups reduction old e =
     (let e = e\<lparr>en_groups := groups, en_issued_gen := en_gen dev\<rparr> in if reduction then e\<lparr>en_reduction := True, en_reduction_until := old\<rparr> else e)"

definition renew_writeback :: "api_call \<Rightarrow> enrollment \<Rightarrow> string list \<Rightarrow> bool \<Rightarrow> ('b, 'n) api_state \<Rightarrow> ('b, 'n) api_state" where
  "renew_writeback k dev groups reduction w =
     (if ac_fails k SWriteback then api_audit (ac_fails k SWritebackAudit) (''system'', ''renew-groups-writeback-error'', en_ip dev) w
      else w\<lparr>ap_core := (ap_core w)\<lparr>co_rows := update_where (\<lambda>e. en_id e = en_id dev \<and> en_issued_gen e < en_gen dev)
             (written_back dev groups reduction (old_expiry k dev (ap_beats w))) (co_rows (ap_core w))\<rparr>\<rparr>)"

definition renew_beat :: "api_call \<Rightarrow> enrollment \<Rightarrow> time_ns \<Rightarrow> ('b, 'n) api_state \<Rightarrow> ('b, 'n) api_state" where
  "renew_beat k dev notAfter w =
     (if ac_fails k SBeatExpiry then api_audit (ac_fails k SBeatAudit) (''system'', ''renew-heartbeat-cert-update-error'', en_ip dev) w
      else w\<lparr>ap_beats := update_where (\<lambda>h. hx_ip h = en_ip dev) (\<lambda>h. h\<lparr>hx_not_after := notAfter\<rparr>) (ap_beats w)\<rparr>)"

definition record_fingerprint :: "enrollment \<Rightarrow> string \<Rightarrow> string \<Rightarrow> ('b, 'n) api_state \<Rightarrow> ('b, 'n) api_state" where
  "record_fingerprint dev fp ca w =
     w\<lparr>ap_core := (ap_core w)\<lparr>co_rows := update_where (\<lambda>e. en_id e = en_id dev) (\<lambda>e. e\<lparr>en_fingerprint := fp, en_ca_fingerprint := ca\<rparr>) (co_rows (ap_core w))\<rparr>\<rparr>"

definition renew_issue :: "('p, 'b, 'n) api_config \<Rightarrow> api_call \<Rightarrow> enrollment \<Rightarrow> bytes \<Rightarrow> ('b, 'n) api_state \<Rightarrow> (api_err + string) \<times> ('b, 'n) api_state" where
  "renew_issue cfg k dev pub w =
     (case keepReservedGroups (en_groups dev) (en_desired dev) of
        (groups, kept) \<Rightarrow>
          let w1 = audit_kept k dev 0 kept w; reduction = groupsReduced (en_groups dev) groups in
          (case ParseAddr (en_ip dev) of
             None \<Rightarrow> (Inl ApInternal, w1)
           | Some overlay \<Rightarrow>
               let t = renew_template cfg k dev overlay groups pub in
               (case Issue (cc_lib cfg) (bc_sha (cc_codec cfg)) (cc_acquire cfg) (cc_limit cfg) (ac_faults k SSign) (''renew:'' @ en_device dev) t (co_signer (ap_core w1)) of
                  (Inl _, s) \<Rightarrow> (Inl ApInternal, w1\<lparr>ap_core := (ap_core w1)\<lparr>co_signer := s\<rparr>\<rparr>)
                | (Inr (crt, pem), s) \<Rightarrow>
                    let w2 = w1\<lparr>ap_core := (ap_core w1)\<lparr>co_signer := s\<rparr>\<rparr> in
                    (case api_signBundle cfg (assembleBundle cfg k dev groups pem (tm_not_after t) w2) of
                       None \<Rightarrow> (Inl ApInternal, w2)
                     | Some jws \<Rightarrow>
                         if ac_fails k SBookkeeping then (Inl ApInternal, w2)
                         else
                           let w3 = record_fingerprint dev (nl_fingerprint (cc_lib cfg) crt) (ToLower (TrimSpace (ct_issuer crt))) w2;
                               w4 = renew_beat k dev (tm_not_after t) (renew_writeback k dev groups reduction w3) in
                           (Inr jws, api_audit (ac_fails k SRenewAudit) (''renew:'' @ en_device dev, ''cert-renewed'', en_device dev) w4)))))"

definition handleRenew :: "('p, 'b, 'n) api_config \<Rightarrow> api_call \<Rightarrow> string \<Rightarrow> bytes \<Rightarrow> ('b, 'n) api_state \<Rightarrow> (api_err + string) \<times> ('b, 'n) api_state" where
  "handleRenew cfg k ip body w =
     (case renew_gate cfg k ip w of
        (Inl e, w1) \<Rightarrow> (Inl e, w1)
      | (Inr dev, w1) \<Rightarrow> (case renew_csr cfg body of Inl e \<Rightarrow> (Inl e, w1) | Inr pub \<Rightarrow> renew_issue cfg k dev pub w1))"

section \<open>The configuration refresh\<close>

definition handleConfig :: "('p, 'b, 'n) api_config \<Rightarrow> api_call \<Rightarrow> string \<Rightarrow> ('b, 'n) api_state \<Rightarrow> api_err + string" where
  "handleConfig cfg k ip w =
     (case api_device (ac_fails k SDevice) ip (ap_core w) of
        None \<Rightarrow> Inl ApNotAllowed
      | Some dev \<Rightarrow>
          if en_cert dev = '''' then Inl ApInternal
          else let notAfter = (case nl_parse (cc_lib cfg) (en_cert dev) of Some c \<Rightarrow> ct_not_after c | None \<Rightarrow> ac_now k + cc_lifetime cfg) in
            (case api_signBundle cfg (assembleBundle cfg k dev (en_groups dev) (en_cert dev) notAfter w) of
               None \<Rightarrow> Inl ApInternal
             | Some jws \<Rightarrow> Inr jws))"

end
