(* ===== verification/Api_Proofs.thy ===== *)
theory Api_Proofs
  imports Coreapi
begin

text \<open>
  Properties of Core's mesh API (\<open>Coreapi\<close>): a revoked host stays locked out across any sequence of calls, a renewal keeps the
  identity and records what it delivers, and the accelerated drain admits every host on schedule.
\<close>

section \<open>The calling device\<close>

lemma first_where_map:
  assumes "\<And>r. r \<in> set rows \<Longrightarrow> P (g r) = P r"
  shows "first_where P (rev (map g rows)) = map_option g (first_where P (rev rows))"
proof -
  have "first_where P (map g xs) = map_option g (first_where P xs)" if "set xs \<subseteq> set rows" for xs
    using that assms by (induction xs) auto
  then show ?thesis unfolding rev_map by simp
qed

lemma api_device_Some:
  "api_device fails ip c = Some dev \<Longrightarrow> \<not> fails \<and> dev \<in> set (co_rows c) \<and> en_ip dev = ip \<and> en_status dev = StatusIssued"
  by (auto simp: api_device_def split: if_splits dest: first_where_SomeD)

lemma api_audit_sel [simp]:
  "co_rows (ap_core (api_audit fails r w)) = co_rows (ap_core w)" "co_signer (ap_core (api_audit fails r w)) = co_signer (ap_core w)"
  "ap_beats (api_audit fails r w) = ap_beats w" "ap_rev (api_audit fails r w) = ap_rev w" "ap_rollout (api_audit fails r w) = ap_rollout w"
  "co_ipam (ap_core (api_audit fails r w)) = co_ipam (ap_core w)"
  by (simp_all add: api_audit_def en_audit_def)

text \<open>
  A change of the enrolment rows that keeps ids, addresses and states, and the fingerprint of every row at \<open>ip\<close>.
\<close>

definition benign :: "string \<Rightarrow> enrollment list \<Rightarrow> enrollment list \<Rightarrow> bool" where
  "benign ip rows rows' \<longleftrightarrow> (\<exists>g. rows' = map g rows \<and> (\<forall>r\<in>set rows. en_id (g r) = en_id r \<and> en_ip (g r) = en_ip r \<and>
     en_status (g r) = en_status r \<and> (en_ip r = ip \<longrightarrow> en_fingerprint (g r) = en_fingerprint r)))"

lemma benign_refl [simp]: "benign ip rows rows"
  unfolding benign_def by (rule exI [of _ "\<lambda>r. r"]) simp

lemma benign_trans:
  assumes "benign ip rows1 rows2" "benign ip rows2 rows3"
  shows "benign ip rows1 rows3"
proof -
  obtain g where g: "rows2 = map g rows1" "\<forall>r\<in>set rows1. en_id (g r) = en_id r \<and> en_ip (g r) = en_ip r \<and>
     en_status (g r) = en_status r \<and> (en_ip r = ip \<longrightarrow> en_fingerprint (g r) = en_fingerprint r)"
    using assms(1) by (auto simp: benign_def)
  obtain h where h: "rows3 = map h rows2" "\<forall>r\<in>set rows2. en_id (h r) = en_id r \<and> en_ip (h r) = en_ip r \<and>
     en_status (h r) = en_status r \<and> (en_ip r = ip \<longrightarrow> en_fingerprint (h r) = en_fingerprint r)"
    using assms(2) by (auto simp: benign_def)
  show ?thesis unfolding benign_def using g h by (intro exI [of _ "h \<circ> g"]) auto
qed

lemma benign_update:
  assumes "\<And>r. r \<in> set rows \<Longrightarrow> Q r \<Longrightarrow> en_id (f r) = en_id r \<and> en_ip (f r) = en_ip r \<and> en_status (f r) = en_status r \<and>
    (en_ip r = ip \<longrightarrow> en_fingerprint (f r) = en_fingerprint r)"
  shows "benign ip rows (update_where Q f rows)"
  unfolding benign_def update_where_def using assms by (intro exI [of _ "\<lambda>r. if Q r then f r else r"]) auto

definition rows_ok :: "enrollment list \<Rightarrow> bool" where
  "rows_ok rows \<longleftrightarrow> distinct (map en_id rows) \<and> (\<forall>e\<in>set rows. en_status e \<noteq> StatusIssued \<longrightarrow> en_ip e = [])"

lemma benign_keeps:
  assumes "benign ip (co_rows c) (co_rows c')" "rows_ok (co_rows c)"
  shows "rows_ok (co_rows c')"
    "api_device False ip c = Some dev \<Longrightarrow> \<exists>dev'. api_device False ip c' = Some dev' \<and> en_fingerprint dev' = en_fingerprint dev"
proof -
  obtain g where g: "co_rows c' = map g (co_rows c)" "\<forall>r\<in>set (co_rows c). en_id (g r) = en_id r \<and> en_ip (g r) = en_ip r \<and>
     en_status (g r) = en_status r \<and> (en_ip r = ip \<longrightarrow> en_fingerprint (g r) = en_fingerprint r)"
    using assms(1) by (auto simp: benign_def)
  have "map en_id (co_rows c') = map en_id (co_rows c)" using g by simp
  then have "distinct (map en_id (co_rows c'))" using assms(2) by (simp add: rows_ok_def)
  moreover have "\<forall>e\<in>set (co_rows c'). en_status e \<noteq> StatusIssued \<longrightarrow> en_ip e = []" using assms(2) g by (auto simp: rows_ok_def)
  ultimately show "rows_ok (co_rows c')" by (simp add: rows_ok_def)
  assume dev: "api_device False ip c = Some dev"
  have "api_device False ip c' = map_option g (api_device False ip c)"
    unfolding api_device_def g(1) using g(2) by (simp add: first_where_map)
  then show "\<exists>dev'. api_device False ip c' = Some dev' \<and> en_fingerprint dev' = en_fingerprint dev"
    using dev api_device_Some [OF dev] g(2) by auto
qed

section \<open>Heartbeats change no identity\<close>

lemma heal_address_sel:
  "co_rows (ap_core (snd (heal_address cfg k al ip e a w))) = co_rows (ap_core w)" "ap_rev (snd (heal_address cfg k al ip e a w)) = ap_rev w"
  by (auto simp: heal_address_def Let_def split: prod.splits option.splits)

lemma heal_rows_benign:
  assumes "rows_ok (co_rows (ap_core w))" "e \<in> set (co_rows (ap_core w))" "en_ip e \<noteq> []"
  shows "co_rows (ap_core (heal_rows k ip e w)) = co_rows (ap_core w)" "ap_rev (heal_rows k ip e w) = ap_rev w"
  using assms by (auto simp: heal_rows_def Let_def rows_ok_def)

lemma ParseAddr_Nil [simp]: "ParseAddr [] = None"
  by (simp add: ParseAddr_def)

lemma heal_benign:
  assumes "rows_ok (co_rows (ap_core w))"
  shows "co_rows (ap_core (snd (trySelfHeal cfg k ip w))) = co_rows (ap_core w) \<and> ap_rev (snd (trySelfHeal cfg k ip w)) = ap_rev w"
proof (cases "\<exists>al e a. cc_revocation cfg \<and> cc_alloc cfg = Some al \<and> \<not> ac_fails k SHealRead \<and>
    first_where (\<lambda>e. en_ip e = ip) (rev (co_rows (ap_core w))) = Some e \<and> heal_guard cfg k ip e w = Some a")
  case True
  then obtain al e a where c: "cc_revocation cfg" "cc_alloc cfg = Some al" "\<not> ac_fails k SHealRead"
    "first_where (\<lambda>e. en_ip e = ip) (rev (co_rows (ap_core w))) = Some e" "heal_guard cfg k ip e w = Some a" by blast
  obtain ok w1 where h: "heal_address cfg k al ip e a w = (ok, w1)" by fastforce
  have w1: "co_rows (ap_core w1) = co_rows (ap_core w)" "ap_rev w1 = ap_rev w"
    using heal_address_sel [of cfg k al ip e a w] h by simp_all
  have "ip \<noteq> []" using c(5) by (auto simp: heal_guard_def split: option.splits if_splits)
  then have e: "e \<in> set (co_rows (ap_core w1))" "en_ip e \<noteq> []" using first_where_SomeD [OF c(4)] w1 by auto
  show ?thesis using c h w1 heal_rows_benign [OF _ e] assms
    by (cases ok) (simp_all add: trySelfHeal_def Let_def)
qed (auto simp: trySelfHeal_def split: option.splits if_splits)

lemma reconcile_sel [simp]:
  "co_rows (ap_core (reconcileAllocation cfg k dev w)) = co_rows (ap_core w)" "ap_rev (reconcileAllocation cfg k dev w) = ap_rev w"
  by (auto simp: reconcileAllocation_def split: option.splits prod.splits)

lemma record_arch_benign: "benign ip (co_rows (ap_core w)) (co_rows (ap_core (record_arch k dev req w)))" "ap_rev (record_arch k dev req w) = ap_rev w"
  by (auto simp: record_arch_def intro!: benign_update)

lemma drive_rollout_sel [simp]:
  "co_rows (ap_core (drive_rollout cfg k dev w)) = co_rows (ap_core w)" "ap_rev (drive_rollout cfg k dev w) = ap_rev w"
  by (auto simp: drive_rollout_def split: prod.splits sum.splits)

lemma lane_command_sel:
  "co_rows (ap_core (snd (lane_command cfg k dev a b c d w))) = co_rows (ap_core w)" "ap_rev (snd (lane_command cfg k dev a b c d w)) = ap_rev w"
  by (auto simp: lane_command_def Let_def split: prod.splits option.splits)

lemma commandsFor_sel:
  "co_rows (ap_core (snd (commandsFor cfg k dev a b c d t w))) = co_rows (ap_core w)" "ap_rev (snd (commandsFor cfg k dev a b c d t w)) = ap_rev w"
  using lane_command_sel [of cfg k dev a b c d w] by (auto simp: commandsFor_def Let_def split: prod.splits option.splits)

lemma heartbeat_benign:
  assumes "rows_ok (co_rows (ap_core w))" "handleHeartbeat cfg k ip' body w = (res, w')"
  shows "benign ip (co_rows (ap_core w)) (co_rows (ap_core w')) \<and> ap_rev w' = ap_rev w"
proof -
  obtain od w0 where d: "(case api_device (ac_fails k SDevice) ip' (ap_core w) of Some dev \<Rightarrow> (Some dev, w) | None \<Rightarrow> trySelfHeal cfg k ip' w) = (od, w0)"
    by fastforce
  have w0: "co_rows (ap_core w0) = co_rows (ap_core w)" "ap_rev w0 = ap_rev w"
    using d heal_benign [OF assms(1), of cfg k ip'] by (auto split: option.splits)
  show ?thesis
  proof (cases od)
    case None
    then show ?thesis using assms(2) d w0 by (simp add: handleHeartbeat_def)
  next
    case (Some dev)
    let ?w1 = "reconcileAllocation cfg k dev w0"
    consider "w' = ?w1" | req where "w' = snd (commandsFor cfg k dev (hq_bundle req) (hq_blocklist req) (hx_nebula (beat_row_of cfg k dev req))
        (hx_pilot (beat_row_of cfg k dev req)) (hx_not_after (beat_row_of cfg k dev req))
        (drive_rollout cfg k dev (record_arch k dev req (?w1\<lparr>ap_beats := upsert_beat (beat_row_of cfg k dev req) (ap_beats ?w1)\<rparr>))))"
      using assms(2) unfolding handleHeartbeat_def d Some Let_def prod.case option.case
      by (auto simp: case_prod_beta split: if_splits option.splits)
    then show ?thesis
    proof cases
      case (2 req)
      then show ?thesis
        using w0 record_arch_benign(1) [of ip "?w1\<lparr>ap_beats := upsert_beat (beat_row_of cfg k dev req) (ap_beats ?w1)\<rparr>" k dev req]
        by (simp add: commandsFor_sel record_arch_benign(2))
    qed (simp add: w0)
  qed
qed

section \<open>Renewals\<close>

lemma audit_kept_sel [simp]:
  "co_rows (ap_core (audit_kept k dev i gs w)) = co_rows (ap_core w)" "co_signer (ap_core (audit_kept k dev i gs w)) = co_signer (ap_core w)"
  "ap_rev (audit_kept k dev i gs w) = ap_rev w" "ap_beats (audit_kept k dev i gs w) = ap_beats w" "ap_rollout (audit_kept k dev i gs w) = ap_rollout w"
  by (induction gs arbitrary: i w) auto

lemma renew_gate_sel [simp]:
  "co_rows (ap_core (snd (renew_gate cfg k ip w))) = co_rows (ap_core w)" "co_signer (ap_core (snd (renew_gate cfg k ip w))) = co_signer (ap_core w)"
  "ap_rev (snd (renew_gate cfg k ip w)) = ap_rev w"
  by (auto simp: renew_gate_def split: option.splits bool.splits)

lemma renew_beat_sel [simp]:
  "co_rows (ap_core (renew_beat k dev t w)) = co_rows (ap_core w)" "ap_rev (renew_beat k dev t w) = ap_rev w"
  "co_signer (ap_core (renew_beat k dev t w)) = co_signer (ap_core w)"
  by (auto simp: renew_beat_def)

lemma writeback_rows:
  "co_rows (ap_core (renew_writeback k dev groups reduction w)) =
     (if ac_fails k SWriteback then co_rows (ap_core w)
      else update_where (\<lambda>e. en_id e = en_id dev \<and> en_issued_gen e < en_gen dev) (written_back dev groups reduction (old_expiry k dev (ap_beats w)))
        (co_rows (ap_core w)))"
  "ap_rev (renew_writeback k dev groups reduction w) = ap_rev w"
  by (simp_all add: renew_writeback_def)

lemma writeback_benign: "benign ip (co_rows (ap_core w)) (co_rows (ap_core (renew_writeback k dev groups reduction w)))"
  unfolding writeback_rows by (auto intro!: benign_update simp: written_back_def Let_def)

text \<open>The two ways a call that passed the gate can end.\<close>

lemma renew_issue_cases:
  assumes "renew_issue cfg k dev pub w = (res, w')"
  obtains (refused) e where "res = Inl e" "co_rows (ap_core w') = co_rows (ap_core w)" "ap_rev w' = ap_rev w"
  | (renewed) jws groups kept overlay crt pem s w2 where "res = Inr jws" "keepReservedGroups (en_groups dev) (en_desired dev) = (groups, kept)"
      "ParseAddr (en_ip dev) = Some overlay"
      "Issue (cc_lib cfg) (bc_sha (cc_codec cfg)) (cc_acquire cfg) (cc_limit cfg) (ac_faults k SSign) (''renew:'' @ en_device dev)
         (renew_template cfg k dev overlay groups pub) (co_signer (ap_core w)) = (Inr (crt, pem), s)"
      "api_signBundle cfg (assembleBundle cfg k dev groups pem (tm_not_after (renew_template cfg k dev overlay groups pub)) w2) = Some jws"
      "co_rows (ap_core w') = co_rows (ap_core (renew_writeback k dev groups (groupsReduced (en_groups dev) groups)
         (record_fingerprint dev (nl_fingerprint (cc_lib cfg) crt) (ToLower (TrimSpace (ct_issuer crt))) w2)))"
      "co_rows (ap_core w2) = co_rows (ap_core w)" "ap_rev w' = ap_rev w"
proof (cases "keepReservedGroups (en_groups dev) (en_desired dev)")
  case (Pair groups kept)
  note eq = assms [unfolded renew_issue_def Pair prod.case Let_def]
  show ?thesis
  proof (cases "ParseAddr (en_ip dev)")
    case None
    then show ?thesis using eq refused by auto
  next
    case (Some overlay)
    let ?t = "renew_template cfg k dev overlay groups pub"
    obtain r s where i: "Issue (cc_lib cfg) (bc_sha (cc_codec cfg)) (cc_acquire cfg) (cc_limit cfg) (ac_faults k SSign) (''renew:'' @ en_device dev) ?t
       (co_signer (ap_core w)) = (r, s)" by fastforce
    define w2 where "w2 = (audit_kept k dev 0 kept w)\<lparr>ap_core := (ap_core (audit_kept k dev 0 kept w))\<lparr>co_signer := s\<rparr>\<rparr>"
    have w2: "co_rows (ap_core w2) = co_rows (ap_core w)" "ap_rev w2 = ap_rev w" by (simp_all add: w2_def)
    show ?thesis
    proof (cases r)
      case (Inl e)
      then have "(Inl ApInternal, w2) = (res, w')" using eq Some i by (simp add: w2_def)
      then show ?thesis using refused w2 by auto
    next
      case (Inr c)
      obtain crt pem where c: "c = (crt, pem)" by fastforce
      let ?b = "api_signBundle cfg (assembleBundle cfg k dev groups pem (tm_not_after ?t) w2)"
      show ?thesis
      proof (cases "ac_fails k SBookkeeping \<or> ?b = None")
        case True
        then have "(Inl ApInternal, w2) = (res, w')" using eq Some i Inr c by (auto simp: w2_def split: option.splits)
        then show ?thesis using refused w2 by auto
      next
        case False
        then obtain jws where jws: "?b = Some jws" by auto
        let ?w3 = "record_fingerprint dev (nl_fingerprint (cc_lib cfg) crt) (ToLower (TrimSpace (ct_issuer crt))) w2"
        have "(Inr jws, api_audit (ac_fails k SRenewAudit) (''renew:'' @ en_device dev, ''cert-renewed'', en_device dev)
           (renew_beat k dev (tm_not_after ?t) (renew_writeback k dev groups (groupsReduced (en_groups dev) groups) ?w3))) = (res, w')"
          using eq Some i Inr c False jws by (simp add: w2_def)
        then have "res = Inr jws" "co_rows (ap_core w') = co_rows (ap_core (renew_writeback k dev groups (groupsReduced (en_groups dev) groups) ?w3))"
          "ap_rev w' = ap_rev w" by (auto simp: writeback_rows(2) record_fingerprint_def w2)
        then show ?thesis using renewed [OF _ Pair Some i [unfolded Inr c] jws] w2 by simp
      qed
    qed
  qed
qed

text \<open>A renewal from another address changes no row at \<open>ip\<close>.\<close>

lemma renew_benign:
  assumes "rows_ok (co_rows (ap_core w))" "handleRenew cfg k ip' body w = (res, w')" "ip' \<noteq> ip \<or> res = Inl e \<and> fst (renew_gate cfg k ip' w) = Inl e"
  shows "benign ip (co_rows (ap_core w)) (co_rows (ap_core w')) \<and> ap_rev w' = ap_rev w"
proof -
  obtain g w1 where gate: "renew_gate cfg k ip' w = (g, w1)" by fastforce
  have w1: "co_rows (ap_core w1) = co_rows (ap_core w)" "ap_rev w1 = ap_rev w"
    using renew_gate_sel [of cfg k ip' w] gate by simp_all
  show ?thesis
  proof (cases g)
    case (Inl e)
    then show ?thesis using assms(2) gate w1 by (simp add: handleRenew_def)
  next
    case (Inr dev)
    then have ne: "ip' \<noteq> ip" using assms(3) gate by auto
    have dev: "dev \<in> set (co_rows (ap_core w))" "en_ip dev = ip'"
      using gate Inr api_device_Some [of "ac_fails k SDevice" ip' "ap_core w" dev] by (auto simp: renew_gate_def split: option.splits bool.splits)
    show ?thesis
    proof (cases "renew_csr cfg body")
      case (Inl e)
      then show ?thesis using assms(2) gate Inr w1 by (simp add: handleRenew_def)
    next
      case (Inr pub)
      then have "renew_issue cfg k dev pub w1 = (res, w')" using assms(2) gate \<open>g = Inr dev\<close> by (simp add: handleRenew_def)
      then show ?thesis
      proof (cases rule: renew_issue_cases)
        case (renewed jws groups kept overlay crt pem s w2)
        let ?w3 = "record_fingerprint dev (nl_fingerprint (cc_lib cfg) crt) (ToLower (TrimSpace (ct_issuer crt))) w2"
        have "en_ip r \<noteq> ip" if "r \<in> set (co_rows (ap_core w))" "en_id r = en_id dev" for r
          using distinct_map_inj [of en_id "co_rows (ap_core w)" r dev] that dev ne assms(1) by (auto simp: rows_ok_def)
        then have "benign ip (co_rows (ap_core w2)) (co_rows (ap_core ?w3))"
          using renewed(7) w1 by (auto simp: record_fingerprint_def intro!: benign_update)
        then have "benign ip (co_rows (ap_core w2)) (co_rows (ap_core w'))"
          unfolding renewed(6) by (rule benign_trans [OF _ writeback_benign])
        then show ?thesis using renewed(7,8) w1 by simp
      qed (use w1 in simp)
    qed
  qed
qed

section \<open>A revoked host stays out\<close>

lemma revoked_gate:
  assumes "cc_revocation cfg" "api_device False ip (ap_core w) = Some dev" "en_fingerprint dev \<noteq> []" "en_fingerprint dev \<in> active_fps (ap_rev w)"
  shows "\<exists>e. fst (renew_gate cfg k ip w) = Inl e"
proof (cases "ac_fails k SDevice")
  case True
  then show ?thesis by (simp add: renew_gate_def api_device_def)
next
  case False
  then have "api_device (ac_fails k SDevice) ip (ap_core w) = Some dev" using assms(2) by simp
  moreover have "api_revoked cfg f (ap_rev w) (en_fingerprint dev) \<noteq> Some False" for f
    using assms(1,3,4) by (auto simp: api_revoked_def ActiveFingerprints_def active_fps_def)
  ultimately show ?thesis by (auto simp: renew_gate_def split: option.splits bool.splits)
qed

inductive api_step :: "('p, 'b, 'n) api_config \<Rightarrow> ('b, 'n) api_state \<Rightarrow> ('b, 'n) api_state \<Rightarrow> bool" for cfg where
  api_heartbeat: "handleHeartbeat cfg k ip body w = (res, w') \<Longrightarrow> api_step cfg w w'"
| api_renew: "handleRenew cfg k ip body w = (res', w') \<Longrightarrow> api_step cfg w w'"

definition locked_out :: "string \<Rightarrow> string \<Rightarrow> ('b, 'n) api_state \<Rightarrow> bool" where
  "locked_out ip fp w \<longleftrightarrow> rows_ok (co_rows (ap_core w)) \<and> fp \<in> active_fps (ap_rev w) \<and>
     (\<exists>dev. api_device False ip (ap_core w) = Some dev \<and> en_fingerprint dev = fp)"

lemma locked_out_step:
  assumes "api_step cfg w w'" "locked_out ip fp w" "cc_revocation cfg" "fp \<noteq> []"
  shows "locked_out ip fp w'"
proof -
  obtain dev where dev: "api_device False ip (ap_core w) = Some dev" "en_fingerprint dev = fp" and ok: "rows_ok (co_rows (ap_core w))"
    and act: "fp \<in> active_fps (ap_rev w)" using assms(2) by (auto simp: locked_out_def)
  have "benign ip (co_rows (ap_core w)) (co_rows (ap_core w')) \<and> ap_rev w' = ap_rev w"
    using assms(1)
  proof cases
    case (api_heartbeat k ip' body res)
    then show ?thesis using heartbeat_benign [OF ok] by blast
  next
    case (api_renew k ip' body res)
    show ?thesis
    proof (cases "ip' = ip")
      case True
      then obtain e where "fst (renew_gate cfg k ip' w) = Inl e" using revoked_gate [OF assms(3) dev(1)] dev(2) assms(4) act by blast
      moreover from this have "res = Inl e" using api_renew by (auto simp: handleRenew_def split: prod.splits)
      ultimately show ?thesis using renew_benign [OF ok api_renew] by blast
    next
      case False
      then show ?thesis using renew_benign [OF ok api_renew] by blast
    qed
  qed
  then show ?thesis using benign_keeps [of ip "ap_core w" "ap_core w'"] ok dev act unfolding locked_out_def by metis
qed

text \<open>
  C14: A revoked host cannot renew itself back to life.  Once the fingerprint of the host at an address is on the
  blocklist, then after any sequence of heartbeats and renewals by any hosts, with any statements failing, every renewal
  from that address is refused, whether or not the blocklist can be read: the signing key is not reached, no
  enrolment row changes, and the row still carries the blocked fingerprint.
\<close>

theorem revoked_host_stays_out:
  assumes "cc_revocation cfg" "rows_ok (co_rows (ap_core w))" "api_device False ip (ap_core w) = Some dev"
    and "en_fingerprint dev \<noteq> []" "en_fingerprint dev \<in> active_fps (ap_rev w)" "(api_step cfg)\<^sup>*\<^sup>* w w'"
  shows "\<exists>e w2. handleRenew cfg k ip body w' = (Inl e, w2) \<and> co_signer (ap_core w2) = co_signer (ap_core w') \<and>
    co_rows (ap_core w2) = co_rows (ap_core w') \<and> (\<exists>dev'. api_device False ip (ap_core w2) = Some dev' \<and> en_fingerprint dev' = en_fingerprint dev)"
proof -
  have "locked_out ip (en_fingerprint dev) w" using assms by (auto simp: locked_out_def)
  with assms(6) have "locked_out ip (en_fingerprint dev) w'"
    by (induction rule: rtranclp_induct) (use locked_out_step assms(1,4) in blast)+
  then obtain dev' where d: "api_device False ip (ap_core w') = Some dev'" "en_fingerprint dev' = en_fingerprint dev" "en_fingerprint dev \<in> active_fps (ap_rev w')"
    by (auto simp: locked_out_def)
  obtain e where e: "fst (renew_gate cfg k ip w') = Inl e" using revoked_gate [OF assms(1) d(1)] d assms(4) by auto
  let ?w2 = "snd (renew_gate cfg k ip w')"
  have "handleRenew cfg k ip body w' = (Inl e, ?w2)" using e by (cases "renew_gate cfg k ip w'") (simp add: handleRenew_def)
  moreover have "api_device False ip (ap_core ?w2) = api_device False ip (ap_core w')" by (simp add: api_device_def)
  ultimately show ?thesis using d by simp
qed

section \<open>What a renewal delivers\<close>

lemma containsGroup_iff [simp]: "containsGroup gs g \<longleftrightarrow> g \<in> set gs"
  by (induction gs) auto

lemma keep_reserved_set: "set (fst (keep_reserved gs result kept)) = set result \<union> {g \<in> set gs. IsReservedGroup g}"
  by (induction gs result kept rule: keep_reserved.induct) auto

lemma keepReservedGroups_set:
  "keepReservedGroups carried desired = (groups, kept) \<Longrightarrow> set groups = set desired \<union> {g \<in> set carried. IsReservedGroup g}"
  using keep_reserved_set [of carried desired "[]"]
  by (auto simp: keepReservedGroups_def GrantsReservedGroup_def list_ex_iff split: if_splits)

lemma recorded_device:
  assumes "api_device False ip c = Some dev" "distinct (map en_id (co_rows c))"
    and "co_rows c' = update_where (\<lambda>e. en_id e = en_id dev \<and> Q e) f (co_rows c)" "\<And>e. en_ip (f e) = en_ip e \<and> en_status (f e) = en_status e"
  shows "api_device False ip c' = Some (if Q dev then f dev else dev)"
    "\<forall>e\<in>set (co_rows c). en_id e \<noteq> en_id dev \<longrightarrow> e \<in> set (co_rows c')"
proof -
  have "api_device False ip c' = map_option (\<lambda>e. if en_id e = en_id dev \<and> Q e then f e else e) (api_device False ip c)"
    unfolding api_device_def assms(3) update_where_def using assms(4) by (simp add: first_where_map)
  then show "api_device False ip c' = Some (if Q dev then f dev else dev)" using assms(1) by simp
  show "\<forall>e\<in>set (co_rows c). en_id e \<noteq> en_id dev \<longrightarrow> e \<in> set (co_rows c')"
    using assms(3) by (auto simp: set_update_where)
qed

lemma renewed_row:
  assumes "api_device False ip (ap_core w) = Some dev" "distinct (map en_id (co_rows (ap_core w)))" "co_rows (ap_core w2) = co_rows (ap_core w)"
    and "co_rows (ap_core w') = co_rows (ap_core (renew_writeback k dev groups reduction (record_fingerprint dev fp ca w2)))"
  shows "\<exists>dev'. api_device False ip (ap_core w') = Some dev' \<and> en_id dev' = en_id dev \<and> en_fingerprint dev' = fp \<and>
    en_issued_gen dev \<le> en_issued_gen dev' \<and> (\<forall>e\<in>set (co_rows (ap_core w)). en_id e \<noteq> en_id dev \<longrightarrow> e \<in> set (co_rows (ap_core w')))"
proof -
  let ?f = "\<lambda>e. e\<lparr>en_fingerprint := fp, en_ca_fingerprint := ca\<rparr>" and ?w3 = "record_fingerprint dev fp ca w2"
  have r3: "co_rows (ap_core ?w3) = update_where (\<lambda>e. en_id e = en_id dev \<and> True) ?f (co_rows (ap_core w))"
    using assms(3) by (simp add: record_fingerprint_def)
  have d3: "api_device False ip (ap_core ?w3) = Some (?f dev)"
    and keep3: "\<forall>e\<in>set (co_rows (ap_core w)). en_id e \<noteq> en_id dev \<longrightarrow> e \<in> set (co_rows (ap_core ?w3))"
    using recorded_device [OF assms(1,2) r3] by simp_all
  have ids: "distinct (map en_id (co_rows (ap_core ?w3)))" using assms(2) r3 by (simp add: map_key_update_where)
  let ?g = "written_back dev groups reduction (old_expiry k dev (ap_beats ?w3))"
  show ?thesis
  proof (cases "ac_fails k SWriteback")
    case True
    then have "co_rows (ap_core w') = co_rows (ap_core ?w3)" using assms(4) by (simp add: writeback_rows)
    then show ?thesis using d3 keep3 by (simp add: api_device_def)
  next
    case False
    then have r: "co_rows (ap_core w') = update_where (\<lambda>e. en_id e = en_id (?f dev) \<and> en_issued_gen e < en_gen dev) ?g (co_rows (ap_core ?w3))"
      using assms(4) by (simp add: writeback_rows)
    show ?thesis using recorded_device [OF d3 ids r] keep3 by (auto simp: written_back_def Let_def)
  qed
qed

text \<open>
  Proof of possession of the key \<open>pub\<close> by the request \<open>body\<close>: it is a JWS for a renewal whose payload names the key, whose header names the
  key's hash, and whose ECDSA signature over header and payload verifies under that key itself.
\<close>

definition possession_proved :: "('p, 'b, 'n) api_config \<Rightarrow> bytes \<Rightarrow> bytes \<Rightarrow> bool" where
  "possession_proved cfg body pub \<longleftrightarrow> (\<exists>env hb h pl req key sig.
     bc_unenv (cc_codec cfg) (map (\<lambda>b. char_of (unat b)) body) = Some env \<and>
     DecodeString (fl_payload env) = Some pl \<and> cc_unrenew cfg pl = Some req \<and> rq_type req = ''renew'' \<and> rq_curve req = ''P256'' \<and>
     DecodeString (rq_pubkey req) = Some pub \<and> length pub = 65 \<and> cc_point cfg pub = Some key \<and>
     DecodeString (fl_protected env) = Some hb \<and> bc_unheader (cc_codec cfg) hb = Some h \<and> hd_alg h = ''ES256'' \<and>
     hd_typ h = TypRenewRequest \<and> hd_kid h = PubkeyHash (bc_sha (cc_codec cfg)) pub \<and>
     DecodeString (fl_signature env) = Some sig \<and>
     bc_ecdsa (cc_codec cfg) key (bc_sha (cc_codec cfg) (signing_input (fl_protected env) (fl_payload env))) sig)"

lemma renew_csr_possession:
  assumes "renew_csr cfg body = Inr pub"
  shows "possession_proved cfg body pub"
proof -
  let ?cd = "cc_codec cfg"
  obtain env pl req key h pl' where e: "bc_unenv ?cd (map (\<lambda>b. char_of (unat b)) body) = Some env" "DecodeString (fl_payload env) = Some pl"
    "cc_unrenew cfg pl = Some req" "rq_type req = ''renew''" "rq_curve req = ''P256''" "DecodeString (rq_pubkey req) = Some pub" "length pub = 65"
    "cc_point cfg pub = Some key" "hd_typ h = TypRenewRequest" "hd_kid h = PubkeyHash (bc_sha ?cd) pub"
    and v: "jws_Verify (bc_unheader ?cd) (bc_sha ?cd) (bc_ecdsa ?cd) env (Some key) = Inr (h, pl')"
    using assms by (auto simp: renew_csr_def split: if_splits option.splits sum.splits)
  from VerifyAny_ok [OF v [unfolded jws_Verify_def]] e show ?thesis
    unfolding possession_proved_def Alg_def by (intro exI [of _ env]) auto
qed

text \<open>
  C15: A renewal keeps the caller's identity.  If it delivers a bundle, the request carries a signature of the renewal
  that verifies under the new key it asks for (proof of possession), and the bundle's certificate names the enrolled device, is bound to that new key and to the one overlay address of the
  row, and carries the desired groups and every reserved group the old certificate held, so no reassignment can strip one.  Its
  fingerprint is recorded in that row, so the host stays revocable; the issued generation never goes back and no other row changes.
\<close>

theorem renewal_keeps_identity:
  assumes "sign_with_ok (cc_lib cfg) sbytes" "distinct (map en_id (co_rows (ap_core w)))"
    and "handleRenew cfg k ip body w = (Inr jws, w')"
  shows "\<exists>dev dev' pub crt pem overlay notAfter w2. api_device False ip (ap_core w) = Some dev \<and> api_revoked cfg False (ap_rev w) (en_fingerprint dev) = Some False \<and>
    possession_proved cfg body pub \<and> ParseAddr (en_ip dev) = Some overlay \<and>
    ct_name crt = en_device dev \<and> ct_pub crt = pub \<and> set (ct_networks crt) = {prefix_from overlay (pfx_bits (cc_pool cfg))} \<and>
    set (ct_groups crt) = set (en_desired dev) \<union> {g \<in> set (en_groups dev). IsReservedGroup g} \<and> nl_pem (cc_lib cfg) crt = Some pem \<and>
    api_signBundle cfg (assembleBundle cfg k dev (ct_groups crt) pem notAfter w2) = Some jws \<and>
    api_device False ip (ap_core w') = Some dev' \<and> en_id dev' = en_id dev \<and> en_fingerprint dev' = nl_fingerprint (cc_lib cfg) crt \<and>
    en_issued_gen dev \<le> en_issued_gen dev' \<and> (\<forall>e\<in>set (co_rows (ap_core w)). en_id e \<noteq> en_id dev \<longrightarrow> e \<in> set (co_rows (ap_core w')))"
proof -
  obtain dev w1 pub where gate: "renew_gate cfg k ip w = (Inr dev, w1)" and csr: "renew_csr cfg body = Inr pub"
    and iss: "renew_issue cfg k dev pub w1 = (Inr jws, w')"
    using assms(3) by (auto simp: handleRenew_def split: prod.splits sum.splits)
  have d: "api_device False ip (ap_core w) = Some dev" "api_revoked cfg False (ap_rev w) (en_fingerprint dev) = Some False"
    and w1: "w1 = w"
    using gate api_device_Some [of "ac_fails k SDevice" ip "ap_core w" dev]
    by (auto simp: renew_gate_def api_device_def api_revoked_def ActiveFingerprints_def split: option.splits bool.splits if_splits)
  from iss show ?thesis
  proof (cases rule: renew_issue_cases)
    case (renewed jws' groups kept overlay crt pem s w2)
    let ?t = "renew_template cfg k dev overlay groups pub"
    let ?w3 = "record_fingerprint dev (nl_fingerprint (cc_lib cfg) crt) (ToLower (TrimSpace (ct_issuer crt))) w2"
    note f = sign_with_fields [OF assms(1) Issue_okD(3) [OF renewed(4)]]
    have c: "ct_name crt = en_device dev" "ct_pub crt = pub" "ct_groups crt = groups" "set (ct_networks crt) = {prefix_from overlay (pfx_bits (cc_pool cfg))}"
      using f by (simp_all add: leaf_tbs_def renew_template_def Let_def)
    have rows: "co_rows (ap_core w') = co_rows (ap_core (renew_writeback k dev groups (groupsReduced (en_groups dev) groups) ?w3))"
      using renewed(6) by (simp add: writeback_rows)
    obtain dev' where "api_device False ip (ap_core w') = Some dev'" "en_id dev' = en_id dev" "en_fingerprint dev' = nl_fingerprint (cc_lib cfg) crt"
      "en_issued_gen dev \<le> en_issued_gen dev'" "\<forall>e\<in>set (co_rows (ap_core w)). en_id e \<noteq> en_id dev \<longrightarrow> e \<in> set (co_rows (ap_core w'))"
      using renewed_row [OF d(1) assms(2) _ rows] renewed(7) w1 by blast
    then show ?thesis using d renew_csr_possession [OF csr] renewed(1,3,5) c keepReservedGroups_set [OF renewed(2)] Issue_okD(4) [OF renewed(4)]
      by (intro exI [of _ dev] exI [of _ dev'] exI [of _ pub] exI [of _ crt] exI [of _ pem] exI [of _ overlay] exI [of _ "tm_not_after ?t"] exI [of _ w2]) simp
  qed simp
qed

section \<open>The accelerated drain\<close>

lemma wrap64_id: "0 \<le> i \<Longrightarrow> i < 2 ^ 63 \<Longrightarrow> wrap64 i = i"
  unfolding wrap64_def by (rule signed_take_bit_int_eq_self) auto

lemma drain_bucket_range: "0 \<le> drain_bucket ip \<and> drain_bucket ip < 100"
  by (simp add: drain_bucket_def)

lemma le_div_iff:
  fixes a b c :: int
  assumes "0 < c"
  shows "a \<le> b div c \<longleftrightarrow> a * c \<le> b"
proof
  assume "a \<le> b div c"
  then have "a * c \<le> b div c * c" using assms by simp
  also have "\<dots> \<le> b" using assms by (simp add: minus_mod_eq_div_mult [symmetric])
  finally show "a * c \<le> b" .
next
  assume "a * c \<le> b"
  then have "(a * c) div c \<le> b div c" using assms by (rule zdiv_mono1)
  then show "a \<le> b div c" using assms by simp
qed

text \<open>
  C40: The accelerated drain admits a host exactly when its share of the window has passed: the host in bucket \<open>b\<close> of a
  hundred is admitted from \<open>b\<close> hundredths of the window on, for good, and every host is admitted before the window ends.  This holds
  as long as a hundred windows fit 64-bit nanoseconds (a window of about three years).
\<close>

theorem drain_wave_schedule:
  assumes "0 < started" "0 < window" "window * 100 < 2 ^ 63" "now < 2 ^ 63" "started \<le> now"
  shows "(inDrainWave ip started window now \<longleftrightarrow> drain_bucket ip * window \<le> (now - started) * 100) \<and>
    0 \<le> drain_bucket ip \<and> drain_bucket ip < 100"
proof -
  let ?el = "now - started"
  have el: "wrap64 ?el = ?el" using assms by (intro wrap64_id) auto
  have b: "0 \<le> drain_bucket ip" "drain_bucket ip < 100" using drain_bucket_range by auto
  show ?thesis
  proof (cases "?el \<ge> window")
    case True
    have "drain_bucket ip * window \<le> 100 * window" using b assms(2) by (intro mult_right_mono) auto
    also have "100 * window \<le> ?el * 100" using True by simp
    finally have "drain_bucket ip * window \<le> ?el * 100" .
    then show ?thesis using True assms b el by (simp add: inDrainWave_def Let_def)
  next
    case False
    then have "wrap64 (?el * 100) = ?el * 100" using assms by (intro wrap64_id) auto
    moreover have "drain_bucket ip \<le> (?el * 100) div window \<longleftrightarrow> drain_bucket ip * window \<le> ?el * 100"
      by (rule le_div_iff) (rule assms(2))
    ultimately show ?thesis using False assms b el by (simp add: inDrainWave_def Let_def quo64_def)
  qed
qed

section \<open>A run\<close>

definition demo_new_pub :: bytes where "demo_new_pub = replicate 65 1"

definition demo_api_codec :: "nat bundle_codec" where
  "demo_api_codec = \<lparr>bc_header = (\<lambda>_. []), bc_unheader = (\<lambda>_. Some \<lparr>hd_alg = Alg, hd_typ = TypRenewRequest, hd_ver = 1, hd_kid = PubkeyHash (\<lambda>_. [1]) demo_new_pub\<rparr>),
     bc_bundle = (\<lambda>b. Some (str_bytes (bu_certificate b))), bc_unbundle = (\<lambda>_. None), bc_env = fl_payload,
     bc_unenv = (\<lambda>_. Some \<lparr>fl_protected = EncodeToString [1], fl_payload = EncodeToString [1], fl_signature = EncodeToString (replicate 64 1)\<rparr>),
     bc_sha = (\<lambda>_. [1]), bc_der = Some, bc_ecdsa = (\<lambda>_ _ _. True)\<rparr>"

definition demo_api :: "(nat, breaker, unit) api_config" where
  "demo_api = \<lparr>cc_codec = demo_api_codec, cc_point = (\<lambda>_. Some 1), cc_unbeat = (\<lambda>_. None),
     cc_unrenew = (\<lambda>_. Some \<lparr>rq_type = ''renew'', rq_curve = ''P256'', rq_pubkey = EncodeToString demo_new_pub\<rparr>), cc_lib = demo_lib,
     cc_acquire = br_acquire 5, cc_is_open = (\<lambda>_. Some False), cc_limit = 1, cc_pool = Prefix (Addr4 0x0A2C0000) 24, cc_lifetime = 50, cc_threshold = 0,
     cc_backend = (demo_backend, ''k''), cc_config_signer = None, cc_ca_pem = '''', cc_ca_source = None, cc_key_pem = '''', cc_key_source = None,
     cc_key_version = None, cc_lighthouses = [], cc_lh_source = None, cc_blocklist_source = None, cc_policy = None, cc_tun = '''', cc_port = 0,
     cc_nebula = no_release, cc_pilot = no_release, cc_nebula_releases = None, cc_pilot_releases = None, cc_rollout = False, cc_revocation = True,
     cc_alloc = None, cc_central = zero_prefix, cc_drain = False\<rparr>"

definition demo_row :: "int \<Rightarrow> string \<Rightarrow> string \<Rightarrow> string \<Rightarrow> enrollment" where
  "demo_row i name ip fp = \<lparr>en_id = i, en_eid = name, en_device = name, en_pubkey_hash = '''', en_pubkey = [], en_method = '''', en_jk = 0, en_groups = [''lighthouse''],
     en_desired = [''web''], en_gen = 1, en_issued_gen = 0, en_reduction = False, en_reduction_until = 0, en_subrange = '''', en_status = StatusIssued,
     en_cert = name, en_ip = ip, en_fingerprint = fp, en_ca_fingerprint = '''', en_created = 0, en_decided = 0, en_approver = '''', en_ephemeral = False,
     en_provider = '''', en_account = '''', en_principal = '''', en_region = '''', en_verified = 0, en_goos = '''', en_goarch = ''''\<rparr>"

definition demo_state :: "(breaker, unit) api_state" where
  "demo_state = \<lparr>ap_core = \<lparr>co_rows = [demo_row 1 ''lost'' ''10.44.0.2'' (demo_fp CHR ''b''), demo_row 2 ''web'' ''10.44.0.3'' (demo_fp CHR ''c'')], co_seq = 3,
       co_keys = \<lparr>jk_rows = [], jk_seq = 1\<rparr>, co_ipam = \<lparr>devices = [], dev_seq = 1, allocs = [], alloc_seq = 1, ipam_events = []\<rparr>, co_nb = (),
       co_signer = demo_signer\<lparr>sg_policy := \<lparr>ip_network = Prefix (Addr4 0x0A000000) 8, ip_groups = [], ip_max_lifetime = 100\<rparr>\<rparr>,
       co_replay = NewSQLStore [] 1, co_queue = \<lparr>qs_items = [], qs_item_seq = 1, qs_results = [], qs_result_seq = 1\<rparr>, co_audit = []\<rparr>,
     ap_beats = [], ap_marks = [], ap_rev = demo_added,
     ap_rollout = \<lparr>rd_rollouts = [], rd_seq = 1, rd_hosts = [], rd_host_seq = 1, rd_beats = [], rd_audit = []\<rparr>,
     ap_cas = \<lparr>cd_cas = [], cd_seq = 1, cd_enrollments = [], cd_beats = [], cd_audit = []\<rparr>\<rparr>"

definition demo_api_call :: "time_ns \<Rightarrow> api_call" where
  "demo_api_call now = \<lparr>ac_now = now, ac_fails = (\<lambda>_. False), ac_faults = (\<lambda>_. no_faults), ac_eval = (\<lambda>_. no_faults)\<rparr>"

lemma demo_csr: "renew_csr demo_api [] = Inr demo_new_pub"
  by (simp add: renew_csr_def demo_api_def demo_api_codec_def demo_new_pub_def maxBody_def jws_Verify_def VerifyAny_def)

lemma demo_renewed: "case_sum (\<lambda>_. False) (\<lambda>_. True) (fst (handleRenew demo_api (demo_api_call 10) ''10.44.0.3'' [] demo_state))"
  by code_simp

theorem renewal_keeps_identity_witness:
  "\<exists>dev' w'. fst (handleRenew demo_api (demo_api_call 10) ''10.44.0.3'' [] demo_state) \<noteq> Inl ApRevoked \<and>
     w' = snd (handleRenew demo_api (demo_api_call 10) ''10.44.0.3'' [] demo_state) \<and>
     api_device False ''10.44.0.3'' (ap_core w') = Some dev' \<and> en_id dev' = 2 \<and> en_fingerprint dev' = ''web''"
proof -
  obtain jws w' where r: "handleRenew demo_api (demo_api_call 10) ''10.44.0.3'' [] demo_state = (Inr jws, w')"
    using demo_renewed by (cases "handleRenew demo_api (demo_api_call 10) ''10.44.0.3'' [] demo_state") (auto split: sum.splits)
  have lib: "cc_lib demo_api = demo_lib" by (simp add: demo_api_def)
  have ok: "sign_with_ok (cc_lib demo_api) ct_pub" "distinct (map en_id (co_rows (ap_core demo_state)))"
    using demo_lib_ok by (simp_all add: lib demo_state_def demo_row_def)
  have dev: "api_device False ''10.44.0.3'' (ap_core demo_state) = Some (demo_row 2 ''web'' ''10.44.0.3'' (demo_fp CHR ''c''))"
    by (simp add: api_device_def demo_state_def demo_row_def)
  have "en_id (demo_row i n ip f) = i" "en_device (demo_row i n ip f) = n" for i n ip f by (simp_all add: demo_row_def)
  then obtain dev' where "api_device False ''10.44.0.3'' (ap_core w') = Some dev'" "en_id dev' = 2" "en_fingerprint dev' = ''web''"
    using renewal_keeps_identity [OF ok r] dev by (auto simp: lib demo_lib_def)
  then show ?thesis using r by simp
qed

theorem revoked_host_stays_out_witness:
  "\<exists>e w2. handleRenew demo_api (demo_api_call 20) ''10.44.0.2'' [] (snd (handleRenew demo_api (demo_api_call 10) ''10.44.0.3'' [] demo_state)) = (Inl e, w2) \<and>
     (\<exists>dev'. api_device False ''10.44.0.2'' (ap_core w2) = Some dev' \<and> en_fingerprint dev' = demo_fp CHR ''b'')"
proof -
  let ?dev = "demo_row 1 ''lost'' ''10.44.0.2'' (demo_fp CHR ''b'')"
  have c: "cc_revocation demo_api" by (simp add: demo_api_def)
  have ok: "rows_ok (co_rows (ap_core demo_state))" by (simp add: rows_ok_def demo_state_def demo_row_def)
  have dev: "api_device False ''10.44.0.2'' (ap_core demo_state) = Some ?dev" by (simp add: api_device_def demo_state_def demo_row_def)
  have fp: "en_fingerprint ?dev = demo_fp CHR ''b''" "demo_fp CHR ''b'' \<noteq> []" by (simp_all add: demo_row_def demo_fp_def)
  have act: "en_fingerprint ?dev \<in> active_fps (ap_rev demo_state)"
    unfolding fp(1) by (auto simp: demo_state_def demo_added_eq active_fps_def new_rv_def image_iff)
  have step: "(api_step demo_api)\<^sup>*\<^sup>* demo_state (snd (handleRenew demo_api (demo_api_call 10) ''10.44.0.3'' [] demo_state))"
    by (intro r_into_rtranclp api_renew) (rule prod.collapse [symmetric])
  show ?thesis using revoked_host_stays_out [OF c ok dev _ act step, of "demo_api_call 20" "[]"] fp by auto
qed

theorem drain_wave_schedule_witness:
  "(inDrainWave ''10.44.0.2'' 1000 600 1300 \<longleftrightarrow> drain_bucket ''10.44.0.2'' * 600 \<le> (1300 - 1000) * 100) \<and> drain_bucket ''10.44.0.2'' < 100"
  using drain_wave_schedule [of 1000 600 1300 "''10.44.0.2''"] by simp

section \<open>Two gaps\<close>

text \<open>
  A renewal never rewrites the stored certificate, and the self-heal judges a host by it: once the certificate of the enrolment has
  expired, a host that is alive on a renewed one is refused.
\<close>

lemma renewal_keeps_stored_certificate:
  assumes "handleRenew cfg k ip body w = (res, w')"
  shows "map en_cert (co_rows (ap_core w')) = map en_cert (co_rows (ap_core w))"
proof -
  obtain g w1 where gate: "renew_gate cfg k ip w = (g, w1)" by fastforce
  have w1: "co_rows (ap_core w1) = co_rows (ap_core w)" using renew_gate_sel [of cfg k ip w] gate by simp
  show ?thesis
  proof (cases "\<exists>dev pub. g = Inr dev \<and> renew_csr cfg body = Inr pub")
    case True
    then obtain dev pub where "renew_issue cfg k dev pub w1 = (res, w')" using assms gate by (auto simp: handleRenew_def)
    then show ?thesis
    proof (cases rule: renew_issue_cases)
      case (renewed jws groups kept overlay crt pem s w2)
      then show ?thesis using w1
        by (simp add: writeback_rows record_fingerprint_def map_key_update_where written_back_def Let_def)
    qed (simp add: w1)
  next
    case False
    then show ?thesis using assms gate w1 by (cases g; cases "renew_csr cfg body") (auto simp: handleRenew_def)
  qed
qed

lemma self_heal_needs_stored_certificate:
  assumes "nl_parse (cc_lib cfg) (en_cert e) = Some c" "ct_not_after c \<le> ac_now k"
  shows "heal_guard cfg k ip e w = None"
  using assms by (simp add: heal_guard_def)

text \<open>
  An address in quarantine counts as held: the heartbeat of its live host does not renew the lease, and once the quarantine
  has run out the address is given to another device.
\<close>

definition demo_quarantined :: ipam_db where
  "demo_quarantined = \<lparr>devices = [\<lparr>dev_id = 1, dev_name = ''web'', dev_created_at = 0\<rparr>], dev_seq = 2,
     allocs = [\<lparr>al_id = 1, al_ip = IpText (Addr4 0x0A2C0001), al_device = 1, al_state = stateQuarantined, al_allocated_at = 1, al_released_at = 5,
       al_quarantine_until = 50, al_netblock = 0, al_method = ''enroll''\<rparr>], alloc_seq = 2, ipam_events = []\<rparr>"

definition demo_pool30 :: "unit allocator" where
  "demo_pool30 = \<lparr>a_pool = \<lparr>pl_prefix = Prefix (Addr4 0x0A2C0000) 30, pl_subranges = [], pl_reserved = [], pl_quarantine_ttl = 45\<rparr>, a_resolver = None\<rparr>"

lemma quarantined_address_of_live_host_reissued:
  "allocationOwner False demo_quarantined ''10.44.0.1'' = Some ''web''"
  "fst (Allocate no_faults (\<lambda>_ d. d) demo_pool30 60 demo_quarantined () ''other'' '''' ''enroll'') = Inr (Addr4 0x0A2C0001)"
  by code_simp+

lemma held_address_not_reasserted:
  "allocationOwner (ac_fails k SOwner) (co_ipam (ap_core w)) (en_ip dev) \<noteq> None \<Longrightarrow> reconcileAllocation cfg k dev w = w"
  by (auto simp: reconcileAllocation_def split: option.splits)

end
