(* ===== verification/Spec2Isabelle.thy ===== *)
theory Spec2Isabelle
  imports Address_Space Dualcontrol Nonce Auditlog Joinkey Queue Pilot Enroll_Proofs Config_Keys Api_Proofs
begin

text \<open>
  A verification library for the Nebula control plane (Harbor, Gateway and Pilot).

  The program issues short-lived Nebula certificates to hosts, hands them overlay addresses and signed
  configuration bundles, and keeps the control state in a relational store.
\<close>

end
